(* ===== verification/Prelude.thy ===== *)
theory Prelude
  imports Main "HOL-Library.Char_ord" "HOL-Library.List_Lexorder"
begin

text \<open>
  What every component shares: the error-or-value results of fallible Go functions
  with their sequencing, loops that stop at the first error, first-match loops,
  association lists standing for Go maps in one iteration order, and the collections
  of facts the component proofs use (\<open>go_simps\<close> for defining equations that are safe to
  unfold, \<open>frame\<close> for fields an operation leaves alone, \<open>inv_intro\<close> for the preservation
  lemmas of the state machines).
\<close>

named_theorems go_simps "defining equations unfolded by the component proofs"
named_theorems frame "fields that an operation leaves unchanged"
named_theorems inv_intro "invariant preservation of single operations"

section \<open>Results of fallible functions\<close>

text \<open>A Go pair \<open>(value, error)\<close> is a value of \<open>'e + 'a\<close>: \<open>Inl\<close> for a non-nil error.\<close>

definition bind_res :: "'e + 'a \<Rightarrow> ('a \<Rightarrow> 'e + 'b) \<Rightarrow> 'e + 'b" where
  "bind_res r f = (case r of Inl e \<Rightarrow> Inl e | Inr x \<Rightarrow> f x)"

definition map_err :: "('e \<Rightarrow> 'f) \<Rightarrow> 'e + 'a \<Rightarrow> 'f + 'a" where
  "map_err g r = (case r of Inl e \<Rightarrow> Inl (g e) | Inr x \<Rightarrow> Inr x)"

lemma bind_res_Inl [simp]: "bind_res (Inl e) f = Inl e"
  by (simp add: bind_res_def)

lemma bind_res_Inr [simp]: "bind_res (Inr x) f = f x"
  by (simp add: bind_res_def)

lemma map_err_Inl [simp]: "map_err g (Inl e) = Inl (g e)"
  by (simp add: map_err_def)

lemma map_err_Inr [simp]: "map_err g (Inr x) = Inr x"
  by (simp add: map_err_def)

lemma bind_res_eq_Inr: "bind_res r f = Inr y \<longleftrightarrow> (\<exists>x. r = Inr x \<and> f x = Inr y)"
  by (cases r) auto

lemma bind_res_eq_Inl: "bind_res r f = Inl e \<longleftrightarrow> r = Inl e \<or> (\<exists>x. r = Inr x \<and> f x = Inl e)"
  by (cases r) auto

lemma map_err_eq_Inr [simp]: "map_err g r = Inr x \<longleftrightarrow> r = Inr x"
  by (cases r) auto

lemma map_err_eq_Inl: "map_err g r = Inl e \<longleftrightarrow> (\<exists>e'. r = Inl e' \<and> e = g e')"
  by (cases r) auto

text \<open>\<open>guard_err c e\<close>: return the error \<open>e\<close> when the check \<open>c\<close> of the source fires.\<close>

definition guard_err :: "bool \<Rightarrow> 'e \<Rightarrow> 'e + unit" where
  "guard_err c e = (if c then Inl e else Inr ())"

lemma guard_err_Inr [simp]: "guard_err c e = Inr u \<longleftrightarrow> \<not> c"
  by (simp add: guard_err_def)

lemma guard_err_Inl: "guard_err c e = Inl e' \<longleftrightarrow> c \<and> e' = e"
  by (auto simp: guard_err_def)

text \<open>A loop whose body may return early with an error.\<close>

fun map_res :: "('a \<Rightarrow> 'e + 'b) \<Rightarrow> 'a list \<Rightarrow> 'e + 'b list" where
  "map_res f [] = Inr []"
| "map_res f (x # xs) =
     bind_res (f x) (\<lambda>y. bind_res (map_res f xs) (\<lambda>ys. Inr (y # ys)))"

fun iter_res :: "('a \<Rightarrow> 'e + unit) \<Rightarrow> 'a list \<Rightarrow> 'e + unit" where
  "iter_res f [] = Inr ()"
| "iter_res f (x # xs) = bind_res (f x) (\<lambda>_. iter_res f xs)"

fun fold_res :: "('s \<Rightarrow> 'a \<Rightarrow> 'e + 's) \<Rightarrow> 's \<Rightarrow> 'a list \<Rightarrow> 'e + 's" where
  "fold_res f s [] = Inr s"
| "fold_res f s (x # xs) = bind_res (f s x) (\<lambda>s'. fold_res f s' xs)"

lemma map_res_length: "map_res f xs = Inr ys \<Longrightarrow> length ys = length xs"
  by (induction xs arbitrary: ys) (auto simp: bind_res_eq_Inr)

lemma map_res_Inr_iff: "map_res f xs = Inr ys \<longleftrightarrow> list_all2 (\<lambda>x y. f x = Inr y) xs ys"
  by (induction xs arbitrary: ys) (auto simp: bind_res_eq_Inr list_all2_Cons1)

lemma map_res_all: "map_res f xs = Inr ys \<Longrightarrow> x \<in> set xs \<Longrightarrow> \<exists>y\<in>set ys. f x = Inr y"
  by (induction xs arbitrary: ys) (auto simp: bind_res_eq_Inr)

lemma map_res_elem: "map_res f xs = Inr ys \<Longrightarrow> y \<in> set ys \<Longrightarrow> \<exists>x\<in>set xs. f x = Inr y"
  by (induction xs arbitrary: ys) (auto simp: bind_res_eq_Inr)

lemma map_res_id: "(\<And>x. x \<in> set xs \<Longrightarrow> f x = Inr x) \<Longrightarrow> map_res f xs = Inr xs"
  by (induction xs) auto

lemma iter_res_Inr [simp]: "iter_res f xs = Inr u \<longleftrightarrow> (\<forall>x\<in>set xs. f x = Inr ())"
  by (induction xs) (auto simp: bind_res_eq_Inr)

section \<open>Loops over lists\<close>

text \<open>\<open>enum xs\<close> pairs each element with its index, as \<open>for i, x := range xs\<close> does.\<close>

definition enum_list :: "'a list \<Rightarrow> (nat \<times> 'a) list" where
  "enum_list xs = zip [0..<length xs] xs"

lemma set_enum_list: "(i, x) \<in> set (enum_list xs) \<longleftrightarrow> i < length xs \<and> x = xs ! i"
  by (force simp: enum_list_def set_zip)

lemma ball_enum_list: "(\<forall>x\<in>set (enum_list xs). P x) \<longleftrightarrow> (\<forall>i<length xs. P (i, xs ! i))"
  using set_enum_list [of _ _ xs] by (metis surj_pair)

lemma map_snd_enum_list [simp]: "map snd (enum_list xs) = xs"
  by (simp add: enum_list_def)

lemma length_enum_list [simp]: "length (enum_list xs) = length xs"
  by (simp add: enum_list_def)

lemma set_map_filter_iff: "y \<in> set (List.map_filter f xs) \<longleftrightarrow> (\<exists>x\<in>set xs. f x = Some y)"
  by (induction xs) (auto simp: List.map_filter_simps split: option.splits)

lemma find_SomeD: "List.find P xs = Some x \<Longrightarrow> x \<in> set xs \<and> P x"
  by (induction xs) (auto split: if_splits)

lemma find_NoneD: "List.find P xs = None \<Longrightarrow> x \<in> set xs \<Longrightarrow> \<not> P x"
  by (auto simp: find_None_iff)

lemma find_unique:
  "\<lbrakk>distinct (map f xs); x \<in> set xs\<rbrakk> \<Longrightarrow> List.find (\<lambda>y. f y = f x) xs = Some x"
  by (induction xs) auto

lemma foldl_inv:
  "\<lbrakk>P s; \<And>s x. x \<in> set xs \<Longrightarrow> P s \<Longrightarrow> P (f s x)\<rbrakk> \<Longrightarrow> P (foldl f s xs)"
  by (induction xs arbitrary: s) auto

section \<open>Go maps in one iteration order\<close>

text \<open>
  A Go map is an association list whose keys are distinct; the order of the list is the
  order in which a \<open>range\<close> loop visits it. Writing keeps one entry per key.
\<close>

definition amap_get :: "('k \<times> 'v) list \<Rightarrow> 'k \<Rightarrow> 'v option" where
  "amap_get m k = map_of m k"

fun amap_put :: "'k \<Rightarrow> 'v \<Rightarrow> ('k \<times> 'v) list \<Rightarrow> ('k \<times> 'v) list" where
  "amap_put k v [] = [(k, v)]"
| "amap_put k v ((k', v') # m) = (if k = k' then (k, v) # m else (k', v') # amap_put k v m)"

lemma amap_get_put [simp]: "amap_get (amap_put k v m) k' = (if k' = k then Some v else amap_get m k')"
  by (induction m rule: amap_put.induct) (auto simp: amap_get_def)

lemma map_of_amap_put [simp]: "map_of (amap_put k v m) = (map_of m)(k \<mapsto> v)"
  by (induction k v m rule: amap_put.induct) auto

lemma fst_set_amap_put [simp]: "fst ` set (amap_put k v m) = insert k (fst ` set m)"
  by (induction k v m rule: amap_put.induct) auto

lemma distinct_amap_put [simp]: "distinct (map fst (amap_put k v m)) = distinct (map fst m)"
  by (induction k v m rule: amap_put.induct) auto

lemma set_amap_put: "distinct (map fst m) \<Longrightarrow>
    set (amap_put k v m) = insert (k, v) {p \<in> set m. fst p \<noteq> k}"
proof (induction k v m rule: amap_put.induct)
  case (2 k v k' v' m)
  then show ?case by (cases "k = k'") force+
qed simp

lemma amap_get_None_iff: "amap_get m k = None \<longleftrightarrow> k \<notin> fst ` set m"
  by (simp add: amap_get_def map_of_eq_None_iff)

lemma amap_get_SomeD: "amap_get m k = Some v \<Longrightarrow> (k, v) \<in> set m"
  by (simp add: amap_get_def map_of_SomeD)

lemma amap_get_distinct: "distinct (map fst m) \<Longrightarrow> amap_get m k = Some v \<longleftrightarrow> (k, v) \<in> set m"
  by (simp add: amap_get_def)

end
