(* ===== verification/GoStrings.thy ===== *)
theory GoStrings
  imports Prelude
begin

text \<open>
  The parts of Go's \<open>strings\<close> package that the program uses, on byte strings. A Go string
  is a sequence of bytes, and so is \<open>string\<close>. Case mapping, white space and case folding
  are those of ASCII: bytes from 0x80 on are left alone, so the Unicode case pairs and the
  Unicode spaces of the Go library are not covered. The strings the program folds (HTTP
  methods, header names, roles, decisions, field names) are ASCII in practice.
\<close>

section \<open>Characters\<close>

definition byte_of :: "char \<Rightarrow> nat" where
  "byte_of c = of_char c"

definition is_upper :: "char \<Rightarrow> bool" where
  "is_upper c \<longleftrightarrow> 65 \<le> byte_of c \<and> byte_of c \<le> 90"

definition is_lower :: "char \<Rightarrow> bool" where
  "is_lower c \<longleftrightarrow> 97 \<le> byte_of c \<and> byte_of c \<le> 122"

definition is_digit :: "char \<Rightarrow> bool" where
  "is_digit c \<longleftrightarrow> 48 \<le> byte_of c \<and> byte_of c \<le> 57"

definition is_space :: "char \<Rightarrow> bool" where
  "is_space c \<longleftrightarrow> byte_of c \<in> {9, 10, 11, 12, 13, 32}"

definition lower_char :: "char \<Rightarrow> char" where
  "lower_char c = (if is_upper c then char_of (byte_of c + 32) else c)"

definition upper_char :: "char \<Rightarrow> char" where
  "upper_char c = (if is_lower c then char_of (byte_of c - 32) else c)"

definition to_lower :: "string \<Rightarrow> string" where
  "to_lower s = map lower_char s"

definition to_upper :: "string \<Rightarrow> string" where
  "to_upper s = map upper_char s"

definition equal_fold :: "string \<Rightarrow> string \<Rightarrow> bool" where
  "equal_fold a b \<longleftrightarrow> to_lower a = to_lower b"

lemma byte_of_char_of [simp]: "n < 256 \<Longrightarrow> byte_of (char_of n) = n"
  by (simp add: byte_of_def)

lemma lower_char_idem [simp]: "lower_char (lower_char c) = lower_char c"
  by (auto simp: lower_char_def is_upper_def)

lemma to_lower_idem [simp]: "to_lower (to_lower s) = to_lower s"
  by (simp add: to_lower_def)

lemma to_lower_append [simp]: "to_lower (a @ b) = to_lower a @ to_lower b"
  by (simp add: to_lower_def)

lemma to_lower_Nil [simp]: "to_lower s = [] \<longleftrightarrow> s = []"
  by (simp add: to_lower_def)

lemma length_to_lower [simp]: "length (to_lower s) = length s"
  by (simp add: to_lower_def)

lemma equal_fold_refl [simp]: "equal_fold a a"
  by (simp add: equal_fold_def)

lemma equal_fold_sym: "equal_fold a b \<longleftrightarrow> equal_fold b a"
  by (auto simp: equal_fold_def)

lemma equal_fold_trans: "equal_fold a b \<Longrightarrow> equal_fold b c \<Longrightarrow> equal_fold a c"
  by (simp add: equal_fold_def)

section \<open>Prefixes, suffixes and searching\<close>

definition has_prefix :: "string \<Rightarrow> string \<Rightarrow> bool" where
  "has_prefix s p \<longleftrightarrow> take (length p) s = p"

definition has_suffix :: "string \<Rightarrow> string \<Rightarrow> bool" where
  "has_suffix s p \<longleftrightarrow> has_prefix (rev s) (rev p)"

definition trim_prefix :: "string \<Rightarrow> string \<Rightarrow> string" where
  "trim_prefix s p = (if has_prefix s p then drop (length p) s else s)"

definition trim_suffix :: "string \<Rightarrow> string \<Rightarrow> string" where
  "trim_suffix s p = (if has_suffix s p then take (length s - length p) s else s)"

text \<open>\<open>strings.Index\<close>: the first position of \<open>sub\<close> in \<open>s\<close>, \<open>None\<close> for -1.\<close>

fun index_of :: "string \<Rightarrow> string \<Rightarrow> nat option" where
  "index_of sub [] = (if sub = [] then Some 0 else None)"
| "index_of sub (c # cs) =
     (if has_prefix (c # cs) sub then Some 0 else map_option Suc (index_of sub cs))"

definition contains :: "string \<Rightarrow> string \<Rightarrow> bool" where
  "contains s sub \<longleftrightarrow> index_of sub s \<noteq> None"

lemma has_prefix_iff: "has_prefix s p \<longleftrightarrow> (\<exists>t. s = p @ t)"
  by (metis append_eq_conv_conj append_take_drop_id has_prefix_def)

lemma has_prefix_append [simp]: "has_prefix (p @ t) p"
  by (simp add: has_prefix_def)

lemma has_suffix_iff: "has_suffix s p \<longleftrightarrow> (\<exists>t. s = t @ p)"
  unfolding has_suffix_def has_prefix_iff
  by (metis rev_append rev_rev_ident)

lemma index_of_Some:
  "index_of sub s = Some i \<Longrightarrow> i + length sub \<le> length s \<and> has_prefix (drop i s) sub"
proof (induction sub s arbitrary: i rule: index_of.induct)
  case (2 sub c cs)
  show ?case
  proof (cases "has_prefix (c # cs) sub")
    case True
    then obtain t where "c # cs = sub @ t" by (auto simp: has_prefix_iff)
    then have "length sub \<le> length (c # cs)" by simp
    with True 2(2) show ?thesis by simp
  next
    case False
    then show ?thesis using 2 by (auto simp: has_prefix_iff)
  qed
qed (auto simp: has_prefix_def split: if_splits)

lemma index_of_split:
  "index_of sub s = Some i \<Longrightarrow> s = take i s @ sub @ drop (i + length sub) s"
  using index_of_Some [of sub s i]
  by (metis append_eq_conv_conj append_take_drop_id drop_drop add.commute has_prefix_def)

lemma index_of_bound: "index_of sub s = Some i \<Longrightarrow> i + length sub \<le> length s"
  using index_of_Some by blast

text \<open>The result is the first position: no earlier one matches.\<close>

lemma index_of_first: "index_of sub s = Some i \<Longrightarrow> j < i \<Longrightarrow> \<not> has_prefix (drop j s) sub"
proof (induction sub s arbitrary: i j rule: index_of.induct)
  case (2 sub c cs)
  then show ?case by (cases j) (auto split: if_splits)
qed (auto split: if_splits)

lemma index_of_None: "index_of sub s = None \<Longrightarrow> \<not> has_prefix (drop j s) sub"
proof (induction sub s arbitrary: j rule: index_of.induct)
  case (1 sub)
  then show ?case by (auto simp: has_prefix_def split: if_splits)
next
  case (2 sub c cs)
  then show ?case by (cases j) (auto split: if_splits)
qed

lemma contains_iff: "contains s sub \<longleftrightarrow> (\<exists>a b. s = a @ sub @ b)"
proof
  assume "contains s sub"
  then show "\<exists>a b. s = a @ sub @ b"
    unfolding contains_def using index_of_split by blast
next
  assume "\<exists>a b. s = a @ sub @ b"
  then obtain a b where s: "s = a @ sub @ b" by blast
  show "contains s sub"
  proof (rule ccontr)
    assume "\<not> contains s sub"
    then have "\<not> has_prefix (drop (length a) s) sub"
      using index_of_None by (simp add: contains_def)
    then show False by (simp add: s)
  qed
qed

section \<open>Trimming, splitting and replacing\<close>

definition trim_left_set :: "string \<Rightarrow> string \<Rightarrow> string" where
  "trim_left_set s ct = dropWhile (\<lambda>c. c \<in> set ct) s"

definition trim_right_set :: "string \<Rightarrow> string \<Rightarrow> string" where
  "trim_right_set s ct = rev (dropWhile (\<lambda>c. c \<in> set ct) (rev s))"

definition trim_set :: "string \<Rightarrow> string \<Rightarrow> string" where
  "trim_set s ct = trim_right_set (trim_left_set s ct) ct"

definition trim_space :: "string \<Rightarrow> string" where
  "trim_space s = rev (dropWhile is_space (rev (dropWhile is_space s)))"

text \<open>\<open>strings.Split\<close> on a one-byte separator: always at least one piece.\<close>

fun split_on :: "char \<Rightarrow> string \<Rightarrow> string list" where
  "split_on sep [] = [[]]"
| "split_on sep (c # cs) =
     (if c = sep then [] # split_on sep cs
      else (case split_on sep cs of [] \<Rightarrow> [[c]] | w # ws \<Rightarrow> (c # w) # ws))"

fun join_with :: "string \<Rightarrow> string list \<Rightarrow> string" where
  "join_with sep [] = []"
| "join_with sep [w] = w"
| "join_with sep (w # ws) = w @ sep @ join_with sep ws"

text \<open>\<open>strings.Fields\<close>: the maximal runs of non-space bytes.\<close>

fun fields_acc :: "string \<Rightarrow> string \<Rightarrow> string list" where
  "fields_acc acc [] = (if acc = [] then [] else [rev acc])"
| "fields_acc acc (c # cs) =
     (if is_space c then (if acc = [] then fields_acc [] cs else rev acc # fields_acc [] cs)
      else fields_acc (c # acc) cs)"

definition str_fields :: "string \<Rightarrow> string list" where
  "str_fields s = fields_acc [] s"

text \<open>
  \<open>strings.NewReplacer\<close> with one-byte old strings: each byte is replaced independently.
\<close>

definition replace_bytes :: "(char \<times> string) list \<Rightarrow> string \<Rightarrow> string" where
  "replace_bytes rs s = concat (map (\<lambda>c. case map_of rs c of Some r \<Rightarrow> r | None \<Rightarrow> [c]) s)"

text \<open>\<open>strings.ReplaceAll\<close> for a non-empty old string, left to right.\<close>

function replace_all :: "string \<Rightarrow> string \<Rightarrow> string \<Rightarrow> string" where
  "replace_all old new s =
     (if old = [] then s
      else case index_of old s of
        None \<Rightarrow> s
      | Some i \<Rightarrow> take i s @ new @ replace_all old new (drop (i + length old) s))"
  by pat_completeness auto
termination
proof (relation "measure (\<lambda>(old, new, s). length s)", goal_cases)
  case (2 old new s i)
  then have "i + length old \<le> length s"
    using index_of_bound by auto
  with 2 show ?case by (cases old) auto
qed simp

declare replace_all.simps [simp del]

lemma replace_all_Nil: "old \<noteq> [] \<Longrightarrow> replace_all old new [] = []"
  by (subst replace_all.simps) simp

lemma index_of_prefix [simp]: "index_of p (p @ s) = Some 0"
proof (cases "p @ s")
  case (Cons c cs)
  then show ?thesis by (metis has_prefix_append index_of.simps(2))
qed simp

lemma replace_all_prefix: "old \<noteq> [] \<Longrightarrow> replace_all old new (old @ s) = new @ replace_all old new s"
  by (subst replace_all.simps) simp

lemma replace_all_skip:
  assumes "old \<noteq> []" "\<not> has_prefix (c # cs) old"
  shows "replace_all old new (c # cs) = c # replace_all old new cs"
  using assms
  by (subst replace_all.simps, subst (2) replace_all.simps) (auto split: option.splits)

lemma split_on_nonempty [simp]: "split_on sep s \<noteq> []"
  by (induction sep s rule: split_on.induct) (auto split: list.splits)

lemma split_on_no_sep: "w \<in> set (split_on sep s) \<Longrightarrow> sep \<notin> set w"
proof (induction sep s arbitrary: w rule: split_on.induct)
  case (2 sep c cs)
  then show ?case by (cases "split_on sep cs") (auto split: if_splits)
qed simp

lemma join_split_on: "join_with [sep] (split_on sep s) = s"
proof (induction sep s rule: split_on.induct)
  case (2 sep c cs)
  obtain w ws where "split_on sep cs = w # ws"
    by (cases "split_on sep cs") auto
  then show ?case using 2 by (cases ws) auto
qed simp

lemma trim_space_Nil [simp]: "trim_space [] = []"
  by (simp add: trim_space_def)

lemma join_with_Cons: "ws \<noteq> [] \<Longrightarrow> join_with sep (w # ws) = w @ sep @ join_with sep ws"
  by (cases ws) auto

end
