(* ===== verification/GoJson.thy ===== *)
theory GoJson
  imports GoStrings
begin

text \<open>
  The parts of \<open>unicode/utf8\<close> and \<open>encoding/json\<close> that the program relies on: UTF-8
  validity, the lexer and the nesting-limited parser of \<open>encoding/json\<close> (as a machine with
  an explicit stack, like the library's own \<open>scanner\<close>), the decoded values of an
  \<open>interface{}\<close>, and string escaping as \<open>json.Marshal\<close> does it.
\<close>

section \<open>UTF-8\<close>

definition byte_in :: "nat \<Rightarrow> nat \<Rightarrow> char \<Rightarrow> bool" where
  "byte_in lo hi c \<longleftrightarrow> lo \<le> byte_of c \<and> byte_of c \<le> hi"

text \<open>The allowed range of the second byte, by the first (\<open>utf8.acceptRanges\<close>).\<close>

definition second_range :: "nat \<Rightarrow> nat \<times> nat" where
  "second_range b = (if b = 224 then (160, 191) else if b = 237 then (128, 159)
     else if b = 240 then (144, 191) else if b = 244 then (128, 143) else (128, 191))"

text \<open>Length of the well-formed sequence at the head of the string, 0 if there is none.\<close>

definition utf8_len :: "string \<Rightarrow> nat" where
  "utf8_len s = (case s of [] \<Rightarrow> 0 | c # cs \<Rightarrow>
     (let b = byte_of c; r = second_range b;
          snd_ok = (case cs of d # _ \<Rightarrow> byte_in (fst r) (snd r) d | [] \<Rightarrow> False);
          conts = length (takeWhile (byte_in 128 191) cs)
      in if b < 128 then 1
         else if 194 \<le> b \<and> b \<le> 223 then (if snd_ok then 2 else 0)
         else if 224 \<le> b \<and> b \<le> 239 then (if snd_ok \<and> 2 \<le> conts then 3 else 0)
         else if 240 \<le> b \<and> b \<le> 244 then (if snd_ok \<and> 3 \<le> conts then 4 else 0)
         else 0))"

lemma utf8_len_le: "utf8_len s \<le> length s"
proof (cases s)
  case (Cons c cs)
  have "length (takeWhile (byte_in 128 191) cs) \<le> length cs"
    by (rule length_takeWhile_le)
  then show ?thesis
    using Cons by (auto simp: utf8_len_def Let_def split: list.splits)
qed (simp add: utf8_len_def)

function utf8_valid :: "string \<Rightarrow> bool" where
  "utf8_valid s = (if s = [] then True else if utf8_len s = 0 then False
                   else utf8_valid (drop (utf8_len s) s))"
  by pat_completeness auto
termination by (relation "measure length") (auto intro!: diff_less)

declare utf8_valid.simps [simp del]

lemma utf8_valid_Nil [simp]: "utf8_valid []"
  by (subst utf8_valid.simps) simp

definition encode_rune :: "nat \<Rightarrow> string" where
  "encode_rune n =
     (if n < 128 then [char_of n]
      else if n < 2048 then [char_of (192 + n div 64), char_of (128 + n mod 64)]
      else if n < 65536 then
        [char_of (224 + n div 4096), char_of (128 + n div 64 mod 64), char_of (128 + n mod 64)]
      else [char_of (240 + n div 262144), char_of (128 + n div 4096 mod 64),
            char_of (128 + n div 64 mod 64), char_of (128 + n mod 64)])"

definition replacement :: string where
  "replacement = [CHR 0xEF, CHR 0xBF, CHR 0xBD]"

section \<open>Lexer\<close>

datatype jtok = TLBrace | TRBrace | TLBrack | TRBrack | TColon | TComma
  | TStr string | TNum string | TTrue | TFalse | TNull

definition hex_val :: "char \<Rightarrow> nat option" where
  "hex_val c = (let b = byte_of c in
     if 48 \<le> b \<and> b \<le> 57 then Some (b - 48)
     else if 97 \<le> b \<and> b \<le> 102 then Some (b - 87)
     else if 65 \<le> b \<and> b \<le> 70 then Some (b - 55) else None)"

text \<open>Four hexadecimal digits, as \<open>getu4\<close> reads them after \<open>\u\<close>.\<close>

definition hex4 :: "string \<Rightarrow> (nat \<times> string) option" where
  "hex4 s = (case s of
     a # b # c # d # rest \<Rightarrow>
       (case (hex_val a, hex_val b, hex_val c, hex_val d) of
          (Some i, Some j, Some k, Some l) \<Rightarrow> Some (((i * 16 + j) * 16 + k) * 16 + l, rest)
        | _ \<Rightarrow> None)
   | _ \<Rightarrow> None)"

definition is_high_surrogate :: "nat \<Rightarrow> bool" where
  "is_high_surrogate n \<longleftrightarrow> 55296 \<le> n \<and> n \<le> 56319"

definition is_low_surrogate :: "nat \<Rightarrow> bool" where
  "is_low_surrogate n \<longleftrightarrow> 56320 \<le> n \<and> n \<le> 57343"

text \<open>A \<open>\u\<close> escape: a surrogate pair is one code point, a lone half the replacement.\<close>

definition lex_unicode :: "string \<Rightarrow> (string \<times> string) option" where
  "lex_unicode s = (case hex4 s of None \<Rightarrow> None
    | Some (n, rest) \<Rightarrow>
        if is_high_surrogate n then
          (case rest of
             x # y # rest' \<Rightarrow>
               (if x = CHR 0x5C \<and> y = CHR ''u'' then
                  (case hex4 rest' of
                     Some (m, rest'') \<Rightarrow>
                       (if is_low_surrogate m
                        then Some (encode_rune (65536 + (n - 55296) * 1024 + (m - 56320)), rest'')
                        else Some (replacement, rest))
                   | None \<Rightarrow> Some (replacement, rest))
                else Some (replacement, rest))
           | _ \<Rightarrow> Some (replacement, rest))
        else if is_low_surrogate n then Some (replacement, rest)
        else Some (encode_rune n, rest))"

text \<open>What follows a backslash.\<close>

definition lex_escape :: "string \<Rightarrow> (string \<times> string) option" where
  "lex_escape s = (case s of [] \<Rightarrow> None
    | c # cs \<Rightarrow>
       if c = CHR 0x22 \<or> c = CHR 0x5C \<or> c = CHR ''/'' then Some ([c], cs)
       else if c = CHR ''b'' then Some ([CHR 0x08], cs)
       else if c = CHR ''f'' then Some ([CHR 0x0C], cs)
       else if c = CHR ''n'' then Some ([CHR 0x0A], cs)
       else if c = CHR ''r'' then Some ([CHR 0x0D], cs)
       else if c = CHR ''t'' then Some ([CHR 0x09], cs)
       else if c = CHR ''u'' then lex_unicode cs
       else None)"

text \<open>One unit of a string literal: an escape, an ASCII byte or a UTF-8 sequence.\<close>

definition lex_unit :: "string \<Rightarrow> (string \<times> string) option" where
  "lex_unit s = (case s of [] \<Rightarrow> None
    | c # cs \<Rightarrow>
       if c = CHR 0x5C then lex_escape cs
       else if byte_of c < 32 then None
       else if byte_of c < 128 then Some ([c], cs)
       else if utf8_len s = 0 then Some (replacement, cs)
       else Some (take (utf8_len s) s, drop (utf8_len s) s))"

lemma hex4_length: "hex4 s = Some (n, rest) \<Longrightarrow> length rest < length s"
  by (auto simp: hex4_def split: list.splits option.splits)

lemma lex_unicode_length: "lex_unicode s = Some (w, rest) \<Longrightarrow> length rest < length s"
  by (auto simp: lex_unicode_def split: list.splits option.splits prod.splits if_splits
           dest!: hex4_length)

lemma lex_escape_length: "lex_escape s = Some (w, rest) \<Longrightarrow> length rest < length s"
  by (auto simp: lex_escape_def split: list.splits if_splits dest: lex_unicode_length)

lemma lex_unit_length: "lex_unit s = Some (w, rest) \<Longrightarrow> length rest < length s"
  by (auto simp: lex_unit_def split: list.splits if_splits dest: lex_escape_length)

text \<open>The body of a string literal after its opening quote: the decoded bytes and the rest.\<close>

function lex_str :: "string \<Rightarrow> (string \<times> string) option" where
  "lex_str s = (case s of [] \<Rightarrow> None
    | c # cs \<Rightarrow>
       if c = CHR 0x22 then Some ([], cs)
       else (case lex_unit (c # cs) of None \<Rightarrow> None
             | Some (w, rest) \<Rightarrow>
                 (case lex_str rest of None \<Rightarrow> None
                  | Some (ws, rest') \<Rightarrow> Some (w @ ws, rest'))))"
  by pat_completeness auto
termination
  by (relation "measure length") (auto dest: lex_unit_length)

declare lex_str.simps [simp del]

lemma lex_str_Nil [simp]: "lex_str [] = None"
  by (subst lex_str.simps) simp

lemma lex_str_quote [simp]: "lex_str (CHR 0x22 # cs) = Some ([], cs)"
  by (subst lex_str.simps) simp

lemma lex_str_unit:
  "c \<noteq> CHR 0x22 \<Longrightarrow> lex_str (c # cs) =
     (case lex_unit (c # cs) of None \<Rightarrow> None
      | Some (w, rest) \<Rightarrow>
          (case lex_str rest of None \<Rightarrow> None | Some (ws, rest') \<Rightarrow> Some (w @ ws, rest')))"
  by (subst lex_str.simps) simp

lemma lex_str_length: "lex_str s = Some (w, rest) \<Longrightarrow> length rest < length s"
proof (induction s arbitrary: w rest rule: lex_str.induct)
  case (1 s)
  show ?case
  proof (cases s)
    case Nil
    then show ?thesis using "1.prems" by simp
  next
    case (Cons c cs)
    show ?thesis
    proof (cases "c = CHR 0x22")
      case True
      then show ?thesis using "1.prems" Cons by simp
    next
      case False
      then obtain u r ws where u: "lex_unit (c # cs) = Some (u, r)"
        and r: "lex_str r = Some (ws, rest)"
        using "1.prems" Cons by (auto simp: lex_str_unit split: option.splits prod.splits)
      then have "length rest < length r" using "1.IH" Cons False by blast
      with lex_unit_length [OF u] Cons show ?thesis by simp
    qed
  qed
qed

text \<open>Numbers, by the grammar of RFC 8259 that the library's scanner enforces.\<close>

definition num_int :: "string \<Rightarrow> (string \<times> string) option" where
  "num_int s = (case s of [] \<Rightarrow> None
    | c # cs \<Rightarrow> if c = CHR ''0'' then Some ([c], cs)
                else if is_digit c then Some (takeWhile is_digit s, dropWhile is_digit s)
                else None)"

definition num_digits :: "string \<Rightarrow> (string \<times> string) option" where
  "num_digits s = (if takeWhile is_digit s = [] then None
                   else Some (takeWhile is_digit s, dropWhile is_digit s))"

definition num_frac :: "string \<Rightarrow> (string \<times> string) option" where
  "num_frac s = (case s of [] \<Rightarrow> Some ([], [])
    | c # cs \<Rightarrow> if c = CHR ''.'' then
                  (case num_digits cs of None \<Rightarrow> None | Some (d, r) \<Rightarrow> Some (c # d, r))
                else Some ([], s))"

definition num_sign :: "string \<Rightarrow> string \<times> string" where
  "num_sign s = (case s of [] \<Rightarrow> ([], [])
    | c # cs \<Rightarrow> if c = CHR ''+'' \<or> c = CHR ''-'' then ([c], cs) else ([], s))"

definition num_exp :: "string \<Rightarrow> (string \<times> string) option" where
  "num_exp s = (case s of [] \<Rightarrow> Some ([], [])
    | c # cs \<Rightarrow> if c = CHR ''e'' \<or> c = CHR ''E'' then
                  (let (g, r) = num_sign cs in
                   case num_digits r of None \<Rightarrow> None | Some (d, r') \<Rightarrow> Some (c # g @ d, r'))
                else Some ([], s))"

definition num_neg :: "string \<Rightarrow> string \<times> string" where
  "num_neg s = (case s of [] \<Rightarrow> ([], [])
    | c # cs \<Rightarrow> if c = CHR ''-'' then ([c], cs) else ([], s))"

definition lex_num :: "string \<Rightarrow> (string \<times> string) option" where
  "lex_num s = (let (n, s1) = num_neg s in
     case num_int s1 of None \<Rightarrow> None
     | Some (i, s2) \<Rightarrow>
        (case num_frac s2 of None \<Rightarrow> None
         | Some (f, s3) \<Rightarrow>
            (case num_exp s3 of None \<Rightarrow> None
             | Some (e, s4) \<Rightarrow> Some (n @ i @ f @ e, s4))))"

lemma num_digits_length: "num_digits s = Some (d, r) \<Longrightarrow> length r < length s"
  by (auto simp: num_digits_def split: if_splits)
     (metis length_append add_less_same_cancel2 length_0_conv not_gr_zero
            takeWhile_dropWhile_id less_add_same_cancel2)

lemma num_int_length: "num_int s = Some (d, r) \<Longrightarrow> length r < length s"
  using length_dropWhile_le [of is_digit "tl s"]
  by (auto simp: num_int_def split: list.splits if_splits)

lemma num_frac_length: "num_frac s = Some (d, r) \<Longrightarrow> length r \<le> length s"
  by (auto simp: num_frac_def split: list.splits option.splits if_splits
           dest!: num_digits_length)

lemma num_sign_length: "num_sign s = (d, r) \<Longrightarrow> length r \<le> length s"
  by (auto simp: num_sign_def split: list.splits if_splits)

lemma num_exp_length: "num_exp s = Some (d, r) \<Longrightarrow> length r \<le> length s"
  by (fastforce simp: num_exp_def split: list.splits option.splits if_splits prod.splits
           dest!: num_digits_length num_sign_length)

lemma num_neg_length: "num_neg s = (d, r) \<Longrightarrow> length r \<le> length s"
  by (auto simp: num_neg_def split: list.splits if_splits)

lemma lex_num_length: "lex_num s = Some (w, rest) \<Longrightarrow> length rest < length s"
  by (fastforce simp: lex_num_def split: option.splits prod.splits
           dest!: num_neg_length num_int_length num_frac_length num_exp_length)

definition lex_word :: "string \<Rightarrow> (jtok \<times> string) option" where
  "lex_word s = (if has_prefix s ''true'' then Some (TTrue, drop 4 s)
     else if has_prefix s ''false'' then Some (TFalse, drop 5 s)
     else if has_prefix s ''null'' then Some (TNull, drop 4 s)
     else None)"

definition is_json_space :: "char \<Rightarrow> bool" where
  "is_json_space c \<longleftrightarrow> byte_of c \<in> {9, 10, 13, 32}"

definition punct_tok :: "char \<Rightarrow> jtok option" where
  "punct_tok = map_of [(CHR ''{'', TLBrace), (CHR ''}'', TRBrace), (CHR ''['', TLBrack),
     (CHR '']'', TRBrack), (CHR '':'', TColon), (CHR '','', TComma)]"

definition lex_one :: "char \<Rightarrow> string \<Rightarrow> (jtok \<times> string) option" where
  "lex_one c cs = (case punct_tok c of Some t \<Rightarrow> Some (t, cs)
    | None \<Rightarrow>
       if c = CHR 0x22 then
         (case lex_str cs of None \<Rightarrow> None | Some (w, rest) \<Rightarrow> Some (TStr w, rest))
       else if c = CHR ''-'' \<or> is_digit c then
         (case lex_num (c # cs) of None \<Rightarrow> None | Some (w, rest) \<Rightarrow> Some (TNum w, rest))
       else lex_word (c # cs))"

lemma lex_word_length: "lex_word (c # cs) = Some (t, rest) \<Longrightarrow> length rest \<le> length cs"
  by (auto simp: lex_word_def split: if_splits)

lemma lex_one_length:
  assumes "lex_one c cs = Some (t, rest)"
  shows "length rest \<le> length cs"
proof (cases "punct_tok c")
  case None
  consider (str) w where "lex_str cs = Some (w, rest)"
    | (num) w where "lex_num (c # cs) = Some (w, rest)"
    | (word) "lex_word (c # cs) = Some (t, rest)"
    using assms None unfolding lex_one_def
    by (simp split: if_split_asm option.split_asm prod.split_asm)
  then show ?thesis
    by cases (auto dest: lex_str_length lex_num_length lex_word_length)
qed (use assms in \<open>simp add: lex_one_def\<close>)

function lex_json :: "string \<Rightarrow> jtok list option" where
  "lex_json [] = Some []"
| "lex_json (c # cs) =
     (if is_json_space c then lex_json cs
      else case lex_one c cs of None \<Rightarrow> None
           | Some (t, rest) \<Rightarrow> map_option (Cons t) (lex_json rest))"
  by pat_completeness auto
termination
  by (relation "measure length") (auto dest!: lex_one_length)

section \<open>Parser\<close>

text \<open>
  The document as written: members in order, duplicates kept. Numbers keep their literal.
\<close>

datatype json = JNull | JBool bool | JNum string | JStr string
  | JArr "json list" | JObj "(string \<times> json) list"

text \<open>
  Open containers, innermost first, with what they hold so far in reverse; a \<open>FKey\<close> waits
  for the value of its key.
\<close>

datatype jframe = FArr "json list" | FObj "(string \<times> json) list"
  | FKey "(string \<times> json) list" string

datatype jmode = MValue | MValueOrEnd | MCommaOrEnd | MKeyOrEnd | MKey | MColon string | MDone json

definition max_nesting :: nat where "max_nesting = 10000"

fun jcomplete :: "json \<Rightarrow> jframe list \<Rightarrow> (jmode \<times> jframe list) option" where
  "jcomplete v [] = Some (MDone v, [])"
| "jcomplete v (FArr xs # st) = Some (MCommaOrEnd, FArr (v # xs) # st)"
| "jcomplete v (FKey ps k # st) = Some (MCommaOrEnd, FObj ((k, v) # ps) # st)"
| "jcomplete v (FObj ps # st) = None"

definition jpush :: "jmode \<Rightarrow> jframe \<Rightarrow> jframe list \<Rightarrow> (jmode \<times> jframe list) option" where
  "jpush m f st = (if length st < max_nesting then Some (m, f # st) else None)"

definition jvalue_tok :: "jtok \<Rightarrow> jframe list \<Rightarrow> (jmode \<times> jframe list) option" where
  "jvalue_tok t st = (case t of
     TNull \<Rightarrow> jcomplete JNull st
   | TTrue \<Rightarrow> jcomplete (JBool True) st
   | TFalse \<Rightarrow> jcomplete (JBool False) st
   | TNum w \<Rightarrow> jcomplete (JNum w) st
   | TStr w \<Rightarrow> jcomplete (JStr w) st
   | TLBrack \<Rightarrow> jpush MValueOrEnd (FArr []) st
   | TLBrace \<Rightarrow> jpush MKeyOrEnd (FObj []) st
   | _ \<Rightarrow> None)"

fun jclose :: "jtok \<Rightarrow> jframe list \<Rightarrow> (jmode \<times> jframe list) option" where
  "jclose TRBrack (FArr xs # st) = jcomplete (JArr (rev xs)) st"
| "jclose TRBrace (FObj ps # st) = jcomplete (JObj (rev ps)) st"
| "jclose _ _ = None"

fun jkey_tok :: "jtok \<Rightarrow> jframe list \<Rightarrow> (jmode \<times> jframe list) option" where
  "jkey_tok (TStr w) (FObj ps # st) = Some (MColon w, FObj ps # st)"
| "jkey_tok _ _ = None"

fun jstep :: "jmode \<Rightarrow> jtok \<Rightarrow> jframe list \<Rightarrow> (jmode \<times> jframe list) option" where
  "jstep MValue t st = jvalue_tok t st"
| "jstep MValueOrEnd t st = (if t = TRBrack then jclose t st else jvalue_tok t st)"
| "jstep MKeyOrEnd t st = (if t = TRBrace then jclose t st else jkey_tok t st)"
| "jstep MKey t st = jkey_tok t st"
| "jstep (MColon k) t st =
     (case st of FObj ps # st' \<Rightarrow> (if t = TColon then Some (MValue, FKey ps k # st') else None)
      | _ \<Rightarrow> None)"
| "jstep MCommaOrEnd t st =
     (if t = TComma then
        (case st of FArr xs # st' \<Rightarrow> Some (MValue, st)
         | FObj ps # st' \<Rightarrow> Some (MKey, st)
         | _ \<Rightarrow> None)
      else jclose t st)"
| "jstep (MDone v) t st = None"

fun jrun :: "jtok list \<Rightarrow> jmode \<Rightarrow> jframe list \<Rightarrow> json option" where
  "jrun [] m st = (case m of MDone v \<Rightarrow> Some v | _ \<Rightarrow> None)"
| "jrun (t # ts) m st = (case jstep m t st of None \<Rightarrow> None | Some (m', st') \<Rightarrow> jrun ts m' st')"

text \<open>One JSON value with nothing but white space around it, or \<open>None\<close>.\<close>

definition json_parse :: "string \<Rightarrow> json option" where
  "json_parse s = (case lex_json s of None \<Rightarrow> None | Some ts \<Rightarrow> jrun ts MValue [])"

definition json_valid :: "string \<Rightarrow> bool" where
  "json_valid s \<longleftrightarrow> json_parse s \<noteq> None"

end
