(* ===== verification/GoValue.thy ===== *)
theory GoValue
  imports GoJson
begin

text \<open>
  What \<open>json.Unmarshal\<close> builds in an \<open>interface{}\<close>, with objects as association lists in
  ascending key order (so that equality of values is \<open>reflect.DeepEqual\<close>), what \<open>json.Marshal\<close>
  writes for a string, and the two round trips: a rendered document parses back to itself,
  and an escaped string is read back unchanged.
\<close>

section \<open>Decoded values\<close>

datatype gval = GNull | GBool bool | GNum string | GStr string
  | GArr "gval list" | GObj "(string \<times> gval) list"

text \<open>Write a key of a decoded object; a repeated key keeps the last value.\<close>

fun obj_put :: "string \<Rightarrow> 'v \<Rightarrow> (string \<times> 'v) list \<Rightarrow> (string \<times> 'v) list" where
  "obj_put k v [] = [(k, v)]"
| "obj_put k v ((k', v') # m) =
     (if k = k' then (k, v) # m
      else if k < k' then (k, v) # (k', v') # m
      else (k', v') # obj_put k v m)"

lemma map_of_obj_put [simp]: "map_of (obj_put k v m) = (map_of m)(k \<mapsto> v)"
  by (induction k v m rule: obj_put.induct) auto

lemma fst_set_obj_put [simp]: "fst ` set (obj_put k v m) = insert k (fst ` set m)"
  by (induction k v m rule: obj_put.induct) auto

lemma sorted_obj_put: "sorted_wrt (<) (map fst m) \<Longrightarrow> sorted_wrt (<) (map fst (obj_put k v m))"
proof (induction k v m rule: obj_put.induct)
  case (2 k v k' v' m)
  have "set (map fst (obj_put k v m)) = insert k (set (map fst m))"
    using fst_set_obj_put [of k v m] by simp
  moreover have "sorted_wrt (<) (map fst (obj_put k v m))" if "k \<noteq> k'" "\<not> k < k'"
    using 2 that by simp
  ultimately show ?case using 2(2) by (auto intro: order.strict_trans)
qed simp

text \<open>
  \<open>num\<close> turns a number literal into the decoded number (\<open>None\<close>: outside the range of the
  target type, an error of the library). With \<open>UseNumber\<close> it is \<open>Some\<close>.
\<close>

fun to_gval :: "(string \<Rightarrow> string option) \<Rightarrow> json \<Rightarrow> gval option"
and to_gvals :: "(string \<Rightarrow> string option) \<Rightarrow> json list \<Rightarrow> gval list option"
and to_members :: "(string \<Rightarrow> string option) \<Rightarrow> (string \<times> json) list
      \<Rightarrow> (string \<times> gval) list \<Rightarrow> (string \<times> gval) list option" where
  "to_gval num JNull = Some GNull"
| "to_gval num (JBool b) = Some (GBool b)"
| "to_gval num (JNum w) = map_option GNum (num w)"
| "to_gval num (JStr w) = Some (GStr w)"
| "to_gval num (JArr js) = map_option GArr (to_gvals num js)"
| "to_gval num (JObj ps) = map_option GObj (to_members num ps [])"
| "to_gvals num [] = Some []"
| "to_gvals num (j # js) =
     (case to_gval num j of None \<Rightarrow> None
      | Some v \<Rightarrow> map_option (Cons v) (to_gvals num js))"
| "to_members num [] acc = Some acc"
| "to_members num ((k, j) # ps) acc =
     (case to_gval num j of None \<Rightarrow> None | Some v \<Rightarrow> to_members num ps (obj_put k v acc))"

text \<open>\<open>json.Unmarshal\<close> into an \<open>interface{}\<close>; \<open>None\<close> is an error.\<close>

definition unmarshal_any :: "(string \<Rightarrow> string option) \<Rightarrow> string \<Rightarrow> gval option" where
  "unmarshal_any num s = (case json_parse s of None \<Rightarrow> None | Some j \<Rightarrow> to_gval num j)"

text \<open>Decoded objects have their keys in strictly ascending order, at every level.\<close>

fun gval_ok :: "gval \<Rightarrow> bool"
and gvals_ok :: "gval list \<Rightarrow> bool"
and members_ok :: "(string \<times> gval) list \<Rightarrow> bool" where
  "gval_ok (GArr vs) = gvals_ok vs"
| "gval_ok (GObj ps) = (sorted_wrt (<) (map fst ps) \<and> members_ok ps)"
| "gval_ok _ = True"
| "gvals_ok [] = True"
| "gvals_ok (v # vs) = (gval_ok v \<and> gvals_ok vs)"
| "members_ok [] = True"
| "members_ok ((k, v) # ps) = (gval_ok v \<and> members_ok ps)"

lemma members_ok_obj_put: "members_ok m \<Longrightarrow> gval_ok v \<Longrightarrow> members_ok (obj_put k v m)"
  by (induction k v m rule: obj_put.induct) auto

lemma to_gval_ok:
  "to_gval num j = Some v \<Longrightarrow> gval_ok v"
  "to_gvals num js = Some vs \<Longrightarrow> gvals_ok vs"
  "to_members num ps acc = Some m \<Longrightarrow> sorted_wrt (<) (map fst acc) \<Longrightarrow> members_ok acc \<Longrightarrow>
     sorted_wrt (<) (map fst m) \<and> members_ok m"
proof (induction num j and num js and num ps acc arbitrary: v and vs and m
    rule: to_gval_to_gvals_to_members.induct)
  case (10 num k j ps acc)
  then show ?case
    by (auto split: option.splits intro: sorted_obj_put members_ok_obj_put)
qed (auto split: option.splits)

section \<open>Marshalling strings\<close>

definition hex_digit :: "nat \<Rightarrow> char" where
  "hex_digit n = (if n < 10 then char_of (48 + n) else char_of (87 + n))"

lemma hex_val_digit [simp]: "n < 16 \<Longrightarrow> hex_val (hex_digit n) = Some n"
  by (auto simp: hex_val_def hex_digit_def Let_def)

definition html_safe :: "char \<Rightarrow> bool" where
  "html_safe c \<longleftrightarrow> 32 \<le> byte_of c \<and> byte_of c < 128 \<and>
     byte_of c \<notin> {34, 38, 60, 62, 92}"

definition esc_byte :: "char \<Rightarrow> string" where
  "esc_byte c =
     (if html_safe c then [c]
      else if c = CHR 0x22 \<or> c = CHR 0x5C then [CHR 0x5C, c]
      else if c = CHR 0x08 then [CHR 0x5C, CHR ''b'']
      else if c = CHR 0x0C then [CHR 0x5C, CHR ''f'']
      else if c = CHR 0x0A then [CHR 0x5C, CHR ''n'']
      else if c = CHR 0x0D then [CHR 0x5C, CHR ''r'']
      else if c = CHR 0x09 then [CHR 0x5C, CHR ''t'']
      else [CHR 0x5C, CHR ''u'', CHR ''0'', CHR ''0'',
            hex_digit (byte_of c div 16), hex_digit (byte_of c mod 16)])"

definition esc_multi :: "string \<Rightarrow> string" where
  "esc_multi w =
     (if w = [CHR 0xE2, CHR 0x80, CHR 0xA8] then CHR 0x5C # ''u2028''
      else if w = [CHR 0xE2, CHR 0x80, CHR 0xA9] then CHR 0x5C # ''u2029''
      else w)"

text \<open>The text between the quotes that \<open>json.Marshal\<close> writes for a string.\<close>

function json_escape :: "string \<Rightarrow> string" where
  "json_escape s = (case s of [] \<Rightarrow> []
    | c # cs \<Rightarrow>
       if byte_of c < 128 then esc_byte c @ json_escape cs
       else if utf8_len s = 0 then CHR 0x5C # ''ufffd'' @ json_escape cs
       else esc_multi (take (utf8_len s) s) @ json_escape (drop (utf8_len s) s))"
  by pat_completeness auto
termination by (relation "measure length") auto

declare json_escape.simps [simp del]

lemma json_escape_Nil [simp]: "json_escape [] = []"
  by (subst json_escape.simps) simp

lemma json_escape_ascii: "byte_of c < 128 \<Longrightarrow> json_escape (c # cs) = esc_byte c @ json_escape cs"
  by (subst json_escape.simps) simp

lemma json_escape_multi:
  "\<not> byte_of c < 128 \<Longrightarrow> utf8_len (c # cs) \<noteq> 0 \<Longrightarrow> json_escape (c # cs) =
     esc_multi (take (utf8_len (c # cs)) (c # cs)) @ json_escape (drop (utf8_len (c # cs)) (c # cs))"
  by (subst json_escape.simps) simp

lemma byte_of_less [simp]: "byte_of c < 256"
  by (simp add: byte_of_def)

lemma char_of_byte [simp]: "char_of (byte_of c) = c"
  by (simp add: byte_of_def)

lemma byte_of_eq_iff: "byte_of c = byte_of d \<longleftrightarrow> c = d"
  by (simp add: byte_of_def)

lemma byte_of_literals [simp]:
  "byte_of CHR 0x22 = 34" "byte_of CHR 0x5C = 92" "byte_of CHR 0x08 = 8" "byte_of CHR 0x0C = 12"
  "byte_of CHR 0x0A = 10" "byte_of CHR 0x0D = 13" "byte_of CHR 0x09 = 9" "byte_of CHR ''0'' = 48"
  by (simp_all add: byte_of_def)

lemma hex_val_zero [simp]: "hex_val CHR ''0'' = Some 0"
  by (simp add: hex_val_def Let_def)

lemma lex_unicode_ascii:
  assumes "byte_of c < 128"
  shows "lex_unicode (CHR ''0'' # CHR ''0'' # hex_digit (byte_of c div 16)
           # hex_digit (byte_of c mod 16) # r) = Some ([c], r)"
proof -
  have "byte_of c div 16 < 16" "byte_of c mod 16 < 16" using assms by auto
  then have "hex4 (CHR ''0'' # CHR ''0'' # hex_digit (byte_of c div 16)
           # hex_digit (byte_of c mod 16) # r) = Some (byte_of c, r)"
    by (simp add: hex4_def)
  with assms show ?thesis
    by (simp add: lex_unicode_def is_high_surrogate_def is_low_surrogate_def encode_rune_def)
qed

lemma lex_unit_esc_byte:
  assumes "byte_of c < 128"
  shows "lex_unit (esc_byte c @ r) = Some ([c], r)"
proof (cases "html_safe c")
  case True
  then have "c \<noteq> CHR 0x5C" "\<not> byte_of c < 32" by (auto simp: html_safe_def)
  with True assms show ?thesis by (simp add: esc_byte_def lex_unit_def)
next
  case False
  then show ?thesis
    using lex_unicode_ascii [OF assms, of r]
    by (auto simp: esc_byte_def lex_unit_def lex_escape_def)
qed

lemma esc_byte_head:
  assumes "byte_of c < 128"
  obtains d ds where "esc_byte c = d # ds" "d \<noteq> CHR 0x22"
proof (cases "html_safe c")
  case True
  then have "esc_byte c = [c]" "c \<noteq> CHR 0x22"
    by (auto simp: esc_byte_def html_safe_def)
  then show ?thesis using that by blast
next
  case False
  then have "\<exists>ds. esc_byte c = CHR 0x5C # ds" by (auto simp: esc_byte_def)
  then show ?thesis using that by auto
qed

lemma lex_str_unit_eq:
  assumes "u = d # ds" "d \<noteq> CHR 0x22" "lex_unit (u @ r) = Some (w, r)" "lex_str r = Some (ws, t)"
  shows "lex_str (u @ r) = Some (w @ ws, t)"
  using assms by (simp add: lex_str_unit)

text \<open>A well-formed multi-byte sequence is read back whole, whatever follows it.\<close>

lemma takeWhile_take_le:
  "k \<le> length (takeWhile P xs) \<Longrightarrow> k \<le> length (takeWhile P (take k xs @ r))"
proof (induction xs arbitrary: k)
  case (Cons x xs)
  then show ?case by (cases k) (auto split: if_splits)
qed simp

lemma utf8_len_append:
  assumes "utf8_len s = n" "n \<noteq> 0"
  shows "utf8_len (take n s @ r) = n"
proof (cases s)
  case (Cons c cs)
  show ?thesis
    using assms Cons
      takeWhile_take_le [of 2 "byte_in 128 191" cs r] takeWhile_take_le [of 3 "byte_in 128 191" cs r]
    by (auto simp: utf8_len_def Let_def split: list.splits if_splits)
qed (use assms in \<open>simp add: utf8_len_def\<close>)

lemma char_of_separators [simp]:
  "char_of (226::nat) = CHR 0xE2" "char_of (128::nat) = CHR 0x80"
  "char_of (168::nat) = CHR 0xA8" "char_of (169::nat) = CHR 0xA9"
  by (simp_all add: char_of_def bit_iff_odd)

lemma esc_multi_unit:
  assumes "\<not> byte_of c < 128" "utf8_len (c # cs) = n" "n \<noteq> 0"
  shows "lex_unit (esc_multi (take n (c # cs)) @ r) = Some (take n (c # cs), r)"
    and "\<exists>d ds. esc_multi (take n (c # cs)) = d # ds \<and> d \<noteq> CHR 0x22"
proof -
  have hd: "\<exists>ds. take n (c # cs) = c # ds" using assms(3) by (cases n) auto
  have len: "length (take n (c # cs)) = n" using utf8_len_le [of "c # cs"] assms(2) by simp
  have u: "utf8_len (take n (c # cs) @ r) = n" using utf8_len_append assms by blast
  have big: "c \<noteq> CHR 0x5C" "c \<noteq> CHR 0x22" "\<not> byte_of c < 32" using assms(1) by auto
  have plain: "lex_unit (take n (c # cs) @ r) = Some (take n (c # cs), r)"
  proof -
    obtain ds where ds: "take n (c # cs) = c # ds" using hd by blast
    then have "n = length (c # ds)" using len by simp
    then show ?thesis using ds u big assms by (simp add: lex_unit_def)
  qed
  have sep: "lex_unit (CHR 0x5C # ''u2028'' @ r) = Some ([CHR 0xE2, CHR 0x80, CHR 0xA8], r)"
    "lex_unit (CHR 0x5C # ''u2029'' @ r) = Some ([CHR 0xE2, CHR 0x80, CHR 0xA9], r)"
    by (simp_all add: lex_unit_def lex_escape_def lex_unicode_def hex4_def hex_val_def byte_of_def
          encode_rune_def is_high_surrogate_def is_low_surrogate_def Let_def)
  show "lex_unit (esc_multi (take n (c # cs)) @ r) = Some (take n (c # cs), r)"
    using plain sep by (auto simp: esc_multi_def)
  show "\<exists>d ds. esc_multi (take n (c # cs)) = d # ds \<and> d \<noteq> CHR 0x22"
    using hd big by (auto simp: esc_multi_def)
qed

text \<open>
  A valid UTF-8 string escaped by \<open>json.Marshal\<close> and put between quotes reads back as the
  string itself, whatever follows: no byte of it can end the literal.
\<close>

lemma lex_str_escape:
  "utf8_valid s \<Longrightarrow> lex_str (json_escape s @ CHR 0x22 # r) = Some (s, r)"
proof (induction s rule: json_escape.induct)
  case (1 s)
  show ?case
  proof (cases s)
    case (Cons c cs)
    show ?thesis
    proof (cases "byte_of c < 128")
      case True
      have one: "utf8_len (c # cs) = 1" using True by (simp add: utf8_len_def Let_def)
      then have "utf8_valid cs" using "1.prems" Cons by (simp add: utf8_valid.simps [of "c # cs"])
      then have "lex_str (json_escape cs @ CHR 0x22 # r) = Some (cs, r)"
        using "1.IH"(1) Cons True by blast
      then show ?thesis
        using Cons True lex_unit_esc_byte [OF True] esc_byte_head [OF True]
          lex_str_unit_eq [of "esc_byte c" _ _ "json_escape cs @ CHR 0x22 # r" "[c]" cs r]
        by (metis append_Cons append_Nil append_assoc json_escape_ascii)
    next
      case False
      have n: "utf8_len (c # cs) \<noteq> 0" "utf8_valid (drop (utf8_len (c # cs)) (c # cs))"
        using "1.prems" Cons by (auto simp: utf8_valid.simps [of "c # cs"] split: if_splits)
      then have "lex_str (json_escape (drop (utf8_len s) s) @ CHR 0x22 # r) = Some (drop (utf8_len s) s, r)"
        using "1.IH"(3) Cons False by blast
      moreover obtain d ds where "esc_multi (take (utf8_len s) s) = d # ds" "d \<noteq> CHR 0x22"
        using esc_multi_unit(2) [OF False refl n(1)] Cons by blast
      ultimately have "lex_str (esc_multi (take (utf8_len s) s)
            @ json_escape (drop (utf8_len s) s) @ CHR 0x22 # r)
          = Some (take (utf8_len s) s @ drop (utf8_len s) s, r)"
        using lex_str_unit_eq esc_multi_unit(1) [OF False refl n(1)] Cons by blast
      then show ?thesis
        using json_escape_multi [OF False n(1)] Cons by simp
    qed
  qed simp
qed

section \<open>Rendering a document\<close>

fun json_toks :: "json \<Rightarrow> jtok list"
and elem_toks :: "json list \<Rightarrow> jtok list"
and member_toks :: "(string \<times> json) list \<Rightarrow> jtok list" where
  "json_toks JNull = [TNull]"
| "json_toks (JBool b) = [if b then TTrue else TFalse]"
| "json_toks (JNum w) = [TNum w]"
| "json_toks (JStr w) = [TStr w]"
| "json_toks (JArr []) = [TLBrack, TRBrack]"
| "json_toks (JArr (j # js)) = TLBrack # json_toks j @ elem_toks js @ [TRBrack]"
| "json_toks (JObj []) = [TLBrace, TRBrace]"
| "json_toks (JObj ((k, j) # ps)) = TLBrace # TStr k # TColon # json_toks j @ member_toks ps @ [TRBrace]"
| "elem_toks [] = []"
| "elem_toks (j # js) = TComma # json_toks j @ elem_toks js"
| "member_toks [] = []"
| "member_toks ((k, j) # ps) = TComma # TStr k # TColon # json_toks j @ member_toks ps"

text \<open>How deeply the containers of a document are nested.\<close>

fun json_depth :: "json \<Rightarrow> nat"
and elems_depth :: "json list \<Rightarrow> nat"
and members_depth :: "(string \<times> json) list \<Rightarrow> nat" where
  "json_depth (JArr js) = Suc (elems_depth js)"
| "json_depth (JObj ps) = Suc (members_depth ps)"
| "json_depth _ = 0"
| "elems_depth [] = 0"
| "elems_depth (j # js) = max (json_depth j) (elems_depth js)"
| "members_depth [] = 0"
| "members_depth ((k, j) # ps) = max (json_depth j) (members_depth ps)"

lemma jvalue_or_end: "t \<noteq> TRBrack \<Longrightarrow> jstep MValueOrEnd t st = jstep MValue t st"
  by simp

lemma json_toks_head: "\<exists>t ts. json_toks j = t # ts \<and> t \<noteq> TRBrack"
  by (cases j rule: json_toks.cases) auto

text \<open>The machine reads a rendered value and goes on as if the value had just been completed.\<close>

lemma jrun_json_toks:
  "json_depth j + length st \<le> max_nesting \<Longrightarrow> jcomplete j st = Some (m', st') \<Longrightarrow>
     jrun (json_toks j @ ts) MValue st = jrun ts m' st'"
  "elems_depth js + length st < max_nesting \<Longrightarrow>
     jrun (elem_toks js @ ts) MCommaOrEnd (FArr xs # st) = jrun ts MCommaOrEnd (FArr (rev js @ xs) # st)"
  "members_depth ps + length st < max_nesting \<Longrightarrow>
     jrun (member_toks ps @ ts) MCommaOrEnd (FObj qs # st) = jrun ts MCommaOrEnd (FObj (rev ps @ qs) # st)"
proof (induction j and js and ps arbitrary: st m' st' ts and st xs ts and st qs ts
    rule: json_toks_elem_toks_member_toks.induct)
  case (2 b)
  then show ?case by (cases b) (simp_all add: jvalue_tok_def)
next
  case (6 j js)
  obtain t us where t: "json_toks j = t # us" "t \<noteq> TRBrack" using json_toks_head by blast
  have "jrun (json_toks j @ elem_toks js @ TRBrack # ts) MValue (FArr [] # st)
      = jrun (elem_toks js @ TRBrack # ts) MCommaOrEnd (FArr [j] # st)"
    using 6 by simp
  also have "\<dots> = jrun (TRBrack # ts) MCommaOrEnd (FArr (rev js @ [j]) # st)"
    using 6 by simp
  finally show ?case
    using 6 t by (simp add: jvalue_tok_def jpush_def)
next
  case (8 k j ps)
  have "jrun (json_toks j @ member_toks ps @ TRBrace # ts) MValue (FKey [] k # st)
      = jrun (member_toks ps @ TRBrace # ts) MCommaOrEnd (FObj [(k, j)] # st)"
    using 8 by simp
  also have "\<dots> = jrun (TRBrace # ts) MCommaOrEnd (FObj (rev ps @ [(k, j)]) # st)"
    using 8 by simp
  finally show ?case
    using 8 by (simp add: jvalue_tok_def jpush_def)
qed (simp_all add: jvalue_tok_def jpush_def)

lemma json_roundtrip: "json_depth j \<le> max_nesting \<Longrightarrow> jrun (json_toks j) MValue [] = Some j"
  using jrun_json_toks(1) [of j "[]" _ _ "[]"] by simp

end
