(* ===== verification/GoNum.thy ===== *)
theory GoNum
  imports GoValue
begin

text \<open>
  Decimal text of integers as \<open>strconv\<close> and \<open>big.Int\<close> read and write it: the value of a
  run of digits, the shortest text of a number, and that each determines the other.
\<close>

definition digit_val :: "char \<Rightarrow> nat" where
  "digit_val c = byte_of c - 48"

definition digit_char :: "nat \<Rightarrow> char" where
  "digit_char d = char_of (48 + d)"

definition nat_of_digits :: "string \<Rightarrow> nat" where
  "nat_of_digits s = foldl (\<lambda>n c. 10 * n + digit_val c) 0 s"

fun show_nat :: "nat \<Rightarrow> string" where
  "show_nat n = (if n < 10 then [digit_char n] else show_nat (n div 10) @ [digit_char (n mod 10)])"

declare show_nat.simps [simp del]

definition show_int :: "int \<Rightarrow> string" where
  "show_int i = (if i < 0 then CHR ''-'' # show_nat (nat (- i)) else show_nat (nat i))"

lemma byte_of_digit_char [simp]: "d < 10 \<Longrightarrow> byte_of (digit_char d) = 48 + d"
  by (simp add: digit_char_def byte_of_def)

lemma digit_val_char [simp]: "d < 10 \<Longrightarrow> digit_val (digit_char d) = d"
  by (simp add: digit_val_def)

lemma is_digit_char [simp]: "d < 10 \<Longrightarrow> is_digit (digit_char d)"
  by (simp add: is_digit_def)

lemma digit_val_less: "is_digit c \<Longrightarrow> digit_val c < 10"
  by (auto simp: is_digit_def digit_val_def)

lemma digit_char_val [simp]: "is_digit c \<Longrightarrow> digit_char (digit_val c) = c"
  by (simp add: is_digit_def digit_val_def digit_char_def byte_of_def)

lemma digit_val_zero: "is_digit c \<Longrightarrow> digit_val c = 0 \<longleftrightarrow> c = CHR ''0''"
  using byte_of_eq_iff [of c "CHR ''0''"] by (auto simp: is_digit_def digit_val_def)

lemma nat_of_digits_Nil [simp]: "nat_of_digits [] = 0"
  by (simp add: nat_of_digits_def)

lemma nat_of_digits_snoc [simp]: "nat_of_digits (s @ [c]) = 10 * nat_of_digits s + digit_val c"
  by (simp add: nat_of_digits_def)

lemma nat_of_digits_append:
  "nat_of_digits (s @ t) = nat_of_digits s * 10 ^ length t + nat_of_digits t"
  by (induction t rule: rev_induct) (simp_all add: algebra_simps flip: append_assoc)

lemma nat_of_digits_Cons:
  "nat_of_digits (c # t) = digit_val c * 10 ^ length t + nat_of_digits t"
  using nat_of_digits_append [of "[c]" t] by (simp add: nat_of_digits_def)

lemma show_nat_digits: "c \<in> set (show_nat n) \<Longrightarrow> is_digit c"
  by (induction n rule: show_nat.induct) (subst (asm) (2) show_nat.simps, auto split: if_splits)

lemma nat_of_show_nat [simp]: "nat_of_digits (show_nat n) = n"
  by (induction n rule: show_nat.induct) (subst show_nat.simps, simp add: nat_of_digits_def)

lemma show_nat_nonempty [simp]: "show_nat n \<noteq> []"
  by (subst show_nat.simps) simp

lemma show_nat_inj [simp]: "show_nat m = show_nat n \<longleftrightarrow> m = n"
  by (metis nat_of_show_nat)

lemma minus_not_digit [simp]: "\<not> is_digit CHR ''-''"
  by (simp add: is_digit_def byte_of_def)

lemma show_nat_no_minus [simp]: "show_nat n \<noteq> CHR ''-'' # s"
  using show_nat_digits [of "CHR ''-''" n] by auto

lemma show_int_inj [simp]: "show_int i = show_int j \<longleftrightarrow> i = j"
  by (auto simp: show_int_def show_nat_no_minus [symmetric])

lemma nat_of_digits_pos:
  "\<lbrakk>s \<noteq> []; hd s \<noteq> CHR ''0''; \<forall>c\<in>set s. is_digit c\<rbrakk> \<Longrightarrow> 0 < nat_of_digits s"
  by (cases s) (use digit_val_zero in \<open>auto simp: nat_of_digits_Cons\<close>)

lemma show_nat_of_digits:
  assumes "s \<noteq> []" "hd s \<noteq> CHR ''0''" "\<forall>c\<in>set s. is_digit c"
  shows "show_nat (nat_of_digits s) = s"
  using assms
proof (induction s rule: rev_induct)
  case (snoc c s)
  have d: "digit_val c < 10" using snoc.prems by (simp add: digit_val_less)
  show ?case
  proof (cases "s = []")
    case True
    then show ?thesis using snoc.prems d by (subst show_nat.simps) (simp add: nat_of_digits_def)
  next
    case False
    then have "0 < nat_of_digits s" using snoc.prems by (intro nat_of_digits_pos) auto
    then show ?thesis using snoc False d by (subst show_nat.simps) simp
  qed
qed simp

lemma nat_of_digits_zeros: "\<forall>c\<in>set s. c = CHR ''0'' \<Longrightarrow> nat_of_digits s = 0"
  by (induction s rule: rev_induct) (auto simp: digit_val_def byte_of_def)

lemma nat_of_digits_strip: "nat_of_digits (dropWhile (\<lambda>c. c = CHR ''0'') s) = nat_of_digits s"
proof -
  let ?z = "takeWhile (\<lambda>c. c = CHR ''0'') s" and ?r = "dropWhile (\<lambda>c. c = CHR ''0'') s"
  have "nat_of_digits ?z = 0" by (rule nat_of_digits_zeros) (auto dest: set_takeWhileD)
  then show ?thesis using nat_of_digits_append [of ?z ?r] by simp
qed

section \<open>\<open>strconv.Atoi\<close>\<close>

definition atoi :: "string \<Rightarrow> int option" where
  "atoi s = (case s of [] \<Rightarrow> None
     | c # cs \<Rightarrow>
         let neg = (c = CHR ''-''); ds = (if c = CHR ''-'' \<or> c = CHR ''+'' then cs else s);
             n = (if neg then - int (nat_of_digits ds) else int (nat_of_digits ds)) in
         if ds = [] \<or> \<not> list_all is_digit ds \<or> n < - (2 ^ 63) \<or> 2 ^ 63 \<le> n then None else Some n)"

end
