(* ===== verification/GoQuery.thy ===== *)
theory GoQuery
  imports GoValue
begin

text \<open>
  \<open>url.ParseQuery\<close> and \<open>url.Values.Encode\<close>. The values of a query are kept with their keys
  in ascending order, the order in which \<open>Encode\<close> writes them; segments that do not parse
  are dropped, as \<open>URL.Query\<close> drops them.
\<close>

definition unreserved :: "char \<Rightarrow> bool" where
  "unreserved c \<longleftrightarrow> is_lower c \<or> is_upper c \<or> is_digit c \<or> byte_of c \<in> {45, 46, 95, 126}"

definition upper_hex :: "nat \<Rightarrow> char" where
  "upper_hex n = (if n < 10 then char_of (48 + n) else char_of (55 + n))"

definition escape_char :: "char \<Rightarrow> string" where
  "escape_char c = (if unreserved c then [c] else if c = CHR '' '' then ''+''
     else [CHR ''%'', upper_hex (byte_of c div 16), upper_hex (byte_of c mod 16)])"

definition query_escape :: "string \<Rightarrow> string" where
  "query_escape s = concat (map escape_char s)"

fun query_unescape :: "string \<Rightarrow> string option" where
  "query_unescape [] = Some []"
| "query_unescape (c # cs) =
     (if c = CHR ''%'' then
        (case cs of a # b # ds \<Rightarrow>
           (case (hex_val a, hex_val b) of
              (Some m, Some n) \<Rightarrow> map_option (Cons (char_of (16 * m + n))) (query_unescape ds)
            | _ \<Rightarrow> None)
         | _ \<Rightarrow> None)
      else map_option (Cons (if c = CHR ''+'' then CHR '' '' else c)) (query_unescape cs))"

definition cut_at :: "char \<Rightarrow> string \<Rightarrow> string \<times> string" where
  "cut_at sep s = (takeWhile (\<lambda>c. c \<noteq> sep) s, tl (dropWhile (\<lambda>c. c \<noteq> sep) s))"

definition parse_pair :: "string \<Rightarrow> (string \<times> string) option" where
  "parse_pair seg =
     (if contains seg '';'' \<or> seg = [] then None
      else case cut_at (CHR ''='') seg of (k, v) \<Rightarrow>
        (case (query_unescape k, query_unescape v) of
           (Some k', Some v') \<Rightarrow> Some (k', v') | _ \<Rightarrow> None))"

type_synonym url_values = "(string \<times> string list) list"

definition values_get :: "url_values \<Rightarrow> string \<Rightarrow> string list" where
  "values_get q k = (case map_of q k of None \<Rightarrow> [] | Some vs \<Rightarrow> vs)"

definition values_add :: "url_values \<Rightarrow> string \<times> string \<Rightarrow> url_values" where
  "values_add q kv = obj_put (fst kv) (values_get q (fst kv) @ [snd kv]) q"

definition parse_query :: "string \<Rightarrow> url_values" where
  "parse_query s = foldl values_add [] (List.map_filter parse_pair (split_on (CHR ''&'') s))"

definition pairs_of :: "url_values \<Rightarrow> (string \<times> string) list" where
  "pairs_of q = concat (map (\<lambda>(k, vs). map (Pair k) vs) q)"

definition encode_pair :: "string \<times> string \<Rightarrow> string" where
  "encode_pair kv = query_escape (fst kv) @ ''='' @ query_escape (snd kv)"

definition encode_values :: "url_values \<Rightarrow> string" where
  "encode_values q = join_with ''&'' (map encode_pair (pairs_of q))"

section \<open>Escaping is undone by unescaping\<close>

lemma hex_val_upper [simp]: "n < 16 \<Longrightarrow> hex_val (upper_hex n) = Some n"
  by (auto simp: hex_val_def upper_hex_def Let_def)

lemma unreserved_not: "unreserved c \<Longrightarrow> byte_of c \<notin> {32, 37, 38, 43, 59, 61}"
  by (auto simp: unreserved_def is_lower_def is_upper_def is_digit_def)

lemma byte_of_query_chars [simp]:
  "byte_of CHR ''%'' = 37" "byte_of CHR ''+'' = 43" "byte_of CHR '' '' = 32" "byte_of CHR ''&'' = 38"
  "byte_of CHR '';'' = 59" "byte_of CHR ''='' = 61"
  by (simp_all add: byte_of_def)

lemma unescape_escape_char: "query_unescape (escape_char c @ s) = map_option (Cons c) (query_unescape s)"
proof (cases "unreserved c")
  case True
  then have "c \<noteq> CHR ''%''" "c \<noteq> CHR ''+''" using unreserved_not [of c] by auto
  with True show ?thesis by (simp add: escape_char_def)
next
  case False
  have "byte_of c div 16 < 16" "byte_of c mod 16 < 16"
    using byte_of_less [of c] by (auto simp: div_less_iff_less_mult)
  moreover have "16 * (byte_of c div 16) + byte_of c mod 16 = byte_of c" by simp
  ultimately show ?thesis using False by (auto simp: escape_char_def)
qed

lemma unescape_query_escape: "query_unescape (query_escape s) = Some s"
  by (induction s) (auto simp: query_escape_def unescape_escape_char)

lemma escape_char_plain: "d \<in> set (escape_char c) \<Longrightarrow> byte_of d \<notin> {38, 59, 61}"
proof -
  have hx: "byte_of (upper_hex n) \<notin> {38, 59, 61}" if "n < 16" for n
    using that by (auto simp: upper_hex_def)
  have "byte_of c div 16 < 16" "byte_of c mod 16 < 16"
    using byte_of_less [of c] by (auto simp: div_less_iff_less_mult)
  then show "d \<in> set (escape_char c) \<Longrightarrow> byte_of d \<notin> {38, 59, 61}"
    using unreserved_not [of c] hx by (auto simp: escape_char_def split: if_splits)
qed

lemma escape_plain: "d \<in> set (query_escape s) \<Longrightarrow> byte_of d \<notin> {38, 59, 61}"
  using escape_char_plain by (fastforce simp: query_escape_def)

lemma escape_no: "CHR ''&'' \<notin> set (query_escape s)" "CHR '';'' \<notin> set (query_escape s)" "CHR ''='' \<notin> set (query_escape s)"
  using escape_plain by fastforce+

lemma cut_at_first: "sep \<notin> set k \<Longrightarrow> cut_at sep (k @ sep # v) = (k, v)"
  by (induction k) (auto simp: cut_at_def)

lemma contains_one: "contains s [c] \<longleftrightarrow> c \<in> set s"
  unfolding contains_iff by (metis append_Cons append_Nil in_set_conv_decomp)

lemma parse_encode_pair: "parse_pair (encode_pair kv) = Some kv"
proof -
  have "\<not> contains (encode_pair kv) '';''" unfolding contains_one by (simp add: encode_pair_def escape_no)
  moreover have "cut_at (CHR ''='') (encode_pair kv) = (query_escape (fst kv), query_escape (snd kv))"
    using cut_at_first [of "CHR ''=''" "query_escape (fst kv)"] by (simp add: encode_pair_def escape_no)
  ultimately show ?thesis by (simp add: parse_pair_def unescape_query_escape encode_pair_def)
qed

lemma split_join:
  "ws \<noteq> [] \<Longrightarrow> \<forall>w\<in>set ws. sep \<notin> set w \<Longrightarrow> split_on sep (join_with [sep] ws) = ws"
proof (induction ws rule: induct_list012)
  case (2 w)
  then show ?case by (induction w) auto
next
  case (3 w u ws)
  have "split_on sep (w @ sep # r) = w # split_on sep r" if "sep \<notin> set w" for w r
    using that by (induction w) auto
  then show ?case using 3 by simp
qed simp

text \<open>Values with ascending keys, each with at least one value.\<close>

definition values_ok :: "url_values \<Rightarrow> bool" where
  "values_ok q \<longleftrightarrow> sorted_wrt (<) (map fst q) \<and> (\<forall>p\<in>set q. snd p \<noteq> [])"

lemma obj_put_last: "\<forall>k'\<in>fst ` set q. k' < k \<Longrightarrow> obj_put k v q = q @ [(k, v)]"
  by (induction k v q rule: obj_put.induct) auto

lemma obj_put_snoc:
  "\<forall>k'\<in>fst ` set q. k' < k \<Longrightarrow> obj_put k v (q @ [(k, u)]) = q @ [(k, v)]"
  by (induction q) auto

lemma map_of_snoc_fresh: "\<forall>k'\<in>fst ` set q. k' < (k::string) \<Longrightarrow> map_of (q @ [(k, u)]) k = Some u"
  by (induction q) auto

lemma add_values:
  assumes "\<forall>k'\<in>fst ` set q. k' < k"
  shows "foldl values_add (q @ [(k, us)]) (map (Pair k) vs) = q @ [(k, us @ vs)]"
  using assms
proof (induction vs arbitrary: us)
  case (Cons v vs)
  have "values_get (q @ [(k, us)]) k = us"
    using map_of_snoc_fresh [OF Cons.prems, of us] by (simp add: values_get_def del: map_of_append)
  then show ?case using Cons by (simp add: values_add_def obj_put_snoc)
qed simp

lemma add_fresh:
  assumes "\<forall>k'\<in>fst ` set q. k' < k" "vs \<noteq> []"
  shows "foldl values_add q (map (Pair k) vs) = q @ [(k, vs)]"
proof (cases vs)
  case (Cons v us)
  have "map_of q k = None" using assms(1) by (auto simp: map_of_eq_None_iff)
  then have "values_add q (k, v) = q @ [(k, [v])]"
    using assms(1) by (simp add: values_add_def values_get_def obj_put_last)
  then show ?thesis using add_values [OF assms(1), of "[v]" us] Cons by simp
qed (use assms in simp)

lemma add_pairs:
  assumes "values_ok q"
  shows "foldl values_add [] (pairs_of q) = q"
  using assms
proof (induction q rule: rev_induct)
  case (snoc p q)
  obtain k vs where p: "p = (k, vs)" by (cases p)
  have "values_ok q" "\<forall>k'\<in>fst ` set q. k' < k" "vs \<noteq> []"
    using snoc.prems p by (auto simp: values_ok_def sorted_wrt_append)
  then show ?case using snoc.IH add_fresh [of q k vs] p by (simp add: pairs_of_def)
qed (simp add: pairs_of_def)

lemma map_filter_Some: "(\<And>x. x \<in> set xs \<Longrightarrow> f (g x) = Some x) \<Longrightarrow> List.map_filter f (map g xs) = xs"
  by (induction xs) (auto simp: List.map_filter_simps)

lemma parse_encode_values:
  assumes "values_ok q"
  shows "parse_query (encode_values q) = q"
proof (cases "pairs_of q")
  case Nil
  then have "q = []" using add_pairs [OF assms] by simp
  then show ?thesis by (simp add: encode_values_def parse_query_def pairs_of_def parse_pair_def List.map_filter_simps)
next
  case (Cons kv kvs)
  have "split_on (CHR ''&'') (encode_values q) = map encode_pair (pairs_of q)"
    unfolding encode_values_def
    by (rule split_join) (auto simp: Cons encode_pair_def escape_no)
  then show ?thesis
    using add_pairs [OF assms] by (simp add: parse_query_def map_filter_Some parse_encode_pair)
qed

lemma values_add_ok: "values_ok q \<Longrightarrow> values_ok (values_add q kv)"
proof -
  have "snd ` set (obj_put k v q) \<subseteq> insert v (snd ` set q)" for k :: string and v :: "string list" and q
    by (induction k v q rule: obj_put.induct) auto
  then show "values_ok q \<Longrightarrow> values_ok (values_add q kv)"
    by (fastforce simp: values_ok_def values_add_def intro: sorted_obj_put)
qed

lemma parse_query_ok: "values_ok (parse_query s)"
proof -
  have "values_ok (foldl values_add q ps)" if "values_ok q" for q ps
    using that by (induction ps arbitrary: q) (auto intro: values_add_ok)
  moreover have "values_ok []" by (simp add: values_ok_def)
  ultimately show ?thesis unfolding parse_query_def by blast
qed

end
