(* ===== verification/JsonText.thy ===== *)
theory JsonText
  imports GoValue
begin

text \<open>
  The compact text of a JSON document and that the parser reads it back: the lexer finds
  exactly the tokens that were written, because a number is always followed by punctuation
  and an escaped string ends at its own quote.
\<close>

fun tok_text :: "jtok \<Rightarrow> string" where
  "tok_text TLBrace = ''{''"
| "tok_text TRBrace = ''}''"
| "tok_text TLBrack = ''[''"
| "tok_text TRBrack = '']''"
| "tok_text TColon = '':''"
| "tok_text TComma = '',''"
| "tok_text (TStr w) = CHR 0x22 # json_escape w @ [CHR 0x22]"
| "tok_text (TNum w) = w"
| "tok_text TTrue = ''true''"
| "tok_text TFalse = ''false''"
| "tok_text TNull = ''null''"

definition toks_text :: "jtok list \<Rightarrow> string" where
  "toks_text ts = concat (map tok_text ts)"

definition json_text :: "json \<Rightarrow> string" where
  "json_text j = toks_text (json_toks j)"

definition num_text :: "string \<Rightarrow> bool" where
  "num_text w \<longleftrightarrow> lex_num w = Some (w, [])"

fun tok_ok :: "jtok \<Rightarrow> bool" where
  "tok_ok (TStr w) = utf8_valid w"
| "tok_ok (TNum w) = num_text w"
| "tok_ok t = True"

definition closes :: "jtok list \<Rightarrow> bool" where
  "closes ts \<longleftrightarrow> ts = [] \<or> hd ts \<in> {TComma, TRBrack, TRBrace}"

fun toks_ok :: "jtok list \<Rightarrow> bool" where
  "toks_ok [] = True"
| "toks_ok (t # ts) = (tok_ok t \<and> (case t of TNum w \<Rightarrow> closes ts | _ \<Rightarrow> True) \<and> toks_ok ts)"

text \<open>What may follow a number without becoming part of it.\<close>

definition num_stop :: "string \<Rightarrow> bool" where
  "num_stop r \<longleftrightarrow> r = [] \<or> (\<not> is_digit (hd r) \<and> hd r \<notin> {CHR ''.'', CHR ''e'', CHR ''E'', CHR ''+'', CHR ''-''})"

lemma takeWhile_digits_append:
  "num_stop r \<Longrightarrow> takeWhile is_digit (s @ r) = takeWhile is_digit s"
  "num_stop r \<Longrightarrow> dropWhile is_digit (s @ r) = dropWhile is_digit s @ r"
  by (induction s) (cases r; simp add: num_stop_def)+

lemma num_digits_append:
  "num_stop r \<Longrightarrow> num_digits s = Some (d, t) \<Longrightarrow> num_digits (s @ r) = Some (d, t @ r)"
  by (auto simp: num_digits_def takeWhile_digits_append split: if_splits)

lemma num_int_append:
  "num_stop r \<Longrightarrow> num_int s = Some (d, t) \<Longrightarrow> num_int (s @ r) = Some (d, t @ r)"
  by (cases s) (auto simp: num_int_def takeWhile_digits_append split: if_splits)

lemma num_frac_append:
  "num_stop r \<Longrightarrow> num_frac s = Some (d, t) \<Longrightarrow> num_frac (s @ r) = Some (d, t @ r)"
  by (cases s; cases r) (auto simp: num_frac_def num_stop_def num_digits_append split: if_splits option.splits)

lemma num_sign_append:
  "num_stop r \<Longrightarrow> num_sign s = (d, t) \<Longrightarrow> num_sign (s @ r) = (d, t @ r)"
  by (cases s; cases r) (auto simp: num_sign_def num_stop_def split: if_splits)

lemma num_exp_append:
  assumes "num_stop r" "num_exp s = Some (d, t)"
  shows "num_exp (s @ r) = Some (d, t @ r)"
proof (cases s)
  case Nil
  then show ?thesis using assms by (cases r) (auto simp: num_exp_def num_stop_def)
next
  case (Cons c cs)
  obtain g u where "num_sign cs = (g, u)" by (cases "num_sign cs")
  then show ?thesis
    using assms Cons num_sign_append [OF assms(1), of cs g u] num_digits_append [OF assms(1), of u]
    by (auto simp: num_exp_def split: if_splits option.splits)
qed

lemma num_neg_append: "s \<noteq> [] \<Longrightarrow> num_neg s = (d, t) \<Longrightarrow> num_neg (s @ r) = (d, t @ r)"
  by (cases s) (auto simp: num_neg_def split: if_splits)

lemma lex_num_append:
  assumes "num_stop r" "lex_num s = Some (d, t)"
  shows "lex_num (s @ r) = Some (d, t @ r)"
proof -
  have "s \<noteq> []" using lex_num_length [OF assms(2)] by auto
  obtain n s1 i s2 f s3 e where parts: "num_neg s = (n, s1)" "num_int s1 = Some (i, s2)"
      "num_frac s2 = Some (f, s3)" "num_exp s3 = Some (e, t)" "d = n @ i @ f @ e"
    using assms(2) by (auto simp: lex_num_def split: prod.splits option.splits)
  show ?thesis
    using num_neg_append [OF \<open>s \<noteq> []\<close> parts(1), of r] num_int_append [OF assms(1) parts(2)]
      num_frac_append [OF assms(1) parts(3)] num_exp_append [OF assms(1) parts(4)] parts(5)
    by (simp add: lex_num_def)
qed

lemma zero_digit: "is_digit CHR ''0''"
  by (simp add: is_digit_def)

lemma num_text_head: "num_text w \<Longrightarrow> \<exists>c cs. w = c # cs \<and> (c = CHR ''-'' \<or> is_digit c)"
  by (cases w) (auto simp: num_text_def lex_num_def num_neg_def num_int_def zero_digit split: if_splits list.splits)

lemma closes_num_stop: "closes ts \<Longrightarrow> num_stop (toks_text ts)"
  by (cases ts) (auto simp: closes_def num_stop_def toks_text_def is_digit_def byte_of_def)

lemma lex_json_space_free:
  "\<not> is_json_space c \<Longrightarrow> lex_one c cs = Some (t, r) \<Longrightarrow> lex_json (c # cs) = map_option (Cons t) (lex_json r)"
  by simp

lemma punct_not_digit:
  "\<not> is_digit CHR ''{''" "\<not> is_digit CHR ''}''" "\<not> is_digit CHR ''[''" "\<not> is_digit CHR '']''"
  "\<not> is_digit CHR '':''" "\<not> is_digit CHR '',''" "\<not> is_digit CHR 0x22"
  by (simp_all add: is_digit_def byte_of_def)

lemma digit_not_punct:
  assumes "c = CHR ''-'' \<or> is_digit c"
  shows "punct_tok c = None" "c \<noteq> CHR 0x22" "\<not> is_json_space c"
  using assms punct_not_digit
  by (auto simp: punct_tok_def is_json_space_def simp del: byte_of_literals) (simp_all add: is_digit_def byte_of_def)

lemma lex_json_tok:
  assumes "tok_ok t" "case t of TNum w \<Rightarrow> closes ts | _ \<Rightarrow> True"
  shows "lex_json (tok_text t @ toks_text ts) = map_option (Cons t) (lex_json (toks_text ts))"
proof (cases t)
  case (TStr w)
  then show ?thesis
    using assms(1) lex_str_escape [of w "toks_text ts"]
    by (simp add: lex_one_def punct_tok_def is_json_space_def)
next
  case (TNum w)
  obtain c cs where w: "w = c # cs" "c = CHR ''-'' \<or> is_digit c"
    using num_text_head [of w] assms(1) TNum by auto
  have "lex_num (w @ toks_text ts) = Some (w, toks_text ts)"
    using lex_num_append [of "toks_text ts" w w "[]"] closes_num_stop assms TNum by (simp add: num_text_def)
  then show ?thesis
    using w digit_not_punct [OF w(2)] TNum by (auto simp: lex_one_def)
qed (simp_all add: lex_one_def punct_tok_def is_json_space_def byte_of_def lex_word_def has_prefix_def is_digit_def)

lemma lex_json_toks: "toks_ok ts \<Longrightarrow> lex_json (toks_text ts) = Some ts"
proof (induction ts)
  case (Cons t ts)
  then show ?case using lex_json_tok [of t ts] by (simp add: toks_text_def)
qed (simp add: toks_text_def)

text \<open>Documents whose strings are valid UTF-8 and whose numbers are literals.\<close>

fun json_ok :: "json \<Rightarrow> bool"
and jsons_ok :: "json list \<Rightarrow> bool"
and jmembers_ok :: "(string \<times> json) list \<Rightarrow> bool" where
  "json_ok (JStr w) = utf8_valid w"
| "json_ok (JNum w) = num_text w"
| "json_ok (JArr js) = jsons_ok js"
| "json_ok (JObj ps) = jmembers_ok ps"
| "json_ok _ = True"
| "jsons_ok [] = True"
| "jsons_ok (j # js) = (json_ok j \<and> jsons_ok js)"
| "jmembers_ok [] = True"
| "jmembers_ok ((k, j) # ps) = (utf8_valid k \<and> json_ok j \<and> jmembers_ok ps)"

lemma closes_simps [simp]: "closes []" "closes (TComma # ts)" "closes (TRBrack # ts)" "closes (TRBrace # ts)"
  by (simp_all add: closes_def)

lemma closes_elem: "closes ts \<Longrightarrow> closes (elem_toks js @ ts)" "closes ts \<Longrightarrow> closes (member_toks ps @ ts)"
  by (cases js; simp) (cases ps rule: member_toks.cases; simp)

lemma toks_ok_append:
  "json_ok j \<Longrightarrow> closes ts \<Longrightarrow> toks_ok ts \<Longrightarrow> toks_ok (json_toks j @ ts)"
  "jsons_ok js \<Longrightarrow> closes ts \<Longrightarrow> toks_ok ts \<Longrightarrow> toks_ok (elem_toks js @ ts)"
  "jmembers_ok ps \<Longrightarrow> closes ts \<Longrightarrow> toks_ok ts \<Longrightarrow> toks_ok (member_toks ps @ ts)"
  by (induction j and js and ps arbitrary: ts and ts and ts rule: json_toks_elem_toks_member_toks.induct)
     (auto simp: closes_elem)

lemma json_parse_text:
  "json_ok j \<Longrightarrow> json_depth j \<le> max_nesting \<Longrightarrow> json_parse (json_text j) = Some j"
  using lex_json_toks [of "json_toks j"] toks_ok_append(1) [of j "[]"]
  by (simp add: json_parse_def json_text_def json_roundtrip)

end
