(* ===== verification/Model.thy ===== *)
theory Model
  imports GoValue
begin

text \<open>
  The domain types of \<open>internal/model\<close>: identities and credentials, the request under
  test, expectations and assertions, execution results, assessments, findings and the test
  case itself, with the functions \<open>model.go\<close> defines on them. A string type with named
  constants is a datatype; where user input may carry any text, a last constructor keeps it.
  Formatted messages and evidence lines are constructors holding the formatted arguments.
\<close>

section \<open>Enumerations\<close>

datatype cred_type = Bearer | APIKeyHeader | StaticHeader | OtherCredential string

datatype access_decision = DAllow | DDeny | DSkip | DOther string

text \<open>\<open>ONone\<close> is the zero value: an execution no classifier has looked at.\<close>

datatype outcome = OAllow | ODeny | ONotFound | ORedirect | OServerError | OClientError | OError | ONone

datatype error_kind = EKNone | EKUrlValidation | EKBuildRequest | EKNetwork | EKBodySizeExceeded
  | EKBodyRead | EKVerification

datatype confidence = ConfidenceLow | ConfidenceMedium | ConfidenceHigh

datatype severity = SevInfo | SevLow | SevMedium | SevHigh | SevCritical

datatype category = PotentialBOLA | MissingAuthentication | CrossTenantAccess | PrivilegeEscalation
  | UnexpectedAccess | AuthorizationMismatch | SensitiveDataExposure | CORSMisconfiguration
  | ObjectPropertyExposure

datatype tier = TierCritical | TierElevated | TierPII | TierInternal | TierDeclared

datatype assessment_decision = AAllowed | ADenied | AInconclusive | ASkipped

datatype assessment_source = SrcNone | SrcHttpStatus | SrcResponseAssertion | SrcWriteVerification

datatype reason = RNone
  | RNoExpectation | RExplicitSkip | RStatusOnly | RAssertionMatched
  | RExecutionError | RAmbiguousOutcome | RInvalidJson | RConflictingAssertions | RNoAssertionMatched
  | RStateChanged | RStateUnchanged
  | RVerifierReadFailed | RVerifierDenied | RVerifierValueMissing | RBaselineMissing
  | RConcurrentChange | RTargetAlreadyPresent | RChangedUnexpectedly | RVerifierStatus
  | RWriteFailed | RNoPositiveControl | RPositiveControlFailed | RCredentialRejected
  | RWritePending | RWriteEnvironment | RResetFailed | RResetBaseline | RCancelled
  | RPreflightFailed

datatype cred_status = CSUnset | CSAnonymous | CSNotChecked | CSPreflightFailed | CSPreflightPassed
  | CSPassedResource401 | CSResource401

datatype write_status = WSUnset | WSNotConfigured | WSNotApplied | WSInconclusive
  | WSVerifiedEffect | WSVerifiedNoEffect

section \<open>Severities\<close>

text \<open>\<open>severityRank\<close>.\<close>

definition severity_rank :: "severity \<Rightarrow> nat" where
  "severity_rank s = (case s of SevInfo \<Rightarrow> 1 | SevLow \<Rightarrow> 2 | SevMedium \<Rightarrow> 3 | SevHigh \<Rightarrow> 4 | SevCritical \<Rightarrow> 5)"

lemma severity_rank_inj: "severity_rank a = severity_rank b \<longleftrightarrow> a = b"
  by (cases a; cases b) (simp_all add: severity_rank_def)

text \<open>Thresholds compare ranks, so the severities are ordered by them.\<close>

instantiation severity :: linorder
begin

definition less_eq_severity :: "severity \<Rightarrow> severity \<Rightarrow> bool" where
  "a \<le> b \<longleftrightarrow> severity_rank a \<le> severity_rank b"

definition less_severity :: "severity \<Rightarrow> severity \<Rightarrow> bool" where
  "a < b \<longleftrightarrow> severity_rank a < severity_rank b"

instance
  by standard (auto simp: less_eq_severity_def less_severity_def severity_rank_inj)

end

definition severity_name :: "severity \<Rightarrow> string" where
  "severity_name s = (case s of SevInfo \<Rightarrow> ''info'' | SevLow \<Rightarrow> ''low'' | SevMedium \<Rightarrow> ''medium''
     | SevHigh \<Rightarrow> ''high'' | SevCritical \<Rightarrow> ''critical'')"

definition parse_severity :: "string \<Rightarrow> severity option" where
  "parse_severity s = (let t = to_lower (trim_space s) in
     map_of [(''info'', SevInfo), (''low'', SevLow), (''medium'', SevMedium), (''high'', SevHigh),
             (''critical'', SevCritical)] t)"

section \<open>Outcomes\<close>

definition classify_outcome_with :: "int \<Rightarrow> bool \<Rightarrow> int list \<Rightarrow> outcome" where
  "classify_outcome_with status has_error deny_statuses =
     (if has_error then OError
      else if status \<in> set deny_statuses then ODeny
      else if 200 \<le> status \<and> status < 300 then OAllow
      else if status = 401 \<or> status = 403 then ODeny
      else if status = 404 then ONotFound
      else if 300 \<le> status \<and> status < 400 then ORedirect
      else if 500 \<le> status then OServerError
      else if 400 \<le> status then OClientError
      else OError)"

definition classify_outcome :: "int \<Rightarrow> bool \<Rightarrow> outcome" where
  "classify_outcome status has_error = classify_outcome_with status has_error []"

section \<open>Identities and requests\<close>

record credential =
  cr_type :: cred_type
  cr_header :: string
  cr_value :: string

definition sends_no_auth :: "credential \<Rightarrow> bool" where
  "sends_no_auth c \<longleftrightarrow> cr_type c = StaticHeader \<and> cr_header c = []"

record identity_preflight =
  pf_url :: string
  pf_expected_status :: int
  pf_json_fields :: "(string \<times> string) list"

record identity =
  id_id :: string
  id_name :: string
  id_role :: string
  id_tenant :: string
  id_description :: string
  id_credential :: credential
  id_preflight :: "identity_preflight option"

record preflight_result =
  pr_identity :: string
  pr_passed :: bool
  pr_reason :: string
  pr_status_code :: int

record request_template =
  rq_method :: string
  rq_url :: string
  rq_headers :: "(string \<times> string) list"
  rq_query :: "(string \<times> string) list"
  rq_body :: string

definition is_unsafe_method :: "string \<Rightarrow> bool" where
  "is_unsafe_method m \<longleftrightarrow>
     to_upper (trim_space m) \<in> {''POST'', ''PUT'', ''PATCH'', ''DELETE''}"

record response_assertion =
  ra_status_codes :: "int list"
  ra_pointer :: string
  ra_equals :: string
  ra_decision :: access_decision

record expected_access =
  ea_identity :: string
  ea_decision :: access_decision
  ea_note :: string
  ea_forbid_sensitive :: bool
  ea_assertions :: "response_assertion list"

section \<open>Results\<close>

record response_profile =
  rp_kind :: string
  rp_hash :: string
  rp_fields :: "string list"
  rp_truncated :: bool

record execution_result =
  er_identity :: string
  er_status :: int
  er_outcome :: outcome
  er_headers :: "(string \<times> string) list"
  er_body :: string
  er_duration :: int
  er_error :: string
  er_error_kind :: error_kind
  er_profile :: "response_profile option"

text \<open>The zero value of \<open>ExecutionResult\<close>, with the identity filled in.\<close>

definition empty_execution :: "string \<Rightarrow> execution_result" where
  "empty_execution i = \<lparr>er_identity = i, er_status = 0, er_outcome = ONone, er_headers = [],
     er_body = [], er_duration = 0, er_error = [], er_error_kind = EKNone, er_profile = None\<rparr>"

definition execution_failed :: "execution_result \<Rightarrow> bool" where
  "execution_failed ex \<longleftrightarrow> er_error ex \<noteq> [] \<or> er_error_kind ex \<noteq> EKNone"

record verification_evidence =
  ve_strategy :: string
  ve_environment :: string
  ve_reader :: string
  ve_reader_status :: cred_status
  ve_before :: "int list"
  ve_after :: int
  ve_reset :: int

record assessment =
  as_credential :: cred_status
  as_write :: write_status
  as_index :: "nat option"
  as_verification :: "verification_evidence option"
  as_identity :: string
  as_expected :: access_decision
  as_decision :: assessment_decision
  as_source :: assessment_source
  as_reason :: reason
  as_matched :: "nat list"

definition new_assessment :: "string \<Rightarrow> access_decision \<Rightarrow> assessment_source \<Rightarrow> assessment" where
  "new_assessment i d src = \<lparr>as_credential = CSUnset, as_write = WSUnset, as_index = None,
     as_verification = None, as_identity = i, as_expected = d, as_decision = AInconclusive,
     as_source = src, as_reason = RNone, as_matched = []\<rparr>"

text \<open>Why a response counts as a declared denial, and the lines of a comparison.\<close>

datatype deny_reason = DRBodyContains string | DRFieldPresent string | DRFieldEquals string string
  | DRAssessed reason

datatype cmp_note = NStatusMismatch string int string int | NSchemasMatch | NSchemaOverlap nat nat
  | NWhitespaceOnly | NJsonMismatch string string | NBodySize int string nat string nat
  | NSensitiveOnlyIn string string

datatype evidence =
    EvOutcome outcome | EvStatusCode int | EvIdentity string | EvUrl string string
  | EvDenyStatusDeclared "int list" | EvRole string | EvTenant string
  | EvUnauthenticated | EvTenantBroken string string | EvOwnership string string
  | EvPrivilege string string | EvDenyWhen deny_reason
  | EvLeakedFields "string list" | EvSensitivity "tier list"
  | EvAssessment assessment_decision | EvSource assessment_source | EvVerification reason
  | EvMatchedAssertions "nat list" | EvBodyMatchesBaseline string string
  | EvStatusCodes string int string int | EvBodiesDiffer int | EvSchemaMatchesBaseline nat nat
  | EvOnlyInBaseline "string list" | EvOnlyInCompared "string list" | EvNote cmp_note
  | EvPermissiveCors bool | EvCredentialedCors | EvAllowOrigin string | EvAllowCredentials bool
  | EvProbeOrigin string | EvObservedOn string

datatype message = MsgSensitiveFields string | MsgObjectProperties string | MsgUnexpectedAccess string
  | MsgDenied string | MsgCors string

text \<open>\<open>SharedFieldRatio\<close> is kept as the pair shared/union whose quotient the code stores.\<close>

record comparison_result =
  co_status_match :: bool
  co_body_match :: bool
  co_schema_match :: bool
  co_shared :: nat
  co_union :: nat
  co_only_a :: "string list"
  co_only_b :: "string list"
  co_size_diff :: int
  co_notes :: "cmp_note list"

record finding =
  fd_category :: category
  fd_severity :: severity
  fd_confidence :: confidence
  fd_identity :: string
  fd_message :: message
  fd_evidence :: "evidence list"
  fd_detected_at :: int

section \<open>The test case\<close>

record resource =
  rs_type :: string
  rs_object_id :: string
  rs_owner :: string
  rs_tenant :: string
  rs_required_role :: string
  rs_tenant_field :: string

record json_field_match =
  jf_path :: string
  jf_equals :: string

record deny_condition =
  dc_body_contains :: "string list"
  dc_json_field :: "json_field_match option"

definition deny_is_zero :: "deny_condition option \<Rightarrow> bool" where
  "deny_is_zero d = (case d of None \<Rightarrow> True
     | Some c \<Rightarrow> dc_body_contains c = [] \<and> dc_json_field c = None)"

record setup_step =
  ss_name :: string
  ss_as :: string
  ss_request :: request_template
  ss_capture :: "(string \<times> string) list"

text \<open>\<open>changed_to\<close> and request bodies are raw JSON; the empty string is an absent value.\<close>

record write_verification =
  wv_strategy :: string
  wv_after_status :: "int list"
  wv_reset :: "setup_step option"
  wv_identity :: identity
  wv_request :: request_template
  wv_environment :: string
  wv_allow_unsafe :: bool
  wv_pointer :: string
  wv_changed_to :: string

record test_case =
  tc_require_preflight :: bool
  tc_id :: string
  tc_description :: string
  tc_identities :: "identity list"
  tc_request :: request_template
  tc_resource :: "resource option"
  tc_role_hierarchy :: "string list"
  tc_sensitive_fields :: "string list"
  tc_deny_statuses :: "int list"
  tc_unauthorized_is_denial :: bool
  tc_deny_when :: "deny_condition option"
  tc_mutating :: bool
  tc_verification :: "write_verification option"
  tc_setup :: "setup_step list"
  tc_cors :: "string option"
  tc_expected :: "expected_access list"

definition tier_severity :: "tier \<Rightarrow> severity" where
  "tier_severity t = (case t of TierCritical \<Rightarrow> SevCritical
     | TierElevated \<Rightarrow> SevHigh | TierPII \<Rightarrow> SevHigh | TierDeclared \<Rightarrow> SevHigh
     | TierInternal \<Rightarrow> SevMedium)"

definition tier_category :: "tier \<Rightarrow> category" where
  "tier_category t = (if t = TierElevated then ObjectPropertyExposure else SensitiveDataExposure)"

section \<open>The library the program calls\<close>

text \<open>
  Parts of the Go library whose results the model takes as given: the shortest decimal
  text of a \<open>float64\<close> read from a literal (\<open>None\<close> out of range), SHA-256 in hexadecimal,
  \<open>url.Parse\<close> with the accessors used, the text of a URL, and the clock.
\<close>

record go_url =
  u_scheme :: string
  u_host :: string
  u_hostname :: string
  u_port :: string
  u_has_user :: bool
  u_fragment :: string
  u_path :: string
  u_raw_query :: string

record golib =
  gl_float :: "string \<Rightarrow> string option"
  gl_sha256 :: "string \<Rightarrow> string"
  gl_url_parse :: "string \<Rightarrow> go_url option"
  gl_url_string :: "go_url \<Rightarrow> string"
  gl_now :: int

text \<open>An instance to evaluate the model on: number literals are their own shortest text.\<close>

definition sample_lib :: golib where
  "sample_lib = \<lparr>gl_float = \<lambda>s. Some s, gl_sha256 = \<lambda>s. s, gl_url_parse = \<lambda>_. None,
      gl_url_string = u_host, gl_now = 0\<rparr>"

text \<open>And one that knows the URLs of a single host.\<close>

definition sample_net_lib :: golib where
  "sample_net_lib = sample_lib\<lparr>gl_url_parse := (\<lambda>s. if has_prefix s ''http://api/'' then
     Some \<lparr>u_scheme = ''http'', u_host = ''api'', u_hostname = ''api'', u_port = [], u_has_user = False,
       u_fragment = [], u_path = drop 10 s, u_raw_query = []\<rparr> else None)\<rparr>"

section \<open>Facts\<close>

lemma classify_allow_iff:
  "classify_outcome_with st e ds = OAllow \<longleftrightarrow> \<not> e \<and> st \<notin> set ds \<and> 200 \<le> st \<and> st < 300"
  by (auto simp: classify_outcome_with_def)

lemma classify_deny_iff:
  "classify_outcome_with st e ds = ODeny \<longleftrightarrow> \<not> e \<and> (st \<in> set ds \<or> st = 401 \<or> st = 403)"
  by (auto simp: classify_outcome_with_def)

lemma classify_not_none [simp]: "classify_outcome_with st e ds \<noteq> ONone"
  by (simp add: classify_outcome_with_def)

lemma severity_range: "SevInfo \<le> s" "s \<le> SevCritical"
  by (cases s; simp add: less_eq_severity_def severity_rank_def)+

lemma parse_severity_name [simp]: "parse_severity (severity_name s) = Some s"
  by (cases s; hypsubst; code_simp)

end
