(* ===== verification/Compare.thy ===== *)
theory Compare
  imports Model
begin

text \<open>
  \<open>internal/compare\<close>: the value-free profile of a response body, the search for sensitive
  fields, the lookup of a named field or a dotted path in a body, declared denials, and the
  comparison of two responses with the evidence drawn from it.
\<close>

section \<open>Field names\<close>

definition is_separator :: "char \<Rightarrow> bool" where
  "is_separator c \<longleftrightarrow> c = CHR ''_'' \<or> c = CHR ''-'' \<or> c = CHR '' ''"

definition normalize_field :: "string \<Rightarrow> string" where
  "normalize_field name = filter (\<lambda>c. \<not> is_separator c) (to_lower name)"

text \<open>The loop of \<open>matchesNormalized\<close>: \<open>want\<close> is what is left of the wanted name.\<close>

fun matches_loop :: "string \<Rightarrow> string \<Rightarrow> string \<Rightarrow> string \<Rightarrow> bool" where
  "matches_loop name want0 [] want = (want = [])"
| "matches_loop name want0 (c # cs) want =
     (if 128 \<le> byte_of c then normalize_field name = want0
      else if is_separator c then matches_loop name want0 cs want
      else (case want of [] \<Rightarrow> False
            | w # ws \<Rightarrow> (if w \<noteq> lower_char c then False else matches_loop name want0 cs ws)))"

definition matches_normalized :: "string \<Rightarrow> string \<Rightarrow> bool" where
  "matches_normalized name want = matches_loop name want name want"

section \<open>Profiles\<close>

definition max_profile_fields :: nat where "max_profile_fields = 2048"

definition max_profile_depth :: nat where "max_profile_depth = 64"

type_synonym profile_state = "string list \<times> bool"

definition profile_add :: "string \<Rightarrow> string \<Rightarrow> profile_state \<Rightarrow> profile_state" where
  "profile_add path kind st = (List.insert (path @ '':'' @ kind) (fst st), snd st)"

definition profile_full :: "nat \<Rightarrow> profile_state \<Rightarrow> bool" where
  "profile_full depth st \<longleftrightarrow> max_profile_depth < depth \<or> max_profile_fields \<le> length (fst st)"

definition profile_leaf :: "nat \<Rightarrow> string \<Rightarrow> string \<Rightarrow> profile_state \<Rightarrow> profile_state" where
  "profile_leaf depth path kind st =
     (if profile_full depth st then (fst st, True) else profile_add path kind st)"

function (sequential) walk_profile :: "gval \<Rightarrow> string \<Rightarrow> nat \<Rightarrow> profile_state \<Rightarrow> profile_state"
and walk_profile_elems :: "gval list \<Rightarrow> string \<Rightarrow> nat \<Rightarrow> profile_state \<Rightarrow> profile_state"
and walk_profile_members :: "(string \<times> gval) list \<Rightarrow> string \<Rightarrow> nat \<Rightarrow> profile_state \<Rightarrow> profile_state"
where
  "walk_profile (GObj ps) path depth st =
     (if profile_full depth st then (fst st, True)
      else walk_profile_members ps path (depth + 1) (profile_add path ''object'' st))"
| "walk_profile (GArr vs) path depth st =
     (if profile_full depth st then (fst st, True)
      else walk_profile_elems vs path (depth + 1) (profile_add path ''array'' st))"
| "walk_profile (GStr w) path depth st = profile_leaf depth path ''string'' st"
| "walk_profile (GNum w) path depth st = profile_leaf depth path ''number'' st"
| "walk_profile (GBool b) path depth st = profile_leaf depth path ''boolean'' st"
| "walk_profile GNull path depth st = profile_leaf depth path ''null'' st"
| "walk_profile_elems [] path depth st = st"
| "walk_profile_elems (v # vs) path depth st =
     walk_profile_elems vs path depth (walk_profile v (path @ ''[]'') depth st)"
| "walk_profile_members [] path depth st = st"
| "walk_profile_members ((k, v) # ps) path depth st =
     walk_profile_members ps path depth (walk_profile v (path @ ''.'' @ k) depth st)"
  by pat_completeness auto
termination
  by (relation "measure (\<lambda>x. case x of Inl a \<Rightarrow> size (fst a)
        | Inr (Inl a) \<Rightarrow> size_list size (fst a)
        | Inr (Inr a) \<Rightarrow> size_list (size_prod (\<lambda>_. 0) size) (fst a))") auto

text \<open>What precedes the last colon of a token, where there is one past the first byte.\<close>

definition token_field :: "string \<Rightarrow> string option" where
  "token_field t = (case dropWhile (\<lambda>c. c \<noteq> CHR '':'') (rev t) of
     [] \<Rightarrow> None | _ # r \<Rightarrow> (if r = [] then None else Some (rev r)))"

definition profile_of :: "golib \<Rightarrow> string \<Rightarrow> response_profile option" where
  "profile_of L body =
     (if trim_space body = [] then None
      else case unmarshal_any (gl_float L) body of
        None \<Rightarrow> Some \<lparr>rp_kind = ''text'', rp_hash = [], rp_fields = [], rp_truncated = False\<rparr>
      | Some v \<Rightarrow>
         (let (seen, truncated) = walk_profile v ''$'' 0 ([], False);
              tokens = sort seen;
              flds = sort (remdups (List.map_filter token_field tokens))
          in Some \<lparr>rp_kind = ''json'', rp_hash = gl_sha256 L (join_with [CHR 0x0A] tokens),
                    rp_fields = flds, rp_truncated = truncated\<rparr>))"

section \<open>Sensitive fields\<close>

definition sensitive_tiers :: "(tier \<times> string list) list" where
  "sensitive_tiers =
    [(TierCritical,
      [''password'', ''passwd'', ''pwd'', ''secret'', ''token'', ''access_token'',
       ''refresh_token'', ''api_key'', ''apikey'', ''private_key'', ''client_secret'',
       ''session_token'', ''salt'', ''password_hash'', ''cvv'', ''pin'', ''credit_card'',
       ''card_number'', ''security_answer'']),
     (TierElevated,
      [''role'', ''roles'', ''permission'', ''permissions'', ''privilege'', ''privileges'',
       ''scope'', ''scopes'', ''is_admin'', ''is_superuser'', ''is_staff'', ''admin'',
       ''access_level'', ''tier'', ''plan'', ''subscription'', ''balance'',
       ''account_balance'', ''credit_limit'', ''salary'', ''compensation'']),
     (TierPII,
      [''email'', ''email_address'', ''phone'', ''phone_number'', ''mobile'', ''address'',
       ''street_address'', ''postal_code'', ''ssn'', ''social_security_number'',
       ''date_of_birth'', ''dob'', ''birth_date'', ''passport'', ''passport_number'',
       ''drivers_license'', ''national_id'', ''tax_id'']),
     (TierInternal,
      [''created_by'', ''updated_by'', ''deleted_by'', ''created_by_id'',
       ''updated_by_id'', ''internal_id'', ''internal_notes'', ''debug'', ''trace'',
       ''stack_trace'', ''raw_query'', ''sql''])]"

definition default_sensitive_fields :: "string list" where
  "default_sensitive_fields = sort (concat (map snd sensitive_tiers))"

definition wanted_fields :: "string list \<Rightarrow> (string \<times> tier) list" where
  "wanted_fields declared =
     (if declared \<noteq> [] then map (\<lambda>f. (normalize_field f, TierDeclared)) declared
      else concat (map (\<lambda>(t, names). map (\<lambda>f. (normalize_field f, t)) names) sensitive_tiers))"

record sensitive_hit =
  sh_path :: string
  sh_field :: string
  sh_tier :: tier

definition child_path :: "string \<Rightarrow> string \<Rightarrow> string" where
  "child_path path k = (if path = [] then k else path @ ''.'' @ k)"

text \<open>\<open>seen\<close> of the source is the set of the paths already hit.\<close>

definition hit_field :: "(string \<times> tier) list \<Rightarrow> string \<Rightarrow> string \<Rightarrow> sensitive_hit list \<Rightarrow> sensitive_hit list" where
  "hit_field want k path hits =
     (case map_of want (normalize_field k) of
        None \<Rightarrow> hits
      | Some t \<Rightarrow> if path \<in> sh_path ` set hits then hits
                  else hits @ [\<lparr>sh_path = path, sh_field = k, sh_tier = t\<rparr>])"

function (sequential) walk_sensitive :: "(string \<times> tier) list \<Rightarrow> gval \<Rightarrow> string \<Rightarrow> sensitive_hit list \<Rightarrow> sensitive_hit list"
and walk_sensitive_elems :: "(string \<times> tier) list \<Rightarrow> gval list \<Rightarrow> string \<Rightarrow> sensitive_hit list \<Rightarrow> sensitive_hit list"
and walk_sensitive_members :: "(string \<times> tier) list \<Rightarrow> (string \<times> gval) list \<Rightarrow> string
      \<Rightarrow> sensitive_hit list \<Rightarrow> sensitive_hit list" where
  "walk_sensitive want (GObj ps) path hits = walk_sensitive_members want ps path hits"
| "walk_sensitive want (GArr vs) path hits = walk_sensitive_elems want vs (path @ ''[]'') hits"
| "walk_sensitive want (GStr w) path hits = hits"
| "walk_sensitive want (GNum w) path hits = hits"
| "walk_sensitive want (GBool b) path hits = hits"
| "walk_sensitive want GNull path hits = hits"
| "walk_sensitive_elems want [] path hits = hits"
| "walk_sensitive_elems want (v # vs) path hits =
     walk_sensitive_elems want vs path (walk_sensitive want v path hits)"
| "walk_sensitive_members want [] path hits = hits"
| "walk_sensitive_members want ((k, v) # ps) path hits =
     walk_sensitive_members want ps path
       (walk_sensitive want v (child_path path k) (hit_field want k (child_path path k) hits))"
  by pat_completeness auto
termination
  by (relation "measure (\<lambda>x. case x of Inl a \<Rightarrow> size ((fst o snd) a)
        | Inr (Inl a) \<Rightarrow> size_list size ((fst o snd) a)
        | Inr (Inr a) \<Rightarrow> size_list (size_prod (\<lambda>_. 0) size) ((fst o snd) a))") auto

definition scan_sensitive :: "golib \<Rightarrow> string \<Rightarrow> string list \<Rightarrow> sensitive_hit list" where
  "scan_sensitive L body declared =
     (if body = [] then []
      else case unmarshal_any (gl_float L) body of
        None \<Rightarrow> []
      | Some v \<Rightarrow> sort_key sh_path (walk_sensitive (wanted_fields declared) v [] []))"

definition sensitive_fields_present :: "golib \<Rightarrow> string \<Rightarrow> string list \<Rightarrow> string list" where
  "sensitive_fields_present L body flds = sort (remdups (map sh_field (scan_sensitive L body flds)))"

definition sensitive_field_set :: "golib \<Rightarrow> string \<Rightarrow> string list \<Rightarrow> string set" where
  "sensitive_field_set L body flds = (\<lambda>h. normalize_field (sh_field h)) ` set (scan_sensitive L body flds)"

section \<open>Looking a field up\<close>

definition scalar_string :: "gval \<Rightarrow> string option" where
  "scalar_string v = (case v of GStr w \<Rightarrow> Some w
     | GBool b \<Rightarrow> Some (if b then ''true'' else ''false'')
     | GNum w \<Rightarrow> Some w | _ \<Rightarrow> None)"

datatype field_result = FieldMissing | FieldFound string string | FieldAmbiguous

text \<open>
  The keys of one object that carry a scalar and match after normalization, those spelled
  as the field first; a level whose matches disagree is ambiguous and ends the search.
\<close>

definition level_keys :: "(string \<times> gval) list \<Rightarrow> string \<Rightarrow> string \<Rightarrow> bool \<Rightarrow> (string \<times> string) list" where
  "level_keys ps field want exact =
     List.map_filter (\<lambda>(k, v). case scalar_string v of None \<Rightarrow> None
        | Some s \<Rightarrow> if matches_normalized k want \<and> equal_fold k field = exact then Some (k, s) else None) ps"

definition level_tier :: "(string \<times> string) list \<Rightarrow> field_result option" where
  "level_tier ks = (case ks of [] \<Rightarrow> None
     | (k, s) # rest \<Rightarrow> Some (if \<forall>p \<in> set rest. snd p = s then FieldFound k s else FieldAmbiguous))"

definition level_result :: "(string \<times> gval) list \<Rightarrow> string \<Rightarrow> string \<Rightarrow> field_result option" where
  "level_result ps field want =
     (case level_tier (level_keys ps field want True) of
        Some r \<Rightarrow> Some r
      | None \<Rightarrow> level_tier (level_keys ps field want False))"

function (sequential) find_scalar :: "gval \<Rightarrow> string \<Rightarrow> string \<Rightarrow> field_result"
and find_in_elems :: "gval list \<Rightarrow> string \<Rightarrow> string \<Rightarrow> field_result"
and find_in_members :: "(string \<times> gval) list \<Rightarrow> string \<Rightarrow> string \<Rightarrow> field_result" where
  "find_scalar (GObj ps) field want =
     (case level_result ps field want of Some r \<Rightarrow> r | None \<Rightarrow> find_in_members ps field want)"
| "find_scalar (GArr vs) field want = find_in_elems vs field want"
| "find_scalar (GStr w) field want = FieldMissing"
| "find_scalar (GNum w) field want = FieldMissing"
| "find_scalar (GBool b) field want = FieldMissing"
| "find_scalar GNull field want = FieldMissing"
| "find_in_elems [] field want = FieldMissing"
| "find_in_elems (v # vs) field want =
     (case find_scalar v field want of FieldMissing \<Rightarrow> find_in_elems vs field want | r \<Rightarrow> r)"
| "find_in_members [] field want = FieldMissing"
| "find_in_members ((k, v) # ps) field want =
     (case find_scalar v field want of FieldMissing \<Rightarrow> find_in_members ps field want | r \<Rightarrow> r)"
  by pat_completeness auto
termination
  by (relation "measure (\<lambda>x. case x of Inl a \<Rightarrow> size (fst a)
        | Inr (Inl a) \<Rightarrow> size_list size (fst a)
        | Inr (Inr a) \<Rightarrow> size_list (size_prod (\<lambda>_. 0) size) (fst a))") auto

definition find_field :: "golib \<Rightarrow> string \<Rightarrow> string \<Rightarrow> (string \<times> string) option" where
  "find_field L body field =
     (if body = [] \<or> field = [] then None
      else case unmarshal_any (gl_float L) body of
        None \<Rightarrow> None
      | Some v \<Rightarrow> (case find_scalar v field (normalize_field field) of
                    FieldFound k s \<Rightarrow> Some (k, s) | _ \<Rightarrow> None))"

definition field_value :: "golib \<Rightarrow> string \<Rightarrow> string \<Rightarrow> string option" where
  "field_value L body field = map_option snd (find_field L body field)"

text \<open>Where several keys differ from the wanted one in case only, the first in key order.\<close>

definition lookup_insensitive :: "(string \<times> gval) list \<Rightarrow> string \<Rightarrow> gval option" where
  "lookup_insensitive ps key = (case map_of ps key of Some v \<Rightarrow> Some v
     | None \<Rightarrow> map_option snd (List.find (\<lambda>(k, v). equal_fold k key) ps))"

definition unwrap_single :: "gval \<Rightarrow> gval" where
  "unwrap_single v = (case v of GArr [w] \<Rightarrow> w | _ \<Rightarrow> v)"

fun walk_path :: "gval \<Rightarrow> string list \<Rightarrow> gval option" where
  "walk_path v [] = Some v"
| "walk_path v (seg # segs) =
     (case unwrap_single v of
        GObj ps \<Rightarrow> (case lookup_insensitive ps seg of None \<Rightarrow> None | Some w \<Rightarrow> walk_path w segs)
      | _ \<Rightarrow> None)"

definition value_at_path :: "golib \<Rightarrow> string \<Rightarrow> string \<Rightarrow> string option" where
  "value_at_path L body path =
     (if body = [] \<or> path = [] then None
      else case unmarshal_any (gl_float L) body of
        None \<Rightarrow> None
      | Some v \<Rightarrow> (case walk_path v (split_on (CHR ''.'') path) of
                    None \<Rightarrow> None | Some w \<Rightarrow> scalar_string (unwrap_single w)))"

section \<open>Declared denials\<close>

definition body_needle :: "string \<Rightarrow> string list \<Rightarrow> string option" where
  "body_needle body needles =
     List.find (\<lambda>n. n \<noteq> [] \<and> contains (to_lower body) (to_lower n)) needles"

definition json_field_denies :: "golib \<Rightarrow> string \<Rightarrow> json_field_match option \<Rightarrow> deny_reason option" where
  "json_field_denies L body m = (case m of None \<Rightarrow> None
     | Some f \<Rightarrow>
        if jf_path f = [] then None
        else (case value_at_path L body (jf_path f) of
                None \<Rightarrow> None
              | Some val \<Rightarrow>
                  if jf_equals f = [] then Some (DRFieldPresent (jf_path f))
                  else if equal_fold val (jf_equals f)
                    then Some (DRFieldEquals (jf_path f) (jf_equals f)) else None))"

definition matches_deny :: "golib \<Rightarrow> string \<Rightarrow> deny_condition option \<Rightarrow> deny_reason option" where
  "matches_deny L body cond =
     (if deny_is_zero cond \<or> body = [] then None
      else case cond of None \<Rightarrow> None
      | Some c \<Rightarrow>
         (case body_needle body (dc_body_contains c) of
            Some n \<Rightarrow> Some (DRBodyContains n)
          | None \<Rightarrow> json_field_denies L body (dc_json_field c)))"

section \<open>Comparing two responses\<close>

definition looks_like_json :: "string \<Rightarrow> bool" where
  "looks_like_json b = (case trim_space b of [] \<Rightarrow> False | c # _ \<Rightarrow> c = CHR ''{'' \<or> c = CHR ''['')"

text \<open>
  The source re-marshals both decoded values and compares the bytes; marshalling a decoded
  value is injective, so that is equality of the values.
\<close>

definition normalized_equal :: "golib \<Rightarrow> string \<Rightarrow> string \<Rightarrow> bool" where
  "normalized_equal L a b =
     (case (unmarshal_any (gl_float L) a, unmarshal_any (gl_float L) b) of
        (Some va, Some vb) \<Rightarrow> va = vb | _ \<Rightarrow> False)"

text \<open>\<open>compareFields\<close> on two duplicate-free lists: shared count, union count, the differences.\<close>

definition compare_fields :: "string list \<Rightarrow> string list \<Rightarrow> nat \<times> nat \<times> string list \<times> string list" where
  "compare_fields a b =
     (let sa = remdups a; sb = remdups b;
          shared = length (filter (\<lambda>f. f \<in> set sb) sa);
          only_a = sort (filter (\<lambda>f. f \<notin> set sb) sa);
          only_b = sort (filter (\<lambda>f. f \<notin> set sa) sb)
      in (shared, length sa + length sb - shared, only_a, only_b))"

definition json_profiles :: "response_profile option \<Rightarrow> response_profile option
    \<Rightarrow> (response_profile \<times> response_profile) option" where
  "json_profiles pa pb = (case (pa, pb) of
     (Some a, Some b) \<Rightarrow> (if rp_kind a = ''json'' \<and> rp_kind b = ''json'' then Some (a, b) else None)
   | _ \<Rightarrow> None)"

definition status_notes :: "execution_result \<Rightarrow> execution_result \<Rightarrow> cmp_note list" where
  "status_notes a b = (if er_status a = er_status b then []
     else [NStatusMismatch (er_identity a) (er_status a) (er_identity b) (er_status b)])"

definition sensitive_notes :: "golib \<Rightarrow> execution_result \<Rightarrow> execution_result \<Rightarrow> string list \<Rightarrow> cmp_note list" where
  "sensitive_notes L a b flds =
     (let sa = sensitive_field_set L (er_body a) flds; sb = sensitive_field_set L (er_body b) flds
      in List.map_filter (\<lambda>f. let ina = normalize_field f \<in> sa; inb = normalize_field f \<in> sb in
           if ina \<noteq> inb then Some (NSensitiveOnlyIn f (if ina then er_identity a else er_identity b))
           else None) flds)"

definition compare_results :: "golib \<Rightarrow> execution_result \<Rightarrow> execution_result \<Rightarrow> string list \<Rightarrow> comparison_result" where
  "compare_results L a b declared =
     (let flds = (if declared = [] then default_sensitive_fields else declared);
          raw_match = (er_body a = er_body b);
          size_diff = (if raw_match then 0 else int (length (er_body b)) - int (length (er_body a)));
          profs = json_profiles (profile_of L (er_body a)) (profile_of L (er_body b));
          schema = (case profs of None \<Rightarrow> False
            | Some (pa, pb) \<Rightarrow> rp_hash pa = rp_hash pb \<and> \<not> rp_truncated pa \<and> \<not> rp_truncated pb);
          cmp = (case profs of None \<Rightarrow> (0, 0, [], [])
            | Some (pa, pb) \<Rightarrow> compare_fields (rp_fields pa) (rp_fields pb));
          schema_notes = (case profs of None \<Rightarrow> []
            | Some _ \<Rightarrow> (if schema \<and> \<not> raw_match then [NSchemasMatch]
                        else if \<not> schema then [NSchemaOverlap (fst cmp) (fst (snd cmp))] else []));
          both_json = looks_like_json (er_body a) \<and> looks_like_json (er_body b);
          norm_match = \<not> raw_match \<and> both_json \<and> normalized_equal L (er_body a) (er_body b);
          body_notes =
            (if raw_match then []
             else if both_json then
               (if norm_match then [NWhitespaceOnly] else [NJsonMismatch (er_identity a) (er_identity b)])
             else [NBodySize \<bar>size_diff\<bar> (er_identity a) (length (er_body a))
                     (er_identity b) (length (er_body b))])
      in \<lparr>co_status_match = (er_status a = er_status b), co_body_match = (raw_match \<or> norm_match),
          co_schema_match = schema, co_shared = fst cmp, co_union = fst (snd cmp),
          co_only_a = fst (snd (snd cmp)), co_only_b = snd (snd (snd cmp)),
          co_size_diff = size_diff,
          co_notes = status_notes a b @ schema_notes @ body_notes @ sensitive_notes L a b flds\<rparr>)"

definition evidence_of :: "execution_result \<Rightarrow> execution_result \<Rightarrow> comparison_result \<Rightarrow> evidence list" where
  "evidence_of a b cr =
     (if co_status_match cr then []
      else [EvStatusCodes (er_identity a) (er_status a) (er_identity b) (er_status b)])
   @ (if co_body_match cr then [] else [EvBodiesDiffer (co_size_diff cr)])
   @ (if co_schema_match cr \<and> \<not> co_body_match cr
      then [EvSchemaMatchesBaseline (co_shared cr) (co_union cr)] else [])
   @ (if co_only_a cr = [] then [] else [EvOnlyInBaseline (co_only_a cr)])
   @ (if co_only_b cr = [] then [] else [EvOnlyInCompared (co_only_b cr)])
   @ map EvNote (co_notes cr)"

section \<open>The matching loop agrees with normalization\<close>

lemma normalize_field_Nil [simp]: "normalize_field [] = []"
  by (simp add: normalize_field_def to_lower_def)

lemma is_separator_lower [simp]: "is_separator (lower_char c) = is_separator c"
proof (cases "is_upper c")
  case True
  have "byte_of (lower_char c) = byte_of c + 32" using True
    by (simp add: lower_char_def is_upper_def)
  moreover have "65 \<le> byte_of c" "byte_of c \<le> 90" using True by (auto simp: is_upper_def)
  moreover have "is_separator d \<longleftrightarrow> byte_of d = 95 \<or> byte_of d = 45 \<or> byte_of d = 32" for d
    using byte_of_eq_iff [of d "CHR ''_''"] byte_of_eq_iff [of d "CHR ''-''"]
      byte_of_eq_iff [of d "CHR '' ''"]
    by (auto simp: is_separator_def byte_of_def)
  ultimately show ?thesis by auto
qed (simp add: lower_char_def)

lemma normalize_field_Cons:
  "normalize_field (c # cs) =
     (if is_separator c then normalize_field cs else lower_char c # normalize_field cs)"
  by (simp add: normalize_field_def to_lower_def)

lemma normalize_field_idem [simp]: "normalize_field (normalize_field s) = normalize_field s"
  by (induction s) (auto simp: normalize_field_Cons)

lemma matches_loop_correct:
  assumes "normalize_field name = pre @ normalize_field rest" "want0 = pre @ want"
  shows "matches_loop name want0 rest want \<longleftrightarrow> normalize_field name = want0"
  using assms
proof (induction rest arbitrary: pre want)
  case (Cons c cs)
  show ?case
  proof (cases "128 \<le> byte_of c \<or> is_separator c")
    case True
    then show ?thesis using Cons.prems Cons.IH [of pre want] by (auto simp: normalize_field_Cons)
  next
    case False
    then show ?thesis
      using Cons.prems Cons.IH [of "pre @ [lower_char c]" "tl want"]
      by (cases want) (auto simp: normalize_field_Cons)
  qed
qed auto

lemma matches_normalized_correct:
  "matches_normalized name want \<longleftrightarrow> normalize_field name = want"
  unfolding matches_normalized_def by (rule matches_loop_correct [where pre = "[]"]) simp_all

section \<open>Profiles are bounded and value-free\<close>

text \<open>The shape of a value: what is left when every scalar is replaced by a fixed one.\<close>

fun gshape :: "gval \<Rightarrow> gval"
and gshapes :: "gval list \<Rightarrow> gval list"
and mshapes :: "(string \<times> gval) list \<Rightarrow> (string \<times> gval) list" where
  "gshape (GObj ps) = GObj (mshapes ps)"
| "gshape (GArr vs) = GArr (gshapes vs)"
| "gshape (GStr w) = GStr []"
| "gshape (GNum w) = GNum []"
| "gshape (GBool b) = GBool False"
| "gshape GNull = GNull"
| "gshapes [] = []"
| "gshapes (v # vs) = gshape v # gshapes vs"
| "mshapes [] = []"
| "mshapes ((k, v) # ps) = (k, gshape v) # mshapes ps"

lemma walk_profile_gshape:
  "walk_profile (gshape v) path depth st = walk_profile v path depth st"
  "walk_profile_elems (gshapes vs) path depth st = walk_profile_elems vs path depth st"
  "walk_profile_members (mshapes ps) path depth st = walk_profile_members ps path depth st"
  by (induction v and vs and ps arbitrary: path depth st and path depth st and path depth st
        rule: gshape_gshapes_mshapes.induct) simp_all

definition profile_bounded :: "profile_state \<Rightarrow> bool" where
  "profile_bounded st \<longleftrightarrow> distinct (fst st) \<and> length (fst st) \<le> max_profile_fields"

lemma profile_add_bounded [inv_intro]:
  "profile_bounded st \<Longrightarrow> \<not> profile_full depth st \<Longrightarrow> profile_bounded (profile_add path kind st)"
  by (auto simp: profile_bounded_def profile_full_def profile_add_def List.insert_def)

lemma profile_cut_bounded [inv_intro]: "profile_bounded st \<Longrightarrow> profile_bounded (fst st, b)"
  by (simp add: profile_bounded_def)

lemma walk_profile_bounded:
  "profile_bounded st \<Longrightarrow> profile_bounded (walk_profile v path depth st)"
  "profile_bounded st \<Longrightarrow> profile_bounded (walk_profile_elems vs path depth st)"
  "profile_bounded st \<Longrightarrow> profile_bounded (walk_profile_members ps path depth st)"
  by (induction v path depth st and vs path depth st and ps path depth st
        rule: walk_profile_walk_profile_elems_walk_profile_members.induct)
     (auto simp: profile_leaf_def intro: inv_intro)

lemma length_map_filter_le: "length (List.map_filter f xs) \<le> length xs"
  by (induction xs) (auto simp: List.map_filter_simps split: option.splits)

lemma length_remdups_filter: "length (remdups (List.map_filter f xs)) \<le> length xs"
  by (rule order_trans [OF length_remdups_leq length_map_filter_le])

text \<open>
  C40. The profile published for a response lists at most 2048 distinct structural paths and
  is a function of the body's shape alone: two JSON bodies that agree up to their scalar
  values have the same profile, so no value can be read back from it.
\<close>

theorem profile_bounded_and_value_free:
  assumes "unmarshal_any (gl_float L) a = Some va" and "unmarshal_any (gl_float L) b = Some vb"
    and "gshape va = gshape vb" and "trim_space a \<noteq> []" and "trim_space b \<noteq> []"
  shows "\<exists>p. profile_of L a = Some p \<and> profile_of L b = Some p
    \<and> length (rp_fields p) \<le> 2048 \<and> distinct (rp_fields p)"
proof -
  let ?st = "walk_profile va ''$'' 0 ([], False)"
  have eq: "walk_profile vb ''$'' 0 ([], False) = ?st"
    using assms(3) walk_profile_gshape(1) by metis
  have "profile_bounded ?st"
    by (rule walk_profile_bounded) (simp add: profile_bounded_def max_profile_fields_def)
  then have "length (remdups (List.map_filter token_field (sort (fst ?st)))) \<le> 2048"
    using length_remdups_filter [of token_field "sort (fst ?st)"]
    by (simp add: profile_bounded_def max_profile_fields_def)
  then show ?thesis
    using assms by (simp add: profile_of_def case_prod_beta Let_def eq)
qed

section \<open>The sensitive fields found\<close>

text \<open>Every key of a value with the path it is found at, arrays collapsed to one path.\<close>

function (sequential) key_paths :: "gval \<Rightarrow> string \<Rightarrow> (string \<times> string) list"
and key_paths_elems :: "gval list \<Rightarrow> string \<Rightarrow> (string \<times> string) list"
and key_paths_members :: "(string \<times> gval) list \<Rightarrow> string \<Rightarrow> (string \<times> string) list" where
  "key_paths (GObj ps) path = key_paths_members ps path"
| "key_paths (GArr vs) path = key_paths_elems vs (path @ ''[]'')"
| "key_paths v path = []"
| "key_paths_elems [] path = []"
| "key_paths_elems (v # vs) path = key_paths v path @ key_paths_elems vs path"
| "key_paths_members [] path = []"
| "key_paths_members ((k, v) # ps) path =
     (child_path path k, k) # key_paths v (child_path path k) @ key_paths_members ps path"
  by pat_completeness auto
termination
  by (relation "measure (\<lambda>x. case x of Inl a \<Rightarrow> size (fst a)
        | Inr (Inl a) \<Rightarrow> size_list size (fst a)
        | Inr (Inr a) \<Rightarrow> size_list (size_prod (\<lambda>_. 0) size) (fst a))") auto

definition wanted_paths :: "(string \<times> tier) list \<Rightarrow> (string \<times> string) list \<Rightarrow> string set" where
  "wanted_paths want ks = fst ` {p \<in> set ks. map_of want (normalize_field (snd p)) \<noteq> None}"

lemma wanted_paths_append [simp]:
  "wanted_paths want (xs @ ys) = wanted_paths want xs \<union> wanted_paths want ys"
  by (auto simp: wanted_paths_def)

lemma wanted_paths_Nil [simp]: "wanted_paths want [] = {}"
  by (simp add: wanted_paths_def)

lemma wanted_paths_Cons:
  "wanted_paths want ((p, k) # ks) =
     (if map_of want (normalize_field k) = None then {} else {p}) \<union> wanted_paths want ks"
  by (auto simp: wanted_paths_def Collect_disj_eq conj_disj_distribR image_Un split: if_splits)

lemma hit_field_paths:
  "sh_path ` set (hit_field want k p hits) =
     (if map_of want (normalize_field k) = None then {} else {p}) \<union> sh_path ` set hits"
  by (auto simp: hit_field_def split: option.splits)

lemma walk_sensitive_paths:
  "sh_path ` set (walk_sensitive want v path hits) = wanted_paths want (key_paths v path) \<union> sh_path ` set hits"
  "sh_path ` set (walk_sensitive_elems want vs path hits)
     = wanted_paths want (key_paths_elems vs path) \<union> sh_path ` set hits"
  "sh_path ` set (walk_sensitive_members want ps path hits)
     = wanted_paths want (key_paths_members ps path) \<union> sh_path ` set hits"
  by (induction want v path hits and want vs path hits and want ps path hits
        rule: walk_sensitive_walk_sensitive_elems_walk_sensitive_members.induct)
     (auto simp: hit_field_paths wanted_paths_Cons)

text \<open>What a hit records: a wanted key, its tier, one hit per path.\<close>

definition hits_ok :: "(string \<times> tier) list \<Rightarrow> sensitive_hit list \<Rightarrow> bool" where
  "hits_ok want hits \<longleftrightarrow> distinct (map sh_path hits) \<and>
     (\<forall>h\<in>set hits. map_of want (normalize_field (sh_field h)) = Some (sh_tier h))"

lemma hit_field_ok [inv_intro]: "hits_ok want hits \<Longrightarrow> hits_ok want (hit_field want k p hits)"
  by (auto simp: hits_ok_def hit_field_def split: option.splits)

lemma walk_sensitive_ok [inv_intro]:
  "hits_ok want hits \<Longrightarrow> hits_ok want (walk_sensitive want v path hits)"
  "hits_ok want hits \<Longrightarrow> hits_ok want (walk_sensitive_elems want vs path hits)"
  "hits_ok want hits \<Longrightarrow> hits_ok want (walk_sensitive_members want ps path hits)"
  by (induction want v path hits and want vs path hits and want ps path hits
        rule: walk_sensitive_walk_sensitive_elems_walk_sensitive_members.induct)
     (auto intro: inv_intro)

lemma distinct_map_sort_key [simp]: "distinct (map f (sort_key g xs)) = distinct (map f xs)"
  by (simp add: distinct_map)

lemma hits_ok_sort: "hits_ok want (sort_key f hits) = hits_ok want hits"
  by (simp add: hits_ok_def)

lemma key_paths_gshape:
  "key_paths (gshape v) path = key_paths v path"
  "key_paths_elems (gshapes vs) path = key_paths_elems vs path"
  "key_paths_members (mshapes ps) path = key_paths_members ps path"
  by (induction v and vs and ps arbitrary: path and path and path
        rule: gshape_gshapes_mshapes.induct) simp_all

text \<open>
  C39. The sensitive fields reported for a body are exactly its keys whose normalized name is
  wanted: one hit for each path at which such a key occurs, none missing and none repeated,
  in ascending path order, each with the tier of its field.
\<close>

theorem scan_sensitive_exact:
  assumes "body \<noteq> []" and "unmarshal_any (gl_float L) body = Some v"
    and "want = wanted_fields declared" and "hits = scan_sensitive L body declared"
  shows "sh_path ` set hits = wanted_paths want (key_paths v []) \<and> distinct (map sh_path hits)
    \<and> sorted (map sh_path hits)
    \<and> (\<forall>h\<in>set hits. map_of want (normalize_field (sh_field h)) = Some (sh_tier h))"
proof -
  have ok: "hits_ok want (walk_sensitive want v [] [])"
    by (rule inv_intro) (simp add: hits_ok_def)
  have eq: "hits = sort_key sh_path (walk_sensitive want v [] [])"
    using assms by (simp add: scan_sensitive_def)
  have "hits_ok want hits" using ok by (simp add: eq hits_ok_sort)
  moreover have "sh_path ` set hits = wanted_paths want (key_paths v [])"
    using walk_sensitive_paths(1) [of want v "[]" "[]"] by (simp add: eq)
  moreover have "sorted (map sh_path hits)" by (simp add: eq)
  ultimately show ?thesis by (simp add: hits_ok_def)
qed

lemma scan_sensitive_exact_witness:
  "map (\<lambda>h. (sh_path h, sh_tier h)) (scan_sensitive sample_lib
       ''{\"user\":[{\"Is-Admin\":true},{\"Is-Admin\":1}]}'' []) = [(''user[].Is-Admin'', TierElevated)]
   \<and> distinct (map sh_path (scan_sensitive sample_lib
       ''{\"user\":[{\"Is-Admin\":true},{\"Is-Admin\":1}]}'' []))"
proof -
  have u: "unmarshal_any (gl_float sample_lib) ''{\"user\":[{\"Is-Admin\":true},{\"Is-Admin\":1}]}''
      = Some (GObj [(''user'', GArr [GObj [(''Is-Admin'', GBool True)], GObj [(''Is-Admin'', GNum ''1'')]])])"
    by code_simp
  have "map (\<lambda>h. (sh_path h, sh_tier h)) (scan_sensitive sample_lib
       ''{\"user\":[{\"Is-Admin\":true},{\"Is-Admin\":1}]}'' []) = [(''user[].Is-Admin'', TierElevated)]"
    by code_simp
  then show ?thesis
    using scan_sensitive_exact [OF list.simps(3) u refl refl, of "[]"] by blast
qed

lemma profile_bounded_and_value_free_witness:
  "\<exists>p. profile_of sample_lib ''{\"id\":1}'' = Some p \<and> profile_of sample_lib ''{\"id\":22}'' = Some p
    \<and> length (rp_fields p) \<le> 2048 \<and> distinct (rp_fields p)"
proof (rule profile_bounded_and_value_free)
  show "unmarshal_any (gl_float sample_lib) ''{\"id\":1}'' = Some (GObj [(''id'', GNum ''1'')])"
    and "unmarshal_any (gl_float sample_lib) ''{\"id\":22}'' = Some (GObj [(''id'', GNum ''22'')])"
    and "gshape (GObj [(''id'', GNum ''1'')]) = gshape (GObj [(''id'', GNum ''22'')])"
    and "trim_space ''{\"id\":1}'' \<noteq> []" and "trim_space ''{\"id\":22}'' \<noteq> []"
    by code_simp+
qed

section \<open>The field a body names\<close>

text \<open>Every key of a value that carries a scalar, at any depth.\<close>

function (sequential) scalar_members :: "gval \<Rightarrow> (string \<times> string) list"
and scalar_members_elems :: "gval list \<Rightarrow> (string \<times> string) list"
and scalar_members_members :: "(string \<times> gval) list \<Rightarrow> (string \<times> string) list" where
  "scalar_members (GObj ps) = scalar_members_members ps"
| "scalar_members (GArr vs) = scalar_members_elems vs"
| "scalar_members v = []"
| "scalar_members_elems [] = []"
| "scalar_members_elems (v # vs) = scalar_members v @ scalar_members_elems vs"
| "scalar_members_members [] = []"
| "scalar_members_members ((k, v) # ps) =
     (case scalar_string v of None \<Rightarrow> [] | Some s \<Rightarrow> [(k, s)]) @ scalar_members v @ scalar_members_members ps"
  by pat_completeness auto
termination
  by (relation "measure (\<lambda>x. case x of Inl a \<Rightarrow> size a | Inr (Inl a) \<Rightarrow> size_list size a
        | Inr (Inr a) \<Rightarrow> size_list (size_prod (\<lambda>_. 0) size) a)") auto

lemma level_keys_member:
  "(k, s) \<in> set (level_keys ps field want b) \<longleftrightarrow>
     (\<exists>v. (k, v) \<in> set ps \<and> scalar_string v = Some s \<and> matches_normalized k want \<and> equal_fold k field = b)"
  by (force simp: level_keys_def set_map_filter_iff split: option.splits if_splits)

lemma scalar_members_own:
  "(k, v) \<in> set ps \<Longrightarrow> scalar_string v = Some s \<Longrightarrow> (k, s) \<in> set (scalar_members_members ps)"
  by (induction ps) auto

lemma level_tier_found:
  "level_tier ks = Some (FieldFound k s) \<longleftrightarrow> (\<exists>rest. ks = (k, s) # rest \<and> (\<forall>p\<in>set ks. snd p = s))"
  by (auto simp: level_tier_def split: list.splits)

lemma level_tier_None [simp]: "level_tier ks = None \<longleftrightarrow> ks = []"
  by (simp add: level_tier_def split: list.splits)

lemma level_result_found:
  "level_result ps field want = Some (FieldFound k s) \<Longrightarrow>
     (let exact = level_keys ps field want True; loose = level_keys ps field want False in
      if exact \<noteq> [] then (k, s) \<in> set exact \<and> (\<forall>p\<in>set exact. snd p = s)
      else (k, s) \<in> set loose \<and> (\<forall>p\<in>set loose. snd p = s))"
  by (auto simp: level_result_def level_tier_found split: option.splits)

lemma level_result_None:
  "level_result ps field want = None \<longleftrightarrow>
     level_keys ps field want True = [] \<and> level_keys ps field want False = []"
  by (auto simp: level_result_def level_tier_def split: option.splits list.splits)

lemma find_scalar_sound:
  "find_scalar v field want = FieldFound k s \<Longrightarrow> matches_normalized k want \<and> (k, s) \<in> set (scalar_members v)"
  "find_in_elems vs field want = FieldFound k s \<Longrightarrow>
     matches_normalized k want \<and> (k, s) \<in> set (scalar_members_elems vs)"
  "find_in_members ps field want = FieldFound k s \<Longrightarrow>
     matches_normalized k want \<and> (k, s) \<in> set (scalar_members_members ps)"
proof (induction v field want and vs field want and ps field want
    rule: find_scalar_find_in_elems_find_in_members.induct)
  case (1 ps field want)
  show ?case
  proof (cases "level_result ps field want")
    case (Some r)
    with 1 have "level_result ps field want = Some (FieldFound k s)" by simp
    from level_result_found [OF this] show ?thesis
      by (auto simp: level_keys_member Let_def intro: scalar_members_own split: if_splits)
  qed (use 1 in auto)
qed (auto split: field_result.splits)

text \<open>
  A field lookup never guesses: what it returns is a scalar member of the body whose key
  normalizes to the wanted name, and when the body is an object with such keys of its own,
  the answer is one of those, the keys spelled as the field come first, and all the keys
  it was chosen from agree on the value.
\<close>

theorem find_field_never_guesses:
  assumes "unmarshal_any (gl_float L) body = Some v" and "find_field L body field = Some (k, s)"
    and "want = normalize_field field"
  shows "normalize_field k = want \<and> (k, s) \<in> set (scalar_members v)
    \<and> (\<forall>ps. v = GObj ps \<longrightarrow>
         (let exact = level_keys ps field want True; loose = level_keys ps field want False in
          (exact \<noteq> [] \<longrightarrow> (k, s) \<in> set exact \<and> (\<forall>p\<in>set exact. snd p = s))
        \<and> (exact = [] \<and> loose \<noteq> [] \<longrightarrow> (k, s) \<in> set loose \<and> (\<forall>p\<in>set loose. snd p = s))))"
proof -
  have f: "find_scalar v field want = FieldFound k s"
    using assms by (auto simp: find_field_def split: if_splits field_result.splits)
  have top: "if level_keys ps field want True \<noteq> [] \<or> level_keys ps field want False \<noteq> []
      then level_result ps field want = Some (FieldFound k s) else True" if "v = GObj ps" for ps
    using f that by (auto simp: level_result_None split: option.splits)
  show ?thesis
    using find_scalar_sound(1) [OF f] top
    by (fastforce simp: matches_normalized_correct Let_def dest: level_result_found)
qed

lemma find_field_never_guesses_witness:
  "find_field sample_lib ''{\"requester\":{\"tenant_id\":\"b\"},\"tenantId\":\"a\"}'' ''tenant_id''
      = Some (''tenantId'', ''a'')
    \<and> normalize_field ''tenantId'' = normalize_field ''tenant_id''"
proof -
  have u: "unmarshal_any (gl_float sample_lib) ''{\"requester\":{\"tenant_id\":\"b\"},\"tenantId\":\"a\"}''
      = Some (GObj [(''requester'', GObj [(''tenant_id'', GStr ''b'')]), (''tenantId'', GStr ''a'')])"
    by code_simp
  have f: "find_field sample_lib ''{\"requester\":{\"tenant_id\":\"b\"},\"tenantId\":\"a\"}'' ''tenant_id''
      = Some (''tenantId'', ''a'')"
    by code_simp
  show ?thesis using find_field_never_guesses [OF u f refl] f by blast
qed

text \<open>
  The byte loop that matches a key without allocating decides the same as normalizing the
  whole key, for every key and every wanted name.
\<close>

theorem matches_normalized_iff: "matches_normalized name want \<longleftrightarrow> normalize_field name = want"
  by (rule matches_normalized_correct)

section \<open>Shared fields\<close>

lemma length_filter_remdups: "length (filter P (remdups xs)) = card {x \<in> set xs. P x}"
  using distinct_card [of "filter P (remdups xs)"] by simp

text \<open>
  The field comparison counts exactly: the shared count is the size of the intersection,
  the denominator the size of the union, and the two difference lists hold, sorted and
  without repetition, exactly the fields of one side only.
\<close>

theorem compare_fields_exact:
  "compare_fields a b = (card (set a \<inter> set b), card (set a \<union> set b),
     sorted_list_of_set (set a - set b), sorted_list_of_set (set b - set a))"
proof -
  have shared: "length (filter (\<lambda>f. f \<in> set (remdups b)) (remdups a)) = card (set a \<inter> set b)"
    by (simp add: length_filter_remdups Int_def)
  have "length (remdups a) + length (remdups b) - card (set a \<inter> set b) = card (set a \<union> set b)"
    using card_Un_Int [of "set a" "set b"] by (simp add: length_remdups_card_conv)
  moreover have "sort (filter (\<lambda>f. f \<notin> set (remdups y)) (remdups x)) = sorted_list_of_set (set x - set y)"
    for x y :: "string list"
    by (rule sorted_distinct_set_unique) auto
  ultimately show ?thesis
    by (simp only: compare_fields_def Let_def shared)
qed

end
