(* ===== verification/Assertions.thy ===== *)
theory Assertions
  imports Complex_Main GoNum Compare
begin

text \<open>
  \<open>internal/engine/assertions.go\<close>, \<open>assertion_json.go\<close>, \<open>credential.go\<close> and
  \<open>validity.go\<close>: explicit response assertions, the strict JSON decoder with exact
  numbers they compare with, JSON pointers, and what a 401 says about a credential.
\<close>

section \<open>Exact numbers\<close>

text \<open>
  \<open>normalizeNumber\<close> on a literal: coefficient and exponent, both as decimal text. The
  exponent is a big integer there, so an unbounded one here.
\<close>

definition exp_value :: "string \<Rightarrow> int" where
  "exp_value s = (case trim_prefix s ''+'' of [] \<Rightarrow> 0
     | c # cs \<Rightarrow> if c = CHR ''-'' then - int (nat_of_digits cs) else int (nat_of_digits (c # cs)))"

definition split_exponent :: "string \<Rightarrow> string \<times> int" where
  "split_exponent s = (let m = takeWhile (\<lambda>c. c \<noteq> CHR ''e'' \<and> c \<noteq> CHR ''E'') s in
     case drop (length m) s of [] \<Rightarrow> (m, 0) | _ # e \<Rightarrow> (m, exp_value e))"

definition split_point :: "string \<Rightarrow> string \<times> nat" where
  "split_point s = (let m = takeWhile (\<lambda>c. c \<noteq> CHR ''.'') s in
     case drop (length m) s of [] \<Rightarrow> (m, 0) | _ # f \<Rightarrow> (m @ f, length f))"

definition normalize_number :: "string \<Rightarrow> string" where
  "normalize_number s0 =
     (let negative = has_prefix s0 ''-'';
          (s1, e1) = split_exponent (trim_prefix s0 ''-'');
          (s2, n) = split_point s1;
          s3 = trim_left_set s2 ''0'' in
      if s3 = [] then ''0''
      else let trimmed = trim_right_set s3 ''0'';
               e2 = e1 - int n + int (length s3 - length trimmed)
           in (if negative then CHR ''-'' # trimmed else trimmed) @ ''e'' @ show_int e2)"

section \<open>The strict decoder\<close>

text \<open>
  \<open>decodeValue\<close> reads a value from the token stream; it fails on nesting beyond 64, on a
  repeated key and on a number literal longer than 128 bytes. A failure of the token
  stream itself is a document \<open>json_parse\<close> refuses.
\<close>

fun decode_value :: "nat \<Rightarrow> json \<Rightarrow> gval option"
and decode_elems :: "nat \<Rightarrow> json list \<Rightarrow> gval list option"
and decode_members :: "nat \<Rightarrow> (string \<times> json) list \<Rightarrow> (string \<times> gval) list
      \<Rightarrow> (string \<times> gval) list option" where
  "decode_value d JNull = (if 64 < d then None else Some GNull)"
| "decode_value d (JBool b) = (if 64 < d then None else Some (GBool b))"
| "decode_value d (JNum w) =
     (if 64 < d \<or> 128 < length w then None else Some (GNum (normalize_number w)))"
| "decode_value d (JStr w) = (if 64 < d then None else Some (GStr w))"
| "decode_value d (JArr js) = (if 64 < d then None else map_option GArr (decode_elems d js))"
| "decode_value d (JObj ps) = (if 64 < d then None else map_option GObj (decode_members d ps []))"
| "decode_elems d [] = Some []"
| "decode_elems d (j # js) =
     (case decode_value (Suc d) j of None \<Rightarrow> None
      | Some v \<Rightarrow> map_option (Cons v) (decode_elems d js))"
| "decode_members d [] acc = Some acc"
| "decode_members d ((k, j) # ps) acc =
     (if k \<in> fst ` set acc then None
      else case decode_value (Suc d) j of None \<Rightarrow> None
           | Some v \<Rightarrow> decode_members d ps (obj_put k v acc))"

definition decode_assertion_json :: "string \<Rightarrow> gval option" where
  "decode_assertion_json raw =
     (if \<not> utf8_valid raw then None
      else case json_parse raw of None \<Rightarrow> None | Some j \<Rightarrow> decode_value 0 j)"

section \<open>JSON pointers\<close>

fun escapes_ok :: "string \<Rightarrow> bool" where
  "escapes_ok [] = True"
| "escapes_ok (c # cs) =
     (if c \<noteq> CHR ''~'' then escapes_ok cs
      else case cs of [] \<Rightarrow> False
           | d # ds \<Rightarrow> if d = CHR ''0'' \<or> d = CHR ''1'' then escapes_ok ds else False)"

definition unescape_token :: "string \<Rightarrow> string" where
  "unescape_token t = replace_all ''~0'' ''~'' (replace_all ''~1'' ''/'' t)"

definition pointer_tokens :: "string \<Rightarrow> string list option" where
  "pointer_tokens p =
     (case p of [] \<Rightarrow> Some []
      | c # cs \<Rightarrow>
          if c \<noteq> CHR ''/'' then None
          else let ts = split_on (CHR ''/'') cs in
               if list_all escapes_ok ts then Some (map unescape_token ts) else None)"

text \<open>\<open>strconv.Atoi\<close> on digits fails only above the range of \<open>int\<close>, where no list has an element.\<close>

definition array_index :: "string \<Rightarrow> nat option" where
  "array_index t =
     (if t = [] \<or> (1 < length t \<and> hd t = CHR ''0'') \<or> \<not> list_all is_digit t then None
      else Some (nat_of_digits t))"

fun pointer_value :: "gval \<Rightarrow> string list \<Rightarrow> gval option" where
  "pointer_value v [] = Some v"
| "pointer_value v (t # ts) =
     (case v of
        GObj ps \<Rightarrow> (case map_of ps t of None \<Rightarrow> None | Some w \<Rightarrow> pointer_value w ts)
      | GArr vs \<Rightarrow> (case array_index t of None \<Rightarrow> None
                  | Some i \<Rightarrow> if length vs \<le> i then None else pointer_value (vs ! i) ts)
      | _ \<Rightarrow> None)"

section \<open>Validation\<close>

datatype assertion_error = TooManyAssertions | InvalidStatusCode nat | StatusOnlyDenial nat
  | AssertionDecision nat | PointerTooLong nat | InvalidPointer nat | EqualsTooLong nat
  | InvalidEquals nat

definition status_only_denial :: "response_assertion \<Rightarrow> bool" where
  "status_only_denial r \<longleftrightarrow> ra_equals r = [] \<and> ra_pointer r = [] \<and> ra_status_codes r \<noteq> []
     \<and> ra_decision r = DDeny"

definition validate_assertion :: "nat \<Rightarrow> response_assertion \<Rightarrow> assertion_error + unit" where
  "validate_assertion i r =
     bind_res (guard_err (\<exists>c\<in>set (ra_status_codes r). c < 100 \<or> 599 < c) (InvalidStatusCode i)) (\<lambda>_.
     if status_only_denial r
     then guard_err (\<exists>c\<in>set (ra_status_codes r). c < 400 \<or> 499 < c) (StatusOnlyDenial i)
     else
       bind_res (guard_err (ra_decision r \<noteq> DAllow \<and> ra_decision r \<noteq> DDeny) (AssertionDecision i)) (\<lambda>_.
       bind_res (guard_err (1024 < length (ra_pointer r)) (PointerTooLong i)) (\<lambda>_.
       bind_res (guard_err (pointer_tokens (ra_pointer r) = None) (InvalidPointer i)) (\<lambda>_.
       bind_res (guard_err (8192 < length (ra_equals r)) (EqualsTooLong i)) (\<lambda>_.
       guard_err (decode_assertion_json (ra_equals r) = None) (InvalidEquals i))))))"

definition validate_assertions :: "response_assertion list \<Rightarrow> assertion_error + unit" where
  "validate_assertions rules =
     (if 32 < length rules then Inl TooManyAssertions
      else iter_res (\<lambda>(i, r). validate_assertion i r) (enum_list rules))"

section \<open>Judging one execution\<close>

text \<open>
  One iteration of the loop of \<open>assess\<close>. The errors it ignores leave an empty pointer and
  a null value, as they do in the source.
\<close>

definition or_else :: "'a \<Rightarrow> 'a option \<Rightarrow> 'a" where
  "or_else d x = (case x of None \<Rightarrow> d | Some v \<Rightarrow> v)"

definition rule_matches :: "gval option \<Rightarrow> int \<Rightarrow> response_assertion \<Rightarrow> bool" where
  "rule_matches doc status r \<longleftrightarrow>
     (ra_status_codes r \<noteq> [] \<longrightarrow> status \<in> set (ra_status_codes r)) \<and>
     (ra_equals r \<noteq> [] \<longrightarrow>
        (case doc of None \<Rightarrow> False
         | Some d \<Rightarrow> pointer_value d (or_else [] (pointer_tokens (ra_pointer r)))
                      = Some (or_else GNull (decode_assertion_json (ra_equals r)))))"

type_synonym match_state = "nat list \<times> bool \<times> bool"

definition match_step :: "gval option \<Rightarrow> int \<Rightarrow> match_state \<Rightarrow> nat \<times> response_assertion \<Rightarrow> match_state" where
  "match_step doc status st ir =
     (let (matched, allow, deny) = st; (i, r) = ir in
      if rule_matches doc status r
      then (matched @ [i], allow \<or> ra_decision r = DAllow, deny \<or> ra_decision r = DDeny)
      else st)"

definition assess_status :: "execution_result \<Rightarrow> assessment \<Rightarrow> assessment" where
  "assess_status ex a =
     (let oc = (if er_outcome ex = ONone then classify_outcome (er_status ex) False else er_outcome ex);
          b = a\<lparr>as_source := SrcHttpStatus, as_reason := RStatusOnly\<rparr> in
      case oc of OAllow \<Rightarrow> b\<lparr>as_decision := AAllowed\<rparr>
      | ODeny \<Rightarrow> b\<lparr>as_decision := ADenied\<rparr>
      | _ \<Rightarrow> b\<lparr>as_reason := RAmbiguousOutcome\<rparr>)"

definition assess_rules :: "execution_result \<Rightarrow> response_assertion list \<Rightarrow> assessment \<Rightarrow> assessment" where
  "assess_rules ex rules a =
     (let doc = decode_assertion_json (er_body ex);
          (matched, allow, deny) = foldl (match_step doc (er_status ex)) ([], False, False) (enum_list rules);
          b = a\<lparr>as_source := SrcResponseAssertion, as_matched := matched\<rparr> in
      if allow \<and> deny then b\<lparr>as_reason := RConflictingAssertions\<rparr>
      else if allow then b\<lparr>as_decision := AAllowed, as_reason := RAssertionMatched\<rparr>
      else if deny then b\<lparr>as_decision := ADenied, as_reason := RAssertionMatched\<rparr>
      else b\<lparr>as_reason := (if doc = None then RInvalidJson else RNoAssertionMatched)\<rparr>)"

text \<open>\<open>assess\<close>: \<open>None\<close> for an identity without an expectation.\<close>

definition assess :: "string \<Rightarrow> execution_result \<Rightarrow> expected_access option \<Rightarrow> assessment" where
  "assess i ex expected =
     (case expected of
        None \<Rightarrow> (new_assessment i (DOther []) SrcNone)\<lparr>as_decision := ASkipped, as_reason := RNoExpectation\<rparr>
      | Some ea \<Rightarrow>
          let a = new_assessment i (ea_decision ea) SrcNone in
          if ea_decision ea = DSkip then a\<lparr>as_decision := ASkipped, as_reason := RExplicitSkip\<rparr>
          else if execution_failed ex then a\<lparr>as_reason := RExecutionError\<rparr>
          else if ea_assertions ea = [] then assess_status ex a
          else assess_rules ex (ea_assertions ea) a)"

section \<open>Credentials\<close>

definition rejects_credential :: "test_case \<Rightarrow> identity \<Rightarrow> execution_result \<Rightarrow> bool" where
  "rejects_credential tc i ex \<longleftrightarrow> \<not> tc_unauthorized_is_denial tc \<and> \<not> sends_no_auth (id_credential i)
     \<and> er_error ex = [] \<and> er_status ex = 401"

definition demote_rejected :: "test_case \<Rightarrow> identity \<Rightarrow> execution_result \<Rightarrow> assessment \<Rightarrow> assessment" where
  "demote_rejected tc i ex a =
     (if as_expected a = DDeny \<and> as_decision a = ADenied \<and> rejects_credential tc i ex
      then a\<lparr>as_decision := AInconclusive, as_reason := RCredentialRejected\<rparr> else a)"

text \<open>A later probe of the same identity overrides an earlier one.\<close>

definition probe_status :: "string \<Rightarrow> preflight_result list \<Rightarrow> cred_status" where
  "probe_status i probes = foldl (\<lambda>st p. if pr_identity p = i
     then (if pr_passed p then CSPreflightPassed else CSPreflightFailed) else st) CSNotChecked probes"

definition credential_status :: "identity \<Rightarrow> preflight_result list \<Rightarrow> execution_result \<Rightarrow> cred_status" where
  "credential_status i probes ex =
     (if sends_no_auth (id_credential i) then CSAnonymous
      else let status = probe_status (id_id i) probes in
           if er_status ex = 401
           then (if status = CSPreflightPassed then CSPassedResource401 else CSResource401)
           else status)"

definition preflight_identities :: "test_case \<Rightarrow> identity list" where
  "preflight_identities tc = tc_identities tc @
     (case tc_verification tc of None \<Rightarrow> []
      | Some wv \<Rightarrow> if id_preflight (wv_identity wv) = None then [] else [wv_identity wv])"

section \<open>A number literal and its value\<close>

text \<open>
  A literal of the JSON grammar by its parts: sign, integer digits, optional fraction digits,
  optional exponent (the letter, its sign, its digits).
\<close>

datatype literal = Literal bool string "string option" "(char \<times> string \<times> string) option"

fun frac_digits :: "string option \<Rightarrow> string" where
  "frac_digits None = []"
| "frac_digits (Some f) = f"

fun exp_text :: "(char \<times> string \<times> string) option \<Rightarrow> string" where
  "exp_text None = []"
| "exp_text (Some (c, g, d)) = c # g @ d"

fun exp_int :: "(char \<times> string \<times> string) option \<Rightarrow> int" where
  "exp_int None = 0"
| "exp_int (Some (c, g, d)) = (if g = ''-'' then - int (nat_of_digits d) else int (nat_of_digits d))"

fun literal_text :: "literal \<Rightarrow> string" where
  "literal_text (Literal neg ip fp ex) = (if neg then ''-'' else []) @ ip
     @ (case fp of None \<Rightarrow> [] | Some f \<Rightarrow> CHR ''.'' # f) @ exp_text ex"

fun literal_value :: "literal \<Rightarrow> rat" where
  "literal_value (Literal neg ip fp ex) = (if neg then - 1 else 1)
     * of_nat (nat_of_digits (ip @ frac_digits fp)) * 10 powi (exp_int ex - int (length (frac_digits fp)))"

fun literal_wf :: "literal \<Rightarrow> bool" where
  "literal_wf (Literal neg ip fp ex) \<longleftrightarrow> ip \<noteq> [] \<and> list_all is_digit ip
     \<and> (case fp of None \<Rightarrow> True | Some f \<Rightarrow> f \<noteq> [] \<and> list_all is_digit f)
     \<and> (case ex of None \<Rightarrow> True | Some (c, g, d) \<Rightarrow> (c = CHR ''e'' \<or> c = CHR ''E'')
          \<and> (g = [] \<or> g = ''+'' \<or> g = ''-'') \<and> d \<noteq> [] \<and> list_all is_digit d)"

lemma digit_literals [simp]:
  "\<not> is_digit CHR ''e''" "\<not> is_digit CHR ''E''" "\<not> is_digit CHR ''.''" "\<not> is_digit CHR ''+''" "is_digit CHR ''0''"
  by (simp_all add: is_digit_def byte_of_def)

lemma digits_no:
  "list_all is_digit s \<Longrightarrow> \<not> is_digit c \<Longrightarrow> c \<notin> set s"
  by (auto simp: list_all_iff)

lemma exp_value_text:
  "\<lbrakk>g = [] \<or> g = ''+'' \<or> g = ''-''; d \<noteq> []; list_all is_digit d\<rbrakk> \<Longrightarrow>
     exp_value (g @ d) = exp_int (Some (c, g, d))"
  by (cases d; cases "hd d = CHR ''-''"; cases "hd d = CHR ''+''")
     (auto simp: exp_value_def trim_prefix_def has_prefix_def)

lemma takeWhile_append_stop:
  "(\<And>c. c \<in> set s \<Longrightarrow> P c) \<Longrightarrow> \<not> P d \<Longrightarrow> takeWhile P (s @ d # t) = s"
  by (induction s) auto

lemma takeWhile_all: "(\<And>c. c \<in> set s \<Longrightarrow> P c) \<Longrightarrow> takeWhile P s = s"
  by (simp add: takeWhile_eq_all_conv)

lemma split_exponent_text:
  assumes "\<And>c. c \<in> set m \<Longrightarrow> c \<noteq> CHR ''e'' \<and> c \<noteq> CHR ''E''"
    and "case ex of None \<Rightarrow> True | Some (c, g, d) \<Rightarrow> (c = CHR ''e'' \<or> c = CHR ''E'')
          \<and> (g = [] \<or> g = ''+'' \<or> g = ''-'') \<and> d \<noteq> [] \<and> list_all is_digit d"
  shows "split_exponent (m @ exp_text ex) = (m, exp_int ex)"
proof (cases ex)
  case None
  then show ?thesis using assms(1) by (simp add: split_exponent_def takeWhile_all)
next
  case (Some x)
  obtain c g d where x: "x = (c, g, d)" by (cases x)
  then have "takeWhile (\<lambda>c. c \<noteq> CHR ''e'' \<and> c \<noteq> CHR ''E'') (m @ c # g @ d) = m"
    using assms Some by (intro takeWhile_append_stop) auto
  then show ?thesis
    using assms(2) Some x exp_value_text [of g d c] by (simp add: split_exponent_def Let_def)
qed

lemma split_point_text:
  assumes "list_all is_digit ip"
  shows "split_point (ip @ (case fp of None \<Rightarrow> [] | Some f \<Rightarrow> CHR ''.'' # f))
    = (ip @ frac_digits fp, length (frac_digits fp))"
proof -
  have "CHR ''.'' \<notin> set ip" using assms by (simp add: digits_no)
  then have all: "takeWhile (\<lambda>c. c \<noteq> CHR ''.'') ip = ip"
    and stop: "takeWhile (\<lambda>c. c \<noteq> CHR ''.'') (ip @ CHR ''.'' # f) = ip" for f
    by (auto intro!: takeWhile_all takeWhile_append_stop)
  show ?thesis by (cases fp) (simp_all add: split_point_def Let_def all stop)
qed

text \<open>What \<open>normalizeNumber\<close> computes from digits and an exponent.\<close>

definition normal_text :: "bool \<Rightarrow> string \<Rightarrow> int \<Rightarrow> string" where
  "normal_text neg ds e =
     (let s3 = dropWhile (\<lambda>c. c = CHR ''0'') ds;
          t = rev (dropWhile (\<lambda>c. c = CHR ''0'') (rev s3)) in
      if s3 = [] then ''0''
      else (if neg then CHR ''-'' # t else t) @ ''e'' @ show_int (e + int (length s3 - length t)))"

lemma normalize_number_literal:
  assumes "literal_wf (Literal neg ip fp ex)"
  shows "normalize_number (literal_text (Literal neg ip fp ex))
    = normal_text neg (ip @ frac_digits fp) (exp_int ex - int (length (frac_digits fp)))"
proof -
  define m where "m = ip @ (case fp of None \<Rightarrow> [] | Some f \<Rightarrow> CHR ''.'' # f)"
  obtain d ds where ip: "ip = d # ds" "d \<noteq> CHR ''-''"
    using assms minus_not_digit by (cases ip) (auto simp del: minus_not_digit)
  have ds: "list_all is_digit ip" "list_all is_digit (frac_digits fp)" using assms by (cases fp; simp)+
  have m: "c \<in> set m \<Longrightarrow> c \<noteq> CHR ''e'' \<and> c \<noteq> CHR ''E''" for c
    using digits_no [OF ds(1)] digits_no [OF ds(2)] by (cases fp) (auto simp: m_def)
  have "split_exponent (m @ exp_text ex) = (m, exp_int ex)"
    using assms by (intro split_exponent_text m) auto
  moreover have "split_point m = (ip @ frac_digits fp, length (frac_digits fp))"
    unfolding m_def using assms by (intro split_point_text) simp
  moreover have "has_prefix (literal_text (Literal neg ip fp ex)) ''-'' = neg"
    "trim_prefix (literal_text (Literal neg ip fp ex)) ''-'' = m @ exp_text ex"
    using ip by (cases neg; simp add: has_prefix_def trim_prefix_def m_def)+
  ultimately show ?thesis
    by (simp add: normalize_number_def normal_text_def Let_def trim_left_set_def trim_right_set_def
        del: literal_text.simps)
qed

text \<open>The normal form is a coefficient without outer zeros and an exponent.\<close>

lemma dropWhile_zero_nonzero: "dropWhile (\<lambda>c. c = z) s \<noteq> [] \<Longrightarrow> hd (dropWhile (\<lambda>c. c = z) s) \<noteq> z"
  by (induction s) auto

lemma strip_trailing:
  assumes "s \<noteq> []" "hd s \<noteq> CHR ''0''" "t = rev (dropWhile (\<lambda>c. c = CHR ''0'') (rev s))"
  shows "\<exists>k. s = t @ replicate k CHR ''0'' \<and> t \<noteq> [] \<and> hd t \<noteq> CHR ''0'' \<and> last t \<noteq> CHR ''0''"
proof -
  let ?z = "takeWhile (\<lambda>c. c = CHR ''0'') (rev s)"
  have "?z = replicate (length ?z) CHR ''0''"
    by (rule replicate_eqI) (auto dest: set_takeWhileD)
  moreover have "rev s = ?z @ rev t" by (simp add: assms(3))
  ultimately have s: "s = t @ replicate (length ?z) CHR ''0''"
    by (metis rev_append rev_replicate rev_rev_ident)
  have "t \<noteq> []"
  proof
    assume "t = []"
    with s have "set s \<subseteq> {CHR ''0''}" by (metis append_Nil set_replicate_conv_if empty_subsetI order_refl)
    then show False using assms(1,2) by (cases s) auto
  qed
  moreover have "last t \<noteq> CHR ''0''"
    using \<open>t \<noteq> []\<close> dropWhile_zero_nonzero [of "CHR ''0''" "rev s"]
    by (simp add: assms(3) last_rev)
  moreover have "hd t \<noteq> CHR ''0''" using \<open>t \<noteq> []\<close> s assms(2) by (metis hd_append2)
  ultimately show ?thesis using s by blast
qed

lemma nat_of_digits_replicate: "nat_of_digits (t @ replicate k CHR ''0'') = nat_of_digits t * 10 ^ k"
  using nat_of_digits_zeros [of "replicate k CHR ''0''"] by (simp add: nat_of_digits_append)

definition coefficient_ok :: "string \<Rightarrow> bool" where
  "coefficient_ok t \<longleftrightarrow> t \<noteq> [] \<and> hd t \<noteq> CHR ''0'' \<and> last t \<noteq> CHR ''0'' \<and> list_all is_digit t"

lemma normal_text_cases:
  assumes "list_all is_digit ds"
  obtains (zero) "nat_of_digits ds = 0" "normal_text neg ds e = ''0''"
  | (coeff) t k where "coefficient_ok t" "nat_of_digits ds = nat_of_digits t * 10 ^ k"
      "normal_text neg ds e = (if neg then ''-'' else []) @ t @ ''e'' @ show_int (e + int k)"
proof (cases "dropWhile (\<lambda>c. c = CHR ''0'') ds = []")
  case True
  then have "nat_of_digits ds = 0" by (metis nat_of_digits_strip nat_of_digits_Nil)
  with True zero show ?thesis by (simp add: normal_text_def)
next
  case False
  let ?s = "dropWhile (\<lambda>c. c = CHR ''0'') ds"
  define t where "t = rev (dropWhile (\<lambda>c. c = CHR ''0'') (rev ?s))"
  obtain k where k: "?s = t @ replicate k CHR ''0''" "t \<noteq> []" "hd t \<noteq> CHR ''0''" "last t \<noteq> CHR ''0''"
    using strip_trailing [OF False dropWhile_zero_nonzero [OF False] t_def] by blast
  have "set t \<subseteq> set ds" using k(1) by (metis set_dropWhileD subsetI Un_iff set_append)
  then have "coefficient_ok t" using assms k(2-4) by (auto simp: coefficient_ok_def list_all_iff)
  moreover have "nat_of_digits ds = nat_of_digits t * 10 ^ k"
    using nat_of_digits_strip [of ds] by (simp only: k(1) nat_of_digits_replicate)
  moreover have "normal_text neg ds e = (if neg then ''-'' else []) @ t @ ''e'' @ show_int (e + int k)"
  proof -
    have "length ?s - length t = k" using k(1) by simp
    then show ?thesis unfolding normal_text_def Let_def t_def [symmetric] by (simp only: False if_False) simp
  qed
  ultimately show ?thesis by (rule coeff)
qed

lemma coefficient_nat:
  assumes "coefficient_ok t"
  shows "0 < nat_of_digits t" "\<not> 10 dvd nat_of_digits t" "show_nat (nat_of_digits t) = t"
proof -
  show "0 < nat_of_digits t" "show_nat (nat_of_digits t) = t"
    using assms by (auto simp: coefficient_ok_def list_all_iff intro: nat_of_digits_pos show_nat_of_digits)
  obtain u c where t: "t = u @ [c]" using assms by (cases t rule: rev_cases) (auto simp: coefficient_ok_def)
  then have "is_digit c" "c \<noteq> CHR ''0''" using assms by (auto simp: coefficient_ok_def)
  then have "digit_val c < 10" "digit_val c \<noteq> 0" by (auto simp: digit_val_less digit_val_zero)
  then show "\<not> 10 dvd nat_of_digits t" by (simp add: t) presburger
qed

text \<open>A number not divisible by ten and a power of ten determine each other.\<close>

lemma ten_power_unique:
  fixes m n :: nat
  assumes "of_nat m * 10 powi e = (of_nat n * 10 powi f :: rat)" "e \<le> f" "\<not> 10 dvd m" "0 < n"
  shows "m = n \<and> e = f"
proof -
  have "of_nat m * 10 powi e = (of_nat n * 10 powi (f - e) * 10 powi e :: rat)"
    using assms(1) by (simp add: power_int_diff)
  then have "of_nat m = (of_nat n * 10 powi (f - e) :: rat)" by simp
  moreover have "(10 :: rat) powi (f - e) = of_nat (10 ^ nat (f - e))"
    using assms(2) by (simp add: power_int_def)
  ultimately have "of_nat m = (of_nat (n * 10 ^ nat (f - e)) :: rat)" by simp
  then have m: "m = n * 10 ^ nat (f - e)" by (simp only: of_nat_eq_iff)
  show ?thesis
  proof (cases "nat (f - e)")
    case 0
    then show ?thesis using m assms(2) by simp
  next
    case (Suc k)
    then show ?thesis using m assms(3) by simp
  qed
qed

lemma signed_ten_power_unique:
  fixes m n :: nat
  assumes eq: "(if a then - 1 else 1) * (of_nat m * 10 powi e) = (if b then - 1 else 1) * (of_nat n * 10 powi f :: rat)"
    and "\<not> 10 dvd m" "\<not> 10 dvd n" "0 < m" "0 < n"
  shows "a = b \<and> m = n \<and> e = f"
proof -
  have pos: "0 < (of_nat m * 10 powi e :: rat)" "0 < (of_nat n * 10 powi f :: rat)"
    using assms by (simp_all add: zero_less_power_int)
  then have ab: "a = b" using eq by (cases a; cases b; simp)
  then have "of_nat m * 10 powi e = (of_nat n * 10 powi f :: rat)" using eq by (simp split: if_splits)
  then have "m = n \<and> e = f"
    using ten_power_unique [of m e n f] ten_power_unique [of n f m e] assms by (cases "e \<le> f") auto
  with ab show ?thesis by blast
qed

lemma normal_text_zero: "(if neg then ''-'' else []) @ t @ ''e'' @ u \<noteq> ''0''"
proof
  assume "(if neg then ''-'' else []) @ t @ ''e'' @ u = ''0''"
  then have "CHR ''e'' \<in> set ''0''" by (metis Un_iff list.set_intros(1) set_append append_Cons)
  then show False by simp
qed

lemma normal_text_coeff_eq:
  assumes "coefficient_ok t" "coefficient_ok u"
  shows "(if a then ''-'' else []) @ t @ ''e'' @ show_int e = (if b then ''-'' else []) @ u @ ''e'' @ show_int f
    \<longleftrightarrow> a = b \<and> t = u \<and> e = f"
proof
  assume eq: "(if a then ''-'' else []) @ t @ ''e'' @ show_int e = (if b then ''-'' else []) @ u @ ''e'' @ show_int f"
  have hd: "hd v \<noteq> CHR ''-''" "v \<noteq> []" "CHR ''e'' \<notin> set v" if "coefficient_ok v" for v
    using that by (cases v; auto simp: coefficient_ok_def digits_no)+
  have "a = b" using eq hd [OF assms(1)] hd [OF assms(2)]
    by (cases t; cases u; cases a; cases b) auto
  then have eq': "t @ CHR ''e'' # show_int e = u @ CHR ''e'' # show_int f" using eq by auto
  then have "t = u"
    using takeWhile_append_stop [of t "\<lambda>c. c \<noteq> CHR ''e''" "CHR ''e''" "show_int e"]
      takeWhile_append_stop [of u "\<lambda>c. c \<noteq> CHR ''e''" "CHR ''e''" "show_int f"]
      hd(3) [OF assms(1)] hd(3) [OF assms(2)] by metis
  then show "a = b \<and> t = u \<and> e = f" using eq' \<open>a = b\<close> by simp
qed simp

text \<open>
  C26. Numbers in assertions are compared exactly: two number literals normalize to the same
  text precisely when they denote the same rational number, whatever their length, leading
  or trailing zeros and exponents.
\<close>

theorem normalize_number_exact:
  assumes "literal_wf a" and "literal_wf b"
  shows "normalize_number (literal_text a) = normalize_number (literal_text b)
    \<longleftrightarrow> literal_value a = literal_value b"
proof -
  obtain na ia fa xa where a: "a = Literal na ia fa xa" by (cases a)
  obtain nb ib fb xb where b: "b = Literal nb ib fb xb" by (cases b)
  let ?da = "ia @ frac_digits fa" and ?db = "ib @ frac_digits fb"
  define ea where "ea = exp_int xa - int (length (frac_digits fa))"
  define eb where "eb = exp_int xb - int (length (frac_digits fb))"
  have da: "list_all is_digit ?da" using assms(1) a by (cases fa) auto
  have db: "list_all is_digit ?db" using assms(2) b by (cases fb) auto
  have norm: "normalize_number (literal_text a) = normal_text na ?da ea"
    "normalize_number (literal_text b) = normal_text nb ?db eb"
    using assms normalize_number_literal by (simp_all only: a b ea_def eb_def)
  have val: "literal_value a = (if na then - 1 else 1) * (of_nat (nat_of_digits ?da) * 10 powi ea)"
    "literal_value b = (if nb then - 1 else 1) * (of_nat (nat_of_digits ?db) * 10 powi eb)"
    by (simp_all add: a b ea_def eb_def)
  have shift: "of_nat (m * 10 ^ k) * 10 powi e = (of_nat m * 10 powi (e + int k) :: rat)" for m k e
    by (simp add: power_int_add)
  show ?thesis
    using da
  proof (cases rule: normal_text_cases [where neg = na and e = ea])
    case zero
    note a0 = this
    show ?thesis
      using db
    proof (cases rule: normal_text_cases [where neg = nb and e = eb])
      case zero
      then show ?thesis using a0 by (simp add: norm val)
    next
      case (coeff u l)
      then show ?thesis using a0 coefficient_nat(1) [of u] normal_text_zero [of nb u, THEN not_sym]
        by (simp add: norm val)
    qed
  next
    case (coeff t k)
    note at = this
    show ?thesis
      using db
    proof (cases rule: normal_text_cases [where neg = nb and e = eb])
      case zero
      then show ?thesis using at coefficient_nat(1) [of t] normal_text_zero [of na t]
        by (simp add: norm val)
    next
      case (coeff u l)
      have "literal_value a = literal_value b \<longleftrightarrow>
          na = nb \<and> nat_of_digits t = nat_of_digits u \<and> ea + int k = eb + int l"
        unfolding val at(2) coeff(2) shift
        using signed_ten_power_unique [OF _ coefficient_nat(2) [OF at(1)] coefficient_nat(2) [OF coeff(1)]
            coefficient_nat(1) [OF at(1)] coefficient_nat(1) [OF coeff(1)]]
        by (rule iffI, simp_all only: simp_thms)
      moreover have "nat_of_digits t = nat_of_digits u \<longleftrightarrow> t = u"
        using coefficient_nat(3) [OF at(1)] coefficient_nat(3) [OF coeff(1)] by metis
      ultimately show ?thesis
        unfolding norm at(3) coeff(3) normal_text_coeff_eq [OF at(1) coeff(1)] by simp
    qed
  qed
qed

lemma normalize_number_exact_witness:
  "normalize_number ''100'' = normalize_number ''1.0e+2'' \<and> normalize_number ''100'' \<noteq> normalize_number ''1e3''"
proof -
  have a: "literal_wf (Literal False ''100'' None None)"
    and b: "literal_wf (Literal False ''1'' (Some ''0'') (Some (CHR ''e'', ''+'', ''2'')))"
    and c: "literal_wf (Literal False ''1'' None (Some (CHR ''e'', [], ''3'')))"
    by code_simp+
  have "literal_value (Literal False ''100'' None None)
      = literal_value (Literal False ''1'' (Some ''0'') (Some (CHR ''e'', ''+'', ''2'')))"
    and "literal_value (Literal False ''100'' None None)
      \<noteq> literal_value (Literal False ''1'' None (Some (CHR ''e'', [], ''3'')))"
    by (simp_all add: nat_of_digits_def digit_val_def byte_of_def power_int_def)
  then show ?thesis
    using normalize_number_exact [OF a b] normalize_number_exact [OF a c] by simp
qed

text \<open>Every number the lexer accepts is such a literal.\<close>

lemma num_digits_form: "num_digits s = Some (d, r) \<Longrightarrow> d \<noteq> [] \<and> list_all is_digit d"
  by (auto simp: num_digits_def list_all_iff dest: set_takeWhileD split: if_splits)

lemma num_int_form: "num_int s = Some (d, r) \<Longrightarrow> d \<noteq> [] \<and> list_all is_digit d"
  by (auto simp: num_int_def list_all_iff dest: set_takeWhileD split: if_splits list.splits)

lemma num_sign_form: "num_sign s = (g, r) \<Longrightarrow> g = [] \<or> g = ''+'' \<or> g = ''-''"
  by (auto simp: num_sign_def split: list.splits if_splits)

lemma num_exp_form:
  assumes "num_exp s = Some (e, r)"
  shows "e = [] \<or> (\<exists>c g d. e = c # g @ d \<and> (c = CHR ''e'' \<or> c = CHR ''E'')
      \<and> (g = [] \<or> g = ''+'' \<or> g = ''-'') \<and> d \<noteq> [] \<and> list_all is_digit d)"
proof (cases s)
  case (Cons c cs)
  obtain g r1 where g: "num_sign cs = (g, r1)" by (cases "num_sign cs")
  show ?thesis
  proof (cases "num_digits r1")
    case (Some x)
    obtain d r2 where d: "num_digits r1 = Some (d, r2)" using Some by (cases x) auto
    show ?thesis
      using assms Cons g d num_sign_form [OF g] num_digits_form [OF d]
      by (simp add: num_exp_def split: if_splits) blast+
  qed (use assms Cons g in \<open>auto simp: num_exp_def split: if_splits\<close>)
qed (use assms in \<open>simp add: num_exp_def\<close>)

lemma lexed_number_literal:
  assumes "lex_num s = Some (w, r)"
  shows "\<exists>a. literal_wf a \<and> literal_text a = w"
proof -
  obtain n s1 i s2 f s3 e where parts: "num_neg s = (n, s1)" "num_int s1 = Some (i, s2)"
      "num_frac s2 = Some (f, s3)" "num_exp s3 = Some (e, r)" "w = n @ i @ f @ e"
    using assms by (auto simp: lex_num_def split: prod.splits option.splits)
  have n: "n = [] \<or> n = ''-''" using parts(1) by (auto simp: num_neg_def split: list.splits if_splits)
  have i: "i \<noteq> [] \<and> list_all is_digit i" using num_int_form [OF parts(2)] .
  have f: "f = [] \<or> (\<exists>g. f = CHR ''.'' # g \<and> g \<noteq> [] \<and> list_all is_digit g)"
    using parts(3) by (auto simp: num_frac_def dest: num_digits_form split: list.splits if_splits option.splits)
  have e: "e = [] \<or> (\<exists>c g d. e = c # g @ d \<and> (c = CHR ''e'' \<or> c = CHR ''E'')
      \<and> (g = [] \<or> g = ''+'' \<or> g = ''-'') \<and> d \<noteq> [] \<and> list_all is_digit d)"
    using parts(4) by (rule num_exp_form)
  define fp where "fp = (if f = [] then None else Some (tl f))"
  have fp: "(case fp of None \<Rightarrow> True | Some g \<Rightarrow> g \<noteq> [] \<and> list_all is_digit g)"
    "(case fp of None \<Rightarrow> [] | Some g \<Rightarrow> CHR ''.'' # g) = f"
    using f by (auto simp: fp_def)
  obtain ex where ex: "exp_text ex = e" "(case ex of None \<Rightarrow> True | Some (c, g, d) \<Rightarrow>
      (c = CHR ''e'' \<or> c = CHR ''E'') \<and> (g = [] \<or> g = ''+'' \<or> g = ''-'') \<and> d \<noteq> [] \<and> list_all is_digit d)"
  proof -
    from e consider "e = []" | (some) c g d where "e = c # g @ d" "c = CHR ''e'' \<or> c = CHR ''E''"
      "g = [] \<or> g = ''+'' \<or> g = ''-''" "d \<noteq> []" "list_all is_digit d" by blast
    then show ?thesis
    proof cases
      case some
      then show ?thesis by (intro that [of "Some (c, g, d)"]) simp_all
    qed (auto intro: that [of None])
  qed
  have "literal_wf (Literal (n = ''-'') i fp ex)" using i fp(1) ex(2) by simp
  moreover have "literal_text (Literal (n = ''-'') i fp ex) = w"
    using n fp(2) ex(1) by (auto simp: parts(5))
  ultimately show ?thesis by blast
qed

section \<open>Pointers survive escaping\<close>

text \<open>RFC 6901: a token is written with tilde as \<open>~0\<close> and slash as \<open>~1\<close>.\<close>

definition escape_token :: "string \<Rightarrow> string" where
  "escape_token t = replace_bytes [(CHR ''~'', ''~0''), (CHR ''/'', ''~1'')] t"

definition pointer_text :: "string list \<Rightarrow> string" where
  "pointer_text ts = concat (map (\<lambda>t. CHR ''/'' # escape_token t) ts)"

lemma escape_token_simps [simp]:
  "escape_token [] = []"
  "escape_token (c # cs) = (if c = CHR ''~'' then ''~0'' else if c = CHR ''/'' then ''~1'' else [c])
     @ escape_token cs"
  by (simp_all add: escape_token_def replace_bytes_def)

lemma escape_token_no_slash: "CHR ''/'' \<notin> set (escape_token t)"
  by (induction t) auto

lemma escapes_ok_escape: "escapes_ok (escape_token t)"
  by (induction t) auto

lemma unescape_escape: "unescape_token (escape_token t) = t"
proof -
  have one: "replace_all ''~1'' ''/'' (escape_token t) = replace_bytes [(CHR ''~'', ''~0'')] t"
  proof (induction t)
    case (Cons c cs)
    consider "c = CHR ''~''" | "c = CHR ''/''" | "c \<noteq> CHR ''~''" "c \<noteq> CHR ''/''" by blast
    then show ?case
    proof cases
      case 2
      then show ?thesis
        using Cons replace_all_prefix [of "''~1''" "''/''" "escape_token cs"]
        by (simp add: replace_bytes_def)
    qed (use Cons in \<open>simp_all add: replace_all_skip has_prefix_def replace_bytes_def\<close>)
  qed (simp add: replace_all_Nil replace_bytes_def)
  have "replace_all ''~0'' ''~'' (replace_bytes [(CHR ''~'', ''~0'')] t) = t"
  proof (induction t)
    case (Cons c cs)
    show ?case
    proof (cases "c = CHR ''~''")
      case True
      then show ?thesis
        using Cons replace_all_prefix [of "''~0''" "''~''" "replace_bytes [(CHR ''~'', ''~0'')] cs"]
        by (simp add: replace_bytes_def)
    qed (use Cons in \<open>simp add: replace_all_skip has_prefix_def replace_bytes_def\<close>)
  qed (simp add: replace_all_Nil replace_bytes_def)
  then show ?thesis by (simp add: unescape_token_def one)
qed

lemma split_on_append: "sep \<notin> set w \<Longrightarrow> split_on sep (w @ sep # rest) = w # split_on sep rest"
  by (induction w) auto

lemma split_on_none: "sep \<notin> set w \<Longrightarrow> split_on sep w = [w]"
  by (induction w) auto

lemma split_pointer_text:
  "split_on (CHR ''/'') (escape_token t @ pointer_text ts) = map escape_token (t # ts)"
proof (induction ts arbitrary: t)
  case Nil
  then show ?case by (simp add: pointer_text_def split_on_none escape_token_no_slash)
next
  case (Cons u us)
  have "escape_token t @ pointer_text (u # us) = escape_token t @ CHR ''/'' # (escape_token u @ pointer_text us)"
    by (simp add: pointer_text_def)
  then show ?case using Cons by (simp add: split_on_append escape_token_no_slash del: escape_token_simps)
qed

text \<open>
  Every list of object keys can be written as a JSON pointer, and reading the pointer
  gives the keys back: keys holding slashes and tildes included, with no confusion between
  the two escapes.
\<close>

theorem pointer_roundtrip: "pointer_tokens (pointer_text ts) = Some ts"
proof (cases ts)
  case Nil
  then show ?thesis by (simp add: pointer_text_def pointer_tokens_def)
next
  case (Cons t us)
  have text_eq: "pointer_text ts = CHR ''/'' # (escape_token t @ pointer_text us)"
    by (simp add: Cons pointer_text_def)
  have "map (unescape_token \<circ> escape_token) xs = xs" for xs
    by (induction xs) (simp_all add: unescape_escape)
  moreover have "list_all escapes_ok (map escape_token xs)" for xs
    by (induction xs) (simp_all add: escapes_ok_escape)
  ultimately show ?thesis
    unfolding text_eq pointer_tokens_def
    by (simp add: split_pointer_text Cons unescape_escape escapes_ok_escape del: list.map(2) escape_token_simps)
qed

section \<open>Assessments from assertions\<close>

text \<open>The rules that match, by index.\<close>

definition matching :: "gval option \<Rightarrow> int \<Rightarrow> response_assertion list \<Rightarrow> nat list" where
  "matching doc status rules = filter (\<lambda>i. rule_matches doc status (rules ! i)) [0..<length rules]"

definition rule_hit :: "gval option \<Rightarrow> int \<Rightarrow> response_assertion list \<Rightarrow> access_decision \<Rightarrow> bool" where
  "rule_hit doc status rules d \<longleftrightarrow> (\<exists>r\<in>set rules. rule_matches doc status r \<and> ra_decision r = d)"

lemma enum_list_snoc: "enum_list (xs @ [x]) = enum_list xs @ [(length xs, x)]"
  by (simp add: enum_list_def)

lemma matching_snoc: "matching doc status (rs @ [r]) =
    matching doc status rs @ (if rule_matches doc status r then [length rs] else [])"
  by (auto simp: matching_def nth_append intro: filter_cong)

lemma match_fold:
  "foldl (match_step doc status) ([], False, False) (enum_list rules) =
     (matching doc status rules,
      rule_hit doc status rules DAllow, rule_hit doc status rules DDeny)"
proof (induction rules rule: rev_induct)
  case (snoc r rs)
  then show ?case by (auto simp: enum_list_snoc matching_snoc match_step_def rule_hit_def)
qed (simp add: enum_list_def matching_def rule_hit_def)

lemma assess_rules_decision:
  assumes "as_decision a = AInconclusive"
  shows "as_decision (assess_rules ex rules a) =
    (let hit = rule_hit (decode_assertion_json (er_body ex)) (er_status ex) rules in
     if hit DAllow \<and> \<not> hit DDeny then AAllowed
     else if hit DDeny \<and> \<not> hit DAllow then ADenied else AInconclusive)"
  using assms by (simp add: assess_rules_def match_fold Let_def)

lemma assess_rules_matched:
  "as_matched (assess_rules ex rules a) = matching (decode_assertion_json (er_body ex)) (er_status ex) rules"
  by (simp add: assess_rules_def match_fold Let_def)

lemma new_assessment_sel [simp]:
  "as_decision (new_assessment i d src) = AInconclusive" "as_expected (new_assessment i d src) = d"
  "as_identity (new_assessment i d src) = i"  "as_source (new_assessment i d src) = src"
  "as_matched (new_assessment i d src) = []" "as_reason (new_assessment i d src) = RNone"
  by (simp_all add: new_assessment_def)

text \<open>
  When an expectation carries assertions, they alone decide: the matched indices are
  exactly the matching rules in order, the caller was allowed precisely when an allow rule
  matches and no deny rule does, denied in the symmetric case, and a conflict or no match
  decides nothing. The HTTP outcome has no say.
\<close>

theorem assess_by_assertions:
  assumes "ea_decision ea \<noteq> DSkip" and "\<not> execution_failed ex" and "ea_assertions ea \<noteq> []"
    and "doc = decode_assertion_json (er_body ex)"
    and "hit = rule_hit doc (er_status ex) (ea_assertions ea)"
  shows "as_matched (assess i ex (Some ea)) = matching doc (er_status ex) (ea_assertions ea)
    \<and> as_decision (assess i ex (Some ea)) =
        (if hit DAllow \<and> \<not> hit DDeny then AAllowed
         else if hit DDeny \<and> \<not> hit DAllow then ADenied else AInconclusive)
    \<and> as_source (assess i ex (Some ea)) = SrcResponseAssertion
    \<and> assess i (ex\<lparr>er_outcome := oc\<rparr>) (Some ea) = assess i ex (Some ea)"
proof -
  let ?a = "new_assessment i (ea_decision ea) SrcNone"
  have eq: "assess i ex (Some ea) = assess_rules ex (ea_assertions ea) ?a"
    using assms(1-3) by (simp add: assess_def)
  have eq': "assess i (ex\<lparr>er_outcome := oc\<rparr>) (Some ea) = assess_rules ex (ea_assertions ea) ?a"
    using assms(1-3) by (simp add: assess_def assess_rules_def execution_failed_def)
  have "as_source (assess_rules ex (ea_assertions ea) ?a) = SrcResponseAssertion"
    by (simp add: assess_rules_def Let_def split: prod.splits)
  then show ?thesis
    by (simp add: eq eq' assess_rules_matched assess_rules_decision assms(4,5) Let_def)
qed

definition sample_expectation :: "response_assertion list \<Rightarrow> expected_access" where
  "sample_expectation rules = \<lparr>ea_identity = ''bob'', ea_decision = DDeny, ea_note = [],
     ea_forbid_sensitive = False, ea_assertions = rules\<rparr>"

definition sample_rules :: "response_assertion list" where
  "sample_rules =
     [\<lparr>ra_status_codes = [], ra_pointer = ''/data/id'', ra_equals = ''42'', ra_decision = DAllow\<rparr>,
      \<lparr>ra_status_codes = [404], ra_pointer = [], ra_equals = [], ra_decision = DDeny\<rparr>]"

definition sample_response :: "int \<Rightarrow> string \<Rightarrow> execution_result" where
  "sample_response st body = (empty_execution ''bob'')\<lparr>er_status := st, er_body := body\<rparr>"

lemma assess_by_assertions_witness:
  "as_decision (assess ''bob'' (sample_response 403 ''{\"data\":{\"id\":4.2e1}}'')
     (Some (sample_expectation sample_rules))) = AAllowed"
proof -
  have ok: "ea_decision (sample_expectation sample_rules) \<noteq> DSkip"
    "\<not> execution_failed (sample_response 403 ''{\"data\":{\"id\":4.2e1}}'')"
    "ea_assertions (sample_expectation sample_rules) \<noteq> []" by code_simp+
  have r: "rule_matches (decode_assertion_json (er_body (sample_response 403 ''{\"data\":{\"id\":4.2e1}}'')))
      (er_status (sample_response 403 ''{\"data\":{\"id\":4.2e1}}'')) (sample_rules ! 0)"
    "\<not> rule_matches (decode_assertion_json (er_body (sample_response 403 ''{\"data\":{\"id\":4.2e1}}'')))
      (er_status (sample_response 403 ''{\"data\":{\"id\":4.2e1}}'')) (sample_rules ! 1)" by code_simp+
  have "ea_assertions (sample_expectation sample_rules) = [sample_rules ! 0, sample_rules ! 1]"
    "ra_decision (sample_rules ! 0) = DAllow" "ra_decision (sample_rules ! 1) = DDeny" by code_simp+
  then show ?thesis
    using assess_by_assertions [OF ok refl refl, of "''bob''"] r by (simp add: rule_hit_def)
qed

section \<open>Validated assertions\<close>

lemma decode_assertion_Nil: "decode_assertion_json [] = None"
  by code_simp

lemma validate_assertion_ok:
  "validate_assertion i r = Inr () \<longleftrightarrow>
     (\<forall>c\<in>set (ra_status_codes r). 100 \<le> c \<and> c \<le> 599) \<and>
     (if status_only_denial r then \<forall>c\<in>set (ra_status_codes r). 400 \<le> c \<and> c \<le> 499
      else (ra_decision r = DAllow \<or> ra_decision r = DDeny) \<and> length (ra_pointer r) \<le> 1024
        \<and> pointer_tokens (ra_pointer r) \<noteq> None \<and> length (ra_equals r) \<le> 8192
        \<and> decode_assertion_json (ra_equals r) \<noteq> None)"
  by (auto simp: validate_assertion_def bind_res_eq_Inr not_less)

lemma validate_assertions_ok:
  "validate_assertions rules = Inr () \<longleftrightarrow>
     length rules \<le> 32 \<and> (\<forall>i<length rules. validate_assertion i (rules ! i) = Inr ())"
  by (simp add: validate_assertions_def ball_enum_list not_less)

lemma validate_assertions_elem:
  assumes "validate_assertions rules = Inr ()" "r \<in> set rules"
  shows "\<exists>i. validate_assertion i r = Inr ()"
  using assms by (auto simp: validate_assertions_ok in_set_conv_nth)

text \<open>
  What it means for a rule to hold of a response: its status codes, if it names any, contain
  the response's; and either it is a status-only denial, the status being a 4xx code, or the
  body is a supported JSON document in which the rule's pointer selects exactly its value.
\<close>

definition rule_holds :: "execution_result \<Rightarrow> response_assertion \<Rightarrow> bool" where
  "rule_holds ex r \<longleftrightarrow>
     (ra_status_codes r \<noteq> [] \<longrightarrow> er_status ex \<in> set (ra_status_codes r)) \<and>
     (if status_only_denial r then 400 \<le> er_status ex \<and> er_status ex \<le> 499
      else \<exists>doc ts v. decode_assertion_json (er_body ex) = Some doc \<and> pointer_tokens (ra_pointer r) = Some ts
        \<and> decode_assertion_json (ra_equals r) = Some v \<and> pointer_value doc ts = Some v)"

lemma rule_matches_holds:
  assumes "validate_assertion k r = Inr ()"
  shows "rule_matches (decode_assertion_json (er_body ex)) (er_status ex) r \<longleftrightarrow> rule_holds ex r"
proof (cases "status_only_denial r")
  case True
  with assms have "\<forall>c\<in>set (ra_status_codes r). 400 \<le> c \<and> c \<le> 499" by (simp add: validate_assertion_ok)
  with True show ?thesis by (auto simp: rule_matches_def rule_holds_def status_only_denial_def)
next
  case False
  with assms obtain ts v where "pointer_tokens (ra_pointer r) = Some ts" "decode_assertion_json (ra_equals r) = Some v"
    by (auto simp: validate_assertion_ok)
  moreover from this have "ra_equals r \<noteq> []" using decode_assertion_Nil by auto
  ultimately show ?thesis using False
    by (auto simp: rule_matches_def rule_holds_def or_else_def split: option.splits)
qed

lemma rule_hit_holds:
  assumes "validate_assertions rules = Inr ()"
  shows "rule_hit (decode_assertion_json (er_body ex)) (er_status ex) rules d
    \<longleftrightarrow> (\<exists>r\<in>set rules. ra_decision r = d \<and> rule_holds ex r)"
  unfolding rule_hit_def using validate_assertions_elem [OF assms] rule_matches_holds by blast

text \<open>
  C25. Once the assertions of an expectation are validated, no ignored decoding error can
  decide a verdict: a caller is judged allowed precisely if the expectation is assessed, a
  response arrived, some allow rule really holds of it and no deny rule does, and denied in
  the symmetric case. A rule holds of a response that has one of the rule's status codes, if
  it names any, and whose body is a supported JSON document in which the rule's pointer
  selects exactly the rule's value; a status-only denial needs one of its 4xx codes alone.
\<close>

theorem validated_verdict_has_evidence:
  assumes "validate_assertions (ea_assertions ea) = Inr ()" and "ea_assertions ea \<noteq> []"
    and "(d, d', verdict) \<in> {(DAllow, DDeny, AAllowed), (DDeny, DAllow, ADenied)}"
  shows "as_decision (assess i ex (Some ea)) = verdict \<longleftrightarrow>
    ea_decision ea \<noteq> DSkip \<and> \<not> execution_failed ex
    \<and> (\<exists>r\<in>set (ea_assertions ea). ra_decision r = d \<and> rule_holds ex r)
    \<and> \<not> (\<exists>r\<in>set (ea_assertions ea). ra_decision r = d' \<and> rule_holds ex r)"
proof (cases "ea_decision ea \<noteq> DSkip \<and> \<not> execution_failed ex")
  case True
  then have "as_decision (assess i ex (Some ea))
      = as_decision (assess_rules ex (ea_assertions ea) (new_assessment i (ea_decision ea) SrcNone))"
    using assms(2) by (simp add: assess_def)
  then show ?thesis
    unfolding rule_hit_holds [OF assms(1), symmetric] using True assms(3)
    by (auto simp: assess_rules_decision Let_def)
next
  case False
  then show ?thesis using assms(3) by (auto simp: assess_def Let_def)
qed

lemma validated_verdict_has_evidence_witness:
  "\<exists>r\<in>set sample_rules. ra_decision r = DAllow \<and> rule_holds (sample_response 200 ''{\"data\":{\"id\":42}}'') r"
proof -
  have "validate_assertions (ea_assertions (sample_expectation sample_rules)) = Inr ()"
    and "ea_assertions (sample_expectation sample_rules) \<noteq> []"
    and d: "as_decision (assess ''bob'' (sample_response 200 ''{\"data\":{\"id\":42}}'')
          (Some (sample_expectation sample_rules))) = AAllowed"
    by code_simp+
  from validated_verdict_has_evidence [OF this(1,2), where d = DAllow and d' = DDeny and verdict = AAllowed] d
  show ?thesis by (simp add: sample_expectation_def)
qed

section \<open>What a demotion changes\<close>

lemma demote_rejected_sel [frame]:
  "as_identity (demote_rejected tc i ex a) = as_identity a"
  "as_expected (demote_rejected tc i ex a) = as_expected a"
  "as_source (demote_rejected tc i ex a) = as_source a"
  "as_matched (demote_rejected tc i ex a) = as_matched a"
  "as_write (demote_rejected tc i ex a) = as_write a"
  "as_verification (demote_rejected tc i ex a) = as_verification a"
  "as_index (demote_rejected tc i ex a) = as_index a"
  by (simp_all add: demote_rejected_def)

lemma demote_rejected_denied:
  "as_decision (demote_rejected tc i ex a) = ADenied \<longleftrightarrow>
     as_decision a = ADenied \<and> (as_expected a = DDeny \<longrightarrow> \<not> rejects_credential tc i ex)"
  by (auto simp: demote_rejected_def)

lemma demote_rejected_allowed [simp]:
  "as_decision (demote_rejected tc i ex a) = AAllowed \<longleftrightarrow> as_decision a = AAllowed"
  by (simp add: demote_rejected_def)

end
