(* ===== verification/Executor.thy ===== *)
theory Executor
  imports Model
begin

text \<open>
  \<open>engine.Executor\<close>: how the engine reaches the network. A call runs one request as one
  identity in a phase (\<open>requestguard.WithPhase\<close>) and moves the world on; a poll of
  \<open>ctx.Err()\<close> tells whether the run was cancelled. The locale \<open>identifying_executor\<close> states
  what the engine relies on, and \<open>logged\<close> records the calls an executor receives with their results.
\<close>

datatype phase = PhSetup | PhPreflight | PhVerification | PhReset | PhResource

record 'w executor =
  ex_call :: "phase \<Rightarrow> identity \<Rightarrow> request_template \<Rightarrow> 'w \<Rightarrow> execution_result \<times> 'w"
  ex_poll :: "'w \<Rightarrow> bool \<times> 'w"

text \<open>Every result names the identity the request was sent as.\<close>

locale identifying_executor =
  fixes X :: "'w executor"
  assumes call_identity: "er_identity (fst (ex_call X ph i rq w)) = id_id i"

text \<open>And a failure always carries a message, never a bare kind.\<close>

locale engine_executor = identifying_executor +
  assumes call_error: "er_error_kind (fst (ex_call X ph i rq w)) \<noteq> EKNone \<Longrightarrow> er_error (fst (ex_call X ph i rq w)) \<noteq> []"

section \<open>Recording the calls\<close>

type_synonym call = "phase \<times> identity \<times> request_template \<times> execution_result"

definition logged :: "'w executor \<Rightarrow> ('w \<times> call list) executor" where
  "logged X = \<lparr>ex_call = (\<lambda>ph i rq (w, log). let (r, w') = ex_call X ph i rq w in (r, (w', log @ [(ph, i, rq, r)]))),
     ex_poll = (\<lambda>(w, log). let (b, w') = ex_poll X w in (b, (w', log)))\<rparr>"

lemma logged_call:
  "ex_call (logged X) ph i rq wl =
     (fst (ex_call X ph i rq (fst wl)), (snd (ex_call X ph i rq (fst wl)), snd wl @ [(ph, i, rq, fst (ex_call X ph i rq (fst wl)))]))"
  by (cases wl) (simp add: logged_def split: prod.splits)

text \<open>Recording changes nothing the engine relies on.\<close>

lemma logged_executor:
  "engine_executor X \<Longrightarrow> engine_executor (logged X)"
  by (simp add: engine_executor_def identifying_executor_def engine_executor_axioms_def logged_call)

lemma logged_poll:
  "ex_poll (logged X) wl = (fst (ex_poll X (fst wl)), (snd (ex_poll X (fst wl)), snd wl))"
  by (cases wl) (simp add: logged_def split: prod.splits)

text \<open>An executor that answers from a script, one answer a call, and is never cancelled.\<close>

definition scripted_answer :: "execution_result \<Rightarrow> identity \<Rightarrow> execution_result" where
  "scripted_answer r i = r\<lparr>er_identity := id_id i,
     er_error_kind := (if er_error r = [] then EKNone else er_error_kind r)\<rparr>"

definition scripted :: "execution_result list executor" where
  "scripted = \<lparr>ex_call = (\<lambda>ph i rq w. case w of
       [] \<Rightarrow> ((empty_execution (id_id i))\<lparr>er_error := ''no answer'', er_error_kind := EKNetwork\<rparr>, [])
     | r # rs \<Rightarrow> (scripted_answer r i, rs)),
     ex_poll = (\<lambda>w. (False, w))\<rparr>"

interpretation scripted: engine_executor scripted
  by unfold_locales (auto simp: scripted_def scripted_answer_def empty_execution_def split: list.splits if_splits)

section \<open>A small test case\<close>

text \<open>Two callers of one endpoint, to evaluate the model on.\<close>

definition sample_identity :: "string \<Rightarrow> string \<Rightarrow> identity" where
  "sample_identity i token = \<lparr>id_id = i, id_name = [], id_role = [], id_tenant = [], id_description = [],
     id_credential = \<lparr>cr_type = Bearer, cr_header = [], cr_value = token\<rparr>, id_preflight = None\<rparr>"

definition sample_request :: "string \<Rightarrow> string \<Rightarrow> request_template" where
  "sample_request m path = \<lparr>rq_method = m, rq_url = ''http://api'' @ path, rq_headers = [], rq_query = [],
     rq_body = []\<rparr>"

definition sample_expected :: "string \<Rightarrow> access_decision \<Rightarrow> expected_access" where
  "sample_expected i d = \<lparr>ea_identity = i, ea_decision = d, ea_note = [], ea_forbid_sensitive = False,
     ea_assertions = []\<rparr>"

definition sample_case :: test_case where
  "sample_case = \<lparr>tc_require_preflight = False, tc_id = ''case'', tc_description = [],
     tc_identities = [sample_identity ''alice'' ''ta'', sample_identity ''bob'' ''tb''],
     tc_request = sample_request ''GET'' ''/orders/1'', tc_resource = None, tc_role_hierarchy = [],
     tc_sensitive_fields = [], tc_deny_statuses = [], tc_unauthorized_is_denial = False,
     tc_deny_when = None, tc_mutating = False, tc_verification = None, tc_setup = [], tc_cors = None,
     tc_expected = [sample_expected ''alice'' DAllow, sample_expected ''bob'' DDeny]\<rparr>"

definition sample_answer :: "int \<Rightarrow> string \<Rightarrow> execution_result" where
  "sample_answer st body = (empty_execution [])\<lparr>er_status := st, er_outcome := classify_outcome st False,
     er_body := body\<rparr>"

section \<open>What a function adds to the log\<close>

definition adds :: "(call \<Rightarrow> bool) \<Rightarrow> 'w \<times> call list \<Rightarrow> 'w \<times> call list \<Rightarrow> bool" where
  "adds P wl wl' \<longleftrightarrow> (\<exists>calls. snd wl' = snd wl @ calls \<and> (\<forall>c\<in>set calls. P c))"

lemma adds_refl [simp]: "adds P wl wl"
  by (simp add: adds_def)

lemma adds_trans: "adds P wl wl1 \<Longrightarrow> adds P wl1 wl2 \<Longrightarrow> adds P wl wl2"
  by (fastforce simp: adds_def)

lemma adds_call:
  "ex_call (logged X) ph i rq wl = (r, wl') \<Longrightarrow> P (ph, i, rq, r) \<Longrightarrow> adds P wl wl'"
  by (auto simp: logged_call adds_def)

lemma adds_poll: "ex_poll (logged X) wl = (b, wl') \<Longrightarrow> adds P wl wl'"
  by (auto simp: logged_poll adds_def)

lemma adds_mono: "adds P wl wl' \<Longrightarrow> (\<And>c. P c \<Longrightarrow> Q c) \<Longrightarrow> adds Q wl wl'"
  by (fastforce simp: adds_def)

lemma adds_start: "adds P (w, []) (w', calls) \<longleftrightarrow> (\<forall>c\<in>set calls. P c)"
  by (auto simp: adds_def)

end
