(* ===== verification/Setup.thy ===== *)
theory Setup
  imports Executor Assertions JsonText
begin

text \<open>
  \<open>internal/engine/setup.go\<close>: the requests that run before the one under test, what they
  capture, and the substitution of captured values into the test case. An error value says
  which check of the source returned.
\<close>

section \<open>Substituting variables\<close>

datatype subst_error = Unterminated string | UnknownVariable string | SubstInvalidJson

text \<open>The loop of \<open>substitute\<close>; the text before a placeholder is already written.\<close>

function subst_loop :: "(string \<times> string) list \<Rightarrow> string \<Rightarrow> subst_error + string" where
  "subst_loop vars s =
     (case index_of ''{{'' s of
        None \<Rightarrow> Inr s
      | Some i \<Rightarrow>
          (case index_of ''}}'' (drop i s) of
             None \<Rightarrow> Inl (Unterminated s)
           | Some e \<Rightarrow>
               let name = trim_space (take (e - 2) (drop (i + 2) s)) in
               (case amap_get vars name of
                  None \<Rightarrow> Inl (UnknownVariable name)
                | Some v \<Rightarrow> (case subst_loop vars (drop (i + e + 2) s) of
                     Inl err \<Rightarrow> Inl err | Inr r \<Rightarrow> Inr (take i s @ v @ r)))))"
  by pat_completeness auto
termination
proof (relation "measure (\<lambda>(vars, s). length s)", goal_cases)
  case (2 vars s i e x v)
  then show ?case using index_of_bound [of "''{{''" s i] by auto
qed simp

declare subst_loop.simps [simp del]

definition substitute :: "(string \<times> string) list \<Rightarrow> string \<Rightarrow> subst_error + string" where
  "substitute vars s = (if contains s ''{{'' then subst_loop vars s else Inr s)"

definition escaped_vars :: "(string \<times> string) list \<Rightarrow> (string \<times> string) list" where
  "escaped_vars vars = map (\<lambda>(k, v). (k, json_escape v)) vars"

definition substitute_json :: "(string \<times> string) list \<Rightarrow> string \<Rightarrow> subst_error + string" where
  "substitute_json vars raw =
     bind_res (substitute (escaped_vars vars) raw) (\<lambda>out.
       if json_valid out then Inr out else Inl SubstInvalidJson)"

datatype request_subst_error = SubstUrl subst_error | SubstHeader string subst_error
  | SubstQuery string subst_error | SubstBody subst_error

definition subst_values :: "(string \<Rightarrow> subst_error \<Rightarrow> 'e) \<Rightarrow> (string \<times> string) list
    \<Rightarrow> (string \<times> string) list \<Rightarrow> 'e + (string \<times> string) list" where
  "subst_values mk vars m =
     map_res (\<lambda>(k, v). map_err (mk k) (bind_res (substitute vars v) (\<lambda>sv. Inr (k, sv)))) m"

definition substitute_request :: "request_template \<Rightarrow> (string \<times> string) list
    \<Rightarrow> request_subst_error + request_template" where
  "substitute_request t vars =
     bind_res (map_err SubstUrl (substitute vars (rq_url t))) (\<lambda>url.
     bind_res (subst_values SubstHeader vars (rq_headers t)) (\<lambda>hs.
     bind_res (subst_values SubstQuery vars (rq_query t)) (\<lambda>qs.
     bind_res (if rq_body t = [] then Inr [] else map_err SubstBody (substitute_json vars (rq_body t))) (\<lambda>body.
     Inr (t\<lparr>rq_url := url, rq_headers := hs, rq_query := qs, rq_body := body\<rparr>)))))"

section \<open>Running the steps\<close>

datatype setup_error = SetupUnknownIdentity string string | SetupSubst string request_subst_error
  | SetupExec string string | SetupStatus string int | SetupNoCapture string string string

definition step_label :: "nat \<Rightarrow> setup_step \<Rightarrow> string" where
  "step_label i s = (if ss_name s = [] then ''setup['' @ show_nat i @ '']'' else ss_name s)"

text \<open>An identity that sends no credential.\<close>

definition silent_identity :: "string \<Rightarrow> identity" where
  "silent_identity i = \<lparr>id_id = i, id_name = [], id_role = [], id_tenant = [], id_description = [],
     id_credential = \<lparr>cr_type = StaticHeader, cr_header = [], cr_value = []\<rparr>, id_preflight = None\<rparr>"

text \<open>A map filled in a loop: the last identity with an id stands.\<close>

definition identity_by_id :: "identity list \<Rightarrow> string \<Rightarrow> identity option" where
  "identity_by_id ids k = List.find (\<lambda>i. id_id i = k) (rev ids)"

definition step_actor :: "identity list \<Rightarrow> nat \<Rightarrow> setup_step \<Rightarrow> setup_error + identity" where
  "step_actor ids i s =
     (if ss_as s = [] then Inr (silent_identity (''setup:'' @ step_label i s))
      else case identity_by_id ids (ss_as s) of
        None \<Rightarrow> Inl (SetupUnknownIdentity (step_label i s) (ss_as s))
      | Some a \<Rightarrow> Inr a)"

definition capture_one :: "golib \<Rightarrow> string \<Rightarrow> string \<Rightarrow> (string \<times> string) list \<Rightarrow> string \<times> string
    \<Rightarrow> setup_error + (string \<times> string) list" where
  "capture_one L label body vars np =
     (case value_at_path L body (snd np) of
        None \<Rightarrow> Inl (SetupNoCapture label (snd np) (fst np))
      | Some v \<Rightarrow> Inr (amap_put (fst np) v vars))"

definition step_response :: "golib \<Rightarrow> string \<Rightarrow> setup_step \<Rightarrow> execution_result
    \<Rightarrow> (string \<times> string) list \<Rightarrow> setup_error + (string \<times> string) list" where
  "step_response L label s ex vars =
     (if er_error ex \<noteq> [] then Inl (SetupExec label (er_error ex))
      else if 400 \<le> er_status ex then Inl (SetupStatus label (er_status ex))
      else fold_res (capture_one L label (er_body ex)) vars (ss_capture s))"

definition step_request :: "identity list \<Rightarrow> nat \<Rightarrow> setup_step \<Rightarrow> (string \<times> string) list
    \<Rightarrow> setup_error + identity \<times> request_template" where
  "step_request ids i s vars =
     bind_res (step_actor ids i s) (\<lambda>actor.
     bind_res (map_err (SetupSubst (step_label i s)) (substitute_request (ss_request s) vars)) (\<lambda>rq.
     Inr (actor, rq)))"

fun run_steps :: "golib \<Rightarrow> 'w executor \<Rightarrow> identity list \<Rightarrow> (nat \<times> setup_step) list
    \<Rightarrow> (string \<times> string) list \<Rightarrow> 'w \<Rightarrow> (setup_error + (string \<times> string) list) \<times> 'w" where
  "run_steps L X ids [] vars w = (Inr vars, w)"
| "run_steps L X ids ((i, s) # steps) vars w =
     (case step_request ids i s vars of
        Inl e \<Rightarrow> (Inl e, w)
      | Inr (actor, rq) \<Rightarrow>
          (case ex_call X PhSetup actor rq w of (ex, w') \<Rightarrow>
             (case step_response L (step_label i s) s ex vars of
                Inl e \<Rightarrow> (Inl e, w')
              | Inr vars' \<Rightarrow> run_steps L X ids steps vars' w')))"

definition run_setup :: "golib \<Rightarrow> 'w executor \<Rightarrow> test_case \<Rightarrow> 'w
    \<Rightarrow> (setup_error + (string \<times> string) list) \<times> 'w" where
  "run_setup L X tc w = run_steps L X (tc_identities tc) (enum_list (tc_setup tc)) [] w"

section \<open>Applying the captured values\<close>

datatype apply_error = ApplyRequest request_subst_error | ApplyCredential string
  | ApplyVerification | ApplyVerifierCredential | ApplyReset | ApplyResource subst_error

definition set_credential_value :: "identity \<Rightarrow> string \<Rightarrow> identity" where
  "set_credential_value i v = i\<lparr>id_credential := (id_credential i)\<lparr>cr_value := v\<rparr>\<rparr>"

definition apply_identity :: "(string \<times> string) list \<Rightarrow> 'e \<Rightarrow> identity \<Rightarrow> 'e + identity" where
  "apply_identity vars e i =
     map_err (\<lambda>_. e) (bind_res (substitute vars (cr_value (id_credential i)))
       (\<lambda>v. Inr (set_credential_value i v)))"

definition apply_reset :: "(string \<times> string) list \<Rightarrow> setup_step option \<Rightarrow> apply_error + setup_step option" where
  "apply_reset vars r = (case r of None \<Rightarrow> Inr None
     | Some s \<Rightarrow> map_err (\<lambda>_. ApplyReset)
         (bind_res (substitute_request (ss_request s) vars) (\<lambda>rq. Inr (Some (s\<lparr>ss_request := rq\<rparr>)))))"

definition apply_verification :: "(string \<times> string) list \<Rightarrow> write_verification \<Rightarrow> apply_error + write_verification" where
  "apply_verification vars wv =
     bind_res (map_err (\<lambda>_. ApplyVerification) (substitute_request (wv_request wv) vars)) (\<lambda>rq.
     bind_res (apply_identity vars ApplyVerifierCredential (wv_identity wv)) (\<lambda>i.
     bind_res (apply_reset vars (wv_reset wv)) (\<lambda>r.
     Inr (wv\<lparr>wv_request := rq, wv_identity := i, wv_reset := r\<rparr>))))"

definition apply_resource :: "(string \<times> string) list \<Rightarrow> resource \<Rightarrow> apply_error + resource" where
  "apply_resource vars r =
     map_err ApplyResource (bind_res (substitute vars (rs_object_id r)) (\<lambda>v. Inr (r\<lparr>rs_object_id := v\<rparr>)))"

definition map_option_res :: "('a \<Rightarrow> 'e + 'b) \<Rightarrow> 'a option \<Rightarrow> 'e + 'b option" where
  "map_option_res f x = (case x of None \<Rightarrow> Inr None | Some a \<Rightarrow> bind_res (f a) (\<lambda>b. Inr (Some b)))"

definition apply_setup_vars :: "test_case \<Rightarrow> (string \<times> string) list \<Rightarrow> apply_error + test_case" where
  "apply_setup_vars tc vars =
     (if vars = [] then Inr tc
      else
        bind_res (map_err ApplyRequest (substitute_request (tc_request tc) vars)) (\<lambda>rq.
        bind_res (map_res (\<lambda>i. apply_identity vars (ApplyCredential (id_id i)) i) (tc_identities tc)) (\<lambda>ids.
        bind_res (map_option_res (apply_verification vars) (tc_verification tc)) (\<lambda>wv.
        bind_res (map_option_res (apply_resource vars) (tc_resource tc)) (\<lambda>res.
        Inr (tc\<lparr>tc_request := rq, tc_identities := ids, tc_verification := wv, tc_resource := res\<rparr>))))))"

section \<open>Validation\<close>

datatype setup_invalid = SetupNoRequest nat | SetupAsUnknown nat string | SetupDuplicateName nat string
  | SetupCaptureEmpty nat | SetupUnsafe nat string

definition validate_step :: "test_case \<Rightarrow> string list \<Rightarrow> nat \<times> setup_step \<Rightarrow> setup_invalid + string list" where
  "validate_step tc names is = (case is of (i, s) \<Rightarrow>
     if rq_method (ss_request s) = [] \<or> rq_url (ss_request s) = [] then Inl (SetupNoRequest i)
     else if ss_as s \<noteq> [] \<and> ss_as s \<notin> set (map id_id (tc_identities tc)) then Inl (SetupAsUnknown i (ss_as s))
     else if ss_name s \<noteq> [] \<and> ss_name s \<in> set names then Inl (SetupDuplicateName i (ss_name s))
     else if \<exists>np\<in>set (ss_capture s). fst np = [] \<or> snd np = [] then Inl (SetupCaptureEmpty i)
     else if is_unsafe_method (rq_method (ss_request s)) \<and> \<not> tc_mutating tc
       then Inl (SetupUnsafe i (to_upper (rq_method (ss_request s))))
     else Inr (if ss_name s = [] then names else ss_name s # names))"

definition validate_setup :: "test_case \<Rightarrow> setup_invalid + string list" where
  "validate_setup tc = fold_res (validate_step tc) [] (enum_list (tc_setup tc))"

section \<open>What substitution computes\<close>

text \<open>A template: literal text and placeholders.\<close>

datatype segment = Lit string | Var string

fun segment_text :: "segment \<Rightarrow> string" where
  "segment_text (Lit w) = w"
| "segment_text (Var n) = ''{{'' @ n @ ''}}''"

fun segment_value :: "(string \<times> string) list \<Rightarrow> segment \<Rightarrow> string option" where
  "segment_value vars (Lit w) = Some w"
| "segment_value vars (Var n) = amap_get vars n"

fun segment_ok :: "segment \<Rightarrow> bool" where
  "segment_ok (Lit w) \<longleftrightarrow> CHR ''{'' \<notin> set w"
| "segment_ok (Var n) \<longleftrightarrow> CHR ''}'' \<notin> set n \<and> trim_space n = n"

definition template_text :: "segment list \<Rightarrow> string" where
  "template_text ts = concat (map segment_text ts)"

definition no_open :: "string \<Rightarrow> string \<Rightarrow> bool" where
  "no_open a b \<longleftrightarrow> (a = [] \<or> last a \<noteq> CHR ''{'' \<or> b = [] \<or> hd b \<noteq> CHR ''{'')"

text \<open>Text without an opening brace pair is copied through, whatever follows.\<close>

lemma has_prefix_two: "has_prefix s [x, y] \<longleftrightarrow> (\<exists>r. s = x # y # r)"
  by (auto simp: has_prefix_iff)

lemma index_of_open_append:
  "index_of ''{{'' a = None \<Longrightarrow> no_open a b \<Longrightarrow>
     index_of ''{{'' (a @ b) = map_option ((+) (length a)) (index_of ''{{'' b)"
proof (induction a)
  case (Cons c a)
  have a: "index_of ''{{'' a = None" "\<not> has_prefix (c # a) ''{{''"
    using Cons.prems(1) by (auto split: if_splits)
  have "no_open a b" using Cons.prems(2) by (cases a) (auto simp: no_open_def)
  moreover have "\<not> has_prefix (c # a @ b) ''{{''"
    using a(2) Cons.prems(2) by (cases a; cases b) (auto simp: has_prefix_two no_open_def)
  ultimately show ?case using Cons.IH a(1) by (cases "index_of ''{{'' b") simp_all
qed (cases "index_of ''{{'' b"; simp)

lemma subst_loop_copy:
  assumes "index_of ''{{'' a = None" "no_open a b" "subst_loop vars b = Inr r"
  shows "subst_loop vars (a @ b) = Inr (a @ r)"
proof (cases "index_of ''{{'' b")
  case None
  then have "r = b" using assms(3) by (subst (asm) subst_loop.simps) simp
  then show ?thesis using assms None by (subst subst_loop.simps) (simp add: index_of_open_append)
next
  case (Some i)
  have "index_of ''{{'' (a @ b) = Some (length a + i)" using assms Some by (simp add: index_of_open_append)
  moreover have "drop (length a + n) (a @ b) = drop n b" for n by simp
  ultimately show ?thesis
    using assms(3) Some
    by (subst subst_loop.simps, subst (asm) (2) subst_loop.simps)
       (auto simp: Let_def add.assoc split: option.splits sum.splits)
qed

lemma index_of_no_first: "x \<notin> set a \<Longrightarrow> index_of [x, y] (a @ b) = map_option ((+) (length a)) (index_of [x, y] b)"
  by (induction a; cases "index_of [x, y] b") (auto simp: has_prefix_two)

lemma index_of_fresh: "x \<notin> set a \<Longrightarrow> index_of [x, y] a = None"
  using index_of_no_first [of x a y "[]"] by simp

lemma subst_loop_var:
  assumes "CHR ''}'' \<notin> set n" "trim_space n = n" "amap_get vars n = Some v" "subst_loop vars b = Inr r"
  shows "subst_loop vars (''{{'' @ n @ ''}}'' @ b) = Inr (v @ r)"
proof -
  have "index_of ''}}'' (''{{'' @ n @ ''}}'' @ b) = Some (2 + length n)"
    using index_of_no_first [of "CHR ''}''" "''{{'' @ n" "CHR ''}''" "''}}'' @ b"] assms(1)
      index_of_prefix [of "''}}''" b]
    by simp
  moreover have "index_of ''{{'' (''{{'' @ n @ ''}}'' @ b) = Some 0"
    using index_of_prefix [of "''{{''"] by metis
  ultimately show ?thesis
    using assms(2-4) by (subst subst_loop.simps) (simp del: index_of.simps)
qed

lemma subst_loop_template:
  assumes "\<forall>t\<in>set ts. segment_ok t" "\<forall>t\<in>set ts. segment_value vars t \<noteq> None"
  shows "subst_loop vars (template_text ts) = Inr (concat (map (\<lambda>t. the (segment_value vars t)) ts))"
  using assms
proof (induction ts)
  case Nil
  then show ?case by (subst subst_loop.simps) (simp add: template_text_def)
next
  case (Cons t ts)
  then have r: "subst_loop vars (template_text ts) = Inr (concat (map (\<lambda>t. the (segment_value vars t)) ts))" by simp
  show ?case
  proof (cases t)
    case (Lit w)
    then have "CHR ''{'' \<notin> set w" using Cons.prems by simp
    then have "w = [] \<or> last w \<noteq> CHR ''{''" by (metis last_in_set)
    then have "index_of ''{{'' w = None" "no_open w (template_text ts)"
      using \<open>CHR ''{'' \<notin> set w\<close> by (auto simp: index_of_fresh no_open_def)
    from subst_loop_copy [OF this r] show ?thesis using Lit by (simp add: template_text_def)
  next
    case (Var n)
    then obtain v where "amap_get vars n = Some v" using Cons.prems(2) by auto
    with Var Cons.prems(1) subst_loop_var [OF _ _ _ r, of n v] show ?thesis
      by (simp add: template_text_def)
  qed
qed

lemma substitute_loop: "substitute vars s = subst_loop vars s"
  by (auto simp: substitute_def contains_def) (subst subst_loop.simps, simp)

text \<open>
  Substitution is exact: every placeholder of a template is replaced by the captured
  value, verbatim and once, and all other text is kept; a captured value that itself looks
  like a placeholder is never expanded.
\<close>

theorem substitute_template:
  assumes "\<forall>t\<in>set ts. segment_ok t" and "\<forall>t\<in>set ts. segment_value vars t \<noteq> None"
  shows "substitute vars (template_text ts) = Inr (concat (map (\<lambda>t. the (segment_value vars t)) ts))"
  using subst_loop_template [OF assms] by (simp add: substitute_loop)

lemma substitute_template_witness:
  "substitute [(''id'', ''{{id}}''), (''q'', ''}}'')] ''/u/{{id}}?x={{q}}'' = Inr ''/u/{{id}}?x=}}''"
proof -
  let ?ts = "[Lit ''/u/'', Var ''id'', Lit ''?x='', Var ''q'']"
  let ?vars = "[(''id'', ''{{id}}''), (''q'', ''}}'')]"
  have "template_text ?ts = ''/u/{{id}}?x={{q}}''"
    and "concat (map (\<lambda>t. the (segment_value ?vars t)) ?ts) = ''/u/{{id}}?x=}}''"
    and "\<forall>t\<in>set ?ts. segment_ok t" and "\<forall>t\<in>set ?ts. segment_value ?vars t \<noteq> None"
    by code_simp+
  then show ?thesis using substitute_template [of ?ts ?vars] by simp
qed

section \<open>Substitution into JSON\<close>

text \<open>
  A document as a template: a string that is a whole placeholder stands for a variable,
  every other string and every key is free of opening braces.
\<close>

definition plain_string :: "string \<Rightarrow> bool" where
  "plain_string w \<longleftrightarrow> utf8_valid w \<and> CHR ''{'' \<notin> set w"

definition var_name :: "string \<Rightarrow> bool" where
  "var_name n \<longleftrightarrow> list_all (\<lambda>c. is_lower c \<or> is_upper c \<or> is_digit c \<or> c = CHR ''_'') n"

definition var_of :: "string \<Rightarrow> string option" where
  "var_of w = (if has_prefix w ''{{'' \<and> w = ''{{'' @ take (length w - 4) (drop 2 w) @ ''}}''
     then Some (take (length w - 4) (drop 2 w)) else None)"

definition string_ok :: "(string \<times> string) list \<Rightarrow> string \<Rightarrow> bool" where
  "string_ok vars w \<longleftrightarrow> (case var_of w of None \<Rightarrow> plain_string w
     | Some n \<Rightarrow> var_name n \<and> (case amap_get vars n of None \<Rightarrow> False | Some v \<Rightarrow> utf8_valid v))"

definition fill_string :: "(string \<times> string) list \<Rightarrow> string \<Rightarrow> string" where
  "fill_string vars w = (case var_of w of None \<Rightarrow> w | Some n \<Rightarrow> the (amap_get vars n))"

fun template_ok :: "(string \<times> string) list \<Rightarrow> json \<Rightarrow> bool"
and templates_ok :: "(string \<times> string) list \<Rightarrow> json list \<Rightarrow> bool"
and tmembers_ok :: "(string \<times> string) list \<Rightarrow> (string \<times> json) list \<Rightarrow> bool" where
  "template_ok vars (JStr w) = string_ok vars w"
| "template_ok vars (JNum w) = num_text w"
| "template_ok vars (JArr js) = templates_ok vars js"
| "template_ok vars (JObj ps) = tmembers_ok vars ps"
| "template_ok vars (JBool b) = True"
| "template_ok vars JNull = True"
| "templates_ok vars [] = True"
| "templates_ok vars (j # js) = (template_ok vars j \<and> templates_ok vars js)"
| "tmembers_ok vars [] = True"
| "tmembers_ok vars ((k, j) # ps) = (plain_string k \<and> template_ok vars j \<and> tmembers_ok vars ps)"

fun fill :: "(string \<times> string) list \<Rightarrow> json \<Rightarrow> json"
and fill_elems :: "(string \<times> string) list \<Rightarrow> json list \<Rightarrow> json list"
and fill_members :: "(string \<times> string) list \<Rightarrow> (string \<times> json) list \<Rightarrow> (string \<times> json) list" where
  "fill vars (JStr w) = JStr (fill_string vars w)"
| "fill vars (JArr js) = JArr (fill_elems vars js)"
| "fill vars (JObj ps) = JObj (fill_members vars ps)"
| "fill vars (JNum w) = JNum w"
| "fill vars (JBool b) = JBool b"
| "fill vars JNull = JNull"
| "fill_elems vars [] = []"
| "fill_elems vars (j # js) = fill vars j # fill_elems vars js"
| "fill_members vars [] = []"
| "fill_members vars ((k, j) # ps) = (k, fill vars j) # fill_members vars ps"

text \<open>The same on tokens.\<close>

fun fill_tok :: "(string \<times> string) list \<Rightarrow> jtok \<Rightarrow> jtok" where
  "fill_tok vars (TStr w) = TStr (fill_string vars w)"
| "fill_tok vars t = t"

fun tok_template :: "(string \<times> string) list \<Rightarrow> jtok \<Rightarrow> bool" where
  "tok_template vars (TStr w) = string_ok vars w"
| "tok_template vars (TNum w) = num_text w"
| "tok_template vars t = True"

fun single_braces :: "jtok list \<Rightarrow> bool" where
  "single_braces [] = True"
| "single_braces (t # ts) = ((t = TLBrace \<longrightarrow> ts = [] \<or> hd ts \<noteq> TLBrace) \<and> single_braces ts)"

lemma plain_var_of: "plain_string w \<Longrightarrow> var_of w = None"
  by (auto simp: plain_string_def var_of_def has_prefix_two)

lemma plain_string_ok: "plain_string w \<Longrightarrow> string_ok vars w \<and> fill_string vars w = w"
  by (simp add: string_ok_def fill_string_def plain_var_of)

lemma fill_toks:
  "template_ok vars j \<Longrightarrow> json_toks (fill vars j) = map (fill_tok vars) (json_toks j)"
  "templates_ok vars js \<Longrightarrow> elem_toks (fill_elems vars js) = map (fill_tok vars) (elem_toks js)"
  "tmembers_ok vars ps \<Longrightarrow> member_toks (fill_members vars ps) = map (fill_tok vars) (member_toks ps)"
  by (induction j and js and ps rule: json_toks_elem_toks_member_toks.induct)
     (auto simp: plain_string_ok)

lemma template_toks:
  "template_ok vars j \<Longrightarrow> list_all (tok_template vars) (json_toks j)"
  "templates_ok vars js \<Longrightarrow> list_all (tok_template vars) (elem_toks js)"
  "tmembers_ok vars ps \<Longrightarrow> list_all (tok_template vars) (member_toks ps)"
  by (induction j and js and ps rule: json_toks_elem_toks_member_toks.induct)
     (auto simp: plain_string_ok)

lemma single_braces_toks:
  "single_braces ts \<Longrightarrow> single_braces (json_toks j @ ts)"
  "single_braces ts \<Longrightarrow> single_braces (elem_toks js @ ts)"
  "single_braces ts \<Longrightarrow> single_braces (member_toks ps @ ts)"
  by (induction j and js and ps arbitrary: ts and ts and ts rule: json_toks_elem_toks_member_toks.induct)
     auto

lemma fill_ok:
  "template_ok vars j \<Longrightarrow> json_ok (fill vars j)"
  "templates_ok vars js \<Longrightarrow> jsons_ok (fill_elems vars js)"
  "tmembers_ok vars ps \<Longrightarrow> jmembers_ok (fill_members vars ps)"
  by (induction j and js and ps rule: json_toks_elem_toks_member_toks.induct)
     (auto simp: plain_string_def string_ok_def fill_string_def split: option.splits)

lemma fill_depth:
  "json_depth (fill vars j) = json_depth j"
  "elems_depth (fill_elems vars js) = elems_depth js"
  "members_depth (fill_members vars ps) = members_depth ps"
  by (induction j and js and ps rule: json_toks_elem_toks_member_toks.induct) auto

section \<open>The text of each token under substitution\<close>

lemma brace_not_escape: "CHR ''{'' \<in> set (esc_byte c) \<Longrightarrow> c = CHR ''{''"
proof (rule ccontr)
  assume in_esc: "CHR ''{'' \<in> set (esc_byte c)" and "c \<noteq> CHR ''{''"
  have "hex_digit (byte_of c div 16) \<noteq> CHR ''{''" "hex_digit (byte_of c mod 16) \<noteq> CHR ''{''"
  proof -
    have "hex_digit n \<noteq> CHR ''{''" if "n < 16" for n
    proof
      assume "hex_digit n = CHR ''{''"
      then have "byte_of (hex_digit n) = 123" by (simp add: byte_of_def)
      then show False using that by (auto simp: hex_digit_def byte_of_def split: if_splits)
    qed
    moreover have "byte_of c div 16 < 16" using byte_of_less [of c] by (simp add: div_less_iff_less_mult)
    ultimately show "hex_digit (byte_of c div 16) \<noteq> CHR ''{''" "hex_digit (byte_of c mod 16) \<noteq> CHR ''{''"
      by simp_all
  qed
  then show False using in_esc \<open>c \<noteq> CHR ''{''\<close> by (auto simp: esc_byte_def split: if_splits)
qed

lemma escape_no_brace: "CHR ''{'' \<notin> set s \<Longrightarrow> CHR ''{'' \<notin> set (json_escape s)"
proof (induction s rule: json_escape.induct)
  case (1 s)
  show ?case
  proof (cases s)
    case (Cons c cs)
    consider "byte_of c < 128" | "\<not> byte_of c < 128" "utf8_len s = 0"
      | "\<not> byte_of c < 128" "utf8_len s \<noteq> 0" by blast
    then show ?thesis
    proof cases
      case 1
      then show ?thesis using "1.IH"(1) [OF Cons] "1.prems" Cons brace_not_escape [of c]
        by (auto simp: json_escape_ascii)
    next
      case 2
      then show ?thesis using "1.IH"(2) [OF Cons] "1.prems" Cons by (subst json_escape.simps) simp
    next
      case 3
      have "CHR ''{'' \<notin> set (drop (utf8_len s) s)" "CHR ''{'' \<notin> set (take (utf8_len s) s)"
        using "1.prems" by (meson in_set_dropD in_set_takeD)+
      then show ?thesis using "1.IH"(3) [OF Cons] 3 Cons
        by (subst json_escape.simps) (auto simp: esc_multi_def)
    qed
  qed simp
qed

lemma escape_safe: "list_all html_safe s \<Longrightarrow> json_escape s = s"
  by (induction s) (auto simp: json_escape_ascii esc_byte_def html_safe_def)

lemma num_text_no_brace: "num_text w \<Longrightarrow> CHR ''{'' \<notin> set w"
proof -
  assume "num_text w"
  then obtain a where a: "literal_wf a" "literal_text a = w"
    using lexed_number_literal [of w w "[]"] by (auto simp: num_text_def)
  obtain neg ip fp ex where "a = Literal neg ip fp ex" by (cases a)
  moreover have "\<not> is_digit CHR ''{''" by (simp add: is_digit_def byte_of_def)
  ultimately show ?thesis using a
    by (cases fp; cases ex) (auto simp: digits_no split: if_splits)
qed

lemma trim_space_id: "list_all (\<lambda>c. \<not> is_space c) n \<Longrightarrow> trim_space n = n"
proof -
  have drop_id: "dropWhile is_space s = s" if "list_all (\<lambda>c. \<not> is_space c) s" for s
    using that by (cases s) simp_all
  assume "list_all (\<lambda>c. \<not> is_space c) n"
  then show ?thesis using drop_id [of n] drop_id [of "rev n"] by (simp add: trim_space_def)
qed

lemma var_name_props:
  assumes "var_name n"
  shows "CHR ''}'' \<notin> set n" "trim_space n = n" "list_all html_safe n"
proof -
  have no: "byte_of c \<notin> {125, 9, 10, 11, 12, 13, 32}" "html_safe c" if "c \<in> set n" for c
  proof -
    have "is_lower c \<or> is_upper c \<or> is_digit c \<or> c = CHR ''_''"
      using assms that by (auto simp: var_name_def list_all_iff)
    then have "97 \<le> byte_of c \<and> byte_of c \<le> 122 \<or> 65 \<le> byte_of c \<and> byte_of c \<le> 90
        \<or> 48 \<le> byte_of c \<and> byte_of c \<le> 57 \<or> byte_of c = 95"
      by (auto simp: is_lower_def is_upper_def is_digit_def byte_of_def)
    then show "byte_of c \<notin> {125, 9, 10, 11, 12, 13, 32}" "html_safe c" by (auto simp: html_safe_def)
  qed
  then show "list_all html_safe n" by (simp add: list_all_iff)
  show "CHR ''}'' \<notin> set n" using no(1) by (force simp: byte_of_def)
  show "trim_space n = n"
    using no(1) by (intro trim_space_id) (auto simp: list_all_iff is_space_def)
qed

lemma escaped_get: "amap_get (escaped_vars vars) n = map_option json_escape (amap_get vars n)"
  by (induction vars) (auto simp: amap_get_def escaped_vars_def)

lemma var_of_Some: "var_of w = Some n \<Longrightarrow> w = ''{{'' @ n @ ''}}''"
  by (auto simp: var_of_def split: if_splits)

lemma subst_plain:
  assumes "CHR ''{'' \<notin> set a" "subst_loop vars b = Inr r"
  shows "subst_loop vars (a @ b) = Inr (a @ r)"
proof -
  have "a = [] \<or> last a \<noteq> CHR ''{''" using assms(1) by (metis last_in_set)
  then show ?thesis using assms by (intro subst_loop_copy) (auto simp: index_of_fresh no_open_def)
qed

lemma tok_head:
  assumes "tok_template vars u" "u \<noteq> TLBrace"
  shows "\<exists>c cs. tok_text u = c # cs \<and> c \<noteq> CHR ''{''"
proof (cases u)
  case (TNum w)
  then show ?thesis using assms(1) num_text_head [of w] num_text_no_brace [of w] by auto
qed (use assms(2) in simp_all)

lemma subst_brace:
  assumes "ts = [] \<or> hd ts \<noteq> TLBrace" "list_all (tok_template vars) ts"
    and "subst_loop evars (toks_text ts) = Inr r"
  shows "subst_loop evars (''{'' @ toks_text ts) = Inr (''{'' @ r)"
proof (rule subst_loop_copy [OF _ _ assms(3)])
  show "no_open ''{'' (toks_text ts)"
  proof (cases ts)
    case (Cons u us)
    then show ?thesis using tok_head [of vars u] assms(1,2) by (auto simp: no_open_def toks_text_def)
  qed (simp add: toks_text_def no_open_def)
qed (simp add: has_prefix_two)

lemma subst_string:
  assumes "string_ok vars w" "subst_loop (escaped_vars vars) b = Inr r"
  shows "subst_loop (escaped_vars vars) (CHR 0x22 # json_escape w @ CHR 0x22 # b)
    = Inr (CHR 0x22 # json_escape (fill_string vars w) @ CHR 0x22 # r)"
proof -
  have q: "subst_loop (escaped_vars vars) ([CHR 0x22] @ b) = Inr ([CHR 0x22] @ r)"
    by (rule subst_plain [OF _ assms(2)]) simp
  show ?thesis
  proof (cases "var_of w")
    case None
    then have "CHR ''{'' \<notin> set (json_escape w)"
      using assms(1) escape_no_brace [of w] by (auto simp: string_ok_def plain_string_def)
    then show ?thesis
      using subst_plain [of "CHR 0x22 # json_escape w" _ _ "[CHR 0x22] @ r"] q None
      by (simp add: fill_string_def)
  next
    case (Some n)
    then obtain v where v: "var_name n" "amap_get vars n = Some v"
      using assms(1) by (auto simp: string_ok_def split: option.splits)
    have "list_all html_safe (''{{'' @ n @ ''}}'')"
      using var_name_props(3) [OF v(1)] by (simp add: html_safe_def byte_of_def)
    then have "json_escape w = ''{{'' @ n @ ''}}''" using var_of_Some [OF Some] escape_safe by simp
    moreover have "subst_loop (escaped_vars vars) (''{{'' @ n @ ''}}'' @ [CHR 0x22] @ b)
        = Inr (json_escape v @ [CHR 0x22] @ r)"
      by (rule subst_loop_var [OF var_name_props(1,2) [OF v(1)] _ q]) (simp add: escaped_get v)
    ultimately show ?thesis
      using subst_plain [of "[CHR 0x22]"] v Some by (simp add: fill_string_def)
  qed
qed

lemma subst_tok:
  assumes "tok_template vars t" "t = TLBrace \<longrightarrow> ts = [] \<or> hd ts \<noteq> TLBrace" "list_all (tok_template vars) ts"
    and r: "subst_loop (escaped_vars vars) (toks_text ts) = Inr r"
  shows "subst_loop (escaped_vars vars) (tok_text t @ toks_text ts) = Inr (tok_text (fill_tok vars t) @ r)"
proof (cases t)
  case TLBrace
  then show ?thesis using subst_brace [OF _ assms(3) r] assms(2) by simp
next
  case (TStr w)
  then show ?thesis using subst_string [OF _ r, of w] assms(1) by simp
next
  case (TNum w)
  then show ?thesis using subst_plain [OF _ r, of w] assms(1) num_text_no_brace [of w] by simp
qed (use subst_plain [OF _ r, of "tok_text t"] in simp_all)

lemma subst_toks:
  "list_all (tok_template vars) ts \<Longrightarrow> single_braces ts \<Longrightarrow>
     subst_loop (escaped_vars vars) (toks_text ts) = Inr (toks_text (map (fill_tok vars) ts))"
proof (induction ts)
  case Nil
  then show ?case by (subst subst_loop.simps) (simp add: toks_text_def)
next
  case (Cons t ts)
  then show ?case using subst_tok [of vars t ts] by (simp add: toks_text_def)
qed

text \<open>
  Captured values cannot break out of a JSON body: substituting into a document whose
  strings are placeholders or ordinary text gives a document that parses to the same tree
  with each placeholder replaced by its value, whatever quotes, backslashes or control
  characters the value holds.
\<close>

theorem substitute_json_exact:
  assumes "template_ok vars j" and "json_depth j \<le> 10000"
  shows "substitute_json vars (json_text j) = Inr (json_text (fill vars j))
    \<and> json_parse (json_text (fill vars j)) = Some (fill vars j)"
proof -
  have "subst_loop (escaped_vars vars) (json_text j) = Inr (json_text (fill vars j))"
    using subst_toks [OF template_toks(1) [OF assms(1)]] single_braces_toks(1) [of "[]" j]
    by (simp add: json_text_def fill_toks(1) [OF assms(1)])
  moreover have "json_parse (json_text (fill vars j)) = Some (fill vars j)"
    using assms by (intro json_parse_text fill_ok(1)) (simp_all add: fill_depth max_nesting_def)
  ultimately show ?thesis
    by (simp add: substitute_json_def substitute_loop json_valid_def)
qed

lemma substitute_json_exact_witness:
  "substitute_json [(''t'', [CHR 0x22, CHR '','', CHR 0x5C])] ''{\"a\":\"{{t}}\"}''
     = Inr (''{\"a\":\"'' @ [CHR 0x5C, CHR 0x22, CHR '','', CHR 0x5C, CHR 0x5C] @ ''\"}'')"
proof -
  let ?vars = "[(''t'', [CHR 0x22, CHR '','', CHR 0x5C])]"
  let ?j = "JObj [(''a'', JStr ''{{t}}'')]"
  have "template_ok ?vars ?j" and "json_depth ?j \<le> 10000"
    and "json_text ?j = ''{\"a\":\"{{t}}\"}''"
    and "json_text (fill ?vars ?j) = ''{\"a\":\"'' @ [CHR 0x5C, CHR 0x22, CHR '','', CHR 0x5C, CHR 0x5C] @ ''\"}''"
    by code_simp+
  then show ?thesis using substitute_json_exact [of ?vars ?j] by simp
qed

section \<open>The order of the setup requests\<close>

definition step_actor_id :: "nat \<Rightarrow> setup_step \<Rightarrow> string" where
  "step_actor_id i s = (if ss_as s = [] then ''setup:'' @ step_label i s else ss_as s)"

text \<open>What the log shows of a call: phase, actor and method.\<close>

definition call_view :: "call \<Rightarrow> phase \<times> string \<times> string" where
  "call_view c = (case c of (ph, i, rq, ex) \<Rightarrow> (ph, id_id i, rq_method rq))"

definition step_view :: "nat \<times> setup_step \<Rightarrow> phase \<times> string \<times> string" where
  "step_view is = (case is of (i, s) \<Rightarrow> (PhSetup, step_actor_id i s, rq_method (ss_request s)))"

lemma substitute_request_method: "substitute_request t vars = Inr t' \<Longrightarrow> rq_method t' = rq_method t"
  by (auto simp: substitute_request_def bind_res_eq_Inr)

lemma identity_by_id_SomeD: "identity_by_id ids k = Some a \<Longrightarrow> a \<in> set ids \<and> id_id a = k"
  by (auto simp: identity_by_id_def dest: find_SomeD)

lemma step_request_view:
  "step_request ids i s vars = Inr (a, rq) \<Longrightarrow> call_view (PhSetup, a, rq, ex) = step_view (i, s)"
  by (auto simp: step_request_def step_actor_def bind_res_eq_Inr call_view_def step_view_def step_actor_id_def
      silent_identity_def dest: substitute_request_method identity_by_id_SomeD split: if_splits option.splits)

lemma run_steps_log:
  "run_steps L (logged X) ids steps vars wl = (res, wl') \<Longrightarrow>
     \<exists>calls. snd wl' = snd wl @ calls
       \<and> map call_view calls = map step_view (take (length calls) steps)
       \<and> length calls \<le> length steps \<and> ((\<exists>v. res = Inr v) \<longrightarrow> length calls = length steps)"
proof (induction steps arbitrary: vars wl)
  case (Cons p steps)
  obtain i s where p: "p = (i, s)" by (cases p)
  show ?case
  proof (cases "step_request ids i s vars")
    case (Inl e)
    then show ?thesis using Cons.prems p by auto
  next
    case (Inr arq)
    obtain a rq where arq: "arq = (a, rq)" by (cases arq)
    note view = step_request_view [OF Inr [unfolded arq], of "fst (ex_call X PhSetup a rq (fst wl))"]
    define ex where "ex = fst (ex_call X PhSetup a rq (fst wl))"
    define wl1 where "wl1 = (snd (ex_call X PhSetup a rq (fst wl)), snd wl @ [(PhSetup, a, rq, ex)])"
    show ?thesis
    proof (cases "step_response L (step_label i s) s ex vars")
      case (Inl e)
      then have "snd wl' = snd wl @ [(PhSetup, a, rq, ex)]" "res = Inl e"
        using Cons.prems p Inr arq by (auto simp: logged_call ex_def)
      then show ?thesis using view p by (intro exI [of _ "[(PhSetup, a, rq, ex)]"]) (auto simp: ex_def)
    next
      case vars': (Inr vars')
      then have "run_steps L (logged X) ids steps vars' wl1 = (res, wl')"
        using Cons.prems p Inr arq by (auto simp: logged_call ex_def wl1_def)
      from Cons.IH [OF this] obtain calls where
        "snd wl' = snd wl1 @ calls" "map call_view calls = map step_view (take (length calls) steps)"
        "length calls \<le> length steps" "(\<exists>v. res = Inr v) \<longrightarrow> length calls = length steps" by blast
      then show ?thesis using view p
        by (intro exI [of _ "(PhSetup, a, rq, ex) # calls"]) (auto simp: wl1_def ex_def)
    qed
  qed
qed simp

text \<open>
  The setup steps run once each, in declared order, each as the identity it names (or
  as one that sends nothing), with the step's own method; a failing step stops the run, so
  the requests sent are a prefix of the steps, and setup succeeds only if all were sent.
\<close>

theorem run_setup_in_order:
  assumes "run_setup L (logged X) tc (w, []) = (res, (w', calls))"
  shows "\<exists>n \<le> length (tc_setup tc). map call_view calls = map step_view (take n (enum_list (tc_setup tc)))
    \<and> (n < length (tc_setup tc) \<longrightarrow> (\<exists>e. res = Inl e))"
proof -
  obtain n where n: "map call_view calls = map step_view (take n (enum_list (tc_setup tc)))"
    "n \<le> length (tc_setup tc)" "(\<exists>v. res = Inr v) \<longrightarrow> n = length (tc_setup tc)"
    using run_steps_log [OF assms [unfolded run_setup_def]] by auto
  moreover have "\<exists>e. res = Inl e" if "n < length (tc_setup tc)" using n(3) that by (cases res) auto
  ultimately show ?thesis by blast
qed

definition sample_setup_case :: test_case where
  "sample_setup_case = sample_case\<lparr>tc_setup :=
     [\<lparr>ss_name = ''login'', ss_as = [], ss_request = sample_request ''GET'' ''/login'', ss_capture = [(''t'', ''token'')]\<rparr>,
      \<lparr>ss_name = ''create'', ss_as = ''alice'', ss_request = sample_request ''GET'' ''/new/{{t}}'', ss_capture = []\<rparr>]\<rparr>"

lemma run_setup_in_order_witness:
  "(case run_setup sample_lib (logged scripted) sample_setup_case
        ([sample_answer 200 ''{\"token\":\"abc\"}'', sample_answer 500 []], []) of (res, (w, calls)) \<Rightarrow>
      map (\<lambda>(ph, i, rq, ex). rq_url rq) calls = [''http://api/login'', ''http://api/new/abc'']
      \<and> (\<exists>n\<le>2. map call_view calls = map step_view (take n (enum_list (tc_setup sample_setup_case)))))"
proof -
  obtain res w calls where r: "run_setup sample_lib (logged scripted) sample_setup_case
      ([sample_answer 200 ''{\"token\":\"abc\"}'', sample_answer 500 []], []) = (res, (w, calls))"
    by (metis surj_pair)
  have "map (\<lambda>(ph, i, rq, ex). rq_url rq) (snd (snd (run_setup sample_lib (logged scripted) sample_setup_case
      ([sample_answer 200 ''{\"token\":\"abc\"}'', sample_answer 500 []], []))))
      = [''http://api/login'', ''http://api/new/abc'']"
    by code_simp
  moreover have "length (tc_setup sample_setup_case) = 2"
    by (simp add: sample_setup_case_def)
  ultimately show ?thesis using run_setup_in_order [OF r] by (auto simp: r)
qed

end
