(* ===== verification/Preflight.thy ===== *)
theory Preflight
  imports Setup
begin

text \<open>
  \<open>internal/engine/preflight.go\<close>: the check, before any authorization request, that each
  credential still belongs to the principal it is declared for.
\<close>

definition expected_for :: "test_case \<Rightarrow> string \<Rightarrow> expected_access option" where
  "expected_for tc i = List.find (\<lambda>ea. ea_identity ea = i) (tc_expected tc)"

section \<open>Validation\<close>

datatype preflight_error = PfMissing string | PfNothingAssessed | PfIdTooLong | PfNoCredential
  | PfUrlInvalid | PfPortInvalid | PfOrigin | PfVariable | PfStatus | PfFieldCount | PfFieldMatch
  | PfPathSegment

definition preflight_origin :: "golib \<Rightarrow> string \<Rightarrow> preflight_error + string" where
  "preflight_origin L raw =
     (case gl_url_parse L raw of None \<Rightarrow> Inl PfUrlInvalid
      | Some u \<Rightarrow>
          if 2000 < length raw \<or> (u_scheme u \<noteq> ''http'' \<and> u_scheme u \<noteq> ''https'') \<or> u_hostname u = []
             \<or> u_has_user u \<or> u_fragment u \<noteq> [] then Inl PfUrlInvalid
          else if u_port u \<noteq> [] \<and> (case atoi (u_port u) of None \<Rightarrow> True | Some n \<Rightarrow> n < 1 \<or> 65535 < n)
            then Inl PfPortInvalid
          else let port = (if u_port u \<noteq> [] then u_port u
                           else if u_scheme u = ''https'' then ''443'' else ''80'')
               in Inr (u_scheme u @ ''://'' @ to_lower (u_hostname u) @ '':'' @ port))"

definition assessed :: "test_case \<Rightarrow> identity \<Rightarrow> bool" where
  "assessed tc i \<longleftrightarrow> (case expected_for tc (id_id i) of None \<Rightarrow> False | Some ea \<Rightarrow> ea_decision ea \<noteq> DSkip)"

definition validate_strict :: "test_case \<Rightarrow> preflight_error + unit" where
  "validate_strict tc =
     (if \<not> tc_require_preflight tc then Inr ()
      else bind_res (iter_res (\<lambda>i. guard_err
             (assessed tc i \<and> \<not> sends_no_auth (id_credential i) \<and> id_preflight i = None) (PfMissing (id_id i)))
             (tc_identities tc)) (\<lambda>_.
           guard_err (\<not> list_ex (assessed tc) (tc_identities tc)) PfNothingAssessed))"

definition validate_field_match :: "string \<times> string \<Rightarrow> preflight_error + unit" where
  "validate_field_match pv =
     bind_res (guard_err (200 < length (fst pv) \<or> 200 < length (snd pv) \<or> trim_space (snd pv) = []) PfFieldMatch) (\<lambda>_.
     guard_err (\<exists>part\<in>set (split_on (CHR ''.'') (fst pv)). trim_space part = []) PfPathSegment)"

definition validate_probe :: "golib \<Rightarrow> test_case \<Rightarrow> identity \<Rightarrow> preflight_error + unit" where
  "validate_probe L tc i =
     (case id_preflight i of None \<Rightarrow> Inr ()
      | Some p \<Rightarrow>
          bind_res (guard_err (200 < length (id_id i)) PfIdTooLong) (\<lambda>_.
          bind_res (guard_err (sends_no_auth (id_credential i) \<or> cr_value (id_credential i) = []) PfNoCredential) (\<lambda>_.
          bind_res (preflight_origin L (pf_url p)) (\<lambda>origin.
          bind_res (guard_err (preflight_origin L (rq_url (tc_request tc)) \<noteq> Inr origin) PfOrigin) (\<lambda>_.
          bind_res (guard_err (contains (pf_url p) ''{{'' \<or> contains (pf_url p) ''${'') PfVariable) (\<lambda>_.
          bind_res (guard_err (pf_expected_status p < 200 \<or> 299 < pf_expected_status p) PfStatus) (\<lambda>_.
          bind_res (guard_err (pf_json_fields p = [] \<or> 8 < length (pf_json_fields p)) PfFieldCount) (\<lambda>_.
          iter_res validate_field_match (pf_json_fields p)))))))))"

definition validate_preflight :: "golib \<Rightarrow> test_case \<Rightarrow> preflight_error + unit" where
  "validate_preflight L tc =
     bind_res (validate_strict tc) (\<lambda>_. iter_res (validate_probe L tc) (preflight_identities tc))"

section \<open>Running the probes\<close>

text \<open>Exact keys only, and numbers compared as they are written.\<close>

fun exact_path :: "gval \<Rightarrow> string list \<Rightarrow> gval option" where
  "exact_path v [] = Some v"
| "exact_path v (p # ps) =
     (case v of GObj ms \<Rightarrow> (case map_of ms p of None \<Rightarrow> None | Some w \<Rightarrow> exact_path w ps) | _ \<Rightarrow> None)"

definition field_matches :: "gval \<Rightarrow> string \<times> string \<Rightarrow> bool" where
  "field_matches v pv \<longleftrightarrow>
     (case exact_path v (split_on (CHR ''.'') (fst pv)) of None \<Rightarrow> False
      | Some leaf \<Rightarrow> scalar_string leaf = Some (snd pv))"

definition matches_principal :: "string \<Rightarrow> (string \<times> string) list \<Rightarrow> bool" where
  "matches_principal body flds =
     (case unmarshal_any Some body of None \<Rightarrow> False | Some v \<Rightarrow> list_all (field_matches v) flds)"

definition probe_result :: "identity \<Rightarrow> identity_preflight \<Rightarrow> execution_result \<Rightarrow> preflight_result" where
  "probe_result i p ex =
     (let r = \<lparr>pr_identity = id_id i, pr_passed = False, pr_reason = ''unexpected_status'',
               pr_status_code = er_status ex\<rparr> in
      if execution_failed ex then r\<lparr>pr_reason := ''execution_error''\<rparr>
      else if er_status ex = 401 \<or> er_status ex = 403 then r\<lparr>pr_reason := ''credential_rejected''\<rparr>
      else if er_status ex = pf_expected_status p then
        (if matches_principal (er_body ex) (pf_json_fields p)
         then r\<lparr>pr_passed := True, pr_reason := ''identity_verified''\<rparr>
         else r\<lparr>pr_reason := ''identity_mismatch''\<rparr>)
      else r)"

definition probe_request :: "identity_preflight \<Rightarrow> request_template" where
  "probe_request p = \<lparr>rq_method = ''GET'', rq_url = pf_url p, rq_headers = [], rq_query = [], rq_body = []\<rparr>"

fun run_probes :: "'w executor \<Rightarrow> identity list \<Rightarrow> 'w \<Rightarrow> preflight_result list \<times> 'w" where
  "run_probes X [] w = ([], w)"
| "run_probes X (i # ids) w =
     (case id_preflight i of
        None \<Rightarrow> run_probes X ids w
      | Some p \<Rightarrow>
          (let (ex, w1) = ex_call X PhPreflight i (probe_request p) w;
               (rs, w2) = run_probes X ids w1
           in (probe_result i p ex # rs, w2)))"

definition run_preflight :: "'w executor \<Rightarrow> test_case \<Rightarrow> 'w \<Rightarrow> (preflight_result list \<times> bool) \<times> 'w" where
  "run_preflight X tc w =
     (let (rs, w') = run_probes X (preflight_identities tc) w in ((rs, list_all pr_passed rs), w'))"

section \<open>What the probes establish\<close>

lemma probe_result_sel [simp]:
  "pr_identity (probe_result i p ex) = id_id i" "pr_status_code (probe_result i p ex) = er_status ex"
  by (simp_all add: probe_result_def Let_def)

lemma field_matches_eq: "field_matches v = (\<lambda>(path, want).
    \<exists>leaf. exact_path v (split_on (CHR ''.'') path) = Some leaf \<and> scalar_string leaf = Some want)"
  by (auto simp: fun_eq_iff field_matches_def split: option.splits)

text \<open>
  An identity is verified only by evidence: a probe passes precisely when the request
  completed with the declared status, neither 401 nor 403, and the body is one JSON document
  in which every declared path leads, by exact keys, to a scalar whose text is the declared
  value; in every other case the result is failed.
\<close>

theorem probe_passed_iff:
  "pr_passed (probe_result i p ex) \<longleftrightarrow>
     \<not> execution_failed ex \<and> er_status ex = pf_expected_status p \<and> er_status ex \<notin> {401, 403} \<and>
     (\<exists>v. unmarshal_any Some (er_body ex) = Some v \<and>
        list_all (\<lambda>(path, want). \<exists>leaf. exact_path v (split_on (CHR ''.'') path) = Some leaf
                    \<and> scalar_string leaf = Some want) (pf_json_fields p))"
  by (simp add: probe_result_def Let_def matches_principal_def split: option.splits flip: field_matches_eq)

definition probed :: "identity list \<Rightarrow> (identity \<times> identity_preflight) list" where
  "probed ids = List.map_filter (\<lambda>i. map_option (Pair i) (id_preflight i)) ids"

lemma probed_simps [simp]:
  "probed [] = []"
  "probed (i # ids) = (case id_preflight i of None \<Rightarrow> probed ids | Some p \<Rightarrow> (i, p) # probed ids)"
  by (simp_all add: probed_def List.map_filter_simps split: option.splits)

text \<open>One probe for each identity that declares one, in order, and nothing else is sent.\<close>

definition probe_log :: "(identity \<times> identity_preflight) list \<Rightarrow> execution_result list \<Rightarrow> call list" where
  "probe_log ips exs = map2 (\<lambda>(i, p) ex. (PhPreflight, i, probe_request p, ex)) ips exs"

lemma run_probes_log:
  "run_probes (logged X) ids wl = (rs, wl') \<Longrightarrow>
     \<exists>exs. length exs = length (probed ids) \<and> snd wl' = snd wl @ probe_log (probed ids) exs
       \<and> rs = map2 (\<lambda>(i, p) ex. probe_result i p ex) (probed ids) exs"
proof (induction ids arbitrary: wl rs)
  case (Cons i ids)
  show ?case
  proof (cases "id_preflight i")
    case None
    then show ?thesis using Cons by simp
  next
    case (Some p)
    define ex where "ex = fst (ex_call X PhPreflight i (probe_request p) (fst wl))"
    define wl1 where "wl1 = (snd (ex_call X PhPreflight i (probe_request p) (fst wl)),
      snd wl @ [(PhPreflight, i, probe_request p, ex)])"
    obtain rs' where "run_probes (logged X) ids wl1 = (rs', wl')" "rs = probe_result i p ex # rs'"
      using Cons.prems Some by (auto simp: logged_call ex_def wl1_def split: prod.splits)
    from Cons.IH [OF this(1)] this(2) obtain exs where
      "length exs = length (probed ids)" "snd wl' = snd wl1 @ probe_log (probed ids) exs"
      "rs = probe_result i p ex # map2 (\<lambda>(i, p) ex. probe_result i p ex) (probed ids) exs" by blast
    then show ?thesis using Some
      by (intro exI [of _ "ex # exs"]) (simp add: probe_log_def wl1_def)
  qed
qed (simp add: probe_log_def)

lemma probe_log_phase: "c \<in> set (probe_log ips exs) \<Longrightarrow> fst c = PhPreflight"
  by (auto simp: probe_log_def set_zip)

end
