(* ===== verification/Verify.thy ===== *)
theory Verify
  imports Preflight
begin

text \<open>
  \<open>internal/engine/verify.go\<close>: a write is judged by reading the target's state before and
  after each identity's request with a separate reader, not by its own response. A reason
  \<open>RNone\<close> is the empty reason of the source.
\<close>

section \<open>Validation\<close>

definition verifier_method :: "write_verification \<Rightarrow> string" where
  "verifier_method wv = (let m = trim_space (rq_method (wv_request wv)) in
     if m \<noteq> [] then to_upper m else ''GET'')"

definition same_origin :: "golib \<Rightarrow> string \<Rightarrow> string \<Rightarrow> bool" where
  "same_origin L a b = (case (gl_url_parse L a, gl_url_parse L b) of
     (Some ua, Some ub) \<Rightarrow> u_host ua \<noteq> [] \<and> equal_fold (u_scheme ua) (u_scheme ub)
        \<and> equal_fold (u_host ua) (u_host ub)
   | _ \<Rightarrow> False)"

datatype credential_error = BearerNoValue string | ApiKeyNoValue string | StaticNoHeader string
  | UnknownCredential string string

definition validate_credential :: "identity \<Rightarrow> credential_error + unit" where
  "validate_credential i = (let c = id_credential i in
     case cr_type c of
       Bearer \<Rightarrow> guard_err (cr_value c = []) (BearerNoValue (id_id i))
     | APIKeyHeader \<Rightarrow> guard_err (cr_value c = []) (ApiKeyNoValue (id_id i))
     | StaticHeader \<Rightarrow> guard_err (cr_value c \<noteq> [] \<and> cr_header c = []) (StaticNoHeader (id_id i))
     | OtherCredential t \<Rightarrow> Inl (UnknownCredential (id_id i) t))"

datatype verification_error = WvStrategyEnvironment | WvStrategy | WvAfterStrategy | WvAfterStatus
  | WvExistenceTarget | WvChangedNeeds | WvResetShape | WvReset setup_invalid | WvEnvironment
  | WvNotMutating | WvNoIdentity | WvIdentityUnderTest string | WvCredential credential_error
  | WvNoUrl | WvOrigin | WvUnsafe string | WvPointer | WvNeedsTarget | WvTargetTooLong
  | WvTargetInvalid | WvTargetPointer

definition validate_reset :: "golib \<Rightarrow> test_case \<Rightarrow> write_verification \<Rightarrow> verification_error + unit" where
  "validate_reset L tc wv = (case wv_reset wv of None \<Rightarrow> Inr ()
     | Some s \<Rightarrow>
         bind_res (guard_err (wv_strategy wv = [] \<or> ss_capture s \<noteq> []
             \<or> \<not> same_origin L (rq_url (ss_request s)) (rq_url (tc_request tc))) WvResetShape) (\<lambda>_.
         bind_res (map_err WvReset (validate_setup (tc\<lparr>tc_setup := [s]\<rparr>))) (\<lambda>_. Inr ())))"

definition validate_strategy :: "write_verification \<Rightarrow> verification_error + unit" where
  "validate_strategy wv = (let st = wv_strategy wv in
     bind_res (if st = [] then Inr ()
               else if st \<in> {''changed'', ''created'', ''deleted''}
                 then guard_err (wv_environment wv \<noteq> ''synchronous_isolated'') WvStrategyEnvironment
               else Inl WvStrategy) (\<lambda>_.
     bind_res (guard_err (wv_after_status wv \<noteq> [] \<and> st \<noteq> ''changed'') WvAfterStrategy) (\<lambda>_.
     bind_res (guard_err (\<exists>c\<in>set (wv_after_status wv). c < 400 \<or> 499 < c) WvAfterStatus) (\<lambda>_.
     bind_res (guard_err (st \<in> {''created'', ''deleted''} \<and> wv_changed_to wv \<noteq> []) WvExistenceTarget) (\<lambda>_.
     guard_err (st = ''changed'' \<and> wv_pointer wv = [] \<and> wv_after_status wv = []) WvChangedNeeds)))))"

definition assessed_expectations :: "test_case \<Rightarrow> nat" where
  "assessed_expectations tc = length (filter (\<lambda>ea. ea_decision ea \<noteq> DSkip) (tc_expected tc))"

definition needs_target :: "test_case \<Rightarrow> write_verification \<Rightarrow> bool" where
  "needs_target tc wv \<longleftrightarrow> 1 < assessed_expectations tc \<and> wv_changed_to wv = []
     \<and> wv_strategy wv \<noteq> ''created'' \<and> wv_strategy wv \<noteq> ''deleted''
     \<and> \<not> (wv_strategy wv = ''changed'' \<and> wv_reset wv \<noteq> None)"

definition validate_target :: "write_verification \<Rightarrow> verification_error + unit" where
  "validate_target wv = (if wv_changed_to wv = [] then Inr ()
     else bind_res (guard_err (8192 < length (wv_changed_to wv)) WvTargetTooLong) (\<lambda>_.
          bind_res (guard_err (decode_assertion_json (wv_changed_to wv) = None) WvTargetInvalid) (\<lambda>_.
          guard_err (wv_pointer wv = []) WvTargetPointer)))"

definition validate_verification :: "golib \<Rightarrow> test_case \<Rightarrow> verification_error + unit" where
  "validate_verification L tc = (case tc_verification tc of None \<Rightarrow> Inr ()
     | Some wv \<Rightarrow>
       bind_res (validate_strategy wv) (\<lambda>_.
       bind_res (validate_reset L tc wv) (\<lambda>_.
       bind_res (guard_err (wv_environment wv \<notin> {[], ''unknown'', ''synchronous_isolated''}) WvEnvironment) (\<lambda>_.
       bind_res (guard_err (\<not> tc_mutating tc) WvNotMutating) (\<lambda>_.
       bind_res (guard_err (id_id (wv_identity wv) = []) WvNoIdentity) (\<lambda>_.
       bind_res (guard_err (id_id (wv_identity wv) \<in> id_id ` set (tc_identities tc))
                   (WvIdentityUnderTest (id_id (wv_identity wv)))) (\<lambda>_.
       bind_res (map_err WvCredential (validate_credential (wv_identity wv))) (\<lambda>_.
       bind_res (guard_err (rq_url (wv_request wv) = []) WvNoUrl) (\<lambda>_.
       bind_res (guard_err (\<not> same_origin L (rq_url (wv_request wv)) (rq_url (tc_request tc))) WvOrigin) (\<lambda>_.
       bind_res (guard_err (is_unsafe_method (verifier_method wv) \<and> \<not> wv_allow_unsafe wv)
                   (WvUnsafe (verifier_method wv))) (\<lambda>_.
       bind_res (guard_err (pointer_tokens (wv_pointer wv) = None \<or> 1024 < length (wv_pointer wv)) WvPointer) (\<lambda>_.
       bind_res (guard_err (needs_target tc wv) WvNeedsTarget) (\<lambda>_.
       validate_target wv)))))))))))))"

section \<open>One read of the state\<close>

record observed_state =
  os_status :: int
  os_value :: "gval option"

definition success_status :: "int \<Rightarrow> bool" where
  "success_status st \<longleftrightarrow> 200 \<le> st \<and> st < 300"

definition state_equal :: "observed_state \<Rightarrow> observed_state \<Rightarrow> bool" where
  "state_equal s t \<longleftrightarrow>
     (os_status s = os_status t \<or> (success_status (os_status s) \<and> success_status (os_status t)))
     \<and> os_value s = os_value t"

definition no_state :: "int \<Rightarrow> observed_state" where
  "no_state st = \<lparr>os_status = st, os_value = None\<rparr>"

text \<open>What \<open>observe\<close> makes of the verifier's response.\<close>

definition read_state :: "write_verification \<Rightarrow> bool \<Rightarrow> execution_result \<Rightarrow> observed_state \<times> reason" where
  "read_state wv after ex =
     (let st = er_status ex; bare = no_state st in
      if after \<and> \<not> execution_failed ex \<and> st \<in> set (wv_after_status wv) then (bare, RNone)
      else if execution_failed ex \<or> 500 \<le> st then (bare, RVerifierReadFailed)
      else if st = 401 \<or> st = 403 then (bare, RVerifierDenied)
      else if st \<noteq> 404 \<and> \<not> success_status st then (bare, RVerifierStatus)
      else if wv_strategy wv = ''changed'' \<and> st = 404 then (bare, RVerifierStatus)
      else if wv_pointer wv = [] \<or> \<not> success_status st then (bare, RNone)
      else case decode_assertion_json (er_body ex) of
        None \<Rightarrow> (bare, RVerifierValueMissing)
      | Some doc \<Rightarrow>
          (case pointer_value doc (or_else [] (pointer_tokens (wv_pointer wv))) of
             None \<Rightarrow> (bare, RVerifierValueMissing)
           | Some v \<Rightarrow> (\<lparr>os_status = st, os_value = Some v\<rparr>, RNone)))"

definition verifier_request :: "write_verification \<Rightarrow> request_template" where
  "verifier_request wv = (wv_request wv)\<lparr>rq_method := verifier_method wv\<rparr>"

definition observe :: "'w executor \<Rightarrow> write_verification \<Rightarrow> bool \<Rightarrow> 'w \<Rightarrow> (observed_state \<times> reason) \<times> 'w" where
  "observe X wv after w =
     (let (c1, w1) = ex_poll X w in
      if c1 then ((no_state 0, RCancelled), w1)
      else let (ex, w2) = ex_call X PhVerification (wv_identity wv) (verifier_request wv) w1;
               (c2, w3) = ex_poll X w2 in
           if c2 then ((no_state 0, RCancelled), w3) else (read_state wv after ex, w3))"

section \<open>One verified write\<close>

definition withheld :: "identity \<Rightarrow> string \<Rightarrow> execution_result" where
  "withheld i msg = (empty_execution (id_id i))\<lparr>er_error := msg, er_error_kind := EKVerification\<rparr>"

definition baseline_unusable :: "write_verification \<Rightarrow> observed_state \<Rightarrow> bool" where
  "baseline_unusable wv before \<longleftrightarrow>
     (if wv_strategy wv = ''created'' then os_status before \<noteq> 404 else \<not> success_status (os_status before))"

text \<open>The two reads before the request: the first state, the statuses seen, the reason to stop.\<close>

definition read_before :: "'w executor \<Rightarrow> write_verification \<Rightarrow> 'w
    \<Rightarrow> (observed_state \<times> int list \<times> reason) \<times> 'w" where
  "read_before X wv w =
     (let ((before, r0), w1) = observe X wv False w;
          r1 = (if r0 = RVerifierStatus then RBaselineMissing else r0);
          r2 = (if r1 = RNone \<and> baseline_unusable wv before then RBaselineMissing else r1) in
      if r2 \<noteq> RNone then ((before, [os_status before], r2), w1)
      else let ((again, r3), w2) = observe X wv False w1 in
        ((before, [os_status before, os_status again],
          if r3 = RNone \<and> \<not> state_equal again before then RConcurrentChange else r3), w2))"

definition has_target :: "write_verification \<Rightarrow> bool" where
  "has_target wv \<longleftrightarrow> wv_changed_to wv \<noteq> []"

definition target_value :: "write_verification \<Rightarrow> gval" where
  "target_value wv = or_else GNull (decode_assertion_json (wv_changed_to wv))"

definition check_target :: "write_verification \<Rightarrow> observed_state \<Rightarrow> reason \<Rightarrow> reason" where
  "check_target wv before r =
     (if r = RNone \<and> has_target wv \<and> os_value before = Some (target_value wv)
      then RTargetAlreadyPresent else r)"

text \<open>\<open>verificationSession\<close>: the state every reset has to restore.\<close>

type_synonym session = "observed_state option"

definition check_session :: "write_verification \<Rightarrow> observed_state \<Rightarrow> reason \<Rightarrow> session \<Rightarrow> reason \<times> session" where
  "check_session wv before r s =
     (if r \<noteq> RNone \<or> wv_reset wv = None then (r, s)
      else case s of None \<Rightarrow> (r, Some before)
           | Some b \<Rightarrow> (if state_equal b before then (r, s) else (RResetBaseline, s)))"

definition judge_after :: "write_verification \<Rightarrow> observed_state \<Rightarrow> observed_state \<Rightarrow> reason
    \<Rightarrow> execution_result \<Rightarrow> assessment_decision \<times> reason" where
  "judge_after wv before after r ex =
     (if r \<noteq> RNone then (AInconclusive, r)
      else if state_equal after before \<and> execution_failed ex then (AInconclusive, RWriteFailed)
      else if state_equal after before \<and> er_status ex = 202 then (AInconclusive, RWritePending)
      else if \<not> state_equal after before \<and> has_target wv \<and> os_value after \<noteq> Some (target_value wv)
        then (AInconclusive, RChangedUnexpectedly)
      else if wv_environment wv = ''unknown'' then (AInconclusive, RWriteEnvironment)
      else if wv_strategy wv = ''created'' \<and> os_status after \<noteq> 404 \<and> \<not> success_status (os_status after)
        then (AInconclusive, RVerifierStatus)
      else if wv_strategy wv = ''deleted'' \<and> os_status after \<noteq> 404 \<and> \<not> state_equal after before
        then (AInconclusive, RChangedUnexpectedly)
      else if state_equal after before then (ADenied, RStateUnchanged)
      else (AAllowed, RStateChanged))"

definition start_evidence :: "write_verification \<Rightarrow> verification_evidence" where
  "start_evidence wv = \<lparr>ve_strategy = (if wv_strategy wv = [] then ''legacy_change'' else wv_strategy wv),
     ve_environment = (if wv_environment wv = [] then ''legacy'' else wv_environment wv),
     ve_reader = id_id (wv_identity wv), ve_reader_status = CSUnset, ve_before = [], ve_after = 0,
     ve_reset = 0\<rparr>"

definition reset_actor :: "test_case \<Rightarrow> setup_step \<Rightarrow> identity" where
  "reset_actor tc s = or_else (silent_identity ''verification-reset'') (identity_by_id (tc_identities tc) (ss_as s))"

definition reset_failed :: "execution_result \<Rightarrow> bool" where
  "reset_failed ex \<longleftrightarrow> execution_failed ex \<or> \<not> success_status (er_status ex) \<or> er_status ex = 202"

text \<open>The reset request, when there is one: its result.\<close>

definition run_reset :: "'w executor \<Rightarrow> test_case \<Rightarrow> write_verification \<Rightarrow> 'w
    \<Rightarrow> execution_result option \<times> 'w" where
  "run_reset X tc wv w = (case wv_reset wv of None \<Rightarrow> (None, w)
     | Some s \<Rightarrow> (let (ex, w') = ex_call X PhReset (reset_actor tc s) (ss_request s) w in (Some ex, w')))"

text \<open>From the two reads on: send the request or withhold it, read again, judge.\<close>

definition attempt_write :: "'w executor \<Rightarrow> write_verification \<Rightarrow> identity \<Rightarrow> request_template
    \<Rightarrow> assessment \<Rightarrow> verification_evidence \<Rightarrow> session \<Rightarrow> 'w
    \<Rightarrow> ((execution_result \<times> assessment) \<times> session) \<times> 'w" where
  "attempt_write X wv i req a ve s w =
     (let ((before, statuses, r0), w1) = read_before X wv w;
          ve1 = ve\<lparr>ve_before := statuses\<rparr>;
          (r1, s1) = check_session wv before (check_target wv before r0) s;
          (c, w2) = (if r1 = RNone then ex_poll X w1 else (False, w1));
          r2 = (if c then RCancelled else r1) in
      if r2 \<noteq> RNone
      then (((withheld i ''write verification could not read the state before the request'',
              a\<lparr>as_reason := r2, as_verification := Some ve1\<rparr>), s1), w2)
      else
        let (ex, w3) = ex_call X PhResource i req w2;
            ((after, r3), w4) = observe X wv True w3;
            (d, r4) = judge_after wv before after r3 ex
        in (((ex, a\<lparr>as_decision := d, as_reason := r4,
                    as_verification := Some (ve1\<lparr>ve_after := os_status after\<rparr>)\<rparr>), s1), w4))"

definition verified_execute :: "'w executor \<Rightarrow> test_case \<Rightarrow> write_verification \<Rightarrow> identity
    \<Rightarrow> request_template \<Rightarrow> expected_access \<Rightarrow> session \<Rightarrow> 'w
    \<Rightarrow> ((execution_result \<times> assessment) \<times> session) \<times> 'w" where
  "verified_execute X tc wv i req ea s w =
     (let a = new_assessment (id_id i) (ea_decision ea) SrcWriteVerification;
          ve = start_evidence wv;
          (c, w1) = ex_poll X w in
      if c then (((withheld i ''write verification canceled before the request'',
                   a\<lparr>as_reason := RCancelled, as_verification := Some ve\<rparr>), s), w1)
      else
        let (reset, w2) = run_reset X tc wv w1;
            ve1 = (case reset of None \<Rightarrow> ve | Some ex \<Rightarrow> ve\<lparr>ve_reset := er_status ex\<rparr>) in
        if (case reset of None \<Rightarrow> False | Some ex \<Rightarrow> reset_failed ex)
        then (((withheld i ''write verification reset failed'',
                a\<lparr>as_reason := RResetFailed, as_verification := Some ve1\<rparr>), s), w2)
        else attempt_write X wv i req a ve1 s w2)"

section \<open>The positive control and the order of execution\<close>

text \<open>The map of verified assessments, in one iteration order.\<close>

definition control_declared :: "test_case \<Rightarrow> bool" where
  "control_declared tc \<longleftrightarrow> list_ex (\<lambda>ea. ea_decision ea = DAllow) (tc_expected tc)"

definition control_passed :: "test_case \<Rightarrow> (string \<times> assessment) list \<Rightarrow> bool" where
  "control_passed tc verified \<longleftrightarrow> list_ex (\<lambda>ea. ea_decision ea = DAllow \<and>
     (case amap_get verified (ea_identity ea) of None \<Rightarrow> False | Some a \<Rightarrow> as_decision a = AAllowed))
     (tc_expected tc)"

definition guard_one :: "reason \<Rightarrow> assessment \<Rightarrow> assessment" where
  "guard_one r a = (if as_expected a = DDeny \<and> as_decision a = ADenied
     then a\<lparr>as_decision := AInconclusive, as_reason := r\<rparr> else a)"

definition guard_verified_denials :: "test_case \<Rightarrow> (string \<times> assessment) list \<Rightarrow> (string \<times> assessment) list" where
  "guard_verified_denials tc verified =
     (if control_passed tc verified then verified
      else let r = (if control_declared tc then RPositiveControlFailed else RNoPositiveControl)
           in map (\<lambda>(k, a). (k, guard_one r a)) verified)"

definition denies :: "test_case \<Rightarrow> identity \<Rightarrow> bool" where
  "denies tc i \<longleftrightarrow> (case expected_for tc (id_id i) of None \<Rightarrow> False | Some ea \<Rightarrow> ea_decision ea = DDeny)"

definition execution_order :: "test_case \<Rightarrow> identity list" where
  "execution_order tc = (if tc_verification tc = None then tc_identities tc
     else filter (denies tc) (tc_identities tc) @ filter (\<lambda>i. \<not> denies tc i) (tc_identities tc))"

section \<open>The requests of a verified write\<close>

definition read_call :: "write_verification \<Rightarrow> execution_result \<Rightarrow> call" where
  "read_call wv ex = (PhVerification, wv_identity wv, verifier_request wv, ex)"

text \<open>A read sends at most one request, and what it concludes is read off its response.\<close>

lemma observe_log:
  assumes "observe (logged X) wv after wl = ((st, r), wl')"
  shows "(\<exists>ex. snd wl' = snd wl @ [read_call wv ex] \<and> (r = RCancelled \<or> (st, r) = read_state wv after ex))
    \<or> (snd wl' = snd wl \<and> r = RCancelled)"
  using assms
  by (auto simp: observe_def logged_call logged_poll read_call_def Let_def split: prod.splits if_splits)

lemma read_state_not_cancelled: "snd (read_state wv after ex) \<noteq> RCancelled"
  by (auto simp: read_state_def Let_def split: option.splits)

lemma observe_ok:
  assumes "observe (logged X) wv after wl = ((st, RNone), wl')"
  shows "\<exists>ex. snd wl' = snd wl @ [read_call wv ex] \<and> read_state wv after ex = (st, RNone)"
  using observe_log [OF assms] by auto

text \<open>Extending the log by calls of given phases.\<close>

definition extends :: "('w \<times> call list) \<Rightarrow> phase list \<Rightarrow> ('w \<times> call list) \<Rightarrow> bool" where
  "extends wl phs wl' \<longleftrightarrow> (\<exists>calls. snd wl' = snd wl @ calls \<and> map fst calls = phs)"

lemma extends_refl [simp]: "extends wl [] wl' \<longleftrightarrow> snd wl' = snd wl"
  by (auto simp: extends_def)

lemma extends_trans: "extends wl ps wl1 \<Longrightarrow> extends wl1 qs wl2 \<Longrightarrow> extends wl (ps @ qs) wl2"
  by (fastforce simp: extends_def)

lemma extends_call: "extends wl [ph] (snd (ex_call (logged X) ph i rq wl))"
  by (simp add: extends_def logged_call)

lemma extends_poll: "extends wl [] (snd (ex_poll (logged X) wl))"
  by (simp add: logged_poll)

lemma observe_extends:
  assumes "observe (logged X) wv after wl = ((st, r), wl')"
  shows "extends wl [PhVerification] wl' \<or> (extends wl [] wl' \<and> r \<noteq> RNone)"
  using observe_log [OF assms] by (auto simp: extends_def read_call_def)

lemma read_before_extends:
  assumes "read_before (logged X) wv wl = ((before, sts, r), wl')"
  shows "(\<exists>n\<le>2. extends wl (replicate n PhVerification) wl' \<and> (r = RNone \<longrightarrow> n = 2))"
proof -
  obtain b r0 wl1 where o1: "observe (logged X) wv False wl = ((b, r0), wl1)" by (metis surj_pair)
  let ?r1 = "if r0 = RVerifierStatus then RBaselineMissing else r0"
  let ?r2 = "if ?r1 = RNone \<and> baseline_unusable wv b then RBaselineMissing else ?r1"
  note e1 = observe_extends [OF o1]
  show ?thesis
  proof (cases "?r2 = RNone")
    case False
    then have "wl' = wl1" "r \<noteq> RNone"
      using assms o1 by (auto simp: read_before_def Let_def split: if_splits)
    then show ?thesis using e1 by (auto intro: exI [of _ 0] exI [of _ "Suc 0"])
  next
    case True
    then have r0: "r0 = RNone" by (auto split: if_splits)
    obtain a r3 where o2: "observe (logged X) wv False wl1 = ((a, r3), wl')"
      and r: "r = (if r3 = RNone \<and> \<not> state_equal a b then RConcurrentChange else r3)"
      using assms o1 True by (auto simp: read_before_def Let_def split: prod.splits if_splits)
    have "extends wl [PhVerification] wl1" using e1 r0 by simp
    from extends_trans [OF this] observe_extends [OF o2] show ?thesis
    proof (elim disjE)
      assume "extends wl1 [PhVerification] wl'"
      with \<open>extends wl [PhVerification] wl1\<close> have "extends wl (replicate 2 PhVerification) wl'"
        using extends_trans by (fastforce simp: numeral_2_eq_2)
      then show ?thesis by blast
    next
      assume "extends wl1 [] wl' \<and> r3 \<noteq> RNone"
      then have "extends wl (replicate 1 PhVerification) wl'" "r \<noteq> RNone"
        using extends_trans [OF \<open>extends wl [PhVerification] wl1\<close>] r by auto
      then show ?thesis by (intro exI [of _ 1]) simp
    qed
  qed
qed

lemma read_before_ok:
  assumes "read_before (logged X) wv wl = ((before, sts, RNone), wl')"
  shows "\<exists>e1 e2 again. snd wl' = snd wl @ [read_call wv e1, read_call wv e2]
    \<and> read_state wv False e1 = (before, RNone) \<and> read_state wv False e2 = (again, RNone)
    \<and> state_equal again before \<and> \<not> baseline_unusable wv before"
proof -
  obtain b r0 wl1 where o1: "observe (logged X) wv False wl = ((b, r0), wl1)" by (metis surj_pair)
  have r0: "r0 = RNone \<and> \<not> baseline_unusable wv b"
    using assms o1 by (auto simp: read_before_def Let_def split: prod.splits if_splits)
  then obtain a r3 where o2: "observe (logged X) wv False wl1 = ((a, r3), wl')" "before = b"
    "r3 = RNone" "state_equal a b"
    using assms o1 by (auto simp: read_before_def Let_def split: prod.splits if_splits)
  from observe_ok [of X wv False wl b wl1] observe_ok [of X wv False wl1 a wl'] o1 o2 r0
  show ?thesis by fastforce
qed

lemma check_target_RNone: "check_target wv before r = RNone \<longleftrightarrow>
    r = RNone \<and> (has_target wv \<longrightarrow> os_value before \<noteq> Some (target_value wv))"
  by (auto simp: check_target_def)

lemma check_session_RNone: "fst (check_session wv before r s) = RNone \<Longrightarrow> r = RNone"
  by (auto simp: check_session_def split: if_splits option.splits)

text \<open>
  When a write may be sent: the session's state is the one read now (the first verified
  write of a session with a reset records it), and the reset, when there is one, was made as
  its actor and succeeded.
\<close>

definition session_ok :: "write_verification \<Rightarrow> observed_state \<Rightarrow> session \<Rightarrow> session \<Rightarrow> bool" where
  "session_ok wv before s s' \<longleftrightarrow> (if wv_reset wv = None then s' = s
     else case s of None \<Rightarrow> s' = Some before | Some b \<Rightarrow> state_equal b before \<and> s' = s)"

definition reset_done :: "test_case \<Rightarrow> write_verification \<Rightarrow> call list \<Rightarrow> bool" where
  "reset_done tc wv cs \<longleftrightarrow> (case wv_reset wv of None \<Rightarrow> cs = []
     | Some st \<Rightarrow> \<exists>r. cs = [(PhReset, reset_actor tc st, ss_request st, r)] \<and> \<not> reset_failed r)"

lemma check_session_ok: "check_session wv before r s = (RNone, s') \<Longrightarrow> session_ok wv before s s'"
  by (auto simp: check_session_def session_ok_def split: if_splits option.splits)

text \<open>The two ways an attempt ends.\<close>

lemma attempt_write_cases:
  assumes "attempt_write (logged X) wv i req a ve s wl = (((ex, a'), s'), wl')"
  obtains (held) n r ve' msg where "n \<le> 2" "extends wl (replicate n PhVerification) wl'"
      "ex = withheld i msg" "r \<noteq> RNone" "a' = a\<lparr>as_reason := r, as_verification := Some ve'\<rparr>"
  | (sent) e1 e2 wl3 before again after r3 d r4 ve' where
      "snd wl3 = snd wl @ [read_call wv e1, read_call wv e2, (PhResource, i, req, ex)]"
      "read_state wv False e1 = (before, RNone)" "read_state wv False e2 = (again, RNone)"
      "state_equal again before" "\<not> baseline_unusable wv before"
      "has_target wv \<longrightarrow> os_value before \<noteq> Some (target_value wv)"
      "observe (logged X) wv True wl3 = ((after, r3), wl')"
      "judge_after wv before after r3 ex = (d, r4)"
      "a' = a\<lparr>as_decision := d, as_reason := r4, as_verification := Some ve'\<rparr>"
      "session_ok wv before s s'"
proof -
  obtain before sts r0 wl1 where rb: "read_before (logged X) wv wl = ((before, sts, r0), wl1)"
    by (metis surj_pair)
  obtain r1 s1 where cs: "check_session wv before (check_target wv before r0) s = (r1, s1)" by (metis surj_pair)
  obtain c wl2 where pl: "(if r1 = RNone then ex_poll (logged X) wl1 else (False, wl1)) = (c, wl2)" by (metis surj_pair)
  have e2: "snd wl2 = snd wl1" using pl by (auto simp: logged_poll split: if_splits)
  let ?r2 = "if c then RCancelled else r1"
  show thesis
  proof (cases "?r2 = RNone")
    case False
    obtain n where "n \<le> 2" "extends wl (replicate n PhVerification) wl1"
      using read_before_extends [OF rb] by blast
    then have "extends wl (replicate n PhVerification) wl2" by (simp add: extends_def e2)
    moreover have "ex = withheld i ''write verification could not read the state before the request''"
      "a' = a\<lparr>as_reason := ?r2, as_verification := Some (ve\<lparr>ve_before := sts\<rparr>)\<rparr>" "wl' = wl2"
      using assms rb cs pl False by (auto simp: attempt_write_def Let_def)
    ultimately show thesis using held \<open>n \<le> 2\<close> False by blast
  next
    case True
    then have r1: "r1 = RNone" "\<not> c" by (auto split: if_splits)
    then have t: "check_target wv before r0 = RNone" using cs check_session_RNone by (metis fst_conv)
    then have r0: "r0 = RNone" "has_target wv \<longrightarrow> os_value before \<noteq> Some (target_value wv)"
      by (simp_all add: check_target_RNone)
    from read_before_ok [OF rb [unfolded r0(1)]] obtain e1 e2 again where b:
      "snd wl1 = snd wl @ [read_call wv e1, read_call wv e2]"
      "read_state wv False e1 = (before, RNone)" "read_state wv False e2 = (again, RNone)"
      "state_equal again before" "\<not> baseline_unusable wv before" by blast
    obtain ex' wl3 where call: "ex_call (logged X) PhResource i req wl2 = (ex', wl3)" by (metis surj_pair)
    obtain after r3 wl4 where ob: "observe (logged X) wv True wl3 = ((after, r3), wl4)" by (metis surj_pair)
    obtain d r4 where j: "judge_after wv before after r3 ex' = (d, r4)" by (metis surj_pair)
    have res: "ex = ex'" "wl' = wl4"
      "a' = a\<lparr>as_decision := d, as_reason := r4, as_verification := Some (ve\<lparr>ve_before := sts, ve_after := os_status after\<rparr>)\<rparr>"
      "s' = s1"
      using assms rb cs pl r1 call ob j by (auto simp: attempt_write_def Let_def)
    then have ses: "session_ok wv before s s'" using cs r1(1) check_session_ok by metis
    have "snd wl3 = snd wl @ [read_call wv e1, read_call wv e2, (PhResource, i, req, ex')]"
      using call b(1) e2 by (auto simp: logged_call)
    then show thesis using sent [OF _ b(2-5) r0(2) _ j [folded res(1)] res(3) ses] ob res by blast
  qed
qed

lemma run_reset_extends:
  "run_reset (logged X) tc wv wl = (ro, wl') \<Longrightarrow>
     extends wl (if wv_reset wv = None then [] else [PhReset]) wl' \<and> (ro = None \<longleftrightarrow> wv_reset wv = None)"
  by (auto simp: run_reset_def extends_def logged_call split: option.splits prod.splits)

definition reset_phases :: "write_verification \<Rightarrow> phase list" where
  "reset_phases wv = (if wv_reset wv = None then [] else [PhReset])"

text \<open>What the whole of \<open>verifiedExecute\<close> can do.\<close>

lemma verified_execute_cases:
  assumes "verified_execute (logged X) tc wv i req ea s wl = (((ex, a), s'), wl')"
  obtains (held) phs r ve msg where "PhResource \<notin> set phs" "extends wl phs wl'"
      "\<exists>n. phs = take n (reset_phases wv @ [PhVerification, PhVerification])"
      "ex = withheld i msg" "r \<noteq> RNone"
      "a = (new_assessment (id_id i) (ea_decision ea) SrcWriteVerification)\<lparr>as_reason := r, as_verification := Some ve\<rparr>"
  | (sent) wl2 e1 e2 wl3 before again after r3 d r4 ve where
      "extends wl (reset_phases wv) wl2"
      "snd wl3 = snd wl2 @ [read_call wv e1, read_call wv e2, (PhResource, i, req, ex)]"
      "read_state wv False e1 = (before, RNone)" "read_state wv False e2 = (again, RNone)"
      "state_equal again before" "\<not> baseline_unusable wv before"
      "has_target wv \<longrightarrow> os_value before \<noteq> Some (target_value wv)"
      "observe (logged X) wv True wl3 = ((after, r3), wl')"
      "judge_after wv before after r3 ex = (d, r4)"
      "a = (new_assessment (id_id i) (ea_decision ea) SrcWriteVerification)\<lparr>as_decision := d,
         as_reason := r4, as_verification := Some ve\<rparr>"
      "session_ok wv before s s'"
      "\<exists>cs. snd wl2 = snd wl @ cs \<and> reset_done tc wv cs"
proof -
  let ?a = "new_assessment (id_id i) (ea_decision ea) SrcWriteVerification"
  obtain c wl1 where p: "ex_poll (logged X) wl = (c, wl1)" by (metis surj_pair)
  then have p1: "snd wl1 = snd wl" by (auto simp: logged_poll)
  show thesis
  proof (cases c)
    case True
    show thesis
    proof (rule held [where phs = "[]" and r = RCancelled and ve = "start_evidence wv"])
      show "\<exists>n. [] = take n (reset_phases wv @ [PhVerification, PhVerification])" by (rule exI [of _ 0]) simp
    qed (use assms p p1 True in \<open>auto simp: verified_execute_def Let_def extends_def\<close>)
  next
    case False
    obtain ro wl2 where r: "run_reset (logged X) tc wv wl1 = (ro, wl2)" by (metis surj_pair)
    then have e: "extends wl (reset_phases wv) wl2"
      using run_reset_extends [OF r] p1 by (simp add: extends_def reset_phases_def)
    let ?ve = "case ro of None \<Rightarrow> start_evidence wv | Some ex \<Rightarrow> (start_evidence wv)\<lparr>ve_reset := er_status ex\<rparr>"
    show thesis
    proof (cases "case ro of None \<Rightarrow> False | Some ex \<Rightarrow> reset_failed ex")
      case True
      show thesis
      proof (rule held [where phs = "reset_phases wv" and r = RResetFailed and ve = ?ve])
        show "\<exists>n. reset_phases wv = take n (reset_phases wv @ [PhVerification, PhVerification])"
          by (rule exI [of _ "length (reset_phases wv)"]) simp
      qed (use assms p r True False e in \<open>auto simp: verified_execute_def Let_def reset_phases_def\<close>)
    next
      case ok: False
      have att: "attempt_write (logged X) wv i req ?a ?ve s wl2 = (((ex, a), s'), wl')"
        using assms p r False ok by (auto simp: verified_execute_def Let_def)
      show thesis
      proof (cases rule: attempt_write_cases [OF att, case_names h t])
        case (h n rr ve' msg)
        show thesis
        proof (rule held [where phs = "reset_phases wv @ replicate n PhVerification" and r = rr and ve = ve' and msg = msg])
          have "replicate n PhVerification = take n [PhVerification, PhVerification]"
            using h(1) by (auto simp: le_Suc_eq numeral_2_eq_2)
          then show "\<exists>m. reset_phases wv @ replicate n PhVerification
              = take m (reset_phases wv @ [PhVerification, PhVerification])"
            by (intro exI [of _ "length (reset_phases wv) + n"]) simp
          show "extends wl (reset_phases wv @ replicate n PhVerification) wl'"
            by (rule extends_trans [OF e h(2)])
        qed (use h in \<open>auto simp: reset_phases_def\<close>)
      next
        case (t e1 e2 wl3 before again after r3 d r4 ve')
        have "\<exists>cs. snd wl2 = snd wl @ cs \<and> reset_done tc wv cs"
          using r ok p1 by (auto simp: run_reset_def reset_done_def logged_call split: option.splits prod.splits)
        with t show thesis using sent [OF e] by blast
      qed
    qed
  qed
qed

text \<open>
  C21. A verified write never runs blind. When it is sent, it is sent once, as the identity
  under test, and the requests before it are: the reset, if the case has one, which
  succeeded; and two reads, both usable, of the same state, which is a baseline for the
  strategy, does not already hold the value to be written, and (with a reset) is the state
  the session's first reset left, recorded if this is the first. At most one read follows.
  When it is not sent, only the reset and at most two reads were, the execution says so, and
  nothing is concluded, for a stated reason.
\<close>

theorem write_withheld_without_baseline:
  assumes "verified_execute (logged X) tc wv i req ea s (w, []) = (((ex, a), s'), (w', calls))"
  shows "if PhResource \<in> fst ` set calls
    then \<exists>rs e1 e2 rest before again.
        calls = rs @ [read_call wv e1, read_call wv e2, (PhResource, i, req, ex)] @ rest
      \<and> (case wv_reset wv of None \<Rightarrow> rs = []
           | Some st \<Rightarrow> \<exists>r. rs = [(PhReset, reset_actor tc st, ss_request st, r)] \<and> \<not> reset_failed r)
      \<and> read_state wv False e1 = (before, RNone) \<and> read_state wv False e2 = (again, RNone)
      \<and> state_equal again before \<and> \<not> baseline_unusable wv before
      \<and> (has_target wv \<longrightarrow> os_value before \<noteq> Some (target_value wv))
      \<and> (if wv_reset wv = None then s' = s
         else case s of None \<Rightarrow> s' = Some before | Some b \<Rightarrow> state_equal b before \<and> s' = s)
      \<and> (rest = [] \<or> (\<exists>e3. rest = [read_call wv e3]))
    else (\<exists>n. map fst calls = take n (reset_phases wv @ [PhVerification, PhVerification]))
      \<and> er_error_kind ex = EKVerification \<and> as_decision a = AInconclusive \<and> as_reason a \<noteq> RNone"
proof (cases rule: verified_execute_cases [OF assms, case_names held sent])
  case (held phs r ve msg)
  then have phs: "map fst calls = phs" by (simp add: extends_def)
  then have "PhResource \<notin> fst ` set calls" using held(1) by auto
  then show ?thesis using held(3-6) phs by (simp add: withheld_def)
next
  case (sent wl2 e1 e2 wl3 before again after r3 d r4 ve)
  obtain rs where rs: "snd wl2 = rs" "reset_done tc wv rs" using sent(12) by auto
  obtain rest where rest: "calls = snd wl3 @ rest" "rest = [] \<or> (\<exists>e3. rest = [read_call wv e3])"
    using observe_log [OF sent(8)] by auto
  have calls: "calls = rs @ [read_call wv e1, read_call wv e2, (PhResource, i, req, ex)] @ rest"
    using rest(1) sent(2) rs(1) by simp
  then have "PhResource \<in> fst ` set calls" by force
  with calls rest(2) sent(3-7,11) rs(2) show ?thesis
    unfolding session_ok_def reset_done_def by (simp only: if_True) blast
qed

text \<open>
  C4. A verdict on a write rests on responses actually received: two equal and usable reads
  before it, one read after it. Denied means the state read afterwards equals the one
  before, the write completed and was not merely accepted; allowed means it differs and,
  when the written value is known, is exactly that value. Nothing is concluded in an
  environment declared unknown.
\<close>

theorem verified_verdict_rests_on_reads:
  assumes "verified_execute (logged X) tc wv i req ea s (w, []) = (((ex, a), s'), (w', calls))"
    and "as_decision a \<noteq> AInconclusive"
  shows "\<exists>pre e1 e2 e3 before again after.
      calls = pre @ [read_call wv e1, read_call wv e2, (PhResource, i, req, ex), read_call wv e3]
    \<and> read_state wv False e1 = (before, RNone) \<and> read_state wv False e2 = (again, RNone)
    \<and> read_state wv True e3 = (after, RNone)
    \<and> state_equal again before \<and> \<not> baseline_unusable wv before \<and> wv_environment wv \<noteq> ''unknown''
    \<and> (if state_equal after before
       then as_decision a = ADenied \<and> \<not> execution_failed ex \<and> er_status ex \<noteq> 202
       else as_decision a = AAllowed \<and> (has_target wv \<longrightarrow>
              os_value before \<noteq> Some (target_value wv) \<and> os_value after = Some (target_value wv)))"
proof (cases rule: verified_execute_cases [OF assms(1), case_names held sent])
  case (sent wl2 e1 e2 wl3 before again after r3 d r4 ve)
  have d: "d \<noteq> AInconclusive" "as_decision a = d" using assms(2) sent(10) by auto
  then have r3: "r3 = RNone" using sent(9) by (auto simp: judge_after_def split: if_splits)
  obtain e3 where e3: "calls = snd wl3 @ [read_call wv e3]" "read_state wv True e3 = (after, RNone)"
    using observe_ok [OF sent(8) [unfolded r3]] by auto
  have "if state_equal after before then d = ADenied \<and> \<not> execution_failed ex \<and> er_status ex \<noteq> 202
      else d = AAllowed \<and> (has_target wv \<longrightarrow> os_value after = Some (target_value wv))"
    "wv_environment wv \<noteq> ''unknown''"
    using sent(9) d(1) by (auto simp: judge_after_def split: if_splits)
  note verdict = this
  have "calls = snd wl2 @ [read_call wv e1, read_call wv e2, (PhResource, i, req, ex), read_call wv e3]"
    using e3(1) sent(2) by simp
  moreover have "if state_equal after before
      then as_decision a = ADenied \<and> \<not> execution_failed ex \<and> er_status ex \<noteq> 202
      else as_decision a = AAllowed \<and> (has_target wv \<longrightarrow>
             os_value before \<noteq> Some (target_value wv) \<and> os_value after = Some (target_value wv))"
    using verdict(1) sent(7) by (simp add: d(2) split: if_splits)
  ultimately show ?thesis
    using sent(3-6) e3(2) verdict(2) by blast
qed (use assms(2) in simp)

section \<open>The positive control\<close>

lemma guard_one_sel [simp]:
  "as_expected (guard_one r a) = as_expected a" "as_identity (guard_one r a) = as_identity a"
  by (simp_all add: guard_one_def)

lemma guard_one_no_denial: "\<not> (as_expected (guard_one r a) = DDeny \<and> as_decision (guard_one r a) = ADenied)"
  by (simp add: guard_one_def)

lemma amap_get_map_snd: "amap_get (map (\<lambda>(k, v). (k, f v)) m) k = map_option f (amap_get m k)"
  by (induction m) (auto simp: amap_get_def)

lemma guard_get: "amap_get (guard_verified_denials tc m) k = (if control_passed tc m then amap_get m k
    else map_option (guard_one (if control_declared tc then RPositiveControlFailed else RNoPositiveControl)) (amap_get m k))"
  by (simp add: guard_verified_denials_def Let_def amap_get_map_snd)

text \<open>
  A verifier that never saw a write succeed protects nothing: a denial of a
  deny-expected identity survives only if some identity expected to be allowed was shown to
  write through the same verifier; otherwise every such denial becomes inconclusive, and
  all other verdicts stand as they were.
\<close>

theorem denial_needs_positive_control:
  assumes "amap_get (guard_verified_denials tc verified) k = Some a"
    and "as_expected a = DDeny" and "as_decision a = ADenied"
  shows "amap_get verified k = Some a \<and>
    (\<exists>ea\<in>set (tc_expected tc). \<exists>b. ea_decision ea = DAllow \<and>
       amap_get verified (ea_identity ea) = Some b \<and> as_decision b = AAllowed)"
proof -
  have "control_passed tc verified"
    using assms guard_one_no_denial by (auto simp: guard_get split: if_splits)
  then show ?thesis
    using assms(1) by (auto simp: guard_get control_passed_def list_ex_iff split: option.splits)
qed

lemma guard_keeps_others:
  "amap_get verified k = Some a \<Longrightarrow> \<not> (as_expected a = DDeny \<and> as_decision a = ADenied) \<Longrightarrow>
     amap_get (guard_verified_denials tc verified) k = Some a"
  by (auto simp: guard_get guard_one_def)

section \<open>A write on record\<close>

definition sample_verification :: write_verification where
  "sample_verification = \<lparr>wv_strategy = [], wv_after_status = [], wv_reset = None,
     wv_identity = sample_identity ''reader'' ''tr'', wv_request = sample_request ''GET'' ''/orders/1'',
     wv_environment = ''synchronous_isolated'', wv_allow_unsafe = False, wv_pointer = ''/v'',
     wv_changed_to = ''2''\<rparr>"

definition sample_write_case :: test_case where
  "sample_write_case = sample_case\<lparr>tc_request := sample_request ''PUT'' ''/orders/1'', tc_mutating := True,
     tc_verification := Some sample_verification\<rparr>"

definition sample_run :: "execution_result list
    \<Rightarrow> ((execution_result \<times> assessment) \<times> session) \<times> (execution_result list \<times> call list)" where
  "sample_run script = verified_execute (logged scripted) sample_write_case sample_verification
     (sample_identity ''bob'' ''tb'') (tc_request sample_write_case) (sample_expected ''bob'' DDeny) None (script, [])"

lemma sample_run_eq: "verified_execute (logged scripted) sample_write_case sample_verification
     (sample_identity ''bob'' ''tb'') (tc_request sample_write_case) (sample_expected ''bob'' DDeny) None (script, [])
   = (((fst (fst (fst (sample_run script))), snd (fst (fst (sample_run script)))), snd (fst (sample_run script))),
      (fst (snd (sample_run script)), snd (snd (sample_run script))))"
  by (simp add: sample_run_def)

lemma write_withheld_without_baseline_witness:
  "\<exists>ex a s' w' calls rs e1 e2 rest. sample_run [sample_answer 200 ''{\"v\":1}'', sample_answer 200 ''{\"v\":1.0}'',
       sample_answer 200 [], sample_answer 200 ''{\"v\":1}''] = (((ex, a), s'), (w', calls))
     \<and> calls = rs @ [read_call sample_verification e1, read_call sample_verification e2,
         (PhResource, sample_identity ''bob'' ''tb'', tc_request sample_write_case, ex)] @ rest"
proof -
  have ph: "map fst (snd (snd (sample_run [sample_answer 200 ''{\"v\":1}'', sample_answer 200 ''{\"v\":1.0}'',
       sample_answer 200 [], sample_answer 200 ''{\"v\":1}''])))
      = [PhVerification, PhVerification, PhResource, PhVerification]"
    by code_simp
  obtain ex a s' w' calls where r: "sample_run [sample_answer 200 ''{\"v\":1}'', sample_answer 200 ''{\"v\":1.0}'',
       sample_answer 200 [], sample_answer 200 ''{\"v\":1}''] = (((ex, a), s'), (w', calls))"
    by (metis surj_pair)
  have "PhResource \<in> set (map fst calls)" using ph unfolding r by simp
  then have "PhResource \<in> fst ` set calls" by simp
  with write_withheld_without_baseline [OF r [unfolded sample_run_def]] r show ?thesis
    by (simp only: if_True) blast
qed

lemma verified_verdict_rests_on_reads_witness:
  "as_decision (snd (fst (fst (sample_run [sample_answer 200 ''{\"v\":1}'', sample_answer 200 ''{\"v\":1.0}'',
     sample_answer 200 [], sample_answer 200 ''{\"v\":1}''])))) = ADenied
   \<and> (\<exists>pre e1 e2 e3 ex. snd (snd (sample_run [sample_answer 200 ''{\"v\":1}'', sample_answer 200 ''{\"v\":1.0}'',
     sample_answer 200 [], sample_answer 200 ''{\"v\":1}''])) = pre @ [read_call sample_verification e1,
       read_call sample_verification e2, (PhResource, sample_identity ''bob'' ''tb'', tc_request sample_write_case, ex),
       read_call sample_verification e3])"
proof -
  have d: "as_decision (snd (fst (fst (sample_run [sample_answer 200 ''{\"v\":1}'', sample_answer 200 ''{\"v\":1.0}'',
     sample_answer 200 [], sample_answer 200 ''{\"v\":1}''])))) = ADenied"
    by code_simp
  then have "as_decision (snd (fst (fst (sample_run [sample_answer 200 ''{\"v\":1}'', sample_answer 200 ''{\"v\":1.0}'',
     sample_answer 200 [], sample_answer 200 ''{\"v\":1}''])))) \<noteq> AInconclusive" by simp
  from verified_verdict_rests_on_reads [OF sample_run_eq this] d show ?thesis by blast
qed

lemma denial_needs_positive_control_witness:
  "\<exists>ea\<in>set (tc_expected sample_write_case). \<exists>b. ea_decision ea = DAllow \<and>
     amap_get [(''bob'', (new_assessment ''bob'' DDeny SrcWriteVerification)\<lparr>as_decision := ADenied\<rparr>),
               (''alice'', (new_assessment ''alice'' DAllow SrcWriteVerification)\<lparr>as_decision := AAllowed\<rparr>)]
       (ea_identity ea) = Some b \<and> as_decision b = AAllowed"
proof -
  have "amap_get (guard_verified_denials sample_write_case
      [(''bob'', (new_assessment ''bob'' DDeny SrcWriteVerification)\<lparr>as_decision := ADenied\<rparr>),
       (''alice'', (new_assessment ''alice'' DAllow SrcWriteVerification)\<lparr>as_decision := AAllowed\<rparr>)]) ''bob''
      = Some ((new_assessment ''bob'' DDeny SrcWriteVerification)\<lparr>as_decision := ADenied\<rparr>)"
    and "as_expected ((new_assessment ''bob'' DDeny SrcWriteVerification)\<lparr>as_decision := ADenied\<rparr>) = DDeny"
    and "as_decision ((new_assessment ''bob'' DDeny SrcWriteVerification)\<lparr>as_decision := ADenied\<rparr>) = ADenied"
    by code_simp+
  from denial_needs_positive_control [OF this] show ?thesis by blast
qed

section \<open>Every request of a verified write\<close>

definition write_call :: "write_verification \<Rightarrow> identity \<Rightarrow> request_template \<Rightarrow> call \<Rightarrow> bool" where
  "write_call wv i req c \<longleftrightarrow> (case c of (ph, j, rq, ex) \<Rightarrow>
     (ph = PhVerification \<and> rq = verifier_request wv)
   \<or> (ph = PhResource \<and> j = i \<and> rq = req)
   \<or> (ph = PhReset \<and> (\<exists>s. wv_reset wv = Some s \<and> rq = ss_request s)))"

lemma observe_adds:
  "observe (logged X) wv after wl = (sr, wl') \<Longrightarrow> adds (write_call wv i req) wl wl'"
  by (cases sr) (auto dest!: observe_log simp: adds_def write_call_def read_call_def)

lemma read_before_adds:
  "read_before (logged X) wv wl = (b, wl') \<Longrightarrow> adds (write_call wv i req) wl wl'"
  by (auto simp: read_before_def Let_def split: prod.splits if_splits
      dest!: observe_adds [where i = i and req = req] intro: adds_trans)

lemma run_reset_adds:
  "run_reset (logged X) tc wv wl = (b, wl') \<Longrightarrow> adds (write_call wv i req) wl wl'"
  by (auto simp: run_reset_def write_call_def split: prod.splits option.splits intro: adds_call)

lemma attempt_write_adds:
  assumes "attempt_write (logged X) wv i req a ve s wl = (r, wl')"
  shows "adds (write_call wv i req) wl wl'"
proof -
  obtain before sts r0 wl1 where rb: "read_before (logged X) wv wl = ((before, sts, r0), wl1)"
    by (metis surj_pair)
  obtain r1 s1 where cs: "check_session wv before (check_target wv before r0) s = (r1, s1)" by (metis surj_pair)
  obtain c wl2 where pl: "(if r1 = RNone then ex_poll (logged X) wl1 else (False, wl1)) = (c, wl2)" by (metis surj_pair)
  have "adds (write_call wv i req) wl wl2"
    using read_before_adds [OF rb] pl by (auto split: if_splits intro: adds_trans dest: adds_poll)
  moreover have "adds (write_call wv i req) wl2 wl'"
  proof (cases "(if c then RCancelled else r1) = RNone")
    case False
    then show ?thesis using assms rb cs pl by (auto simp: attempt_write_def Let_def)
  next
    case True
    obtain ex wl3 where call: "ex_call (logged X) PhResource i req wl2 = (ex, wl3)" by (metis surj_pair)
    obtain ar wl4 where ob: "observe (logged X) wv True wl3 = (ar, wl4)" by (metis surj_pair)
    have "wl' = wl4" using assms rb cs pl True call ob
      by (auto simp: attempt_write_def Let_def split: prod.splits if_splits)
    moreover have "adds (write_call wv i req) wl2 wl3" by (rule adds_call [OF call]) (simp add: write_call_def)
    ultimately show ?thesis using observe_adds [OF ob] adds_trans by blast
  qed
  ultimately show ?thesis by (rule adds_trans)
qed

lemma verified_execute_adds:
  assumes "verified_execute (logged X) tc wv i req ea s wl = (r, wl')"
  shows "adds (write_call wv i req) wl wl'"
proof -
  obtain c wl1 where p: "ex_poll (logged X) wl = (c, wl1)" by (metis surj_pair)
  obtain ro wl2 where rr: "run_reset (logged X) tc wv wl1 = (ro, wl2)" by (metis surj_pair)
  note a1 = adds_poll [OF p, of "write_call wv i req"] and a2 = run_reset_adds [OF rr, of i req]
  show ?thesis
    using assms p rr a1 adds_trans [OF a1 a2]
    by (auto simp: verified_execute_def Let_def split: if_splits dest!: attempt_write_adds intro: adds_trans)
qed

end
