(* ===== verification/Findings.thy ===== *)
theory Findings
  imports Verify GoQuery
begin

text \<open>
  The part of \<open>internal/engine/engine.go\<close> that turns executions and assessments into
  findings: the observed outcome under the declared deny conventions, the category of an
  unexpected access, the evidence recorded with it, and the exposure of sensitive fields
  and of a permissive CORS policy.
\<close>

text \<open>\<open>execByID\<close>; a missing key reads as the zero execution.\<close>

type_synonym executions = "(string \<times> execution_result) list"

definition exec_of :: "executions \<Rightarrow> string \<Rightarrow> execution_result" where
  "exec_of m i = or_else (empty_execution []) (amap_get m i)"

section \<open>Outcomes\<close>

definition classify :: "golib \<Rightarrow> test_case \<Rightarrow> execution_result \<Rightarrow> outcome \<times> deny_reason option" where
  "classify L tc ex =
     (if er_error ex \<noteq> [] then (OError, None)
      else case matches_deny L (er_body ex) (tc_deny_when tc) of
        Some r \<Rightarrow> (ODeny, Some r)
      | None \<Rightarrow> (classify_outcome_with (er_status ex) False (tc_deny_statuses tc), None))"

section \<open>Evidence\<close>

definition sensitive_query_params :: "string list" where
  "sensitive_query_params = [''api_key'', ''apikey'', ''token'', ''access_token'', ''secret'', ''key'',
     ''password'', ''auth'', ''authorization'']"

definition is_sensitive_param :: "string \<Rightarrow> bool" where
  "is_sensitive_param k \<longleftrightarrow> list_ex (equal_fold k) sensitive_query_params"

definition redact_values :: "url_values \<Rightarrow> url_values" where
  "redact_values q = map (\<lambda>(k, vs). (k, if is_sensitive_param k then [''[REDACTED]''] else vs)) q"

text \<open>The URL that is written: no user information, sensitive parameters redacted.\<close>

definition redact_url :: "go_url \<Rightarrow> go_url" where
  "redact_url u =
     (let q = parse_query (u_raw_query u); u1 = u\<lparr>u_has_user := False\<rparr> in
      if list_ex (\<lambda>p. is_sensitive_param (fst p)) q
      then u1\<lparr>u_raw_query := encode_values (redact_values q)\<rparr> else u1)"

definition sanitize_url :: "golib \<Rightarrow> string \<Rightarrow> string" where
  "sanitize_url L raw = (case gl_url_parse L raw of None \<Rightarrow> ''[invalid-url]''
     | Some u \<Rightarrow> gl_url_string L (redact_url u))"

definition url_evidence :: "golib \<Rightarrow> test_case \<Rightarrow> evidence" where
  "url_evidence L tc = EvUrl (rq_method (tc_request tc)) (sanitize_url L (rq_url (tc_request tc)))"

definition build_evidence :: "golib \<Rightarrow> test_case \<Rightarrow> identity \<Rightarrow> execution_result \<Rightarrow> outcome \<Rightarrow> evidence list" where
  "build_evidence L tc i ex oc =
     [EvOutcome oc, EvStatusCode (er_status ex), EvIdentity (id_id i), url_evidence L tc]
     @ (if tc_deny_statuses tc = [] then [] else [EvDenyStatusDeclared (tc_deny_statuses tc)])
     @ (if id_role i = [] then [] else [EvRole (id_role i)])
     @ (if id_tenant i = [] then [] else [EvTenant (id_tenant i)])"

section \<open>Unexpected access\<close>

text \<open>\<open>resourceTenant\<close>: the tenant bound on the resource, else the one its response names.\<close>

definition resource_tenant :: "golib \<Rightarrow> resource option \<Rightarrow> execution_result \<Rightarrow> string option" where
  "resource_tenant L res ex = (case res of None \<Rightarrow> None
     | Some r \<Rightarrow>
         if rs_tenant r \<noteq> [] then Some (rs_tenant r)
         else if rs_tenant_field r = [] \<or> er_body ex = [] then None
         else field_value L (er_body ex) (rs_tenant_field r))"

fun role_rank :: "string list \<Rightarrow> string \<Rightarrow> nat option" where
  "role_rank [] role = None"
| "role_rank (r # rs) role = (if r = role then Some 0 else map_option Suc (role_rank rs role))"

definition resource_label :: "resource \<Rightarrow> string" where
  "resource_label r = (if rs_object_id r \<noteq> [] then rs_object_id r else rs_type r)"

definition tenant_broken :: "golib \<Rightarrow> test_case \<Rightarrow> identity \<Rightarrow> execution_result \<Rightarrow> string option" where
  "tenant_broken L tc i ex = (case resource_tenant L (tc_resource tc) ex of None \<Rightarrow> None
     | Some t \<Rightarrow> if id_tenant i \<noteq> [] \<and> id_tenant i \<noteq> t then Some t else None)"

definition owner_violated :: "test_case \<Rightarrow> identity \<Rightarrow> (string \<times> string) option" where
  "owner_violated tc i = (case tc_resource tc of None \<Rightarrow> None
     | Some r \<Rightarrow> if rs_owner r \<noteq> [] \<and> id_id i \<noteq> rs_owner r \<and> (rs_object_id r \<noteq> [] \<or> rs_type r \<noteq> [])
                then Some (rs_owner r, resource_label r) else None)"

definition role_below :: "test_case \<Rightarrow> identity \<Rightarrow> string option" where
  "role_below tc i = (case tc_resource tc of None \<Rightarrow> None
     | Some r \<Rightarrow>
         if rs_required_role r = [] \<or> tc_role_hierarchy tc = [] then None
         else case (role_rank (tc_role_hierarchy tc) (rs_required_role r),
                    role_rank (tc_role_hierarchy tc) (id_role i)) of
                (Some req, Some own) \<Rightarrow> if own < req then Some (rs_required_role r) else None
              | _ \<Rightarrow> None)"

definition classify_unexpected :: "golib \<Rightarrow> test_case \<Rightarrow> identity \<Rightarrow> execution_result
    \<Rightarrow> category \<times> severity \<times> confidence \<times> evidence list" where
  "classify_unexpected L tc i ex =
     (if sends_no_auth (id_credential i)
      then (MissingAuthentication, SevCritical, ConfidenceHigh, [EvUnauthenticated])
      else case tenant_broken L tc i ex of
        Some t \<Rightarrow> (CrossTenantAccess, SevCritical, ConfidenceHigh, [EvTenantBroken (id_tenant i) t])
      | None \<Rightarrow>
         (case owner_violated tc i of
            Some (own, lbl) \<Rightarrow> (PotentialBOLA, SevHigh, ConfidenceHigh, [EvOwnership own lbl])
          | None \<Rightarrow>
             (case role_below tc i of
                Some req \<Rightarrow> (PrivilegeEscalation, SevHigh, ConfidenceHigh, [EvPrivilege (id_role i) req])
              | None \<Rightarrow> (UnexpectedAccess, SevHigh, ConfidenceMedium, []))))"

section \<open>Comparison with a legitimate response\<close>

definition usable_baseline :: "executions \<Rightarrow> string \<Rightarrow> string \<Rightarrow> execution_result option" where
  "usable_baseline m offending i =
     (if i = [] \<or> i = offending then None
      else case amap_get m i of None \<Rightarrow> None
           | Some ex \<Rightarrow> if er_error ex \<noteq> [] then None else Some ex)"

fun first_some :: "('a \<Rightarrow> 'b option) \<Rightarrow> 'a list \<Rightarrow> 'b option" where
  "first_some f [] = None"
| "first_some f (x # xs) = (case f x of Some y \<Rightarrow> Some y | None \<Rightarrow> first_some f xs)"

definition baseline_execution :: "test_case \<Rightarrow> string \<Rightarrow> executions \<Rightarrow> execution_result option" where
  "baseline_execution tc offending m =
     (case (case tc_resource tc of None \<Rightarrow> None | Some r \<Rightarrow> usable_baseline m offending (rs_owner r)) of
        Some ex \<Rightarrow> Some ex
      | None \<Rightarrow> first_some (\<lambda>ea. if ea_decision ea \<noteq> DAllow then None
                                else usable_baseline m offending (ea_identity ea)) (tc_expected tc))"

definition comparison_evidence :: "golib \<Rightarrow> test_case \<Rightarrow> execution_result \<Rightarrow> executions \<Rightarrow> evidence list" where
  "comparison_evidence L tc offending m =
     (case baseline_execution tc (er_identity offending) m of None \<Rightarrow> []
      | Some b \<Rightarrow>
          let cr = compare_results L b offending (tc_sensitive_fields tc) in
          evidence_of b offending cr
          @ (if co_body_match cr \<and> er_body offending \<noteq> []
             then [EvBodyMatchesBaseline (er_identity offending) (er_identity b)] else []))"

definition unexpected_access_finding :: "golib \<Rightarrow> test_case \<Rightarrow> identity \<Rightarrow> execution_result \<Rightarrow> outcome
    \<Rightarrow> executions \<Rightarrow> finding" where
  "unexpected_access_finding L tc i ex oc m =
     (let (cat, sev, conf, why) = classify_unexpected L tc i ex in
      \<lparr>fd_category = cat, fd_severity = sev, fd_confidence = conf, fd_identity = id_id i,
       fd_message = MsgUnexpectedAccess (id_id i),
       fd_evidence = build_evidence L tc i ex oc @ why @ comparison_evidence L tc ex m,
       fd_detected_at = gl_now L\<rparr>)"

definition access_denied_finding :: "golib \<Rightarrow> test_case \<Rightarrow> identity \<Rightarrow> execution_result \<Rightarrow> outcome
    \<Rightarrow> deny_reason option \<Rightarrow> finding" where
  "access_denied_finding L tc i ex oc why =
     \<lparr>fd_category = AuthorizationMismatch, fd_severity = SevLow, fd_confidence = ConfidenceHigh,
      fd_identity = id_id i, fd_message = MsgDenied (id_id i),
      fd_evidence = build_evidence L tc i ex oc @ (case why of None \<Rightarrow> [] | Some r \<Rightarrow> [EvDenyWhen r]),
      fd_detected_at = gl_now L\<rparr>"

section \<open>Findings from an outcome or an assessment\<close>

definition evaluate :: "golib \<Rightarrow> test_case \<Rightarrow> identity \<Rightarrow> executions \<Rightarrow> access_decision \<Rightarrow> finding option" where
  "evaluate L tc i m expected =
     (let ex = exec_of m (id_id i) in
      if er_error ex \<noteq> [] then None
      else case classify L tc ex of (oc, why) \<Rightarrow>
        if expected = DDeny \<and> oc = OAllow then Some (unexpected_access_finding L tc i ex oc m)
        else if expected = DAllow \<and> oc = ODeny then Some (access_denied_finding L tc i ex oc why)
        else None)"

definition assessment_evidence :: "assessment \<Rightarrow> evidence list" where
  "assessment_evidence a = [EvAssessment (as_decision a), EvSource (as_source a),
     if as_source a = SrcWriteVerification then EvVerification (as_reason a)
     else EvMatchedAssertions (as_matched a)]"

definition assessment_finding :: "golib \<Rightarrow> test_case \<Rightarrow> identity \<Rightarrow> executions \<Rightarrow> expected_access
    \<Rightarrow> assessment \<Rightarrow> finding option" where
  "assessment_finding L tc i m ea a =
     (let ex = exec_of m (id_id i);
          finish = (\<lambda>f. f\<lparr>fd_confidence := ConfidenceHigh, fd_evidence := fd_evidence f @ assessment_evidence a\<rparr>) in
      if as_decision a = AAllowed \<and> ea_decision ea = DDeny
      then Some (finish (unexpected_access_finding L tc i ex OAllow m))
      else if as_decision a = ADenied \<and> ea_decision ea = DAllow
      then Some (finish (access_denied_finding L tc i ex ODeny (Some (DRAssessed (as_reason a)))))
      else None)"

section \<open>Sensitive data\<close>

definition tiers_by_name :: "tier list" where
  "tiers_by_name = [TierCritical, TierDeclared, TierElevated, TierInternal, TierPII]"

definition sorted_tiers :: "tier set \<Rightarrow> tier list" where
  "sorted_tiers ts = filter (\<lambda>t. t \<in> ts) tiers_by_name"

definition group_severity :: "sensitive_hit list \<Rightarrow> severity" where
  "group_severity hits = foldl (\<lambda>s h. if severity_rank s < severity_rank (tier_severity (sh_tier h))
     then tier_severity (sh_tier h) else s) SevLow hits"

definition category_finding :: "golib \<Rightarrow> test_case \<Rightarrow> identity \<Rightarrow> execution_result \<Rightarrow> sensitive_hit list
    \<Rightarrow> category \<Rightarrow> finding option" where
  "category_finding L tc i ex hits cat =
     (let grp = filter (\<lambda>h. tier_category (sh_tier h) = cat) hits in
      if grp = [] then None
      else Some \<lparr>fd_category = cat, fd_severity = group_severity grp, fd_confidence = ConfidenceHigh,
             fd_identity = id_id i,
             fd_message = (if cat = ObjectPropertyExposure then MsgObjectProperties (id_id i)
                           else MsgSensitiveFields (id_id i)),
             fd_evidence = [EvLeakedFields (map sh_path grp), EvSensitivity (sorted_tiers (sh_tier ` set grp)),
               EvStatusCode (er_status ex), EvIdentity (id_id i), url_evidence L tc],
             fd_detected_at = gl_now L\<rparr>)"

definition sensitive_data_findings :: "golib \<Rightarrow> test_case \<Rightarrow> identity \<Rightarrow> execution_result \<Rightarrow> finding list" where
  "sensitive_data_findings L tc i ex =
     (if er_error ex \<noteq> [] \<or> er_body ex = [] then []
      else let hits = scan_sensitive L (er_body ex) (tc_sensitive_fields tc) in
           if hits = [] then []
           else List.map_filter (category_finding L tc i ex hits) [ObjectPropertyExposure, SensitiveDataExposure])"

section \<open>CORS\<close>

definition with_header :: "request_template \<Rightarrow> string \<Rightarrow> string \<Rightarrow> request_template" where
  "with_header t k v = t\<lparr>rq_headers := amap_put k v (rq_headers t)\<rparr>"

text \<open>Where several names differ in case only, the first in iteration order.\<close>

definition header_value :: "(string \<times> string) list \<Rightarrow> string \<Rightarrow> string" where
  "header_value hs k = (case amap_get hs k of Some v \<Rightarrow> v
     | None \<Rightarrow> (case List.find (\<lambda>(k', v). equal_fold k' k) hs of Some (_, v) \<Rightarrow> v | None \<Rightarrow> []))"

definition cors_observed :: "test_case \<Rightarrow> executions \<Rightarrow> (string \<times> (string \<times> string) list) option" where
  "cors_observed tc m = first_some (\<lambda>i. let ex = exec_of m (id_id i) in
     if er_error ex = [] \<and> er_headers ex \<noteq> [] then Some (id_id i, er_headers ex) else None) (tc_identities tc)"

definition cors_finding :: "golib \<Rightarrow> test_case \<Rightarrow> string \<Rightarrow> executions \<Rightarrow> finding option" where
  "cors_finding L tc origin m =
     (case cors_observed tc m of None \<Rightarrow> None
      | Some (by_id, hs) \<Rightarrow>
          let acao = header_value hs ''Access-Control-Allow-Origin'';
              creds = equal_fold (header_value hs ''Access-Control-Allow-Credentials'') ''true'';
              reflected = (acao = origin); wildcard = (acao = ''*'') in
          if acao = [] \<or> (\<not> reflected \<and> \<not> wildcard) then None
          else Some \<lparr>fd_category = CORSMisconfiguration,
                 fd_severity = (if reflected \<and> creds then SevHigh else SevLow),
                 fd_confidence = (if reflected \<and> creds then ConfidenceHigh else ConfidenceMedium),
                 fd_identity = by_id, fd_message = MsgCors origin,
                 fd_evidence = [if reflected \<and> creds then EvCredentialedCors else EvPermissiveCors reflected,
                   EvAllowOrigin acao, EvAllowCredentials creds, EvProbeOrigin origin, EvObservedOn by_id,
                   url_evidence L tc],
                 fd_detected_at = gl_now L\<rparr>)"

section \<open>Cross-tenant findings are proven by the response\<close>

lemma field_value_sound:
  assumes "field_value L body field = Some s"
  shows "\<exists>v k. unmarshal_any (gl_float L) body = Some v \<and> (k, s) \<in> set (scalar_members v)
    \<and> normalize_field k = normalize_field field"
  using assms find_scalar_sound(1) [of _ field "normalize_field field"]
  by (fastforce simp: field_value_def find_field_def matches_normalized_correct
      split: if_splits option.splits field_result.splits)

lemma classify_unexpected_tenant:
  "fst (classify_unexpected L tc i ex) = CrossTenantAccess \<longleftrightarrow>
     \<not> sends_no_auth (id_credential i) \<and> tenant_broken L tc i ex \<noteq> None"
  by (auto simp: classify_unexpected_def split: option.splits)

text \<open>
  C32. A broken tenant boundary is reported only on proof: the caller has a tenant of its
  own, and the tenant it crossed into is a different one that is either bound on the
  resource by the test case or is the value, in this caller's own response, of a key that
  spells the declared tenant field.
\<close>

theorem cross_tenant_is_proven:
  assumes "fst (classify_unexpected L tc i ex) = CrossTenantAccess"
  shows "\<exists>r t. tc_resource tc = Some r \<and> id_tenant i \<noteq> [] \<and> t \<noteq> id_tenant i
    \<and> snd (snd (snd (classify_unexpected L tc i ex))) = [EvTenantBroken (id_tenant i) t]
    \<and> (t = rs_tenant r \<and> t \<noteq> []
       \<or> rs_tenant r = [] \<and> (\<exists>v k. unmarshal_any (gl_float L) (er_body ex) = Some v
            \<and> (k, t) \<in> set (scalar_members v) \<and> normalize_field k = normalize_field (rs_tenant_field r)))"
proof -
  from assms obtain t where t: "tenant_broken L tc i ex = Some t" and auth: "\<not> sends_no_auth (id_credential i)"
    by (auto simp: classify_unexpected_tenant)
  then obtain r where r: "tc_resource tc = Some r" "id_tenant i \<noteq> []" "t \<noteq> id_tenant i"
    "resource_tenant L (Some r) ex = Some t"
    by (auto simp: tenant_broken_def resource_tenant_def split: option.splits if_splits)
  have "snd (snd (snd (classify_unexpected L tc i ex))) = [EvTenantBroken (id_tenant i) t]"
    using t auth by (simp add: classify_unexpected_def)
  moreover have "t = rs_tenant r \<and> t \<noteq> [] \<or> rs_tenant r = [] \<and> (\<exists>v k. unmarshal_any (gl_float L) (er_body ex) = Some v
      \<and> (k, t) \<in> set (scalar_members v) \<and> normalize_field k = normalize_field (rs_tenant_field r))"
    using r(4) field_value_sound [of L "er_body ex" "rs_tenant_field r" t]
    by (auto simp: resource_tenant_def split: if_splits)
  ultimately show ?thesis using r by blast
qed

definition sample_resource :: resource where
  "sample_resource = \<lparr>rs_type = ''order'', rs_object_id = ''1'', rs_owner = ''alice'', rs_tenant = [],
     rs_required_role = [], rs_tenant_field = ''tenant_id''\<rparr>"

lemma cross_tenant_is_proven_witness:
  "\<exists>r t. tc_resource (sample_case\<lparr>tc_resource := Some sample_resource\<rparr>) = Some r \<and> t \<noteq> ''acme''
    \<and> (\<exists>v k. (k, t) \<in> set (scalar_members v) \<and> normalize_field k = normalize_field (rs_tenant_field r)
         \<or> t = rs_tenant r)"
proof -
  let ?tc = "sample_case\<lparr>tc_resource := Some sample_resource\<rparr>"
  let ?i = "(sample_identity ''bob'' ''tb'')\<lparr>id_tenant := ''acme''\<rparr>"
  let ?ex = "sample_answer 200 ''{\"order\":{\"tenantId\":\"globex\"}}''"
  have "fst (classify_unexpected sample_lib ?tc ?i ?ex) = CrossTenantAccess" by code_simp
  from cross_tenant_is_proven [OF this] show ?thesis by fastforce
qed

section \<open>Redacted URLs\<close>

lemma redact_values_keys: "map fst (redact_values q) = map fst q"
  by (simp add: redact_values_def case_prod_beta comp_def)

lemma redact_values_ok: "values_ok q \<Longrightarrow> values_ok (redact_values q)"
  unfolding values_ok_def redact_values_keys by (force simp: redact_values_def split: if_splits)

lemma redact_values_none: "\<not> list_ex (\<lambda>p. is_sensitive_param (fst p)) q \<Longrightarrow> redact_values q = q"
  by (induction q) (auto simp: redact_values_def)

text \<open>
  A URL written into evidence carries no user information, and none of its well-formed
  sensitive query parameters keeps a value: each reads \<open>[REDACTED]\<close>, while every other
  parameter keeps its values.
\<close>

theorem redact_url_hides_secrets:
  "\<not> u_has_user (redact_url u)
   \<and> parse_query (u_raw_query (redact_url u)) = redact_values (parse_query (u_raw_query u))
   \<and> map fst (parse_query (u_raw_query (redact_url u))) = map fst (parse_query (u_raw_query u))"
proof -
  let ?q = "parse_query (u_raw_query u)"
  have "parse_query (encode_values (redact_values ?q)) = redact_values ?q"
    by (rule parse_encode_values [OF redact_values_ok [OF parse_query_ok]])
  then show ?thesis using redact_values_none [of ?q] by (simp add: redact_url_def Let_def redact_values_keys)
qed

text \<open>
  A segment the query parser refuses is not seen by the redaction: a sensitive parameter
  written next to a semicolon or with a bad escape stays in the evidence as it is.
\<close>

lemma redact_url_misses_malformed:
  "u_raw_query (redact_url \<lparr>u_scheme = ''http'', u_host = ''api'', u_hostname = ''api'', u_port = [],
     u_has_user = False, u_fragment = [], u_path = ''/'', u_raw_query = ''token=s3cret;v=1''\<rparr>)
   = ''token=s3cret;v=1''"
  by code_simp

section \<open>Sensitive data findings\<close>

lemma group_severity_max:
  "tier_severity (sh_tier h) \<le> group_severity hits" if "h \<in> set hits"
proof -
  have step: "foldl (\<lambda>s h. if severity_rank s < severity_rank (tier_severity (sh_tier h))
     then tier_severity (sh_tier h) else s) s0 hs \<ge> s0 \<and>
     (\<forall>h\<in>set hs. tier_severity (sh_tier h) \<le> foldl (\<lambda>s h. if severity_rank s < severity_rank (tier_severity (sh_tier h))
     then tier_severity (sh_tier h) else s) s0 hs)" for s0 hs
  proof (induction hs arbitrary: s0)
    case (Cons g hs)
    define s1 where "s1 = (if severity_rank s0 < severity_rank (tier_severity (sh_tier g))
       then tier_severity (sh_tier g) else s0)"
    have "s0 \<le> s1" "tier_severity (sh_tier g) \<le> s1" by (auto simp: s1_def less_eq_severity_def)
    with Cons [of s1] show ?case by (auto simp flip: s1_def)
  qed simp
  show ?thesis using step [of SevLow hits] that by (simp add: group_severity_def)
qed

lemma group_severity_attained:
  "hits \<noteq> [] \<Longrightarrow> \<exists>h\<in>set hits. group_severity hits = tier_severity (sh_tier h)"
proof -
  have step: "foldl (\<lambda>s h. if severity_rank s < severity_rank (tier_severity (sh_tier h))
     then tier_severity (sh_tier h) else s) s0 hs \<in> insert s0 ((tier_severity \<circ> sh_tier) ` set hs)" for s0 hs
    by (induction hs arbitrary: s0) auto
  assume "hits \<noteq> []"
  then obtain h hs where hits: "hits = h # hs" by (cases hits) auto
  have "tier_severity (sh_tier h) \<noteq> SevLow" by (cases "sh_tier h") (simp_all add: tier_severity_def)
  moreover have "tier_severity (sh_tier h) \<le> group_severity hits" by (rule group_severity_max) (simp add: hits)
  moreover have "SevLow < tier_severity (sh_tier h)"
    by (cases "sh_tier h") (simp_all add: tier_severity_def less_severity_def severity_rank_def)
  ultimately have "group_severity hits \<noteq> SevLow" by auto
  then show ?thesis using step [of SevLow hits] by (auto simp: group_severity_def)
qed

lemma tier_category_two: "tier_category t = ObjectPropertyExposure \<or> tier_category t = SensitiveDataExposure"
  by (simp add: tier_category_def)

lemma category_finding_some:
  "category_finding L tc i ex hits cat = Some f \<Longrightarrow>
     fd_category f = cat \<and> fd_identity f = id_id i
     \<and> (\<exists>h\<in>set hits. tier_category (sh_tier h) = cat \<and> fd_severity f = tier_severity (sh_tier h))
     \<and> (\<forall>h\<in>set hits. tier_category (sh_tier h) = cat \<longrightarrow> tier_severity (sh_tier h) \<le> fd_severity f)
     \<and> EvLeakedFields (map sh_path (filter (\<lambda>h. tier_category (sh_tier h) = cat) hits)) \<in> set (fd_evidence f)"
  using group_severity_attained [of "filter (\<lambda>h. tier_category (sh_tier h) = cat) hits"]
    group_severity_max [of _ "filter (\<lambda>h. tier_category (sh_tier h) = cat) hits"]
  by (auto simp: category_finding_def Let_def split: if_splits)

text \<open>
  No sensitive field that reached a caller goes unreported: every hit of the scan is
  listed in a finding of its tier's category for this caller, whose severity is the highest
  of the listed fields, and there is at most one finding for each category.
\<close>

theorem sensitive_findings_complete:
  assumes "er_error ex = []" and "hits = scan_sensitive L (er_body ex) (tc_sensitive_fields tc)"
    and "fs = sensitive_data_findings L tc i ex" and "h \<in> set hits"
  shows "distinct (map fd_category fs) \<and>
    (\<exists>f\<in>set fs. fd_category f = tier_category (sh_tier h) \<and> fd_identity f = id_id i
      \<and> (\<exists>ps. EvLeakedFields ps \<in> set (fd_evidence f) \<and> sh_path h \<in> set ps)
      \<and> tier_severity (sh_tier h) \<le> fd_severity f
      \<and> (\<exists>g\<in>set hits. fd_severity f = tier_severity (sh_tier g)))"
proof -
  let ?cat = "tier_category (sh_tier h)"
  have "hits \<noteq> []" "er_body ex \<noteq> []" using assms(2,4) by (auto simp: scan_sensitive_def)
  then have fs: "fs = List.map_filter (category_finding L tc i ex hits) [ObjectPropertyExposure, SensitiveDataExposure]"
    using assms(1-3) by (simp add: sensitive_data_findings_def Let_def)
  have ne: "filter (\<lambda>h. tier_category (sh_tier h) = ?cat) hits \<noteq> []"
    using assms(4) by (auto simp: filter_empty_conv)
  then obtain f where f: "category_finding L tc i ex hits ?cat = Some f"
    by (auto simp: category_finding_def Let_def)
  have "?cat \<in> set [ObjectPropertyExposure, SensitiveDataExposure]"
    using tier_category_two [of "sh_tier h"] by simp
  then have "f \<in> set fs" using f unfolding fs set_map_filter_iff by blast
  moreover have "distinct (map fd_category fs)"
    using category_finding_some [of L tc i ex hits]
    by (auto simp: fs List.map_filter_simps split: option.splits)
  ultimately show ?thesis using category_finding_some [OF f] assms(4) by fastforce
qed

lemma sensitive_findings_complete_witness:
  "\<exists>f\<in>set (sensitive_data_findings sample_lib sample_case (sample_identity ''bob'' ''tb'')
      (sample_answer 200 ''{\"user\":{\"password\":\"x\",\"email\":\"y\"}}'')). SevCritical \<le> fd_severity f
      \<and> fd_category f = SensitiveDataExposure"
proof -
  let ?ex = "sample_answer 200 ''{\"user\":{\"password\":\"x\",\"email\":\"y\"}}''"
  let ?h = "\<lparr>sh_path = ''user.password'', sh_field = ''password'', sh_tier = TierCritical\<rparr>"
  have "scan_sensitive sample_lib (er_body ?ex) (tc_sensitive_fields sample_case)
      = [\<lparr>sh_path = ''user.email'', sh_field = ''email'', sh_tier = TierPII\<rparr>, ?h]"
    by code_simp
  then have "?h \<in> set (scan_sensitive sample_lib (er_body ?ex) (tc_sensitive_fields sample_case))" by simp
  moreover have "er_error ?ex = []" by code_simp
  ultimately show ?thesis
    using sensitive_findings_complete [of ?ex _ sample_lib sample_case _ "sample_identity ''bob'' ''tb''" ?h]
    by (fastforce simp: tier_severity_def tier_category_def)
qed

section \<open>Findings agree with assessments\<close>

text \<open>What an access finding contradicts.\<close>

definition contradicts :: "access_decision \<Rightarrow> assessment_decision \<Rightarrow> bool" where
  "contradicts expected d \<longleftrightarrow> expected = DDeny \<and> d = AAllowed \<or> expected = DAllow \<and> d = ADenied"

definition access_finding :: "finding \<Rightarrow> bool" where
  "access_finding f \<longleftrightarrow> fd_category f \<notin> {SensitiveDataExposure, ObjectPropertyExposure, CORSMisconfiguration}"

lemma classify_not_ONone [simp]: "fst (classify L tc ex) \<noteq> ONone"
  by (auto simp: classify_def split: option.splits)

lemma classify_unexpected_category:
  "fst (classify_unexpected L tc i ex) \<in> {MissingAuthentication, CrossTenantAccess, PotentialBOLA,
     PrivilegeEscalation, UnexpectedAccess}"
  by (auto simp: classify_unexpected_def split: option.splits)

lemma unexpected_access_finding_access [simp]: "access_finding (unexpected_access_finding L tc i ex oc m)"
  using classify_unexpected_category [of L tc i ex]
  by (auto simp: access_finding_def unexpected_access_finding_def split: prod.splits)

lemma access_denied_finding_access [simp]: "access_finding (access_denied_finding L tc i ex oc why)"
  by (simp add: access_finding_def access_denied_finding_def)

lemma finding_identity [simp]:
  "fd_identity (unexpected_access_finding L tc i ex oc m) = id_id i"
  "fd_identity (access_denied_finding L tc i ex oc why) = id_id i"
  by (simp_all add: unexpected_access_finding_def access_denied_finding_def split: prod.splits)

lemma assessment_finding_iff:
  "assessment_finding L tc i m ea a \<noteq> None \<longleftrightarrow> contradicts (ea_decision ea) (as_decision a)"
  by (auto simp: assessment_finding_def contradicts_def Let_def)

lemma assessment_finding_props:
  "assessment_finding L tc i m ea a = Some f \<Longrightarrow> access_finding f \<and> fd_identity f = id_id i"
  using unexpected_access_finding_access [of L tc i "exec_of m (id_id i)" OAllow m]
    access_denied_finding_access [of L tc i "exec_of m (id_id i)" ODeny "Some (DRAssessed (as_reason a))"]
  by (auto simp: assessment_finding_def Let_def access_finding_def split: if_splits)

lemma evaluate_props:
  "evaluate L tc i m d = Some f \<Longrightarrow> access_finding f \<and> fd_identity f = id_id i"
  by (auto simp: evaluate_def Let_def split: if_splits prod.splits)

text \<open>An execution as the engine keeps it: outcome set from the classification, no bare error kind.\<close>

definition classified :: "golib \<Rightarrow> test_case \<Rightarrow> execution_result \<Rightarrow> bool" where
  "classified L tc ex \<longleftrightarrow> (er_error ex = [] \<longrightarrow> er_error_kind ex = EKNone \<and> er_outcome ex = fst (classify L tc ex))"

lemma status_assessment:
  assumes "classified L tc ex" "ea_assertions ea = []" "ea_decision ea \<noteq> DSkip"
  shows "as_decision (assess i ex (Some ea)) =
    (if er_error ex \<noteq> [] then AInconclusive
     else if fst (classify L tc ex) = OAllow then AAllowed
     else if fst (classify L tc ex) = ODeny then ADenied else AInconclusive)"
proof (cases "er_error ex = []")
  case True
  then have "er_outcome ex = fst (classify L tc ex)" "\<not> execution_failed ex"
    using assms(1) by (auto simp: classified_def execution_failed_def)
  then show ?thesis
    using assms(2,3) True classify_not_ONone [of L tc ex]
    by (cases "fst (classify L tc ex)") (simp_all add: assess_def assess_status_def Let_def)
qed (use assms in \<open>simp add: assess_def execution_failed_def Let_def\<close>)

lemma evaluate_iff:
  assumes "classified L tc (exec_of m (id_id i))" "ea_assertions ea = []" "ea_decision ea \<noteq> DSkip"
  shows "evaluate L tc i m (ea_decision ea) \<noteq> None \<longleftrightarrow>
    contradicts (ea_decision ea) (as_decision (assess j (exec_of m (id_id i)) (Some ea)))"
  using status_assessment [OF assms, of j]
  by (auto simp: evaluate_def Let_def contradicts_def split: prod.splits)

lemma contradicts_demote [simp]:
  "as_expected a = d \<Longrightarrow> contradicts d (as_decision (demote_rejected tc i ex a)) \<longleftrightarrow> contradicts d (as_decision a)"
  by (auto simp: contradicts_def demote_rejected_def)

end
