(* ===== verification/Engine.thy ===== *)
theory Engine
  imports Findings
begin

text \<open>
  \<open>internal/engine/engine.go\<close>: the validation of a test case and \<open>Run\<close>, which ties the
  components together: setup, preflight, one execution for each identity, and the second
  pass that assesses every identity and draws the findings.
\<close>

section \<open>Validation\<close>

datatype validate_error = NoCaseId | NoIdentities | IdentityNoId nat | IdentityDuplicate nat string
  | BadCredential credential_error | NoMethod | NoUrl | UnsafeNotMutating string nat
  | ExpectedNoIdentity nat | ExpectedUnknown nat string | ExpectedDecision nat
  | ExpectedAssertions nat assertion_error | BadVerification verification_error
  | BadSetup setup_invalid | BadPreflight preflight_error | DenyStatusInvalid nat int
  | DenyStatusSuccess nat int | OwnerUnknown string | RoleUnknown string

definition validate_identity :: "string list \<Rightarrow> nat \<times> identity \<Rightarrow> validate_error + string list" where
  "validate_identity seen ii = (case ii of (k, i) \<Rightarrow>
     if id_id i = [] then Inl (IdentityNoId k)
     else if id_id i \<in> set seen then Inl (IdentityDuplicate k (id_id i))
     else bind_res (map_err BadCredential (validate_credential i)) (\<lambda>_. Inr (id_id i # seen)))"

definition validate_expected :: "string list \<Rightarrow> nat \<times> expected_access \<Rightarrow> validate_error + unit" where
  "validate_expected ids ke = (case ke of (k, ea) \<Rightarrow>
     bind_res (guard_err (ea_identity ea = []) (ExpectedNoIdentity k)) (\<lambda>_.
     bind_res (guard_err (ea_identity ea \<notin> set ids) (ExpectedUnknown k (ea_identity ea))) (\<lambda>_.
     bind_res (guard_err (ea_decision ea \<notin> {DAllow, DDeny, DSkip}) (ExpectedDecision k)) (\<lambda>_.
     map_err (ExpectedAssertions k) (validate_assertions (ea_assertions ea))))))"

definition validate_deny_status :: "nat \<times> int \<Rightarrow> validate_error + unit" where
  "validate_deny_status kc = (case kc of (k, c) \<Rightarrow>
     bind_res (guard_err (c < 100 \<or> 599 < c) (DenyStatusInvalid k c)) (\<lambda>_.
     guard_err (200 \<le> c \<and> c < 300) (DenyStatusSuccess k c)))"

definition validate_resource :: "test_case \<Rightarrow> string list \<Rightarrow> validate_error + unit" where
  "validate_resource tc ids = (case tc_resource tc of None \<Rightarrow> Inr ()
     | Some r \<Rightarrow>
         bind_res (guard_err (rs_owner r \<noteq> [] \<and> rs_owner r \<notin> set ids) (OwnerUnknown (rs_owner r))) (\<lambda>_.
         guard_err (rs_required_role r \<noteq> [] \<and> role_rank (tc_role_hierarchy tc) (rs_required_role r) = None)
           (RoleUnknown (rs_required_role r))))"

definition validate_request :: "test_case \<Rightarrow> validate_error + unit" where
  "validate_request tc =
     bind_res (guard_err (rq_method (tc_request tc) = []) NoMethod) (\<lambda>_.
     bind_res (guard_err (rq_url (tc_request tc) = []) NoUrl) (\<lambda>_.
     guard_err (is_unsafe_method (rq_method (tc_request tc)) \<and> \<not> tc_mutating tc)
       (UnsafeNotMutating (to_upper (rq_method (tc_request tc))) (length (tc_identities tc)))))"

definition validate :: "golib \<Rightarrow> test_case \<Rightarrow> validate_error + unit" where
  "validate L tc =
     bind_res (guard_err (tc_id tc = []) NoCaseId) (\<lambda>_.
     bind_res (guard_err (tc_identities tc = []) NoIdentities) (\<lambda>_.
     bind_res (fold_res validate_identity [] (enum_list (tc_identities tc))) (\<lambda>ids.
     bind_res (validate_request tc) (\<lambda>_.
     bind_res (iter_res (validate_expected ids) (enum_list (tc_expected tc))) (\<lambda>_.
     bind_res (map_err BadVerification (validate_verification L tc)) (\<lambda>_.
     bind_res (map_err BadSetup (validate_setup tc)) (\<lambda>_.
     bind_res (map_err BadPreflight (validate_preflight L tc)) (\<lambda>_.
     bind_res (iter_res validate_deny_status (enum_list (tc_deny_statuses tc))) (\<lambda>_.
     validate_resource tc ids)))))))))"

section \<open>Results\<close>

record run_result =
  rr_digest :: string
  rr_test_case :: string
  rr_executions :: "execution_result list"
  rr_findings :: "finding list"
  rr_assessments :: "assessment list"
  rr_preflight :: "preflight_result list"
  rr_error :: string

definition preflight_failed :: "run_result \<Rightarrow> bool" where
  "preflight_failed r \<longleftrightarrow> list_ex (\<lambda>p. \<not> pr_passed p) (rr_preflight r)"

definition unreached :: "run_result \<Rightarrow> bool" where
  "unreached r \<longleftrightarrow> rr_executions r \<noteq> [] \<and> list_all (\<lambda>ex. er_error ex \<noteq> []) (rr_executions r)"

definition inconclusive :: "run_result \<Rightarrow> assessment list" where
  "inconclusive r = filter (\<lambda>a. as_decision a = AInconclusive) (rr_assessments r)"

definition inconclusive_reasons :: "reason list" where
  "inconclusive_reasons = [RExecutionError, RAmbiguousOutcome, RInvalidJson, RConflictingAssertions,
     RNoAssertionMatched, RVerifierReadFailed, RVerifierDenied, RVerifierValueMissing, RBaselineMissing,
     RConcurrentChange, RTargetAlreadyPresent, RChangedUnexpectedly, RVerifierStatus, RWriteFailed,
     RNoPositiveControl, RPositiveControlFailed, RCredentialRejected, RWritePending, RWriteEnvironment,
     RResetFailed, RResetBaseline, RCancelled, RPreflightFailed]"

datatype run_error = RunInvalid validate_error | RunSetup setup_error | RunApply apply_error

section \<open>The first pass\<close>

record pass_state =
  ps_execs :: executions
  ps_verified :: "(string \<times> assessment) list"
  ps_session :: session

definition start_pass :: pass_state where
  "start_pass = \<lparr>ps_execs = [], ps_verified = [], ps_session = None\<rparr>"

text \<open>The profile and the reclassification every execution gets.\<close>

definition finish_execution :: "golib \<Rightarrow> test_case \<Rightarrow> execution_result \<Rightarrow> execution_result" where
  "finish_execution L tc ex =
     (let ex1 = ex\<lparr>er_profile := profile_of L (er_body ex)\<rparr> in
      if er_error ex1 = [] then ex1\<lparr>er_outcome := fst (classify L tc ex1)\<rparr> else ex1)"

text \<open>The write verification that applies to an identity.\<close>

definition verified_for :: "test_case \<Rightarrow> identity \<Rightarrow> (write_verification \<times> expected_access) option" where
  "verified_for tc i = (case (tc_verification tc, expected_for tc (id_id i)) of
     (Some wv, Some ea) \<Rightarrow> (if ea_decision ea \<noteq> DSkip then Some (wv, ea) else None) | _ \<Rightarrow> None)"

definition execute_one :: "golib \<Rightarrow> 'w executor \<Rightarrow> test_case \<Rightarrow> request_template \<Rightarrow> identity
    \<Rightarrow> pass_state \<Rightarrow> 'w \<Rightarrow> pass_state \<times> 'w" where
  "execute_one L X tc req i st w =
     (case verified_for tc i of
        Some (wv, ea) \<Rightarrow>
          (case verified_execute X tc wv i req ea (ps_session st) w of (((ex, a), s), w') \<Rightarrow>
             (st\<lparr>ps_execs := amap_put (id_id i) (finish_execution L tc ex) (ps_execs st),
                 ps_verified := amap_put (id_id i) (demote_rejected tc i ex a) (ps_verified st),
                 ps_session := s\<rparr>, w'))
      | None \<Rightarrow>
          (case ex_call X PhResource i req w of (ex, w') \<Rightarrow>
             (st\<lparr>ps_execs := amap_put (id_id i) (finish_execution L tc ex) (ps_execs st)\<rparr>, w')))"

fun execute_all :: "golib \<Rightarrow> 'w executor \<Rightarrow> test_case \<Rightarrow> request_template \<Rightarrow> identity list
    \<Rightarrow> pass_state \<Rightarrow> 'w \<Rightarrow> pass_state \<times> 'w" where
  "execute_all L X tc req [] st w = (st, w)"
| "execute_all L X tc req (i # ids) st w =
     (case execute_one L X tc req i st w of (st', w') \<Rightarrow> execute_all L X tc req ids st' w')"

section \<open>The second pass\<close>

text \<open>\<open>expectedByID\<close>: the last expectation of an identity stands.\<close>

definition expected_last :: "test_case \<Rightarrow> string \<Rightarrow> expected_access option" where
  "expected_last tc i = List.find (\<lambda>ea. ea_identity ea = i) (rev (tc_expected tc))"

definition write_status_of :: "assessment \<Rightarrow> write_status" where
  "write_status_of a = (case as_decision a of AAllowed \<Rightarrow> WSVerifiedEffect
     | ADenied \<Rightarrow> WSVerifiedNoEffect | _ \<Rightarrow> WSInconclusive)"

definition set_reader_status :: "cred_status \<Rightarrow> assessment \<Rightarrow> assessment" where
  "set_reader_status c a = a\<lparr>as_verification := map_option (\<lambda>v. v\<lparr>ve_reader_status := c\<rparr>) (as_verification a)\<rparr>"

definition assess_identity :: "test_case \<Rightarrow> preflight_result list \<Rightarrow> executions \<Rightarrow> (string \<times> assessment) list
    \<Rightarrow> nat \<Rightarrow> identity \<Rightarrow> assessment" where
  "assess_identity tc pf m verified k i =
     (let ex = exec_of m (id_id i);
          a0 = (case amap_get verified (id_id i) of
                  Some a \<Rightarrow> a
                | None \<Rightarrow> demote_rejected tc i ex (assess (id_id i) ex (expected_last tc (id_id i))));
          a1 = a0\<lparr>as_credential := credential_status i pf ex, as_index := Some k\<rparr> in
      case tc_verification tc of
        None \<Rightarrow> a1\<lparr>as_write := WSNotConfigured\<rparr>
      | Some wv \<Rightarrow>
          if amap_get verified (id_id i) = None then a1\<lparr>as_write := WSNotApplied\<rparr>
          else set_reader_status (credential_status (wv_identity wv) pf (empty_execution []))
                 (a1\<lparr>as_write := write_status_of a1\<rparr>))"

definition identity_findings :: "golib \<Rightarrow> test_case \<Rightarrow> executions \<Rightarrow> (string \<times> assessment) list
    \<Rightarrow> identity \<Rightarrow> assessment \<Rightarrow> finding list" where
  "identity_findings L tc m verified i a =
     (case expected_last tc (id_id i) of None \<Rightarrow> []
      | Some ea \<Rightarrow>
          if ea_decision ea = DSkip then []
          else (case (if amap_get verified (id_id i) \<noteq> None \<or> ea_assertions ea \<noteq> []
                      then assessment_finding L tc i m ea a else evaluate L tc i m (ea_decision ea)) of
                  Some f \<Rightarrow> [f] | None \<Rightarrow> [])
               @ (if ea_forbid_sensitive ea then sensitive_data_findings L tc i (exec_of m (id_id i)) else []))"

definition second_pass :: "golib \<Rightarrow> test_case \<Rightarrow> preflight_result list \<Rightarrow> executions
    \<Rightarrow> (string \<times> assessment) list \<Rightarrow> (assessment \<times> finding list) list" where
  "second_pass L tc pf m verified =
     map (\<lambda>(k, i). let a = assess_identity tc pf m verified k i in (a, identity_findings L tc m verified i a))
       (enum_list (tc_identities tc))"

text \<open>The assessment of an identity when the preflight of the case failed.\<close>

definition preflight_assessment :: "test_case \<Rightarrow> preflight_result list \<Rightarrow> identity \<Rightarrow> assessment" where
  "preflight_assessment tc pf i =
     (let base = (\<lambda>d. (new_assessment (id_id i) d SrcNone)\<lparr>
            as_credential := credential_status i pf (empty_execution []), as_write := WSNotApplied\<rparr>) in
      case expected_for tc (id_id i) of
        None \<Rightarrow> (base (DOther []))\<lparr>as_decision := ASkipped, as_reason := RNoExpectation\<rparr>
      | Some ea \<Rightarrow>
          if ea_decision ea = DSkip
          then (base DSkip)\<lparr>as_decision := ASkipped, as_reason := RExplicitSkip\<rparr>
          else (base (ea_decision ea))\<lparr>as_reason := RPreflightFailed\<rparr>)"

section \<open>Run\<close>

definition probe_origin :: "test_case \<Rightarrow> string option" where
  "probe_origin tc = (case tc_cors tc of None \<Rightarrow> None | Some org \<Rightarrow> if org = [] then None else Some org)"

definition tested_request :: "test_case \<Rightarrow> request_template" where
  "tested_request tc = (case probe_origin tc of None \<Rightarrow> tc_request tc
     | Some org \<Rightarrow> with_header (tc_request tc) ''Origin'' org)"

definition preflight_only :: "test_case \<Rightarrow> preflight_result list \<Rightarrow> run_result" where
  "preflight_only tc pf = \<lparr>rr_digest = [], rr_test_case = tc_id tc, rr_executions = [], rr_findings = [],
     rr_assessments = map (preflight_assessment tc pf) (tc_identities tc), rr_preflight = pf, rr_error = []\<rparr>"

text \<open>From the executions to the result.\<close>

definition conclude :: "golib \<Rightarrow> test_case \<Rightarrow> preflight_result list \<Rightarrow> pass_state \<Rightarrow> run_result" where
  "conclude L tc pf st =
     (let m = ps_execs st;
          verified = guard_verified_denials tc (ps_verified st);
          cors = (case probe_origin tc of None \<Rightarrow> []
                  | Some org \<Rightarrow> (case cors_finding L tc org m of None \<Rightarrow> [] | Some f \<Rightarrow> [f]));
          ss = second_pass L tc pf m verified
      in \<lparr>rr_digest = [], rr_test_case = tc_id tc,
          rr_executions = map (\<lambda>i. exec_of m (id_id i)) (tc_identities tc),
          rr_findings = cors @ concat (map snd ss), rr_assessments = map fst ss, rr_preflight = pf, rr_error = []\<rparr>)"

definition run_prepared :: "golib \<Rightarrow> 'w executor \<Rightarrow> test_case \<Rightarrow> 'w \<Rightarrow> run_result \<times> 'w" where
  "run_prepared L X tc w =
     (case run_preflight X tc w of ((pf, ready), w1) \<Rightarrow>
        if \<not> ready then (preflight_only tc pf, w1)
        else case execute_all L X tc (tested_request tc) (execution_order tc) start_pass w1 of
          (st, w2) \<Rightarrow> (conclude L tc pf st, w2))"

definition run :: "golib \<Rightarrow> 'w executor \<Rightarrow> test_case \<Rightarrow> 'w \<Rightarrow> (run_error + run_result) \<times> 'w" where
  "run L X tc w =
     (case validate L tc of Inl e \<Rightarrow> (Inl (RunInvalid e), w)
      | Inr _ \<Rightarrow>
          (case run_setup L X tc w of
             (Inl e, w1) \<Rightarrow> (Inl (RunSetup e), w1)
           | (Inr vars, w1) \<Rightarrow>
               (case apply_setup_vars tc vars of
                  Inl e \<Rightarrow> (Inl (RunApply e), w1)
                | Inr tc' \<Rightarrow> (case run_prepared L X tc' w1 of (r, w2) \<Rightarrow> (Inr r, w2)))))"

section \<open>What the first pass keeps\<close>

definition reason_ok :: "assessment \<Rightarrow> bool" where
  "reason_ok a \<longleftrightarrow> (as_decision a = AInconclusive \<longrightarrow> as_reason a \<in> set inconclusive_reasons)"

definition known_reason :: "reason \<Rightarrow> bool" where
  "known_reason r \<longleftrightarrow> r \<in> set inconclusive_reasons"

lemma known_reasons [simp]:
  "known_reason RExecutionError" "known_reason RAmbiguousOutcome" "known_reason RInvalidJson"
  "known_reason RConflictingAssertions" "known_reason RNoAssertionMatched" "known_reason RVerifierReadFailed"
  "known_reason RVerifierDenied" "known_reason RVerifierValueMissing" "known_reason RBaselineMissing"
  "known_reason RConcurrentChange" "known_reason RTargetAlreadyPresent" "known_reason RChangedUnexpectedly"
  "known_reason RVerifierStatus" "known_reason RWriteFailed" "known_reason RNoPositiveControl"
  "known_reason RPositiveControlFailed" "known_reason RCredentialRejected" "known_reason RWritePending"
  "known_reason RWriteEnvironment" "known_reason RResetFailed" "known_reason RResetBaseline"
  "known_reason RCancelled" "known_reason RPreflightFailed"
  by (simp_all add: known_reason_def inconclusive_reasons_def)

lemma reason_ok_iff: "reason_ok a \<longleftrightarrow> (as_decision a = AInconclusive \<longrightarrow> known_reason (as_reason a))"
  by (simp add: reason_ok_def known_reason_def)

lemma read_state_reason: "snd (read_state wv after ex) \<noteq> RNone \<Longrightarrow> known_reason (snd (read_state wv after ex))"
  by (auto simp: read_state_def Let_def split: if_splits option.splits)

lemma observe_reason: "observe X wv after w = ((st, r), w') \<Longrightarrow> r \<noteq> RNone \<Longrightarrow> known_reason r"
  using read_state_reason [of wv after]
  by (auto simp: observe_def Let_def split: prod.splits if_splits) (metis snd_conv)

lemma read_before_reason:
  assumes "read_before X wv w = ((before, sts, r), w')" "r \<noteq> RNone"
  shows "known_reason r"
proof -
  obtain b r0 w1 where o1: "observe X wv False w = ((b, r0), w1)" by (metis surj_pair)
  obtain a r3 w2 where o2: "observe X wv False w1 = ((a, r3), w2)" by (metis surj_pair)
  show ?thesis
    using assms o1 o2 observe_reason [OF o1] observe_reason [OF o2]
    by (auto simp: read_before_def Let_def split: if_splits)
qed

lemma check_target_reason: "(r \<noteq> RNone \<Longrightarrow> known_reason r) \<Longrightarrow> check_target wv b r \<noteq> RNone \<Longrightarrow>
    known_reason (check_target wv b r)"
  by (auto simp: check_target_def)

lemma check_session_reason: "(r \<noteq> RNone \<Longrightarrow> known_reason r) \<Longrightarrow> check_session wv b r s = (r', s') \<Longrightarrow>
    r' \<noteq> RNone \<Longrightarrow> known_reason r'"
  by (auto simp: check_session_def split: if_splits option.splits)

lemma judge_after_reason: "(r \<noteq> RNone \<Longrightarrow> known_reason r) \<Longrightarrow> judge_after wv b af r ex = (d, r') \<Longrightarrow>
    d \<noteq> ASkipped \<and> (d = AInconclusive \<longrightarrow> known_reason r')"
  by (auto simp: judge_after_def split: if_splits)

text \<open>What \<open>verifiedExecute\<close> returns, of an executor that keeps its promises.\<close>

definition verified_result :: "identity \<Rightarrow> expected_access \<Rightarrow> execution_result \<Rightarrow> assessment \<Rightarrow> bool" where
  "verified_result i ea ex a \<longleftrightarrow> er_identity ex = id_id i \<and> (er_error ex = [] \<longrightarrow> er_error_kind ex = EKNone)
     \<and> as_identity a = id_id i \<and> as_expected a = ea_decision ea \<and> as_source a = SrcWriteVerification
     \<and> reason_ok a \<and> as_decision a \<noteq> ASkipped"

lemma withheld_sel [simp]:
  "er_identity (withheld i msg) = id_id i" "er_error (withheld i msg) = msg"
  "er_error_kind (withheld i msg) = EKVerification"
  by (simp_all add: withheld_def empty_execution_def)

context engine_executor begin

lemma call_result:
  "ex_call X ph i rq w = (ex, w') \<Longrightarrow> er_identity ex = id_id i \<and> (er_error ex = [] \<longrightarrow> er_error_kind ex = EKNone)"
  using call_identity [of ph i rq w] call_error [of ph i rq w] by auto

lemma attempt_write_result:
  assumes "attempt_write X wv i req a ve s w = (((ex, a'), s'), w')"
    and a: "a = new_assessment (id_id i) (ea_decision ea) SrcWriteVerification"
  shows "verified_result i ea ex a'"
proof -
  obtain before sts r0 w1 where rb: "read_before X wv w = ((before, sts, r0), w1)" by (metis surj_pair)
  obtain r1 s1 where cs: "check_session wv before (check_target wv before r0) s = (r1, s1)" by (metis surj_pair)
  obtain c w2 where pl: "(if r1 = RNone then ex_poll X w1 else (False, w1)) = (c, w2)" by (metis surj_pair)
  let ?r2 = "if c then RCancelled else r1"
  have r1: "r1 \<noteq> RNone \<Longrightarrow> known_reason r1"
    using check_session_reason [OF check_target_reason [OF read_before_reason [OF rb]] cs] by blast
  show ?thesis
  proof (cases "?r2 = RNone")
    case False
    then have "known_reason ?r2" using r1 by auto
    moreover have "ex = withheld i ''write verification could not read the state before the request''"
      "a' = a\<lparr>as_reason := ?r2, as_verification := Some (ve\<lparr>ve_before := sts\<rparr>)\<rparr>"
      using assms(1) rb cs pl False by (auto simp: attempt_write_def Let_def)
    ultimately show ?thesis by (simp add: a verified_result_def reason_ok_iff)
  next
    case True
    obtain ex' w3 where call: "ex_call X PhResource i req w2 = (ex', w3)" by (metis surj_pair)
    obtain after r3 w4 where ob: "observe X wv True w3 = ((after, r3), w4)" by (metis surj_pair)
    obtain d r4 where j: "judge_after wv before after r3 ex' = (d, r4)" by (metis surj_pair)
    have "ex = ex'" "a' = a\<lparr>as_decision := d, as_reason := r4,
        as_verification := Some (ve\<lparr>ve_before := sts, ve_after := os_status after\<rparr>)\<rparr>"
      using assms(1) rb cs pl True call ob j
      by (auto simp: attempt_write_def Let_def split: prod.splits if_splits)
    then show ?thesis
      using call_result [OF call] judge_after_reason [OF observe_reason [OF ob] j]
      by (simp add: a verified_result_def reason_ok_iff)
  qed
qed

lemma verified_execute_result:
  assumes "verified_execute X tc wv i req ea s w = (((ex, a), s'), w')"
  shows "verified_result i ea ex a"
proof -
  obtain c w1 where p: "ex_poll X w = (c, w1)" by (metis surj_pair)
  obtain ro w2 where r: "run_reset X tc wv w1 = (ro, w2)" by (metis surj_pair)
  show ?thesis
    using assms p r attempt_write_result [OF _ refl]
    by (auto simp: verified_execute_def Let_def verified_result_def reason_ok_iff split: if_splits)
qed

end

text \<open>The invariant of the first pass: what is kept of every identity executed so far.\<close>

definition verified_ok :: "test_case \<Rightarrow> string \<Rightarrow> assessment \<Rightarrow> bool" where
  "verified_ok tc k a \<longleftrightarrow> as_identity a = k \<and> as_source a = SrcWriteVerification \<and> reason_ok a
     \<and> as_decision a \<noteq> ASkipped
     \<and> (\<exists>wv ea. tc_verification tc = Some wv \<and> expected_for tc k = Some ea \<and> ea_decision ea \<noteq> DSkip
          \<and> as_expected a = ea_decision ea)"

text \<open>A verified denial is never one that a dead credential explains.\<close>

definition attributable :: "test_case \<Rightarrow> executions \<Rightarrow> string \<Rightarrow> assessment \<Rightarrow> bool" where
  "attributable tc m k a \<longleftrightarrow> as_expected a = DDeny \<and> as_decision a = ADenied \<longrightarrow>
     (\<exists>i\<in>set (tc_identities tc). id_id i = k \<and> \<not> rejects_credential tc i (exec_of m k))"

definition pass_inv :: "golib \<Rightarrow> test_case \<Rightarrow> pass_state \<Rightarrow> bool" where
  "pass_inv L tc st \<longleftrightarrow>
     (\<forall>k ex. amap_get (ps_execs st) k = Some ex \<longrightarrow> er_identity ex = k \<and> classified L tc ex)
   \<and> (\<forall>k a. amap_get (ps_verified st) k = Some a \<longrightarrow> verified_ok tc k a \<and> attributable tc (ps_execs st) k a)"

lemma start_pass_inv [inv_intro]: "pass_inv L tc start_pass"
  by (simp add: pass_inv_def start_pass_def amap_get_def)

lemma finish_execution_sel [simp]:
  "er_identity (finish_execution L tc ex) = er_identity ex" "er_error (finish_execution L tc ex) = er_error ex"
  "er_error_kind (finish_execution L tc ex) = er_error_kind ex" "er_body (finish_execution L tc ex) = er_body ex"
  "er_status (finish_execution L tc ex) = er_status ex" "er_headers (finish_execution L tc ex) = er_headers ex"
  by (simp_all add: finish_execution_def Let_def)

lemma finish_execution_classified:
  "(er_error ex = [] \<Longrightarrow> er_error_kind ex = EKNone) \<Longrightarrow> classified L tc (finish_execution L tc ex)"
  by (simp add: classified_def finish_execution_def classify_def Let_def split: option.split)

lemma demote_rejected_ok:
  assumes "reason_ok a" "as_decision a \<noteq> ASkipped"
  shows "reason_ok (demote_rejected tc i ex a)" "as_decision (demote_rejected tc i ex a) \<noteq> ASkipped"
  using assms by (auto simp: demote_rejected_def reason_ok_iff)

lemma verified_for_Some: "verified_for tc i = Some (wv, ea) \<longleftrightarrow>
    tc_verification tc = Some wv \<and> expected_for tc (id_id i) = Some ea \<and> ea_decision ea \<noteq> DSkip"
  by (auto simp: verified_for_def split: option.splits if_splits)

lemma expected_for_identity: "expected_for tc k = Some ea \<Longrightarrow> ea \<in> set (tc_expected tc) \<and> ea_identity ea = k"
  by (auto simp: expected_for_def dest: find_SomeD)

lemma expected_last_identity: "expected_last tc k = Some ea \<Longrightarrow> ea \<in> set (tc_expected tc) \<and> ea_identity ea = k"
  by (auto simp: expected_last_def dest: find_SomeD)

lemma exec_of_put: "exec_of (amap_put k ex m) k' = (if k' = k then ex else exec_of m k')"
  by (simp add: exec_of_def or_else_def)

context engine_executor begin

lemma execute_one_inv [inv_intro]:
  assumes "execute_one L X tc req i st w = (st', w')" "pass_inv L tc st" "i \<in> set (tc_identities tc)"
  shows "pass_inv L tc st'"
proof (cases "verified_for tc i")
  case None
  obtain ex w1 where c: "ex_call X PhResource i req w = (ex, w1)" by (metis surj_pair)
  then have "st' = st\<lparr>ps_execs := amap_put (id_id i) (finish_execution L tc ex) (ps_execs st)\<rparr>"
    using assms(1) None by (simp add: execute_one_def)
  moreover have bad: "\<not> verified_ok tc (id_id i) a" for a
    using None by (auto simp: verified_ok_def verified_for_def)
  moreover have "amap_get (ps_verified st) (id_id i) = None"
    using assms(2) bad unfolding pass_inv_def by (metis not_None_eq)
  ultimately show ?thesis
    using assms(2) call_result [OF c] finish_execution_classified [of ex L tc]
    by (auto simp: pass_inv_def attributable_def exec_of_put)
next
  case (Some we)
  obtain wv ea where we: "we = (wv, ea)" by (cases we)
  obtain ex a s w1 where v: "verified_execute X tc wv i req ea (ps_session st) w = (((ex, a), s), w1)"
    by (metis surj_pair)
  note r = verified_execute_result [OF v, unfolded verified_result_def]
  let ?a = "demote_rejected tc i ex a" and ?m = "amap_put (id_id i) (finish_execution L tc ex) (ps_execs st)"
  have "verified_ok tc (id_id i) ?a"
    using r Some we demote_rejected_ok [of a tc i ex] by (simp add: verified_ok_def verified_for_Some frame)
  moreover have "attributable tc ?m (id_id i) ?a"
    using assms(3) by (auto simp: attributable_def frame demote_rejected_denied rejects_credential_def exec_of_put)
  moreover have "st' = st\<lparr>ps_execs := ?m, ps_verified := amap_put (id_id i) ?a (ps_verified st), ps_session := s\<rparr>"
    using assms(1) Some we v by (simp add: execute_one_def)
  ultimately show ?thesis
    using assms(2) r finish_execution_classified [of ex L tc]
    by (simp add: pass_inv_def attributable_def exec_of_put)
qed

lemma execute_all_inv [inv_intro]:
  "execute_all L X tc req ids st w = (st', w') \<Longrightarrow> pass_inv L tc st \<Longrightarrow> set ids \<subseteq> set (tc_identities tc) \<Longrightarrow>
     pass_inv L tc st'"
  by (induction ids arbitrary: st w) (auto split: prod.splits intro: inv_intro)

end

text \<open>Which identities have an execution and a verified assessment afterwards.\<close>

lemma execute_one_keys:
  "fst ` set (ps_execs (fst (execute_one L X tc req i st w))) = insert (id_id i) (fst ` set (ps_execs st))"
  "fst ` set (ps_verified (fst (execute_one L X tc req i st w))) =
     (if verified_for tc i = None then {} else {id_id i}) \<union> fst ` set (ps_verified st)"
  by (simp_all add: execute_one_def split: option.split prod.split)

lemma execute_all_keys:
  "execute_all L X tc req ids st w = (st', w') \<Longrightarrow>
     fst ` set (ps_execs st') = id_id ` set ids \<union> fst ` set (ps_execs st)
   \<and> fst ` set (ps_verified st') = id_id ` {i \<in> set ids. verified_for tc i \<noteq> None} \<union> fst ` set (ps_verified st)"
proof (induction ids arbitrary: st w)
  case (Cons i ids)
  obtain st1 w1 where o: "execute_one L X tc req i st w = (st1, w1)" by (metis surj_pair)
  then have "execute_all L X tc req ids st1 w1 = (st', w')" using Cons.prems by simp
  from Cons.IH [OF this] execute_one_keys [of L X tc req i st w] show ?case by (auto simp: o split: if_splits)
qed simp

lemma execution_order_set [simp]: "set (execution_order tc) = set (tc_identities tc)"
  by (auto simp: execution_order_def)

lemma execution_order_mset: "length (execution_order tc) = length (tc_identities tc)"
  by (simp add: execution_order_def sum_length_filter_compl)

lemma exec_of_get: "amap_get m k = Some ex \<Longrightarrow> exec_of m k = ex"
  by (simp add: exec_of_def or_else_def)

section \<open>The second pass\<close>

lemma guard_one_ok:
  "verified_ok tc k a \<Longrightarrow> known_reason r \<Longrightarrow> verified_ok tc k (guard_one r a)"
  "attributable tc m k a \<Longrightarrow> attributable tc m k (guard_one r a)"
  by (auto simp: guard_one_def verified_ok_def attributable_def reason_ok_iff)

lemma guard_ok:
  assumes "\<forall>k a. amap_get verified k = Some a \<longrightarrow> verified_ok tc k a \<and> attributable tc m k a"
    and "amap_get (guard_verified_denials tc verified) k = Some a"
  shows "verified_ok tc k a \<and> attributable tc m k a"
  using assms by (auto simp: guard_get guard_one_ok split: if_splits)

lemma guard_keys: "amap_get (guard_verified_denials tc verified) k = None \<longleftrightarrow> amap_get verified k = None"
  by (simp add: guard_get)

text \<open>The assessment before the statuses are filled in.\<close>

definition base_assessment :: "test_case \<Rightarrow> executions \<Rightarrow> (string \<times> assessment) list \<Rightarrow> identity \<Rightarrow> assessment" where
  "base_assessment tc m verified i = (case amap_get verified (id_id i) of Some a \<Rightarrow> a
     | None \<Rightarrow> demote_rejected tc i (exec_of m (id_id i))
                 (assess (id_id i) (exec_of m (id_id i)) (expected_last tc (id_id i))))"

lemma assess_identity_sel [simp]:
  "as_decision (assess_identity tc pf m verified k i) = as_decision (base_assessment tc m verified i)"
  "as_reason (assess_identity tc pf m verified k i) = as_reason (base_assessment tc m verified i)"
  "as_identity (assess_identity tc pf m verified k i) = as_identity (base_assessment tc m verified i)"
  "as_expected (assess_identity tc pf m verified k i) = as_expected (base_assessment tc m verified i)"
  "as_source (assess_identity tc pf m verified k i) = as_source (base_assessment tc m verified i)"
  "as_index (assess_identity tc pf m verified k i) = Some k"
  by (simp_all add: assess_identity_def base_assessment_def Let_def set_reader_status_def
      split: option.split)

lemma assess_identity_field [simp]: "as_identity (assess i ex e) = i"
  "as_expected (assess i ex e) = (case e of None \<Rightarrow> DOther [] | Some ea \<Rightarrow> ea_decision ea)"
  by (auto simp: assess_def assess_status_def assess_rules_def Let_def split: option.split outcome.split prod.split)

lemma assess_reason: "reason_ok (assess i ex e)"
  by (auto simp: reason_ok_iff assess_def assess_status_def assess_rules_def Let_def
      split: option.splits outcome.splits prod.splits if_splits)

lemma demote_rejected_reason: "reason_ok a \<Longrightarrow> reason_ok (demote_rejected tc i ex a)"
  by (auto simp: demote_rejected_def reason_ok_iff)

lemma assess_source: "as_source (assess i ex e) \<noteq> SrcWriteVerification"
  by (auto simp: assess_def assess_status_def assess_rules_def Let_def
      split: option.splits outcome.splits prod.splits)

text \<open>The facts every assessment of a run satisfies.\<close>

definition verified_inv :: "test_case \<Rightarrow> executions \<Rightarrow> (string \<times> assessment) list \<Rightarrow> bool" where
  "verified_inv tc m verified \<longleftrightarrow>
     (\<forall>k a. amap_get verified k = Some a \<longrightarrow> verified_ok tc k a \<and> attributable tc m k a)"

lemma base_assessment_ok:
  assumes "verified_inv tc m verified" "i \<in> set (tc_identities tc)"
  shows "as_identity (base_assessment tc m verified i) = id_id i"
    and "reason_ok (base_assessment tc m verified i)"
    and "attributable tc m (id_id i) (base_assessment tc m verified i)"
  using assms assess_reason demote_rejected_reason
  by (auto simp: base_assessment_def verified_inv_def verified_ok_def frame demote_rejected_denied attributable_def
      split: option.split)

lemma second_pass_assessments:
  "map fst (second_pass L tc pf m verified) =
     map (\<lambda>(k, i). assess_identity tc pf m verified k i) (enum_list (tc_identities tc))"
  by (simp add: second_pass_def Let_def case_prod_beta comp_def)

lemma set_map_enum: "f ` set (enum_list xs) = (\<lambda>k. f (k, xs ! k)) ` {..<length xs}"
  by (force simp: set_enum_list image_iff Bex_def)

text \<open>An access finding of an identity is drawn exactly when its assessment contradicts the expectation.\<close>

lemma sensitive_in:
  assumes "f \<in> set (sensitive_data_findings L tc i ex)"
  shows "\<not> access_finding f \<and> fd_identity f = id_id i"
proof -
  from assms obtain hits cat where "category_finding L tc i ex hits cat = Some f"
    "cat \<in> set [ObjectPropertyExposure, SensitiveDataExposure]"
    unfolding sensitive_data_findings_def Let_def
    by (auto simp only: set_map_filter_iff list.set(1) empty_iff split: if_splits)
  then show ?thesis by (auto simp: access_finding_def dest: category_finding_some)
qed

text \<open>The finding drawn from the decision, before the sensitive-data findings.\<close>

definition decision_finding :: "golib \<Rightarrow> test_case \<Rightarrow> executions \<Rightarrow> (string \<times> assessment) list
    \<Rightarrow> identity \<Rightarrow> assessment \<Rightarrow> expected_access \<Rightarrow> finding option" where
  "decision_finding L tc m verified i a ea =
     (if amap_get verified (id_id i) \<noteq> None \<or> ea_assertions ea \<noteq> []
      then assessment_finding L tc i m ea a else evaluate L tc i m (ea_decision ea))"

lemma identity_findings_eq:
  "identity_findings L tc m verified i a =
     (case expected_last tc (id_id i) of None \<Rightarrow> []
      | Some ea \<Rightarrow> if ea_decision ea = DSkip then []
          else (case decision_finding L tc m verified i a ea of Some f \<Rightarrow> [f] | None \<Rightarrow> [])
             @ (if ea_forbid_sensitive ea then sensitive_data_findings L tc i (exec_of m (id_id i)) else []))"
  unfolding identity_findings_def decision_finding_def by (rule refl)

lemma decision_finding_access:
  "decision_finding L tc m verified i a ea = Some f \<Longrightarrow> access_finding f \<and> fd_identity f = id_id i"
  using assessment_finding_props evaluate_props by (auto simp: decision_finding_def split: if_splits)

lemma identity_findings_identity:
  "f \<in> set (identity_findings L tc m verified i a) \<Longrightarrow> fd_identity f = id_id i"
  using decision_finding_access sensitive_in
  by (fastforce simp: identity_findings_eq split: option.splits if_splits)

lemma identity_findings_iff:
  assumes "classified L tc (exec_of m (id_id i))"
    and a: "as_decision a = as_decision (base_assessment tc m verified i)"
  shows "(\<exists>f\<in>set (identity_findings L tc m verified i a). access_finding f) \<longleftrightarrow>
    (\<exists>ea. expected_last tc (id_id i) = Some ea \<and> contradicts (ea_decision ea) (as_decision a))"
proof (cases "expected_last tc (id_id i)")
  case None
  then show ?thesis by (simp add: identity_findings_def)
next
  case (Some ea)
  show ?thesis
  proof (cases "ea_decision ea = DSkip")
    case True
    then show ?thesis using Some by (simp add: identity_findings_def contradicts_def)
  next
    case False
    have "(\<exists>f\<in>set (identity_findings L tc m verified i a). access_finding f) \<longleftrightarrow>
        decision_finding L tc m verified i a ea \<noteq> None"
      using Some False decision_finding_access [of L tc m verified i a ea] sensitive_in [of _ L tc i "exec_of m (id_id i)"]
      by (cases "decision_finding L tc m verified i a ea") (auto simp: identity_findings_eq)
    also have "\<dots> \<longleftrightarrow> contradicts (ea_decision ea) (as_decision a)"
    proof (cases "amap_get verified (id_id i) \<noteq> None \<or> ea_assertions ea \<noteq> []")
      case True
      then show ?thesis by (simp add: decision_finding_def assessment_finding_iff del: not_None_eq)
    next
      case expl: False
      then show ?thesis
        using evaluate_iff [OF assms(1), of ea "id_id i"] False Some a
        by (simp add: decision_finding_def base_assessment_def del: not_None_eq)
    qed
    finally show ?thesis using Some by simp
  qed
qed

section \<open>What substitution leaves alone\<close>

definition same_shape :: "test_case \<Rightarrow> test_case \<Rightarrow> bool" where
  "same_shape tc tc' \<longleftrightarrow> tc_id tc' = tc_id tc \<and> tc_expected tc' = tc_expected tc \<and> tc_mutating tc' = tc_mutating tc
     \<and> map id_id (tc_identities tc') = map id_id (tc_identities tc)
     \<and> map (sends_no_auth \<circ> id_credential) (tc_identities tc') = map (sends_no_auth \<circ> id_credential) (tc_identities tc)
     \<and> tc_unauthorized_is_denial tc' = tc_unauthorized_is_denial tc
     \<and> rq_method (tc_request tc') = rq_method (tc_request tc)
     \<and> (tc_verification tc' = None \<longleftrightarrow> tc_verification tc = None)
     \<and> (\<forall>wv wv'. tc_verification tc = Some wv \<longrightarrow> tc_verification tc' = Some wv' \<longrightarrow>
          rq_method (wv_request wv') = rq_method (wv_request wv)
        \<and> map_option (rq_method \<circ> ss_request) (wv_reset wv') = map_option (rq_method \<circ> ss_request) (wv_reset wv))"

lemma apply_identity_sel:
  "apply_identity vars e i = Inr i' \<Longrightarrow>
     id_id i' = id_id i \<and> sends_no_auth (id_credential i') = sends_no_auth (id_credential i)"
  by (auto simp: apply_identity_def bind_res_eq_Inr set_credential_value_def sends_no_auth_def)

lemma apply_identities:
  assumes "map_res (\<lambda>i. apply_identity vars (ApplyCredential (id_id i)) i) is = Inr js"
  shows "map id_id js = map id_id is \<and>
    map (sends_no_auth \<circ> id_credential) js = map (sends_no_auth \<circ> id_credential) is"
  using assms
  by (induction "is" arbitrary: js) (auto simp: bind_res_eq_Inr dest!: apply_identity_sel)

lemma apply_reset_method:
  "apply_reset vars r = Inr r' \<Longrightarrow> map_option (rq_method \<circ> ss_request) r' = map_option (rq_method \<circ> ss_request) r"
  by (auto simp: apply_reset_def bind_res_eq_Inr dest: substitute_request_method split: option.splits)

lemma apply_setup_vars_shape: "apply_setup_vars tc vars = Inr tc' \<Longrightarrow> same_shape tc tc'"
  by (auto simp: apply_setup_vars_def same_shape_def map_option_res_def apply_verification_def bind_res_eq_Inr
      dest!: apply_identities substitute_request_method apply_reset_method split: if_splits option.splits)

section \<open>What validation establishes\<close>

lemma validate_identity_Inr:
  "validate_identity seen p = Inr seen' \<longleftrightarrow> seen' = id_id (snd p) # seen \<and> id_id (snd p) \<noteq> []
     \<and> id_id (snd p) \<notin> set seen \<and> validate_credential (snd p) = Inr ()"
  by (cases p) (auto simp: validate_identity_def bind_res_eq_Inr)

lemma validate_identities:
  assumes "fold_res validate_identity seen iis = Inr ids" "distinct seen"
  shows "distinct ids \<and> set ids = set seen \<union> set (map (id_id \<circ> snd) iis) \<and> length ids = length seen + length iis
    \<and> (\<forall>p\<in>set iis. id_id (snd p) \<noteq> [] \<and> validate_credential (snd p) = Inr ())"
  using assms
proof (induction iis arbitrary: seen)
  case (Cons p iis)
  obtain s1 where s1: "validate_identity seen p = Inr s1" "fold_res validate_identity s1 iis = Inr ids"
    using Cons.prems(1) by (cases "validate_identity seen p") simp_all
  note one = s1(1) [unfolded validate_identity_Inr]
  with Cons.prems(2) have "distinct s1" by simp
  from Cons.IH [OF s1(2) this] one show ?case by auto
qed simp

lemma validate_steps:
  "fold_res (validate_step tc) names iss = Inr names' \<Longrightarrow> (i, s) \<in> set iss \<Longrightarrow>
     rq_method (ss_request s) \<noteq> [] \<and> (is_unsafe_method (rq_method (ss_request s)) \<longrightarrow> tc_mutating tc)"
  by (induction iss arbitrary: names) (auto simp: validate_step_def bind_res_eq_Inr split: if_splits)

lemma validate_setup_safe:
  "validate_setup tc = Inr names \<Longrightarrow> s \<in> set (tc_setup tc) \<Longrightarrow>
     is_unsafe_method (rq_method (ss_request s)) \<longrightarrow> tc_mutating tc"
  using validate_steps [of tc "[]" "enum_list (tc_setup tc)" names]
  by (metis in_set_conv_nth set_enum_list validate_setup_def)

lemma validate_facts:
  assumes "validate L tc = Inr ()"
  shows "distinct (map id_id (tc_identities tc))" "tc_identities tc \<noteq> []"
    and "is_unsafe_method (rq_method (tc_request tc)) \<longrightarrow> tc_mutating tc"
    and "\<forall>s\<in>set (tc_setup tc). is_unsafe_method (rq_method (ss_request s)) \<longrightarrow> tc_mutating tc"
    and "tc_verification tc \<noteq> None \<longrightarrow> tc_mutating tc"
    and "\<forall>ea\<in>set (tc_expected tc). ea_identity ea \<in> id_id ` set (tc_identities tc)
           \<and> ea_decision ea \<in> {DAllow, DDeny, DSkip} \<and> validate_assertions (ea_assertions ea) = Inr ()"
proof -
  obtain ids names where v: "tc_identities tc \<noteq> []" "fold_res validate_identity [] (enum_list (tc_identities tc)) = Inr ids"
    "validate_request tc = Inr ()" "iter_res (validate_expected ids) (enum_list (tc_expected tc)) = Inr ()"
    "validate_verification L tc = Inr ()" "validate_setup tc = Inr names"
    using assms by (auto simp: validate_def bind_res_eq_Inr)
  note i = validate_identities [OF v(2), simplified distinct.simps, OF TrueI]
  have set_ids: "set ids = id_id ` set (tc_identities tc)"
  proof -
    have "set ids = id_id ` set (map snd (enum_list (tc_identities tc)))"
      using i by (simp add: image_image del: map_snd_enum_list)
    then show ?thesis by simp
  qed
  have "card (set ids) = length (tc_identities tc)" using i distinct_card [of ids] by simp
  then show "distinct (map id_id (tc_identities tc))"
    using set_ids by (intro card_distinct) simp
  show "tc_identities tc \<noteq> []" by (rule v(1))
  show "is_unsafe_method (rq_method (tc_request tc)) \<longrightarrow> tc_mutating tc"
    using v(3) by (auto simp: validate_request_def bind_res_eq_Inr)
  show "\<forall>s\<in>set (tc_setup tc). is_unsafe_method (rq_method (ss_request s)) \<longrightarrow> tc_mutating tc"
    using validate_setup_safe [OF v(6)] by blast
  show "tc_verification tc \<noteq> None \<longrightarrow> tc_mutating tc"
    using v(5) by (auto simp: validate_verification_def bind_res_eq_Inr)
  show "\<forall>ea\<in>set (tc_expected tc). ea_identity ea \<in> id_id ` set (tc_identities tc)
      \<and> ea_decision ea \<in> {DAllow, DDeny, DSkip} \<and> validate_assertions (ea_assertions ea) = Inr ()"
    using v(4) set_ids by (auto simp: ball_enum_list validate_expected_def bind_res_eq_Inr in_set_conv_nth)
qed

end
