(* ===== verification/Runs.thy ===== *)
theory Runs
  imports Engine "HOL-Library.Sublist"
begin

text \<open>
  What one run of the engine promises: the lemmas follow a run through validation, setup,
  substitution, preflight, the first pass and the second, and the properties are stated on
  \<open>Engine.run\<close> with the log of every request it sent.
\<close>

section \<open>Taking a run apart\<close>

lemma run_Inr:
  assumes "run L X tc w = (Inr r, w')"
  obtains tc' vars w1 where "validate L tc = Inr ()" "run_setup L X tc w = (Inr vars, w1)"
    "apply_setup_vars tc vars = Inr tc'" "same_shape tc tc'" "run_prepared L X tc' w1 = (r, w')"
  using assms apply_setup_vars_shape
  by (auto simp: run_def split: sum.splits prod.splits)

lemma run_prepared_cases:
  assumes "run_prepared L X tc w = (r, w')"
  obtains (failed) pf where "run_preflight X tc w = ((pf, False), w')" "r = preflight_only tc pf"
  | (ran) pf w1 st where "run_preflight X tc w = ((pf, True), w1)"
      "execute_all L X tc (tested_request tc) (execution_order tc) start_pass w1 = (st, w')"
      "r = conclude L tc pf st"
  using assms by (auto simp: run_prepared_def split: prod.splits if_splits)

lemma run_preflight_ready: "run_preflight X tc w = ((pf, ready), w') \<Longrightarrow> ready = list_all pr_passed pf"
  by (auto simp: run_preflight_def split: prod.splits)

lemma preflight_only_sel [simp]:
  "rr_executions (preflight_only tc pf) = []" "rr_findings (preflight_only tc pf) = []"
  "rr_preflight (preflight_only tc pf) = pf" "rr_test_case (preflight_only tc pf) = tc_id tc"
  "rr_assessments (preflight_only tc pf) = map (preflight_assessment tc pf) (tc_identities tc)"
  by (simp_all add: preflight_only_def)

lemma conclude_sel [simp]:
  "rr_executions (conclude L tc pf st) = map (\<lambda>i. exec_of (ps_execs st) (id_id i)) (tc_identities tc)"
  "rr_preflight (conclude L tc pf st) = pf" "rr_test_case (conclude L tc pf st) = tc_id tc"
  "rr_assessments (conclude L tc pf st) = map (\<lambda>(k, i). assess_identity tc pf (ps_execs st)
      (guard_verified_denials tc (ps_verified st)) k i) (enum_list (tc_identities tc))"
  by (simp_all add: conclude_def Let_def second_pass_assessments)

lemma preflight_failed_iff:
  assumes "run_prepared L X tc w = (r, w')"
  shows "preflight_failed r \<longleftrightarrow> (\<exists>pf. run_preflight X tc w = ((pf, False), w') \<and> r = preflight_only tc pf)"
  using assms
proof (cases rule: run_prepared_cases)
  case (failed pf)
  then show ?thesis
    using run_preflight_ready [OF failed(1)] by (auto simp: preflight_failed_def list_ex_iff list_all_iff)
next
  case (ran pf w1 st)
  then show ?thesis
    using run_preflight_ready [OF ran(1)] by (auto simp: preflight_failed_def list_ex_iff list_all_iff)
qed

lemma preflight_assessment_sel [simp]:
  "as_identity (preflight_assessment tc pf i) = id_id i"
  "as_decision (preflight_assessment tc pf i) \<in> {ASkipped, AInconclusive}"
  "as_decision (preflight_assessment tc pf i) = AInconclusive \<Longrightarrow> as_reason (preflight_assessment tc pf i) = RPreflightFailed"
  "as_index (preflight_assessment tc pf i) = None"
  by (cases "expected_for tc (id_id i)"; simp add: preflight_assessment_def Let_def new_assessment_def; simp split: if_splits)+

section \<open>The executions and assessments of a run\<close>

context engine_executor begin

lemma pass_of_run:
  assumes "execute_all L X tc req (execution_order tc) start_pass w = (st, w')"
  shows "pass_inv L tc st" and "i \<in> set (tc_identities tc) \<Longrightarrow> amap_get (ps_execs st) (id_id i) \<noteq> None"
proof -
  show "pass_inv L tc st" by (rule execute_all_inv [OF assms start_pass_inv]) simp
  show "amap_get (ps_execs st) (id_id i) \<noteq> None" if "i \<in> set (tc_identities tc)"
    using execute_all_keys [OF assms] that by (simp add: amap_get_None_iff)
qed

lemma run_executions:
  assumes "execute_all L X tc req (execution_order tc) start_pass w = (st, w')" "i \<in> set (tc_identities tc)"
  shows "er_identity (exec_of (ps_execs st) (id_id i)) = id_id i" "classified L tc (exec_of (ps_execs st) (id_id i))"
  using pass_of_run [OF assms(1)] assms(2) exec_of_get unfolding pass_inv_def by (metis not_None_eq)+

lemma run_verified_inv:
  assumes "execute_all L X tc req (execution_order tc) start_pass w = (st, w')"
  shows "verified_inv tc (ps_execs st) (guard_verified_denials tc (ps_verified st))"
  using pass_of_run(1) [OF assms] guard_ok [of "ps_verified st" tc "ps_execs st"]
  unfolding pass_inv_def verified_inv_def by blast

end

lemma map_enum_list: "map (\<lambda>(k, x). f x) (enum_list xs) = map f xs"
  using arg_cong [OF map_snd_enum_list [of xs], of "map f"]
  by (simp add: comp_def case_prod_unfold del: map_snd_enum_list)

lemma cors_finding_category: "cors_finding L tc org m = Some f \<Longrightarrow> fd_category f = CORSMisconfiguration"
  by (auto simp: cors_finding_def Let_def split: option.splits prod.splits if_splits)

lemma set_concat_enum: "set (concat (map f (enum_list xs))) = (\<Union>j<length xs. set (f (j, xs ! j)))"
  using set_map_enum [of "set \<circ> f" xs] by (simp add: image_comp comp_def)

lemma nth_enum_list [simp]: "k < length xs \<Longrightarrow> enum_list xs ! k = (k, xs ! k)"
  by (simp add: enum_list_def)

lemma map_fst_enum_list [simp]: "map fst (enum_list xs) = [0..<length xs]"
  by (simp add: enum_list_def)

context engine_executor begin

lemma prepared_reports:
  assumes "run_prepared L X tc w = (r, w')"
  shows "map as_identity (rr_assessments r) = map id_id (tc_identities tc)"
    and "preflight_failed r \<or> map er_identity (rr_executions r) = map id_id (tc_identities tc)
      \<and> map as_index (rr_assessments r) = map Some [0..<length (tc_identities tc)]"
    and "\<forall>a\<in>set (rr_assessments r). reason_ok a"
    and "preflight_failed r \<Longrightarrow> rr_executions r = [] \<and> rr_findings r = []
      \<and> (\<forall>a\<in>set (rr_assessments r). as_index a = None \<and> as_decision a \<in> {ASkipped, AInconclusive})"
proof -
  have "map as_identity (rr_assessments r) = map id_id (tc_identities tc) \<and>
    (preflight_failed r \<or> map er_identity (rr_executions r) = map id_id (tc_identities tc)
      \<and> map as_index (rr_assessments r) = map Some [0..<length (tc_identities tc)]) \<and>
    (\<forall>a\<in>set (rr_assessments r). reason_ok a)"
    using assms
  proof (cases rule: run_prepared_cases)
    case (failed pf)
    then show ?thesis
      using preflight_failed_iff [OF assms] preflight_assessment_sel(3)
      by (auto simp: comp_def reason_ok_iff)
  next
    case (ran pf w1 st)
    note inv = run_verified_inv [OF ran(2)]
    have "map er_identity (rr_executions r) = map id_id (tc_identities tc)"
      using run_executions(1) [OF ran(2)] ran(3) by simp
    moreover have "map as_index (rr_assessments r) = map Some [0..<length (tc_identities tc)]"
      unfolding ran(3) by (intro nth_equalityI) simp_all
    moreover have "map as_identity (rr_assessments r) = map id_id (tc_identities tc)"
      unfolding ran(3) using base_assessment_ok(1) [OF inv] by (intro nth_equalityI) simp_all
    moreover have "\<forall>a\<in>set (rr_assessments r). reason_ok a"
      using ran(3) base_assessment_ok(2) [OF inv] by (auto simp: ball_enum_list reason_ok_iff)
    ultimately show ?thesis by blast
  qed
  then show "map as_identity (rr_assessments r) = map id_id (tc_identities tc)"
    and "preflight_failed r \<or> map er_identity (rr_executions r) = map id_id (tc_identities tc)
      \<and> map as_index (rr_assessments r) = map Some [0..<length (tc_identities tc)]"
    and "\<forall>a\<in>set (rr_assessments r). reason_ok a" by blast+
  show "rr_executions r = [] \<and> rr_findings r = []
      \<and> (\<forall>a\<in>set (rr_assessments r). as_index a = None \<and> as_decision a \<in> {ASkipped, AInconclusive})"
    if failed: "preflight_failed r"
  proof -
    obtain pf where "r = preflight_only tc pf" using failed preflight_failed_iff [OF assms] by blast
    then show ?thesis using preflight_assessment_sel(2,4) by auto
  qed
qed

lemma prepared_findings:
  assumes "run_prepared L X tc w = (r, w')" "\<not> preflight_failed r" "k < length (tc_identities tc)"
    and "distinct (map id_id (tc_identities tc))"
  shows "(\<exists>f\<in>set (rr_findings r). access_finding f \<and> fd_identity f = id_id (tc_identities tc ! k)) \<longleftrightarrow>
    (\<exists>ea. expected_last tc (id_id (tc_identities tc ! k)) = Some ea
        \<and> contradicts (ea_decision ea) (as_decision (rr_assessments r ! k)))"
  using assms(1)
proof (cases rule: run_prepared_cases)
  case (ran pf w1 st)
  let ?m = "ps_execs st" and ?v = "guard_verified_denials tc (ps_verified st)"
  let ?a = "\<lambda>k i. assess_identity tc pf ?m ?v k i" and ?ids = "tc_identities tc"
  define cors where "cors = (case probe_origin tc of None \<Rightarrow> []
      | Some org \<Rightarrow> (case cors_finding L tc org ?m of None \<Rightarrow> [] | Some f \<Rightarrow> [f]))"
  have "rr_findings r = cors @ concat (map (\<lambda>(k, i). identity_findings L tc ?m ?v i (?a k i)) (enum_list ?ids))"
    unfolding ran(3) conclude_def second_pass_def Let_def cors_def by (simp add: comp_def case_prod_unfold)
  then have "set (rr_findings r) = set cors \<union> (\<Union>j<length ?ids. set (identity_findings L tc ?m ?v (?ids ! j) (?a j (?ids ! j))))"
    by (simp only: set_append set_concat_enum prod.case)
  moreover have "\<not> access_finding f" if "f \<in> set cors" for f
    using that by (auto simp: cors_def access_finding_def dest: cors_finding_category cors_finding_category [OF sym] split: option.splits)
  ultimately have fs: "{f \<in> set (rr_findings r). access_finding f}
      = (\<Union>j<length ?ids. {f \<in> set (identity_findings L tc ?m ?v (?ids ! j) (?a j (?ids ! j))). access_finding f})"
    by blast
  have one: "f \<in> set (identity_findings L tc ?m ?v (?ids ! j) (?a j (?ids ! j))) \<Longrightarrow> j < length ?ids \<Longrightarrow>
      fd_identity f = id_id (?ids ! k) \<longleftrightarrow> j = k" for f j
    using identity_findings_identity [of f L tc ?m ?v "?ids ! j"] assms(3,4)
    by (auto simp: distinct_conv_nth)
  have "(\<exists>f\<in>set (rr_findings r). access_finding f \<and> fd_identity f = id_id (?ids ! k)) \<longleftrightarrow>
      (\<exists>f\<in>{f \<in> set (rr_findings r). access_finding f}. fd_identity f = id_id (?ids ! k))" by blast
  also have "\<dots> \<longleftrightarrow> (\<exists>f\<in>set (identity_findings L tc ?m ?v (?ids ! k) (?a k (?ids ! k))). access_finding f)"
    unfolding fs using one assms(3) by blast
  also have "\<dots> \<longleftrightarrow> (\<exists>ea. expected_last tc (id_id (?ids ! k)) = Some ea
      \<and> contradicts (ea_decision ea) (as_decision (?a k (?ids ! k))))"
    using run_executions(2) [OF ran(2)] assms(3) by (intro identity_findings_iff) simp_all
  finally show ?thesis using ran(3) assms(3) by simp
next
  case (failed pf)
  then have "preflight_failed r" using preflight_failed_iff [OF assms(1)] by blast
  with assms(2) show ?thesis by simp
qed

lemma prepared_denials:
  assumes "run_prepared L X tc w = (r, w')" "\<not> preflight_failed r" "k < length (tc_identities tc)"
    and "distinct (map id_id (tc_identities tc))"
    and "as_expected (rr_assessments r ! k) = DDeny" "as_decision (rr_assessments r ! k) = ADenied"
  shows "\<not> rejects_credential tc (tc_identities tc ! k) (rr_executions r ! k)"
    and "as_source (rr_assessments r ! k) = SrcWriteVerification \<Longrightarrow>
      \<exists>ea\<in>set (tc_expected tc). ea_decision ea = DAllow \<and> (\<exists>b\<in>set (rr_assessments r).
        as_identity b = ea_identity ea \<and> as_decision b = AAllowed \<and> as_source b = SrcWriteVerification)"
proof -
  obtain pf w1 st where ran: "execute_all L X tc (tested_request tc) (execution_order tc) start_pass w1 = (st, w')"
    "r = conclude L tc pf st"
    using assms(1,2) preflight_failed_iff [OF assms(1)] by (cases rule: run_prepared_cases) blast+
  let ?m = "ps_execs st" and ?v = "guard_verified_denials tc (ps_verified st)" and ?ids = "tc_identities tc"
  note inv = run_verified_inv [OF ran(1)]
  have a: "rr_assessments r ! k = assess_identity tc pf ?m ?v k (?ids ! k)" using ran(2) assms(3) by simp
  have "attributable tc ?m (id_id (?ids ! k)) (base_assessment tc ?m ?v (?ids ! k))"
    using base_assessment_ok(3) [OF inv] assms(3) by simp
  then obtain i where i: "i \<in> set ?ids" "id_id i = id_id (?ids ! k)" "\<not> rejects_credential tc i (exec_of ?m (id_id i))"
    using assms(5,6) by (auto simp: attributable_def a)
  then have "i = ?ids ! k" using assms(3,4) by (metis distinct_conv_nth in_set_conv_nth length_map nth_map)
  then show "\<not> rejects_credential tc (?ids ! k) (rr_executions r ! k)" using i(3) ran(2) assms(3) by simp
  assume src: "as_source (rr_assessments r ! k) = SrcWriteVerification"
  then obtain b where b: "amap_get ?v (id_id (?ids ! k)) = Some b" "as_decision b = ADenied" "as_expected b = DDeny"
    using a assms(5,6) assess_source by (auto simp: base_assessment_def frame split: option.splits)
  then have pass: "control_passed tc (ps_verified st)" using guard_one_no_denial by (auto simp: guard_get split: if_splits)
  then obtain ea c where ea: "ea \<in> set (tc_expected tc)" "ea_decision ea = DAllow"
    "amap_get (ps_verified st) (ea_identity ea) = Some c" "as_decision c = AAllowed"
    by (auto simp: control_passed_def list_ex_iff split: option.splits)
  then have c: "amap_get ?v (ea_identity ea) = Some c" using pass by (simp add: guard_get)
  have "ea_identity ea \<in> fst ` set (ps_verified st)" using ea(3) by (metis amap_get_None_iff option.distinct(1))
  then obtain j where j: "j < length ?ids" "id_id (?ids ! j) = ea_identity ea"
    using execute_all_keys [OF ran(1)] by (auto simp: start_pass_def in_set_conv_nth)
  have "as_identity c = ea_identity ea \<and> as_source c = SrcWriteVerification"
    using inv c by (auto simp: verified_inv_def verified_ok_def)
  with j c ea(4) ran(2) show "\<exists>ea\<in>set (tc_expected tc). ea_decision ea = DAllow \<and> (\<exists>b\<in>set (rr_assessments r).
      as_identity b = ea_identity ea \<and> as_decision b = AAllowed \<and> as_source b = SrcWriteVerification)"
    by (intro bexI [OF _ ea(1)] conjI ea(2) bexI [of _ "rr_assessments r ! j"])
      (auto simp: base_assessment_def set_map_enum)
qed

end

text \<open>
  C3. No caller drops out of a report: a run that is not stopped gives one assessment for
  every identity, in the declared order, and every inconclusive assessment gives one of the
  published reasons. When the identity preflight passed there is also one execution for every
  identity, in the same order, each made as that identity and pointed to by its assessment;
  when it failed there are no executions and no findings, and no assessment points to an
  execution or is more than skipped or inconclusive.
\<close>

theorem run_reports_every_identity:
  assumes "engine_executor X" and "run L X tc w = (Inr r, w')"
  shows "map as_identity (rr_assessments r) = map id_id (tc_identities tc)
    \<and> (if preflight_failed r
       then rr_executions r = [] \<and> rr_findings r = []
         \<and> (\<forall>a\<in>set (rr_assessments r). as_index a = None \<and> as_decision a \<in> {ASkipped, AInconclusive})
       else map er_identity (rr_executions r) = map id_id (tc_identities tc)
         \<and> map as_index (rr_assessments r) = map Some [0..<length (tc_identities tc)])
    \<and> (\<forall>a\<in>set (rr_assessments r). as_decision a = AInconclusive \<longrightarrow> as_reason a \<in> set inconclusive_reasons)"
proof -
  obtain tc' vars w1 where t: "same_shape tc tc'" "run_prepared L X tc' w1 = (r, w')"
    using assms(2) by (rule run_Inr)
  note p = engine_executor.prepared_reports [OF assms(1) t(2)]
  have m: "map id_id (tc_identities tc') = map id_id (tc_identities tc)"
    "length (tc_identities tc') = length (tc_identities tc)"
    using t(1) by (auto simp: same_shape_def dest: map_eq_imp_length_eq)
  show ?thesis
  proof (cases "preflight_failed r")
    case True
    with p(1,3,4) m show ?thesis by (auto simp: reason_ok_def)
  next
    case False
    with p(1-3) m show ?thesis by (auto simp: reason_ok_def)
  qed
qed

lemma same_shape_expected: "same_shape tc tc' \<Longrightarrow> expected_last tc' = expected_last tc \<and> expected_for tc' = expected_for tc"
  by (auto simp: same_shape_def expected_last_def expected_for_def)

lemma same_shape_identities:
  assumes "same_shape tc tc'"
  shows "length (tc_identities tc') = length (tc_identities tc)"
    and "k < length (tc_identities tc) \<Longrightarrow> id_id (tc_identities tc' ! k) = id_id (tc_identities tc ! k)"
    and "k < length (tc_identities tc) \<Longrightarrow>
      rejects_credential tc' (tc_identities tc' ! k) ex = rejects_credential tc (tc_identities tc ! k) ex"
proof -
  have m: "map id_id (tc_identities tc') = map id_id (tc_identities tc)"
    "map (sends_no_auth \<circ> id_credential) (tc_identities tc') = map (sends_no_auth \<circ> id_credential) (tc_identities tc)"
    "tc_unauthorized_is_denial tc' = tc_unauthorized_is_denial tc"
    using assms by (auto simp: same_shape_def)
  show l: "length (tc_identities tc') = length (tc_identities tc)" using map_eq_imp_length_eq [OF m(1)] .
  show "id_id (tc_identities tc' ! k) = id_id (tc_identities tc ! k)" if "k < length (tc_identities tc)"
    using arg_cong [OF m(1), of "\<lambda>xs. xs ! k"] that l by simp
  show "rejects_credential tc' (tc_identities tc' ! k) ex = rejects_credential tc (tc_identities tc ! k) ex"
    if "k < length (tc_identities tc)"
    using arg_cong [OF m(2), of "\<lambda>xs. xs ! k"] m(3) that l by (simp add: rejects_credential_def)
qed

text \<open>
  C2. The findings say what the assessments say: for every identity of a run that went
  through, there is an access finding against it precisely when the assessment contradicts
  the (last) expectation given for it, allowed where deny was expected or denied where allow was.
\<close>

theorem run_finds_every_contradiction:
  assumes "engine_executor X" and "run L X tc w = (Inr r, w')"
    and "\<not> preflight_failed r" and "k < length (tc_identities tc)"
  shows "(\<exists>f\<in>set (rr_findings r). access_finding f \<and> fd_identity f = id_id (tc_identities tc ! k)) \<longleftrightarrow>
    (\<exists>ea. expected_last tc (id_id (tc_identities tc ! k)) = Some ea
        \<and> contradicts (ea_decision ea) (as_decision (rr_assessments r ! k)))"
proof -
  obtain tc' vars w1 where t: "validate L tc = Inr ()" "same_shape tc tc'" "run_prepared L X tc' w1 = (r, w')"
    using assms(2) by (rule run_Inr)
  note s = same_shape_identities [OF t(2)] same_shape_expected [OF t(2)]
  have "distinct (map id_id (tc_identities tc'))"
    using validate_facts(1) [OF t(1)] t(2) by (simp add: same_shape_def)
  from engine_executor.prepared_findings [OF assms(1) t(3) assms(3) _ this, of k] assms(4) s
  show ?thesis by simp
qed

text \<open>
  C1. A denial that counts as protection is one the policy explains: it is never read off a
  401 that only says the caller's own credential is dead, and when it comes from a write
  verification, some identity expected to be allowed was seen to write in the same run.
\<close>

theorem run_denials_are_attributable:
  assumes "engine_executor X" and "run L X tc w = (Inr r, w')"
    and "\<not> preflight_failed r" and "k < length (tc_identities tc)"
    and "as_expected (rr_assessments r ! k) = DDeny" and "as_decision (rr_assessments r ! k) = ADenied"
  shows "\<not> rejects_credential tc (tc_identities tc ! k) (rr_executions r ! k)
    \<and> (as_source (rr_assessments r ! k) = SrcWriteVerification \<longrightarrow>
        (\<exists>ea\<in>set (tc_expected tc). ea_decision ea = DAllow \<and> (\<exists>b\<in>set (rr_assessments r).
          as_identity b = ea_identity ea \<and> as_decision b = AAllowed \<and> as_source b = SrcWriteVerification)))"
proof -
  obtain tc' vars w1 where t: "validate L tc = Inr ()" "same_shape tc tc'" "run_prepared L X tc' w1 = (r, w')"
    using assms(2) by (rule run_Inr)
  note s = same_shape_identities [OF t(2)]
  have d: "distinct (map id_id (tc_identities tc'))" "tc_expected tc' = tc_expected tc"
    using validate_facts(1) [OF t(1)] t(2) by (simp_all add: same_shape_def)
  have k: "k < length (tc_identities tc')" using assms(4) s(1) by simp
  from engine_executor.prepared_denials [OF assms(1) t(3) assms(3) k d(1) assms(5,6)] s assms(4) d(2)
  show ?thesis by simp
qed

section \<open>The requests of a run\<close>

definition resource_ids :: "call list \<Rightarrow> string list" where
  "resource_ids calls = map (\<lambda>(ph, i, rq, ex). id_id i) (filter (\<lambda>c. fst c = PhResource) calls)"

lemma resource_ids_append [simp]: "resource_ids (xs @ ys) = resource_ids xs @ resource_ids ys"
  by (simp add: resource_ids_def)

lemma resource_ids_none: "\<forall>c\<in>set calls. fst c \<noteq> PhResource \<Longrightarrow> resource_ids calls = []"
  by (simp add: resource_ids_def)

lemma setup_adds:
  assumes "run_setup L (logged X) tc wl = (res, wl')"
  shows "adds (\<lambda>c. fst c = PhSetup \<and> (\<exists>s\<in>set (tc_setup tc). rq_method (fst (snd (snd c))) = rq_method (ss_request s))) wl wl'"
proof -
  obtain calls where c: "snd wl' = snd wl @ calls"
    "map call_view calls = map step_view (take (length calls) (enum_list (tc_setup tc)))"
    using run_steps_log [OF assms [unfolded run_setup_def]] by blast
  have "fst c = PhSetup \<and> (\<exists>s\<in>set (tc_setup tc). rq_method (fst (snd (snd c))) = rq_method (ss_request s))"
    if "c \<in> set calls" for c
  proof -
    have "call_view c \<in> step_view ` set (enum_list (tc_setup tc))"
    proof -
      have "call_view c \<in> set (map call_view calls)" using that by simp
      then show ?thesis unfolding c(2) by (auto dest: in_set_takeD)
    qed
    then show ?thesis
      by (auto simp: call_view_def step_view_def set_enum_list split: prod.splits)
  qed
  with c(1) show ?thesis by (auto simp: adds_def)
qed

lemma preflight_adds:
  "run_preflight (logged X) tc wl = (pr, wl') \<Longrightarrow>
     adds (\<lambda>c. fst c = PhPreflight \<and> rq_method (fst (snd (snd c))) = ''GET'') wl wl'"
  by (auto simp: run_preflight_def adds_def probe_log_def probe_request_def set_zip
      split: prod.splits dest!: run_probes_log)

text \<open>What the first pass may send.\<close>

definition pass_call :: "test_case \<Rightarrow> request_template \<Rightarrow> call \<Rightarrow> bool" where
  "pass_call tc req c \<longleftrightarrow> fst c \<in> {PhVerification, PhReset, PhResource} \<and>
     (rq_method (fst (snd (snd c))) = rq_method req \<or> tc_verification tc \<noteq> None)"

lemma execute_one_adds:
  assumes "execute_one L (logged X) tc req i st wl = (st', wl')"
  shows "adds (pass_call tc req) wl wl'"
    and "\<exists>calls. snd wl' = snd wl @ calls \<and> resource_ids calls \<in> {[], [id_id i]}
      \<and> (tc_verification tc = None \<longrightarrow> resource_ids calls = [id_id i])"
proof -
  have "adds (pass_call tc req) wl wl' \<and> (\<exists>calls. snd wl' = snd wl @ calls \<and> resource_ids calls \<in> {[], [id_id i]}
      \<and> (tc_verification tc = None \<longrightarrow> resource_ids calls = [id_id i]))"
  proof (cases "verified_for tc i")
    case None
    then have "snd wl' = snd wl @ [(PhResource, i, req, fst (ex_call X PhResource i req (fst wl)))]"
      using assms by (auto simp: execute_one_def logged_call)
    then show ?thesis by (simp add: adds_def pass_call_def resource_ids_def)
  next
    case (Some we)
    obtain wv ea where we: "we = (wv, ea)" by (cases we)
    then have tv: "tc_verification tc = Some wv" using Some by (simp add: verified_for_Some)
    obtain ex a s where v: "verified_execute (logged X) tc wv i req ea (ps_session st) wl = (((ex, a), s), wl')"
      using assms Some we by (auto simp: execute_one_def split: prod.splits)
    have "adds (pass_call tc req) wl wl'"
      by (rule adds_mono [OF verified_execute_adds [OF v]]) (auto simp: write_call_def pass_call_def tv)
    moreover have "\<exists>calls. snd wl' = snd wl @ calls \<and> resource_ids calls \<in> {[], [id_id i]}"
    proof (cases rule: verified_execute_cases [OF v, case_names held sent])
      case (held phs r ve msg)
      then obtain calls where "snd wl' = snd wl @ calls" "map fst calls = phs" by (auto simp: extends_def)
      moreover have "resource_ids calls = []"
        using held(1) \<open>map fst calls = phs\<close> by (intro resource_ids_none) (metis imageI set_map)
      ultimately show ?thesis by blast
    next
      case (sent wl2 e1 e2 wl3 before again after r3 d r4 ve)
      obtain cs where cs: "snd wl2 = snd wl @ cs" "map fst cs = reset_phases wv" using sent(1) by (auto simp: extends_def)
      have "\<forall>c\<in>set cs. fst c \<noteq> PhResource" using cs(2) by (force simp: reset_phases_def split: if_splits)
      then have "resource_ids cs = []" by (rule resource_ids_none)
      moreover have "(\<exists>e3. snd wl' = snd wl3 @ [read_call wv e3]) \<or> snd wl' = snd wl3"
        using observe_log [OF sent(8)] by auto
      ultimately show ?thesis
        using sent(2) cs(1) by (auto simp: read_call_def resource_ids_def)
    qed
    ultimately show ?thesis using tv by auto
  qed
  then show "adds (pass_call tc req) wl wl'"
    and "\<exists>calls. snd wl' = snd wl @ calls \<and> resource_ids calls \<in> {[], [id_id i]}
      \<and> (tc_verification tc = None \<longrightarrow> resource_ids calls = [id_id i])" by blast+
qed

lemma execute_all_adds:
  "execute_all L (logged X) tc req ids st wl = (st', wl') \<Longrightarrow> adds (pass_call tc req) wl wl'"
proof (induction ids arbitrary: st wl)
  case (Cons i ids)
  obtain st1 wl1 where o: "execute_one L (logged X) tc req i st wl = (st1, wl1)" by (metis surj_pair)
  then have "execute_all L (logged X) tc req ids st1 wl1 = (st', wl')" using Cons.prems by simp
  from adds_trans [OF execute_one_adds(1) [OF o] Cons.IH [OF this]] show ?case .
qed simp

lemma execute_all_resource:
  "execute_all L (logged X) tc req ids st wl = (st', wl') \<Longrightarrow>
     \<exists>calls. snd wl' = snd wl @ calls \<and> subseq (resource_ids calls) (map id_id ids)
       \<and> (tc_verification tc = None \<longrightarrow> resource_ids calls = map id_id ids)"
proof (induction ids arbitrary: st wl)
  case (Cons i ids)
  obtain st1 wl1 where o: "execute_one L (logged X) tc req i st wl = (st1, wl1)" by (metis surj_pair)
  then have "execute_all L (logged X) tc req ids st1 wl1 = (st', wl')" using Cons.prems by simp
  from Cons.IH [OF this] obtain cs where cs: "snd wl' = snd wl1 @ cs" "subseq (resource_ids cs) (map id_id ids)"
    "tc_verification tc = None \<longrightarrow> resource_ids cs = map id_id ids" by (elim exE conjE)
  obtain c1 where "snd wl1 = snd wl @ c1" "resource_ids c1 \<in> {[], [id_id i]}"
    "tc_verification tc = None \<longrightarrow> resource_ids c1 = [id_id i]"
    using execute_one_adds(2) [OF o] by (elim exE conjE)
  then have "snd wl' = snd wl @ (c1 @ cs)"
    "resource_ids (c1 @ cs) = resource_ids cs \<or> resource_ids (c1 @ cs) = id_id i # resource_ids cs"
    "tc_verification tc = None \<longrightarrow> resource_ids (c1 @ cs) = id_id i # resource_ids cs"
    using cs(1) by auto
  then show ?case using cs(2,3) list_emb_Cons [OF cs(2), of "id_id i"] subseq_Cons2 [OF cs(2), of "id_id i"]
    by (intro exI [of _ "c1 @ cs"]) (metis list.simps(9))
qed (simp add: resource_ids_def)

text \<open>Where a run sends what: setup, then preflight, then the requests under test.\<close>

lemma same_shape_request: "same_shape tc tc' \<Longrightarrow> rq_method (tested_request tc') = rq_method (tc_request tc)"
  by (auto simp: same_shape_def tested_request_def with_header_def split: option.split)

lemma run_sends:
  assumes "run L (logged X) tc (w, []) = (res, (w', calls))"
  obtains (rejected) "validate L tc \<noteq> Inr ()" "calls = []" "\<exists>e. res = Inl (RunInvalid e)"
  | (stopped) e where "validate L tc = Inr ()" "res = Inl e"
      "adds (\<lambda>c. fst c = PhSetup \<and> (\<exists>s\<in>set (tc_setup tc). rq_method (fst (snd (snd c))) = rq_method (ss_request s))) (w, []) (w', calls)"
  | (ran) tc' r s p q where "validate L tc = Inr ()" "res = Inr r" "same_shape tc tc'" "calls = s @ p @ q"
      "\<forall>c\<in>set s. fst c = PhSetup \<and> (\<exists>st\<in>set (tc_setup tc). rq_method (fst (snd (snd c))) = rq_method (ss_request st))"
      "\<forall>c\<in>set p. fst c = PhPreflight \<and> rq_method (fst (snd (snd c))) = ''GET''"
      "\<forall>c\<in>set q. pass_call tc' (tested_request tc') c"
      "subseq (resource_ids q) (map id_id (execution_order tc'))"
      "tc_verification tc' = None \<longrightarrow> preflight_failed r \<or> resource_ids q = map id_id (execution_order tc')"
      "preflight_failed r \<Longrightarrow> q = [] \<and> rr_executions r = [] \<and> rr_findings r = []"
proof (cases "validate L tc")
  case (Inl e)
  then show thesis using assms by (intro rejected) (auto simp: run_def)
next
  case (Inr u)
  obtain vs wl1 where su: "run_setup L (logged X) tc (w, []) = (vs, wl1)" by (metis surj_pair)
  note sa = setup_adds [OF su]
  show thesis
  proof (cases res)
    case (Inl e)
    then have "wl1 = (w', calls)" using assms Inr su by (auto simp: run_def split: sum.splits prod.splits)
    then show thesis using stopped [OF _ Inl] Inr sa by simp
  next
    case r: (Inr r)
    obtain tc' w1 where t: "same_shape tc tc'" "run_prepared L (logged X) tc' wl1 = (r, (w', calls))"
      using assms [unfolded r] su by (elim run_Inr) auto
    obtain s where s: "snd wl1 = s" "\<forall>c\<in>set s. fst c = PhSetup
        \<and> (\<exists>st\<in>set (tc_setup tc). rq_method (fst (snd (snd c))) = rq_method (ss_request st))"
      using sa by (auto simp: adds_def)
    from t(2) show thesis
    proof (cases rule: run_prepared_cases)
      case (failed pf)
      obtain p where "calls = s @ p" "\<forall>c\<in>set p. fst c = PhPreflight \<and> rq_method (fst (snd (snd c))) = ''GET''"
        using preflight_adds [OF failed(1)] s(1) by (auto simp: adds_def)
      moreover have "preflight_failed r" using preflight_failed_iff [OF t(2)] failed by blast
      ultimately show thesis
        using failed(2) s(2) Inr r t(1) by (intro ran [where tc' = tc' and s = s and p = p and q = "[]"])
          (auto simp: resource_ids_def)
    next
      case (ran pf wl2 st)
      obtain p where p: "snd wl2 = s @ p" "\<forall>c\<in>set p. fst c = PhPreflight \<and> rq_method (fst (snd (snd c))) = ''GET''"
        using preflight_adds [OF ran(1)] s(1) by (auto simp: adds_def)
      obtain q where q: "calls = snd wl2 @ q" "\<forall>c\<in>set q. pass_call tc' (tested_request tc') c"
        using execute_all_adds [OF ran(2)] by (auto simp: adds_def)
      have q': "subseq (resource_ids q) (map id_id (execution_order tc'))"
        "tc_verification tc' = None \<longrightarrow> resource_ids q = map id_id (execution_order tc')"
        using execute_all_resource [OF ran(2)] q(1) by auto
      have "\<not> preflight_failed r" using preflight_failed_iff [OF t(2)] ran(1) by auto
      then show thesis
        using p q q' s(2) Inr r t(1) by (intro that(3) [where tc' = tc' and s = s and p = p and q = q]) auto
    qed
  qed
qed

text \<open>
  C15. Nothing is sent to the endpoint under test on behalf of a caller whose identity check
  failed: the requests of a run are the setup steps, then the probes, then the requests under
  test with their reads and resets, and the last group is empty unless every probe passed;
  then there are also no executions, no findings and no verdicts.
\<close>

theorem preflight_failure_sends_nothing:
  assumes "run L (logged X) tc (w, []) = (Inr r, (w', calls))" and "preflight_failed r"
  shows "(\<forall>c\<in>set calls. fst c \<in> {PhSetup, PhPreflight}) \<and> rr_executions r = [] \<and> rr_findings r = []
    \<and> (\<forall>a\<in>set (rr_assessments r). as_decision a = ASkipped \<or> as_decision a = AInconclusive \<and> as_reason a = RPreflightFailed)"
proof -
  obtain tc' w1 where t: "run_prepared L (logged X) tc' w1 = (r, (w', calls))"
    using assms(1) by (rule run_Inr)
  obtain pf where "r = preflight_only tc' pf" using preflight_failed_iff [OF t] assms(2) by blast
  moreover have "as_decision (preflight_assessment tc' pf i) = ASkipped \<or> as_decision (preflight_assessment tc' pf i) = AInconclusive
      \<and> as_reason (preflight_assessment tc' pf i) = RPreflightFailed" for i
    using preflight_assessment_sel(2,3) [of tc' pf i] by blast
  ultimately have "\<forall>a\<in>set (rr_assessments r). as_decision a = ASkipped \<or> as_decision a = AInconclusive \<and> as_reason a = RPreflightFailed"
    by simp
  moreover have "(\<forall>c\<in>set calls. fst c \<in> {PhSetup, PhPreflight}) \<and> rr_executions r = [] \<and> rr_findings r = []"
    using run_sends [OF assms(1)] assms(2) by cases auto
  ultimately show ?thesis by blast
qed

text \<open>
  C14. A method that changes server state is sent only when the case says that is intended,
  whatever the phase: setup step, probe, verifier read, reset or the request under test.
\<close>

theorem unsafe_methods_need_consent:
  assumes "run L (logged X) tc (w, []) = (res, (w', calls))"
    and "(ph, i, rq, ex) \<in> set calls" and "is_unsafe_method (rq_method rq)"
  shows "tc_mutating tc"
proof (cases rule: run_sends [OF assms(1), case_names rejected stopped ran])
  case (stopped e)
  then show ?thesis using validate_facts(4) [OF stopped(1)] assms(2,3) by (force simp: adds_def)
next
  case (ran tc' r s p q)
  consider "(ph, i, rq, ex) \<in> set s" | "(ph, i, rq, ex) \<in> set p" | "(ph, i, rq, ex) \<in> set q"
    using assms(2) ran(4) by auto
  then show ?thesis
  proof cases
    case 1
    then show ?thesis using validate_facts(4) [OF ran(1)] assms(3) ran(5) by force
  next
    case 2
    have "\<not> is_unsafe_method ''GET''" by code_simp
    then show ?thesis using 2 ran(6) assms(3) by auto
  next
    case 3
    then have "rq_method rq = rq_method (tc_request tc) \<or> tc_verification tc \<noteq> None"
      using ran(7) same_shape_request [OF ran(3)] ran(3) by (auto simp: pass_call_def same_shape_def)
    then show ?thesis using validate_facts(3,5) [OF ran(1)] assms(3) by auto
  qed
qed (use assms(2) in simp)

lemma same_shape_order:
  assumes "same_shape tc tc'"
  shows "map id_id (execution_order tc') = map id_id (execution_order tc)"
    and "tc_verification tc' = None \<longleftrightarrow> tc_verification tc = None"
proof -
  define D where "D = (\<lambda>k. case expected_for tc k of None \<Rightarrow> False | Some ea \<Rightarrow> ea_decision ea = DDeny)"
  have d: "denies tc' = D \<circ> id_id" "denies tc = D \<circ> id_id"
    using same_shape_expected [OF assms] by (auto simp: denies_def D_def)
  have fm: "map id_id (filter (\<lambda>i. P (id_id i)) xs) = filter P (map id_id xs)" for P xs
    by (simp add: filter_map comp_def)
  have "map id_id (tc_identities tc') = map id_id (tc_identities tc)" "tc_verification tc' = None \<longleftrightarrow> tc_verification tc = None"
    using assms by (simp_all add: same_shape_def)
  then show "map id_id (execution_order tc') = map id_id (execution_order tc)"
    unfolding execution_order_def d by (simp add: fm [of D, folded comp_def] fm [of D] fm [of "\<lambda>x. \<not> D x"])
  show "tc_verification tc' = None \<longleftrightarrow> tc_verification tc = None" using assms by (simp add: same_shape_def)
qed

text \<open>
  The request under test goes out at most once for an identity. With a write verification
  the identities expected to be denied go before all others, so that no legitimate write of
  the same value can hide theirs; without one every identity is sent, in the declared order.
\<close>

theorem requests_go_out_once_in_order:
  assumes "run L (logged X) tc (w, []) = (Inr r, (w', calls))"
  shows "subseq (resource_ids calls) (if tc_verification tc = None then map id_id (tc_identities tc)
      else map id_id (filter (denies tc) (tc_identities tc)) @ map id_id (filter (\<lambda>i. \<not> denies tc i) (tc_identities tc)))
    \<and> (tc_verification tc = None \<longrightarrow> preflight_failed r \<or> resource_ids calls = map id_id (tc_identities tc))"
proof (cases rule: run_sends [OF assms, case_names rejected stopped ran])
  case (ran tc' r' s p q)
  have "resource_ids s = []" "resource_ids p = []" using ran(5,6) by (auto intro!: resource_ids_none)
  then have "resource_ids calls = resource_ids q" using ran(4) by simp
  with ran(2,8,9) same_shape_order [OF ran(3)] show ?thesis by (auto simp: execution_order_def)
qed (use assms in auto)

section \<open>Runs on record\<close>

text \<open>A run that goes through with a result and a log of which something holds.\<close>

definition sample_check :: "(run_result \<Rightarrow> call list \<Rightarrow> bool) \<Rightarrow> test_case \<Rightarrow> execution_result list \<Rightarrow> bool" where
  "sample_check P tc script = (case run sample_net_lib (logged scripted) tc (script, []) of
     (Inr r, (w, calls)) \<Rightarrow> P r calls | (Inl _, _) \<Rightarrow> False)"

lemma sample_checkE:
  assumes "sample_check P tc script"
  obtains r w calls where "run sample_net_lib (logged scripted) tc (script, []) = (Inr r, (w, calls))" "P r calls"
  using assms by (auto simp: sample_check_def split: prod.splits sum.splits)

lemmas sample_executor = logged_executor [OF scripted.engine_executor_axioms]

text \<open>Bob is expected to be denied and is answered like Alice.\<close>

definition sample_answers :: "execution_result list" where
  "sample_answers = [sample_answer 200 [], sample_answer 200 []]"

lemma sample_case_runs: "sample_check (\<lambda>r calls. \<not> preflight_failed r \<and> list_all2 (\<lambda>a d. as_decision a = d)
    (rr_assessments r) [AAllowed, AAllowed]) sample_case sample_answers"
  by code_simp

lemma sample_case_facts:
  "map id_id (tc_identities sample_case) = [''alice'', ''bob'']" "1 < length (tc_identities sample_case)"
  "expected_last sample_case (id_id (tc_identities sample_case ! 1)) = Some (sample_expected ''bob'' DDeny)"
  "ea_decision (sample_expected ''bob'' DDeny) = DDeny"
  by code_simp+

lemma run_reports_every_identity_witness:
  "\<exists>r wl. run sample_net_lib (logged scripted) sample_case (sample_answers, []) = (Inr r, wl)
     \<and> map as_identity (rr_assessments r) = [''alice'', ''bob'']"
proof -
  obtain r w calls where "run sample_net_lib (logged scripted) sample_case (sample_answers, []) = (Inr r, (w, calls))"
    using sample_case_runs by (rule sample_checkE)
  from this conjunct1 [OF run_reports_every_identity [OF sample_executor this], unfolded sample_case_facts]
  show ?thesis by (intro exI conjI)
qed

lemma run_finds_every_contradiction_witness:
  "\<exists>r wl. run sample_net_lib (logged scripted) sample_case (sample_answers, []) = (Inr r, wl)
     \<and> (\<exists>f\<in>set (rr_findings r). access_finding f \<and> fd_identity f = id_id (tc_identities sample_case ! 1))"
proof -
  obtain r w calls where r: "run sample_net_lib (logged scripted) sample_case (sample_answers, []) = (Inr r, (w, calls))"
    and p: "\<not> preflight_failed r" and d: "list_all2 (\<lambda>a d. as_decision a = d) (rr_assessments r) [AAllowed, AAllowed]"
    using sample_case_runs by (rule sample_checkE) blast
  have "as_decision (rr_assessments r ! 1) = AAllowed"
    using list_all2_nthD2 [OF d, of 1] by simp
  then have "contradicts (ea_decision (sample_expected ''bob'' DDeny)) (as_decision (rr_assessments r ! 1))"
    by (simp add: contradicts_def sample_case_facts(4))
  then have "\<exists>f\<in>set (rr_findings r). access_finding f \<and> fd_identity f = id_id (tc_identities sample_case ! 1)"
    unfolding run_finds_every_contradiction [OF sample_executor r p sample_case_facts(2)]
    using sample_case_facts(3) by blast
  with r show ?thesis by blast
qed

text \<open>A deletion by both callers under verification: Bob is refused, then Alice's takes effect.\<close>

definition sample_delete_case :: test_case where
  "sample_delete_case = sample_case\<lparr>tc_request := sample_request ''DELETE'' ''/orders/1'', tc_mutating := True,
     tc_verification := Some (sample_verification\<lparr>wv_strategy := ''deleted'', wv_pointer := [], wv_changed_to := []\<rparr>)\<rparr>"

definition sample_delete_answers :: "execution_result list" where
  "sample_delete_answers = [sample_answer 200 [], sample_answer 200 [], sample_answer 403 [], sample_answer 200 [],
     sample_answer 200 [], sample_answer 200 [], sample_answer 204 [], sample_answer 404 []]"

lemma sample_delete_runs:
  "sample_check (\<lambda>r calls. \<not> preflight_failed r \<and> (case rr_assessments r of [a, b] \<Rightarrow>
       as_expected b = DDeny \<and> as_decision b = ADenied \<and> as_source b = SrcWriteVerification | _ \<Rightarrow> False)
     \<and> (case calls of [_, _, (_, _, rq, _), _, _, _, _, _] \<Rightarrow> is_unsafe_method (rq_method rq) | _ \<Rightarrow> False))
     sample_delete_case sample_delete_answers"
  by code_simp

lemma sample_delete_run:
  obtains r w calls where "run sample_net_lib (logged scripted) sample_delete_case (sample_delete_answers, []) = (Inr r, (w, calls))"
    "\<not> preflight_failed r" "as_expected (rr_assessments r ! 1) = DDeny" "as_decision (rr_assessments r ! 1) = ADenied"
    "as_source (rr_assessments r ! 1) = SrcWriteVerification"
    "\<exists>ph i rq ex. (ph, i, rq, ex) \<in> set calls \<and> is_unsafe_method (rq_method rq)"
  using sample_delete_runs
  by (rule sample_checkE) (auto split: list.splits prod.splits)

lemma run_denials_are_attributable_witness:
  "\<exists>r wl. run sample_net_lib (logged scripted) sample_delete_case (sample_delete_answers, []) = (Inr r, wl)
     \<and> (\<exists>b\<in>set (rr_assessments r). as_decision b = AAllowed \<and> as_source b = SrcWriteVerification)"
proof -
  have l: "1 < length (tc_identities sample_delete_case)" by code_simp
  obtain r w calls where r: "run sample_net_lib (logged scripted) sample_delete_case (sample_delete_answers, []) = (Inr r, (w, calls))"
    "\<not> preflight_failed r" "as_expected (rr_assessments r ! 1) = DDeny" "as_decision (rr_assessments r ! 1) = ADenied"
    "as_source (rr_assessments r ! 1) = SrcWriteVerification" by (rule sample_delete_run)
  from run_denials_are_attributable [OF sample_executor r(1,2) l r(3,4)] r(1,5) show ?thesis by blast
qed

lemma unsafe_methods_need_consent_witness: "tc_mutating sample_delete_case"
proof -
  obtain r w calls where r: "run sample_net_lib (logged scripted) sample_delete_case (sample_delete_answers, []) = (Inr r, (w, calls))"
    "\<exists>ph i rq ex. (ph, i, rq, ex) \<in> set calls \<and> is_unsafe_method (rq_method rq)" by (rule sample_delete_run)
  then show ?thesis using unsafe_methods_need_consent [OF r(1)] by blast
qed

lemma requests_go_out_once_in_order_witness:
  "\<exists>r w calls. run sample_net_lib (logged scripted) sample_delete_case (sample_delete_answers, []) = (Inr r, (w, calls))
     \<and> subseq (resource_ids calls) [''bob'', ''alice'']"
proof -
  have o: "(if tc_verification sample_delete_case = None then map id_id (tc_identities sample_delete_case)
      else map id_id (filter (denies sample_delete_case) (tc_identities sample_delete_case))
        @ map id_id (filter (\<lambda>i. \<not> denies sample_delete_case i) (tc_identities sample_delete_case))) = [''bob'', ''alice'']"
    by code_simp
  obtain r w calls where r: "run sample_net_lib (logged scripted) sample_delete_case (sample_delete_answers, []) = (Inr r, (w, calls))"
    by (rule sample_delete_run)
  from r requests_go_out_once_in_order [OF r, unfolded o] show ?thesis by blast
qed

text \<open>Both callers declare a probe; Alice's is refused.\<close>

definition sample_probe_case :: test_case where
  "sample_probe_case = sample_case\<lparr>tc_identities := map (\<lambda>i. i\<lparr>id_preflight := Some
     \<lparr>pf_url = ''http://api/me'', pf_expected_status = 200, pf_json_fields = [(''id'', id_id i)]\<rparr>\<rparr>) (tc_identities sample_case)\<rparr>"

lemma preflight_failure_sends_nothing_witness:
  "\<exists>r w calls. run sample_net_lib (logged scripted) sample_probe_case ([sample_answer 401 [], sample_answer 401 []], []) = (Inr r, (w, calls))
     \<and> rr_executions r = [] \<and> (\<forall>c\<in>set calls. fst c \<in> {PhSetup, PhPreflight})"
proof -
  have "sample_check (\<lambda>r calls. preflight_failed r) sample_probe_case [sample_answer 401 [], sample_answer 401 []]"
    by code_simp
  then obtain r w calls where r: "run sample_net_lib (logged scripted) sample_probe_case
      ([sample_answer 401 [], sample_answer 401 []], []) = (Inr r, (w, calls))" "preflight_failed r"
    by (rule sample_checkE)
  from r(1) preflight_failure_sends_nothing [OF r] show ?thesis by blast
qed

section \<open>A case two expectations contradict\<close>

text \<open>
  Validation does not refuse two expectations of one identity; the first pass then follows
  the first of them and the second pass the last.
\<close>

lemma duplicate_expectations_pass_validation:
  "\<exists>tc i. validate sample_net_lib tc = Inr () \<and> expected_for tc i \<noteq> expected_last tc i"
proof -
  let ?tc = "sample_case\<lparr>tc_expected := [sample_expected ''bob'' DAllow, sample_expected ''bob'' DDeny]\<rparr>"
  have "validate sample_net_lib ?tc = Inr ()"
    "map_option ea_decision (expected_for ?tc ''bob'') \<noteq> map_option ea_decision (expected_last ?tc ''bob'')"
    by code_simp+
  then show ?thesis by metis
qed

end
