(* ===== verification/Budget.thy ===== *)
theory Budget
  imports Runs
begin

text \<open>
  How many requests a run can make, whatever the servers answer: every function of the engine that
  calls the executor adds a bounded number of calls to the log, and so does a whole run.
\<close>

definition at_most :: "nat \<Rightarrow> 'w \<times> call list \<Rightarrow> 'w \<times> call list \<Rightarrow> bool" where
  "at_most n wl wl' \<longleftrightarrow> (\<exists>calls. snd wl' = snd wl @ calls \<and> length calls \<le> n)"

lemma at_most_refl [simp]: "at_most n wl wl"
  by (simp add: at_most_def)

lemma at_most_trans: "at_most m wl wl1 \<Longrightarrow> at_most n wl1 wl2 \<Longrightarrow> at_most (m + n) wl wl2"
  by (fastforce simp: at_most_def)

lemma at_most_mono: "at_most m wl wl' \<Longrightarrow> m \<le> n \<Longrightarrow> at_most n wl wl'"
  by (fastforce simp: at_most_def)

lemma at_most_call: "ex_call (logged X) ph i rq wl = (r, wl') \<Longrightarrow> at_most 1 wl wl'"
  by (auto simp: logged_call at_most_def)

lemma at_most_poll: "ex_poll (logged X) wl = (b, wl') \<Longrightarrow> at_most 0 wl wl'"
  by (auto simp: logged_poll at_most_def)

lemma at_most_length: "at_most n (w, []) wl' \<Longrightarrow> length (snd wl') \<le> n"
  by (auto simp: at_most_def)

section \<open>Setup and preflight\<close>

lemma setup_at_most: "run_setup L (logged X) tc wl = (res, wl') \<Longrightarrow> at_most (length (tc_setup tc)) wl wl'"
  unfolding run_setup_def using run_steps_log by (fastforce simp: at_most_def)

lemma probes_at_most: "run_probes (logged X) ids wl = (rs, wl') \<Longrightarrow> at_most (length ids) wl wl'"
proof (induction ids arbitrary: wl rs)
  case (Cons i ids)
  show ?case
  proof (cases "id_preflight i")
    case None
    then show ?thesis using Cons at_most_mono [of "length ids" wl wl' "length (i # ids)"] by simp
  next
    case (Some p)
    obtain ex wl1 where call: "ex_call (logged X) PhPreflight i (probe_request p) wl = (ex, wl1)" by (metis surj_pair)
    obtain rs' where rest: "run_probes (logged X) ids wl1 = (rs', wl')"
      using Cons.prems Some call by (auto split: prod.splits)
    from at_most_trans [OF at_most_call [OF call] Cons.IH [OF rest]] show ?thesis by simp
  qed
qed simp

lemma preflight_at_most:
  assumes "run_preflight (logged X) tc wl = (pr, wl')"
  shows "at_most (length (tc_identities tc) + 1) wl wl'"
proof -
  obtain rs where "run_probes (logged X) (preflight_identities tc) wl = (rs, wl')"
    using assms by (auto simp: run_preflight_def split: prod.splits)
  from probes_at_most [OF this] show ?thesis
    by (rule at_most_mono) (simp add: preflight_identities_def split: option.split)
qed

section \<open>The first pass\<close>

lemma observe_at_most:
  assumes "observe (logged X) wv after wl = (r, wl')"
  shows "at_most 1 wl wl'"
proof -
  obtain c1 wl1 where p1: "ex_poll (logged X) wl = (c1, wl1)" by (metis surj_pair)
  obtain ex wl2 where call: "ex_call (logged X) PhVerification (wv_identity wv) (verifier_request wv) wl1 = (ex, wl2)"
    by (metis surj_pair)
  obtain c2 wl3 where p2: "ex_poll (logged X) wl2 = (c2, wl3)" by (metis surj_pair)
  have "at_most (0 + (1 + 0)) wl wl3"
    by (intro at_most_trans [OF at_most_poll [OF p1]] at_most_trans [OF at_most_call [OF call]] at_most_poll [OF p2])
  then show ?thesis
    using assms p1 call p2 at_most_mono [OF at_most_poll [OF p1]]
    by (auto simp: observe_def split: if_split_asm)
qed

lemma read_before_at_most:
  assumes "read_before (logged X) wv wl = (r, wl')"
  shows "at_most 2 wl wl'"
proof -
  obtain b r0 wl1 where o1: "observe (logged X) wv False wl = ((b, r0), wl1)" by (metis surj_pair)
  obtain a r3 wl2 where o2: "observe (logged X) wv False wl1 = ((a, r3), wl2)" by (metis surj_pair)
  have "at_most 2 wl wl2"
    using at_most_trans [OF observe_at_most [OF o1] observe_at_most [OF o2]] by (simp add: numeral_2_eq_2)
  moreover have "at_most 2 wl wl1" using at_most_mono [OF observe_at_most [OF o1]] by simp
  moreover have "wl' = wl1 \<or> wl' = wl2" using assms o1 o2 by (auto simp: read_before_def Let_def split: if_split_asm)
  ultimately show ?thesis by auto
qed

lemma attempt_write_at_most:
  assumes "attempt_write (logged X) wv i req a ve s wl = (r, wl')"
  shows "at_most 4 wl wl'"
proof -
  obtain before statuses r0 wl1 where rb: "read_before (logged X) wv wl = ((before, statuses, r0), wl1)" by (metis surj_pair)
  obtain r1 s1 where cs: "check_session wv before (check_target wv before r0) s = (r1, s1)" by (metis surj_pair)
  obtain c wl2 where pl: "(if r1 = RNone then ex_poll (logged X) wl1 else (False, wl1)) = (c, wl2)" by (metis surj_pair)
  obtain ex wl3 where call: "ex_call (logged X) PhResource i req wl2 = (ex, wl3)" by (metis surj_pair)
  obtain after r3 wl4 where ob: "observe (logged X) wv True wl3 = ((after, r3), wl4)" by (metis surj_pair)
  have "at_most 0 wl1 wl2" using pl at_most_poll [of X wl1 c wl2] by (auto split: if_split_asm)
  from at_most_trans [OF read_before_at_most [OF rb] this] have two: "at_most 2 wl wl2" by simp
  have "at_most (2 + (1 + 1)) wl wl4"
    by (intro at_most_trans [OF two] at_most_trans [OF at_most_call [OF call] observe_at_most [OF ob]])
  moreover have "at_most 4 wl wl2" using at_most_mono [OF two] by simp
  moreover have "wl' = wl2 \<or> wl' = wl4"
    using assms rb cs pl call ob by (auto simp: attempt_write_def Let_def split: if_split_asm prod.splits)
  ultimately show ?thesis by auto
qed

lemma verified_execute_at_most:
  assumes "verified_execute (logged X) tc wv i req ea s wl = (r, wl')"
  shows "at_most 5 wl wl'"
proof -
  obtain c wl1 where pl: "ex_poll (logged X) wl = (c, wl1)" by (metis surj_pair)
  obtain reset wl2 where rs: "run_reset (logged X) tc wv wl1 = (reset, wl2)" by (metis surj_pair)
  have "at_most 1 wl1 wl2"
    using rs by (auto simp: run_reset_def split: option.split_asm prod.split_asm dest: at_most_call)
  from at_most_trans [OF at_most_poll [OF pl] this] have one: "at_most 1 wl wl2" by simp
  have "wl' = wl1 \<or> wl' = wl2 \<or> (\<exists>a ve. attempt_write (logged X) wv i req a ve s wl2 = (r, wl'))"
    using assms pl rs by (auto simp: verified_execute_def Let_def split: if_split_asm prod.splits)
  then show ?thesis
  proof (elim disjE exE)
    fix a ve assume "attempt_write (logged X) wv i req a ve s wl2 = (r, wl')"
    from at_most_trans [OF one attempt_write_at_most [OF this]] show ?thesis by simp
  qed (use at_most_mono [OF at_most_poll [OF pl]] at_most_mono [OF one] in auto)
qed

definition calls_each :: "test_case \<Rightarrow> nat" where
  "calls_each tc = (if tc_verification tc = None then 1 else 5)"

lemma execute_one_at_most:
  assumes "execute_one L (logged X) tc req i st wl = (st', wl')"
  shows "at_most (calls_each tc) wl wl'"
proof (cases "verified_for tc i")
  case None
  then have "at_most 1 wl wl'"
    using assms by (auto simp: execute_one_def split: prod.split_asm dest: at_most_call)
  then show ?thesis by (rule at_most_mono) (simp add: calls_each_def)
next
  case (Some we)
  obtain wv ea where we: "we = (wv, ea)" by (cases we)
  then have "tc_verification tc = Some wv" using Some by (simp add: verified_for_Some)
  moreover obtain r where "verified_execute (logged X) tc wv i req ea (ps_session st) wl = (r, wl')"
    using assms Some we by (auto simp: execute_one_def split: prod.splits)
  ultimately show ?thesis using verified_execute_at_most by (fastforce simp: calls_each_def)
qed

lemma execute_all_at_most:
  "execute_all L (logged X) tc req ids st wl = (st', wl') \<Longrightarrow> at_most (calls_each tc * length ids) wl wl'"
proof (induction ids arbitrary: st wl)
  case (Cons i ids)
  obtain st1 wl1 where o: "execute_one L (logged X) tc req i st wl = (st1, wl1)" by (metis surj_pair)
  then have "execute_all L (logged X) tc req ids st1 wl1 = (st', wl')" using Cons.prems by simp
  from at_most_trans [OF execute_one_at_most [OF o] Cons.IH [OF this]] show ?case by simp
qed simp

section \<open>A whole run\<close>

lemma length_execution_order: "length (execution_order tc) = length (tc_identities tc)"
  using sum_length_filter_compl [of "denies tc" "tc_identities tc"] by (simp add: execution_order_def)

lemma prepared_at_most:
  assumes "run_prepared L (logged X) tc wl = (r, wl')"
  shows "at_most (length (tc_identities tc) + 1 + calls_each tc * length (tc_identities tc)) wl wl'"
  using assms
proof (cases rule: run_prepared_cases)
  case (failed pf)
  from preflight_at_most [OF failed(1)] show ?thesis by (rule at_most_mono) simp
next
  case (ran pf wl1 st)
  from at_most_trans [OF preflight_at_most [OF ran(1)] execute_all_at_most [OF ran(2)]]
  show ?thesis by (simp only: length_execution_order)
qed

lemma same_shape_counts:
  assumes "same_shape tc tc'"
  shows "length (tc_identities tc') = length (tc_identities tc)" "calls_each tc' = calls_each tc"
proof -
  have "map id_id (tc_identities tc') = map id_id (tc_identities tc)" using assms by (simp add: same_shape_def)
  from arg_cong [OF this, of length] show "length (tc_identities tc') = length (tc_identities tc)" by simp
  show "calls_each tc' = calls_each tc" using assms by (simp add: calls_each_def same_shape_def)
qed

text \<open>
  Every run ends, and after a number of requests that the test case fixes beforehand, whatever is answered, whenever it
  is cancelled and however it ends: at most one for each setup step, one probe for each identity and for the
  verifier, and for each identity one request under test, or five with a write verification, which are a reset, two
  reads before the write, the write and one read after it.
\<close>

theorem run_ends_within_budget:
  "length (snd (snd (run L (logged X) tc (w, []))))
     \<le> length (tc_setup tc) + (length (tc_identities tc) + 1)
       + (if tc_verification tc = None then 1 else 5) * length (tc_identities tc)"
proof -
  let ?n = "length (tc_identities tc) + 1 + calls_each tc * length (tc_identities tc)"
  obtain res wl' where r: "run L (logged X) tc (w, []) = (res, wl')" by (metis surj_pair)
  have "at_most (length (tc_setup tc) + ?n) (w, []) wl'"
  proof (cases "validate L tc")
    case (Inl e)
    then show ?thesis using r by (simp add: run_def)
  next
    case valid: (Inr u)
    obtain vs wl1 where su: "run_setup L (logged X) tc (w, []) = (vs, wl1)" by (metis surj_pair)
    show ?thesis
    proof (cases res)
      case (Inl e)
      then have "wl' = wl1" using r valid su by (auto simp: run_def split: sum.splits prod.splits)
      then show ?thesis using at_most_mono [OF setup_at_most [OF su]] by simp
    next
      case (Inr rr)
      obtain tc' where t: "same_shape tc tc'" "run_prepared L (logged X) tc' wl1 = (rr, wl')"
        using r [unfolded Inr] su by (elim run_Inr) auto
      from at_most_trans [OF setup_at_most [OF su] prepared_at_most [OF t(2)]]
      show ?thesis by (simp only: same_shape_counts [OF t(1)])
    qed
  qed
  from at_most_length [OF this] show ?thesis using r by (simp add: calls_each_def)
qed

end
