(* ===== verification/UrlCheck.thy ===== *)
theory UrlCheck
  imports Model "HOL-Library.Word"
begin

unbundle bit_operations_syntax

text \<open>
  \<open>internal/urlcheck/urlcheck.go\<close>: which addresses a request may go to. An address is a
  \<open>net.IP\<close>, a list of 4 or 16 bytes; the classifiers are those of package \<open>net\<close>, byte by
  byte. The section on ranges shows that they decide membership of number intervals.
\<close>

section \<open>Addresses\<close>

type_synonym byte = "8 word"
type_synonym ip = "byte list"

definition v4_prefix :: ip where
  "v4_prefix = replicate 10 0 @ [255, 255]"

text \<open>\<open>To4\<close>, \<open>To16\<close>: the 16 byte form of an IPv4 address has a fixed prefix.\<close>

definition to4 :: "ip \<Rightarrow> ip option" where
  "to4 a = (if length a = 4 then Some a
     else if length a = 16 \<and> take 12 a = v4_prefix then Some (drop 12 a) else None)"

definition to16 :: "ip \<Rightarrow> ip option" where
  "to16 a = (if length a = 4 then Some (v4_prefix @ a) else if length a = 16 then Some a else None)"

definition ipv4 :: "byte \<Rightarrow> byte \<Rightarrow> byte \<Rightarrow> byte \<Rightarrow> ip" where
  "ipv4 a b c d = v4_prefix @ [a, b, c, d]"

definition ip_equal :: "ip \<Rightarrow> ip \<Rightarrow> bool" where
  "ip_equal a b = (if length a = length b then a = b
     else if length a = 4 \<and> length b = 16 then take 12 b = v4_prefix \<and> a = drop 12 b
     else if length a = 16 \<and> length b = 4 then take 12 a = v4_prefix \<and> drop 12 a = b
     else False)"

text \<open>A network: its address and its mask.\<close>

type_synonym ipnet = "ip \<times> ip"

definition ipnet_contains :: "ipnet \<Rightarrow> ip \<Rightarrow> bool" where
  "ipnet_contains n a = (let x = (case to4 a of Some v \<Rightarrow> v | None \<Rightarrow> a) in
     length x = length (fst n) \<and>
     list_all (\<lambda>(b, m, y). b AND m = y AND m) (zip (fst n) (zip (snd n) x)))"

definition v6_zero :: ip where "v6_zero = replicate 16 0"
definition v6_loopback :: ip where "v6_loopback = replicate 15 0 @ [1]"

definition is_unspecified :: "ip \<Rightarrow> bool" where
  "is_unspecified a \<longleftrightarrow> ip_equal a (ipv4 0 0 0 0) \<or> ip_equal a v6_zero"

definition is_loopback :: "ip \<Rightarrow> bool" where
  "is_loopback a = (case to4 a of Some v \<Rightarrow> v ! 0 = 127 | None \<Rightarrow> ip_equal a v6_loopback)"

definition is_private :: "ip \<Rightarrow> bool" where
  "is_private a = (case to4 a of
     Some v \<Rightarrow> v ! 0 = 10 \<or> (v ! 0 = 172 \<and> v ! 1 AND 240 = 16) \<or> (v ! 0 = 192 \<and> v ! 1 = 168)
   | None \<Rightarrow> length a = 16 \<and> a ! 0 AND 254 = 252)"

definition is_multicast :: "ip \<Rightarrow> bool" where
  "is_multicast a = (case to4 a of Some v \<Rightarrow> v ! 0 AND 240 = 224
     | None \<Rightarrow> length a = 16 \<and> a ! 0 = 255)"

definition is_link_local_unicast :: "ip \<Rightarrow> bool" where
  "is_link_local_unicast a = (case to4 a of Some v \<Rightarrow> v ! 0 = 169 \<and> v ! 1 = 254
     | None \<Rightarrow> length a = 16 \<and> a ! 0 = 254 \<and> a ! 1 AND 192 = 128)"

definition is_link_local_multicast :: "ip \<Rightarrow> bool" where
  "is_link_local_multicast a = (case to4 a of Some v \<Rightarrow> v ! 0 = 224 \<and> v ! 1 = 0 \<and> v ! 2 = 0
     | None \<Rightarrow> length a = 16 \<and> a ! 0 = 255 \<and> a ! 1 AND 15 = 2)"

section \<open>The policy\<close>

definition this_network :: ipnet where
  "this_network = ([0, 0, 0, 0], [255, 0, 0, 0])"

definition non_public :: "ipnet list" where
  "non_public = [([100, 64, 0, 0], [255, 192, 0, 0]), ([198, 18, 0, 0], [255, 254, 0, 0])]"

definition metadata_ips :: "ip list" where
  "metadata_ips = [ipv4 100 100 100 200]"

definition nat64 :: ipnet where
  "nat64 = ([0, 100, 255, 155] @ replicate 12 0, replicate 12 255 @ replicate 4 0)"

definition six_to_four :: ipnet where
  "six_to_four = ([32, 2] @ replicate 14 0, [255, 255] @ replicate 14 0)"

definition is_metadata :: "ip \<Rightarrow> bool" where
  "is_metadata a = list_ex (\<lambda>m. ip_equal m a) metadata_ips"

definition in_any :: "ip \<Rightarrow> ipnet list \<Rightarrow> bool" where
  "in_any a ns = list_ex (\<lambda>n. ipnet_contains n a) ns"

definition embedded_ipv4 :: "ip \<Rightarrow> ip option" where
  "embedded_ipv4 a =
     (if to4 a \<noteq> None then None
      else case to16 a of None \<Rightarrow> None
       | Some b \<Rightarrow>
           if ipnet_contains nat64 b then Some (ipv4 (b ! 12) (b ! 13) (b ! 14) (b ! 15))
           else if ipnet_contains six_to_four b then Some (ipv4 (b ! 2) (b ! 3) (b ! 4) (b ! 5))
           else None)"

datatype ip_error = Carries ip ip ip_error | Unspecified ip | LinkLocal ip | Metadata ip | Multicast ip
  | Loopback ip | PrivateNetwork ip

text \<open>The cases of the switch, in order, without the embedded address.\<close>

definition check_class :: "ip \<Rightarrow> bool \<Rightarrow> ip_error + unit" where
  "check_class a allow =
     (if is_unspecified a \<or> ipnet_contains this_network a then Inl (Unspecified a)
      else if is_link_local_unicast a \<or> is_link_local_multicast a then Inl (LinkLocal a)
      else if is_metadata a then Inl (Metadata a)
      else if is_multicast a then Inl (Multicast a)
      else if is_loopback a then (if allow then Inr () else Inl (Loopback a))
      else if is_private a \<or> in_any a non_public then (if allow then Inr () else Inl (PrivateNetwork a))
      else Inr ())"

lemma to4_ipv4 [simp]: "to4 (ipv4 a b c d) = Some [a, b, c, d]"
  by (simp add: to4_def ipv4_def v4_prefix_def)

lemma embedded_not_v4: "to4 a \<noteq> None \<Longrightarrow> embedded_ipv4 a = None"
  by (simp add: embedded_ipv4_def)

lemma embedded_is_v4: "embedded_ipv4 a = Some b \<Longrightarrow> to4 a = None \<and> to4 b \<noteq> None"
  by (auto simp: embedded_ipv4_def split: if_splits option.splits)

function check_ip :: "ip \<Rightarrow> bool \<Rightarrow> ip_error + unit" where
  "check_ip a allow =
     (case embedded_ipv4 a of
        None \<Rightarrow> check_class a allow
      | Some b \<Rightarrow> (case check_ip b allow of Inl e \<Rightarrow> Inl (Carries a b e) | Inr _ \<Rightarrow> check_class a allow))"
  by pat_completeness auto
termination
  by (relation "measure (\<lambda>(a, allow). if to4 a = None then 1 else 0)") (auto dest: embedded_is_v4)

declare check_ip.simps [simp del]

datatype url_error = UrlParse | SchemeNotAllowed string | NoHost | BlockedIp ip_error

text \<open>\<open>Check\<close>; \<open>parse_ip\<close> is \<open>net.ParseIP\<close>.\<close>

definition check_url :: "golib \<Rightarrow> (string \<Rightarrow> ip option) \<Rightarrow> string \<Rightarrow> bool \<Rightarrow> url_error + unit" where
  "check_url L parse_ip raw allow =
     (case gl_url_parse L raw of None \<Rightarrow> Inl UrlParse
      | Some u \<Rightarrow>
          if u_scheme u \<noteq> ''http'' \<and> u_scheme u \<noteq> ''https'' then Inl (SchemeNotAllowed (u_scheme u))
          else if u_hostname u = [] then Inl NoHost
          else case parse_ip (u_hostname u) of None \<Rightarrow> Inr () | Some a \<Rightarrow> map_err BlockedIp (check_ip a allow))"

section \<open>The ranges the bytes decide\<close>

lemma unat_and_not_mask: "unat (x AND NOT (mask n)) = unat x div 2 ^ n * 2 ^ n" for x :: "'a :: len word"
proof -
  have "x AND NOT (mask n) = push_bit n (drop_bit n x)"
    by (rule bit_word_eqI) (auto simp: bit_simps)
  moreover have "unat (push_bit n (drop_bit n x)) = unat x div 2 ^ n * 2 ^ n"
  proof -
    have "unat x div 2 ^ n * 2 ^ n < 2 ^ LENGTH('a)"
      using div_times_less_eq_dividend [of "unat x" "2 ^ n"] unsigned_less [of x] by (rule le_less_trans)
    then show ?thesis
      by (simp only: unsigned_push_bit_eq unsigned_drop_bit_eq) (simp add: push_bit_eq_mult drop_bit_eq_div take_bit_eq_mod)
  qed
  ultimately show ?thesis by simp
qed

lemma byte_masks:
  fixes x :: byte
  shows "x AND 240 = 16 \<longleftrightarrow> unat x div 16 = 1" "x AND 240 = 224 \<longleftrightarrow> unat x div 16 = 14"
    and "64 = x AND 192 \<longleftrightarrow> unat x div 64 = 1" "18 = x AND 254 \<longleftrightarrow> unat x div 2 = 9" "x AND 255 = x"
proof -
  have m: "(240 :: byte) = NOT (mask 4)" "(192 :: byte) = NOT (mask 6)" "(254 :: byte) = NOT (mask 1)"
    "(255 :: byte) = - 1" by (simp_all add: mask_eq_exp_minus_1)
  have one: "unat (x AND 254) = unat x div 2 * 2"
    unfolding m using unat_and_not_mask [of x 1] by (simp only: power_one_right)
  show "18 = x AND 254 \<longleftrightarrow> unat x div 2 = 9" by (auto simp: word_unat_eq_iff one)
  show "x AND 240 = 16 \<longleftrightarrow> unat x div 16 = 1" "x AND 240 = 224 \<longleftrightarrow> unat x div 16 = 14"
    "64 = x AND 192 \<longleftrightarrow> unat x div 64 = 1" "x AND 255 = x"
    unfolding m by (auto simp: word_unat_eq_iff unat_and_not_mask)
qed

text \<open>An IPv4 address as a number, and the CIDR blocks of the policy.\<close>

definition v4_number :: "byte \<Rightarrow> byte \<Rightarrow> byte \<Rightarrow> byte \<Rightarrow> nat" where
  "v4_number a b c d = unat a * 2 ^ 24 + unat b * 2 ^ 16 + unat c * 2 ^ 8 + unat d"

definition in_cidr :: "nat \<Rightarrow> (byte \<times> byte \<times> byte \<times> byte) \<times> nat \<Rightarrow> bool" where
  "in_cidr n = (\<lambda>((a, b, c, d), len). n div 2 ^ (32 - len) = v4_number a b c d div 2 ^ (32 - len))"

definition never_allowed :: "((byte \<times> byte \<times> byte \<times> byte) \<times> nat) list" where
  "never_allowed = [((0, 0, 0, 0), 8), ((169, 254, 0, 0), 16), ((224, 0, 0, 0), 4), ((100, 100, 100, 200), 32)]"

definition private_only :: "((byte \<times> byte \<times> byte \<times> byte) \<times> nat) list" where
  "private_only = [((127, 0, 0, 0), 8), ((10, 0, 0, 0), 8), ((172, 16, 0, 0), 12), ((192, 168, 0, 0), 16),
     ((100, 64, 0, 0), 10), ((198, 18, 0, 0), 15)]"

definition v4_allowed :: "nat \<Rightarrow> bool \<Rightarrow> bool" where
  "v4_allowed n allow \<longleftrightarrow> \<not> list_ex (in_cidr n) never_allowed \<and> (allow \<or> \<not> list_ex (in_cidr n) private_only)"

lemma byte_small: "unat (x :: byte) < 256"
proof -
  have "unat x < 2 ^ LENGTH(8)" by (rule unsigned_less)
  then show ?thesis by simp
qed

lemma v4_number_div:
  "v4_number a b c d div 2 ^ 8 = unat a * 2 ^ 16 + unat b * 2 ^ 8 + unat c"
  "v4_number a b c d div 2 ^ 16 = unat a * 2 ^ 8 + unat b"
  "v4_number a b c d div 2 ^ 24 = unat a"
  using byte_small [of a] byte_small [of b] byte_small [of c] byte_small [of d]
  by (simp_all add: v4_number_def)

lemma v4_number_high:
  "v4_number a b c d div 2 ^ 17 = unat a * 2 ^ 7 + unat b div 2"
  "v4_number a b c d div 2 ^ 20 = unat a * 2 ^ 4 + unat b div 2 ^ 4"
  "v4_number a b c d div 2 ^ 22 = unat a * 2 ^ 2 + unat b div 2 ^ 6"
  "v4_number a b c d div 2 ^ 28 = unat a div 2 ^ 4"
proof -
  have e: "n div 2 ^ (i + j) = n div 2 ^ i div 2 ^ j" for n i j :: nat
    by (simp add: power_add div_mult2_eq)
  show "v4_number a b c d div 2 ^ 17 = unat a * 2 ^ 7 + unat b div 2"
    using e [of _ 16 1] by (simp add: v4_number_div [simplified])
  show "v4_number a b c d div 2 ^ 20 = unat a * 2 ^ 4 + unat b div 2 ^ 4"
    using e [of _ 16 4] by (simp add: v4_number_div [simplified])
  show "v4_number a b c d div 2 ^ 22 = unat a * 2 ^ 2 + unat b div 2 ^ 6"
    using e [of _ 16 6] by (simp add: v4_number_div [simplified])
  show "v4_number a b c d div 2 ^ 28 = unat a div 2 ^ 4"
    using e [of _ 24 4] by (simp add: v4_number_div [simplified])
qed


lemma v4_number_eq: "v4_number a b c d = v4_number a' b' c' d' \<longleftrightarrow> a = a' \<and> b = b' \<and> c = c' \<and> d = d'"
proof
  assume e: "v4_number a b c d = v4_number a' b' c' d'"
  have a: "unat a = unat a'" using arg_cong [OF e, of "\<lambda>n. n div 2 ^ 24"] by (simp only: v4_number_div)
  have b: "unat b = unat b'" using arg_cong [OF e, of "\<lambda>n. n div 2 ^ 16"] a unfolding v4_number_div by simp
  have c: "unat c = unat c'" using arg_cong [OF e, of "\<lambda>n. n div 2 ^ 8"] a b unfolding v4_number_div by simp
  have "unat d = unat d'" using e a b c by (simp add: v4_number_def)
  with a b c show "a = a' \<and> b = b' \<and> c = c' \<and> d = d'" by (simp add: word_unat_eq_iff)
qed simp

lemma mul_add_eq: "y < k \<Longrightarrow> r < k \<Longrightarrow> x * k + y = m * k + r \<longleftrightarrow> x = m \<and> y = (r :: nat)"
  by (metis add.commute div_mult_self3 div_less mod_less mod_mult_self3 add_0 not_less_zero)

lemma byte_div: "unat (x :: byte) div 2 < 2 ^ 7" "unat x div 2 ^ 4 < 2 ^ 4" "unat x div 2 ^ 6 < 2 ^ 2" "unat x < 2 ^ 8"
  using byte_small [of x] by (simp_all add: less_mult_imp_div_less)

text \<open>Membership in a block of the policy, byte by byte.\<close>

lemma in_cidr_bytes:
  "in_cidr (v4_number a b c d) ((0, 0, 0, 0), 8) \<longleftrightarrow> a = 0"
  "in_cidr (v4_number a b c d) ((169, 254, 0, 0), 16) \<longleftrightarrow> a = 169 \<and> b = 254"
  "in_cidr (v4_number a b c d) ((224, 0, 0, 0), 4) \<longleftrightarrow> unat a div 16 = 14"
  "in_cidr (v4_number a b c d) ((100, 100, 100, 200), 32) \<longleftrightarrow> a = 100 \<and> b = 100 \<and> c = 100 \<and> d = 200"
  "in_cidr (v4_number a b c d) ((127, 0, 0, 0), 8) \<longleftrightarrow> a = 127"
  "in_cidr (v4_number a b c d) ((10, 0, 0, 0), 8) \<longleftrightarrow> a = 10"
  "in_cidr (v4_number a b c d) ((172, 16, 0, 0), 12) \<longleftrightarrow> a = 172 \<and> unat b div 16 = 1"
  "in_cidr (v4_number a b c d) ((192, 168, 0, 0), 16) \<longleftrightarrow> a = 192 \<and> b = 168"
  "in_cidr (v4_number a b c d) ((100, 64, 0, 0), 10) \<longleftrightarrow> a = 100 \<and> unat b div 64 = 1"
  "in_cidr (v4_number a b c d) ((198, 18, 0, 0), 15) \<longleftrightarrow> a = 198 \<and> unat b div 2 = 9"
proof -
  note div = v4_number_div v4_number_high
  have n: "n div 2 ^ (32 - 8) = n div 2 ^ 24" "n div 2 ^ (32 - 16) = n div 2 ^ 16" "n div 2 ^ (32 - 4) = n div 2 ^ 28"
    "n div 2 ^ (32 - 32) = n" "n div 2 ^ (32 - 12) = n div 2 ^ 20" "n div 2 ^ (32 - 10) = n div 2 ^ 22"
    "n div 2 ^ (32 - 15) = n div 2 ^ 17" for n :: nat by simp_all
  show "in_cidr (v4_number a b c d) ((0, 0, 0, 0), 8) \<longleftrightarrow> a = 0"
    "in_cidr (v4_number a b c d) ((127, 0, 0, 0), 8) \<longleftrightarrow> a = 127"
    "in_cidr (v4_number a b c d) ((10, 0, 0, 0), 8) \<longleftrightarrow> a = 10"
    unfolding in_cidr_def prod.case n div by (simp_all add: word_unat_eq_iff)
  show "in_cidr (v4_number a b c d) ((169, 254, 0, 0), 16) \<longleftrightarrow> a = 169 \<and> b = 254"
    "in_cidr (v4_number a b c d) ((192, 168, 0, 0), 16) \<longleftrightarrow> a = 192 \<and> b = 168"
    unfolding in_cidr_def prod.case n div mul_add_eq [OF byte_div(4) byte_div(4)] by (simp_all add: word_unat_eq_iff)
  show "in_cidr (v4_number a b c d) ((224, 0, 0, 0), 4) \<longleftrightarrow> unat a div 16 = 14"
    unfolding in_cidr_def prod.case n div by simp
  show "in_cidr (v4_number a b c d) ((172, 16, 0, 0), 12) \<longleftrightarrow> a = 172 \<and> unat b div 16 = 1"
    "in_cidr (v4_number a b c d) ((100, 64, 0, 0), 10) \<longleftrightarrow> a = 100 \<and> unat b div 64 = 1"
    "in_cidr (v4_number a b c d) ((198, 18, 0, 0), 15) \<longleftrightarrow> a = 198 \<and> unat b div 2 = 9"
    unfolding in_cidr_def prod.case n div mul_add_eq [OF byte_div(1) byte_div(1)] mul_add_eq [OF byte_div(2) byte_div(2)]
      mul_add_eq [OF byte_div(3) byte_div(3)]
    by (simp_all add: word_unat_eq_iff)
  show "in_cidr (v4_number a b c d) ((100, 100, 100, 200), 32) \<longleftrightarrow> a = 100 \<and> b = 100 \<and> c = 100 \<and> d = 200"
    unfolding in_cidr_def prod.case n by (rule v4_number_eq)
qed

text \<open>What the switch decides on an IPv4 address.\<close>

lemma v4_forms:
  assumes "to4 x = Some [a, b, c, d]"
  shows "x = [a, b, c, d] \<or> x = ipv4 a b c d"
proof (cases "length x = 4")
  case False
  then have "length x = 16" "take 12 x = v4_prefix" "drop 12 x = [a, b, c, d]"
    using assms by (auto simp: to4_def split: if_splits)
  then have "x = ipv4 a b c d" unfolding ipv4_def by (metis append_take_drop_id)
  then show ?thesis ..
qed (use assms in \<open>simp add: to4_def\<close>)

lemma fixed_addresses:
  "v4_prefix = [0, 0, 0, 0, 0, 0, 0, 0, 0, 0, 255, 255]"
  "v6_zero = [0, 0, 0, 0, 0, 0, 0, 0, 0, 0, 0, 0, 0, 0, 0, 0]"
  "v6_loopback = [0, 0, 0, 0, 0, 0, 0, 0, 0, 0, 0, 0, 0, 0, 0, 1]"
  by code_simp+

lemma ip_equal_v4:
  assumes "to4 x = Some [a, b, c, d]"
  shows "ip_equal x (ipv4 a' b' c' d') \<longleftrightarrow> [a, b, c, d] = [a', b', c', d']"
    and "ip_equal (ipv4 a' b' c' d') x \<longleftrightarrow> [a', b', c', d'] = [a, b, c, d]"
    and "\<not> ip_equal x v6_zero" "\<not> ip_equal x v6_loopback"
  using v4_forms [OF assms]
  by (auto simp: ip_equal_def ipv4_def fixed_addresses)

lemma check_class_v4:
  assumes "to4 x = Some [a, b, c, d]"
  shows "check_class x allow = Inr () \<longleftrightarrow> v4_allowed (v4_number a b c d) allow"
proof -
  have l: "is_loopback x \<longleftrightarrow> a = 127" "is_private x \<longleftrightarrow> a = 10 \<or> (a = 172 \<and> b AND 240 = 16) \<or> (a = 192 \<and> b = 168)"
    "is_multicast x \<longleftrightarrow> a AND 240 = 224" "is_link_local_unicast x \<longleftrightarrow> a = 169 \<and> b = 254"
    "is_link_local_multicast x \<longleftrightarrow> a = 224 \<and> b = 0 \<and> c = 0"
    "is_unspecified x \<longleftrightarrow> a = 0 \<and> b = 0 \<and> c = 0 \<and> d = 0" "is_metadata x \<longleftrightarrow> a = 100 \<and> b = 100 \<and> c = 100 \<and> d = 200"
    using assms ip_equal_v4 [OF assms]
    by (auto simp: is_loopback_def is_private_def is_multicast_def is_link_local_unicast_def
        is_link_local_multicast_def is_unspecified_def is_metadata_def metadata_ips_def)
  have n: "ipnet_contains this_network x \<longleftrightarrow> a = 0"
    "in_any x non_public \<longleftrightarrow> (a = 100 \<and> 64 = b AND 192) \<or> (a = 198 \<and> 18 = b AND 254)"
    using assms by (auto simp: ipnet_contains_def this_network_def in_any_def non_public_def byte_masks(5))
  show ?thesis
    unfolding check_class_def l n v4_allowed_def never_allowed_def private_only_def byte_masks
    by (auto simp: in_cidr_bytes)
qed

text \<open>
  C19. An IPv4 target, in either of its two encodings, is judged by its number alone: never
  0.0.0.0/8, 169.254.0.0/16, 224.0.0.0/4 or the metadata address 100.100.100.200; loopback,
  the three private blocks, 100.64.0.0/10 and 198.18.0.0/15 only when private targets are
  allowed; and everything else always.
\<close>

theorem v4_targets_by_range:
  assumes "to4 x = Some [a, b, c, d]"
  shows "check_ip x allow = Inr () \<longleftrightarrow> v4_allowed (v4_number a b c d) allow"
  using check_class_v4 [OF assms] assms
  by (simp add: check_ip.simps embedded_not_v4)

lemma v4_targets_by_range_witness:
  "to4 (ipv4 172 31 0 1) = Some [172, 31, 0, 1]
   \<and> (check_ip (ipv4 172 31 0 1) False = Inr () \<longleftrightarrow> v4_allowed (v4_number 172 31 0 1) False)
   \<and> \<not> v4_allowed (v4_number 172 31 0 1) False"
proof -
  have t: "to4 (ipv4 172 31 0 1) = Some [172, 31, 0, 1]" by simp
  have "\<not> v4_allowed (v4_number 172 31 0 1) False"
    by (simp add: v4_allowed_def never_allowed_def private_only_def in_cidr_bytes)
  with t v4_targets_by_range [OF t] show ?thesis by blast
qed

section \<open>IPv6 targets\<close>

lemma length_16:
  assumes "length x = 16"
  obtains b0 b1 b2 b3 b4 b5 b6 b7 b8 b9 b10 b11 b12 b13 b14 b15 where
    "x = [b0, b1, b2, b3, b4, b5, b6, b7, b8, b9, b10, b11, b12, b13, b14, b15]"
proof -
  have "x = map (\<lambda>i. x ! i) [0..<16]" using assms by (metis map_nth)
  also have "[0..<16] = [0, 1, 2, 3, 4, 5, 6, 7, 8, 9, 10, 11, 12, 13, 14, 15 :: nat]" by code_simp
  finally have e: "x = map (\<lambda>i. x ! i) [0, 1, 2, 3, 4, 5, 6, 7, 8, 9, 10, 11, 12, 13, 14, 15]" .
  show thesis by (rule that [OF e [unfolded list.map]])
qed

lemma embedded_ipv4_cases:
  assumes "length x = 16" "to4 x = None"
  shows "embedded_ipv4 x =
    (if take 12 x = [0, 100, 255, 155, 0, 0, 0, 0, 0, 0, 0, 0] then Some (ipv4 (x ! 12) (x ! 13) (x ! 14) (x ! 15))
     else if take 2 x = [32, 2] then Some (ipv4 (x ! 2) (x ! 3) (x ! 4) (x ! 5)) else None)"
proof -
  have n: "nat64 = ([0, 100, 255, 155, 0, 0, 0, 0, 0, 0, 0, 0, 0, 0, 0, 0],
      [255, 255, 255, 255, 255, 255, 255, 255, 255, 255, 255, 255, 0, 0, 0, 0])"
    "six_to_four = ([32, 2, 0, 0, 0, 0, 0, 0, 0, 0, 0, 0, 0, 0, 0, 0], [255, 255, 0, 0, 0, 0, 0, 0, 0, 0, 0, 0, 0, 0, 0, 0])"
    by code_simp+
  obtain b0 b1 b2 b3 b4 b5 b6 b7 b8 b9 b10 b11 b12 b13 b14 b15 where
    x: "x = [b0, b1, b2, b3, b4, b5, b6, b7, b8, b9, b10, b11, b12, b13, b14, b15]"
    using assms(1) by (rule length_16)
  have "ipnet_contains nat64 x \<longleftrightarrow> take 12 x = [0, 100, 255, 155, 0, 0, 0, 0, 0, 0, 0, 0]"
    "ipnet_contains six_to_four x \<longleftrightarrow> take 2 x = [32, 2]"
    using assms(2) unfolding n x by (auto simp: ipnet_contains_def byte_masks(5))
  then show ?thesis using assms by (simp add: embedded_ipv4_def to16_def)
qed

lemma byte_mask_v6: "x AND 254 = 252 \<longleftrightarrow> x = 252 \<or> x = 253" "x AND 192 = 128 \<longleftrightarrow> unat x div 64 = 2" for x :: byte
proof -
  have m: "(192 :: byte) = NOT (mask 6)" "(254 :: byte) = NOT (mask 1)" by (simp_all add: mask_eq_exp_minus_1)
  have one: "unat (x AND 254) = unat x div 2 * 2"
    unfolding m using unat_and_not_mask [of x 1] by (simp only: power_one_right)
  have "unat x div 2 * 2 = 252 \<longleftrightarrow> unat x = 252 \<or> unat x = 253" by presburger
  then show "x AND 254 = 252 \<longleftrightarrow> x = 252 \<or> x = 253" by (simp add: word_unat_eq_iff one)
  show "x AND 192 = 128 \<longleftrightarrow> unat x div 64 = 2"
    unfolding m by (auto simp: word_unat_eq_iff unat_and_not_mask)
qed

lemma check_class_v6:
  assumes "length x = 16" "to4 x = None"
  shows "check_class x allow = Inr () \<longleftrightarrow>
    x \<noteq> v6_zero \<and> \<not> (x ! 0 = 254 \<and> unat (x ! 1) div 64 = 2) \<and> x ! 0 \<noteq> 255
    \<and> (allow \<or> x \<noteq> v6_loopback \<and> x ! 0 \<notin> {252, 253})"
proof -
  have ne: "x \<noteq> ipv4 a b c d" for a b c d using assms(2) by auto
  have len: "length (ipv4 a b c d) = 16" "length v6_zero = 16" "length v6_loopback = 16" for a b c d
    by (simp_all add: ipv4_def fixed_addresses)
  have c: "is_unspecified x \<longleftrightarrow> x = v6_zero" "\<not> is_metadata x" "is_loopback x \<longleftrightarrow> x = v6_loopback"
    "is_multicast x \<longleftrightarrow> x ! 0 = 255" "is_private x \<longleftrightarrow> x ! 0 = 252 \<or> x ! 0 = 253"
    "is_link_local_unicast x \<longleftrightarrow> x ! 0 = 254 \<and> unat (x ! 1) div 64 = 2"
    "is_link_local_multicast x \<Longrightarrow> x ! 0 = 255"
    using assms ne len by (auto simp: is_unspecified_def is_metadata_def metadata_ips_def is_loopback_def is_multicast_def
        is_private_def is_link_local_unicast_def is_link_local_multicast_def ip_equal_def byte_mask_v6)
  have n: "\<not> ipnet_contains this_network x" "\<not> in_any x non_public"
    using assms by (simp_all add: ipnet_contains_def this_network_def in_any_def non_public_def)
  show ?thesis
    using c n by (auto simp: check_class_def)
qed

text \<open>
  An IPv6 target is refused when it is unspecified, link-local or multicast, without
  permission also when it is loopback or unique local, and always when the IPv4 address it
  carries through NAT64 or 6to4 would be refused; nothing else is.
\<close>

theorem v6_targets_by_range:
  assumes "length x = 16" and "to4 x = None"
  shows "check_ip x allow = Inr () \<longleftrightarrow>
    x \<noteq> v6_zero \<and> \<not> (x ! 0 = 254 \<and> unat (x ! 1) div 64 = 2) \<and> x ! 0 \<noteq> 255
    \<and> (allow \<or> x \<noteq> v6_loopback \<and> x ! 0 \<notin> {252, 253})
    \<and> (take 12 x = [0, 100, 255, 155, 0, 0, 0, 0, 0, 0, 0, 0] \<longrightarrow>
         v4_allowed (v4_number (x ! 12) (x ! 13) (x ! 14) (x ! 15)) allow)
    \<and> (take 2 x = [32, 2] \<longrightarrow> v4_allowed (v4_number (x ! 2) (x ! 3) (x ! 4) (x ! 5)) allow)"
proof -
  have one: "\<not> (take 12 x = [0, 100, 255, 155, 0, 0, 0, 0, 0, 0, 0, 0] \<and> take 2 x = [32, 2])"
  proof
    assume h: "take 12 x = [0, 100, 255, 155, 0, 0, 0, 0, 0, 0, 0, 0] \<and> take 2 x = [32, 2]"
    have "take 2 x = [0, 100]" using arg_cong [OF conjunct1 [OF h], of "take 2"] by simp
    then show False using h by simp
  qed
  have v4: "check_ip (ipv4 a b c d) allow = Inr () \<longleftrightarrow> v4_allowed (v4_number a b c d) allow" for a b c d
    using check_class_v4 [of "ipv4 a b c d" a b c d allow] by (simp add: check_ip.simps embedded_not_v4)
  have "check_ip x allow = Inr () \<longleftrightarrow> check_class x allow = Inr () \<and>
      (case embedded_ipv4 x of None \<Rightarrow> True | Some b \<Rightarrow> check_ip b allow = Inr ())"
    by (subst check_ip.simps) (auto split: option.split sum.split)
  then show ?thesis
    using one unfolding embedded_ipv4_cases [OF assms] check_class_v6 [OF assms] by (auto simp: v4)
qed

text \<open>The address of the link-local metadata service, carried by NAT64.\<close>

lemma v6_targets_by_range_witness:
  "check_ip [0, 100, 255, 155, 0, 0, 0, 0, 0, 0, 0, 0, 169, 254, 169, 254] True \<noteq> Inr ()"
proof
  let ?x = "[0, 100, 255, 155, 0, 0, 0, 0, 0, 0, 0, 0, 169, 254, 169, 254] :: ip"
  assume a: "check_ip ?x True = Inr ()"
  have l: "length ?x = 16" by simp
  have t: "to4 ?x = None" and p: "take 12 ?x = [0, 100, 255, 155, 0, 0, 0, 0, 0, 0, 0, 0]"
    and i: "?x ! 12 = 169" "?x ! 13 = 254" "?x ! 14 = 169" "?x ! 15 = 254" by code_simp+
  have n: "\<not> v4_allowed (v4_number (?x ! 12) (?x ! 13) (?x ! 14) (?x ! 15)) True"
    unfolding i by (simp add: v4_allowed_def never_allowed_def in_cidr_bytes)
  from a [unfolded v6_targets_by_range [OF l t]] p n show False by blast
qed

end
