(* ===== verification/RequestGuard.thy ===== *)
theory RequestGuard
  imports Model GoValue "HOL-Library.Sublist"
begin

text \<open>
  \<open>internal/requestguard/guard.go\<close>: the guard that lets a run send exactly the requests of
  an approved plan. The state is the record \<open>guard\<close>; \<open>allow\<close> is one call of \<open>Allow\<close>. The
  single error of the package is \<open>None\<close>, or \<open>False\<close> as the answer of \<open>allow\<close>.
\<close>

section \<open>The plan\<close>

record plan_request =
  pr_method :: string
  pr_url :: string
  pr_headers :: "(string \<times> string) list"
  pr_query :: "(string \<times> string) list"
  pr_body :: string

record dispatch =
  d_phase :: string
  d_identity :: string
  d_request :: plan_request
  d_max :: int

record plan =
  pl_schema :: string
  pl_profile :: string
  pl_tool_hash :: string
  pl_case_hash :: string
  pl_timeout :: int
  pl_max_bytes :: int
  pl_allow_private :: bool
  pl_credentials :: "(string \<times> string \<times> string) list"
  pl_dispatches :: "dispatch list"
  pl_max :: int

record guard =
  g_plan :: plan
  g_counts :: "int list"
  g_total :: int
  g_stage :: int

definition guard_profile :: string where
  "guard_profile = ''gate-fixed-http/1''"

definition hash_valid :: "string \<Rightarrow> bool" where
  "hash_valid v \<longleftrightarrow> list_all (\<lambda>c. hex_val c \<noteq> None) v \<and> length v = 2 * 32 \<and> to_lower v = v"

text \<open>\<open>unique\<close>: no object repeats a key; with a limit, no value is nested deeper.\<close>

definition too_deep :: "nat option \<Rightarrow> nat \<Rightarrow> bool" where
  "too_deep m d = (case m of None \<Rightarrow> False | Some k \<Rightarrow> k < d)"

fun unique_keys :: "nat option \<Rightarrow> nat \<Rightarrow> json \<Rightarrow> bool"
and unique_elems :: "nat option \<Rightarrow> nat \<Rightarrow> json list \<Rightarrow> bool"
and unique_members :: "nat option \<Rightarrow> nat \<Rightarrow> string list \<Rightarrow> (string \<times> json) list \<Rightarrow> bool" where
  "unique_keys m d (JArr js) \<longleftrightarrow> \<not> too_deep m d \<and> unique_elems m d js"
| "unique_keys m d (JObj ps) \<longleftrightarrow> \<not> too_deep m d \<and> unique_members m d [] ps"
| "unique_keys m d j \<longleftrightarrow> \<not> too_deep m d"
| "unique_elems m d [] \<longleftrightarrow> True"
| "unique_elems m d (j # js) \<longleftrightarrow> unique_keys m (Suc d) j \<and> unique_elems m d js"
| "unique_members m d seen [] \<longleftrightarrow> True"
| "unique_members m d seen ((k, j) # ps) \<longleftrightarrow>
     k \<notin> set seen \<and> unique_keys m (Suc d) j \<and> unique_members m d (k # seen) ps"

definition stage_of :: "string \<Rightarrow> int" where
  "stage_of ph = (if ph = ''setup'' then 0 else if ph = ''preflight'' then 1
     else if ph = ''resource'' \<or> ph = ''verification'' \<or> ph = ''reset'' then 2 else - 1)"

fun lower_loop :: "(string \<times> string) list \<Rightarrow> (string \<times> string) list \<Rightarrow> (string \<times> string) list option" where
  "lower_loop r [] = Some r"
| "lower_loop r ((k, v) # hs) =
     (if amap_get r (to_lower k) \<noteq> None then None else lower_loop (r @ [(to_lower k, v)]) hs)"

definition lower_headers :: "(string \<times> string) list \<Rightarrow> (string \<times> string) list option" where
  "lower_headers hs = lower_loop [] hs"

text \<open>
  \<open>body\<close>: \<open>None\<close> is the error. A missing body and the document \<open>null\<close> both give Go's
  \<open>nil\<close>, so a dispatch that was approved without a body also admits a request whose body is \<open>null\<close>.
\<close>

definition body_value :: "string \<Rightarrow> gval option" where
  "body_value raw =
     (if raw = [] then Some GNull
      else case json_parse raw of None \<Rightarrow> None
       | Some j \<Rightarrow> (case to_gval Some j of None \<Rightarrow> None
           | Some v \<Rightarrow> if unique_keys None 0 j then Some v else None))"

lemma absent_body_is_null: "body_value ''null'' = body_value []"
  by code_simp

definition dispatch_valid :: "golib \<Rightarrow> dispatch \<Rightarrow> bool" where
  "dispatch_valid L d \<longleftrightarrow>
     (case gl_url_parse L (pr_url (d_request d)) of None \<Rightarrow> False
      | Some u \<Rightarrow> (u_scheme u = ''http'' \<or> u_scheme u = ''https'') \<and> u_hostname u \<noteq> [] \<and> \<not> u_has_user u
          \<and> u_fragment u = [])
     \<and> \<not> list_ex (\<lambda>c. c = CHR ''{'' \<or> c = CHR ''}'' \<or> c = CHR 0x5C) (pr_url (d_request d))
     \<and> 0 \<le> stage_of (d_phase d) \<and> d_identity d \<noteq> [] \<and> 1 \<le> d_max d \<and> d_max d \<le> 100000
     \<and> pr_method (d_request d) \<in> set [''GET'', ''HEAD'', ''OPTIONS'', ''POST'', ''PUT'', ''PATCH'', ''DELETE'']
     \<and> lower_headers (pr_headers (d_request d)) \<noteq> None \<and> body_value (pr_body (d_request d)) \<noteq> None"

definition clone_dispatch :: "dispatch \<Rightarrow> dispatch" where
  "clone_dispatch d = d\<lparr>d_request := (d_request d)\<lparr>pr_headers :=
     (case lower_headers (pr_headers (d_request d)) of None \<Rightarrow> [] | Some hs \<Rightarrow> hs)\<rparr>\<rparr>"

definition new_guard :: "golib \<Rightarrow> plan \<Rightarrow> guard option" where
  "new_guard L p =
     (if pl_schema p \<noteq> ''vardr.execution-plan/1'' \<or> pl_profile p \<noteq> guard_profile \<or> \<not> hash_valid (pl_tool_hash p)
         \<or> \<not> hash_valid (pl_case_hash p) \<or> pl_max p < 1 \<or> 100000 < pl_max p \<or> pl_dispatches p = []
         \<or> 4096 < length (pl_dispatches p) \<or> pl_timeout p < 1 \<or> 600 < pl_timeout p
         \<or> pl_max_bytes p < 1 \<or> 5 * 2 ^ 20 < pl_max_bytes p then None
      else if \<not> list_all (dispatch_valid L) (pl_dispatches p) then None
      else if sum_list (map d_max (pl_dispatches p)) \<noteq> pl_max p then None
      else Some \<lparr>g_plan = p\<lparr>pl_dispatches := map clone_dispatch (pl_dispatches p)\<rparr>,
        g_counts = replicate (length (pl_dispatches p)) 0, g_total = 0, g_stage = - 1\<rparr>)"

text \<open>\<open>Parse\<close>; \<open>decode\<close> is the strict decoding of a document into a plan by \<open>encoding/json\<close>.\<close>

definition parse_plan :: "golib \<Rightarrow> (string \<Rightarrow> plan option) \<Rightarrow> string \<Rightarrow> plan option" where
  "parse_plan L decode data =
     (if data = [] \<or> 2 ^ 20 < length data then None
      else case json_parse data of None \<Rightarrow> None
       | Some j \<Rightarrow>
           if \<not> unique_keys (Some 32) 0 j then None
           else case decode data of None \<Rightarrow> None
            | Some p \<Rightarrow> (case new_guard L p of None \<Rightarrow> None | Some g \<Rightarrow> Some p))"

definition check_binary :: "golib \<Rightarrow> plan \<Rightarrow> string option \<Rightarrow> bool" where
  "check_binary L p contents = (case contents of None \<Rightarrow> False | Some s \<Rightarrow> gl_sha256 L s = pl_tool_hash p)"

section \<open>Allow\<close>

text \<open>Equality of Go maps.\<close>

definition same_map :: "(string \<times> string) list \<Rightarrow> (string \<times> string) list \<Rightarrow> bool" where
  "same_map m n \<longleftrightarrow> length m = length n \<and> list_all (\<lambda>(k, v). amap_get n k = Some v) m"

text \<open>One attempt: the phase of the context, whether it is cancelled, the actor and the request.\<close>

type_synonym attempt = "string \<times> bool \<times> string \<times> request_template"

definition attempt_method :: "request_template \<Rightarrow> string" where
  "attempt_method rq = (if rq_method rq = [] then ''GET'' else rq_method rq)"

definition dispatch_matches :: "string \<Rightarrow> string \<Rightarrow> request_template \<Rightarrow> dispatch \<Rightarrow> bool" where
  "dispatch_matches ph i rq d \<longleftrightarrow>
     d_phase d = ph \<and> d_identity d = i \<and> pr_method (d_request d) = attempt_method rq
     \<and> pr_url (d_request d) = rq_url rq
     \<and> (case (lower_headers (pr_headers (d_request d)), lower_headers (rq_headers rq)) of
          (Some m, Some n) \<Rightarrow> same_map m n | _ \<Rightarrow> False)
     \<and> same_map (pr_query (d_request d)) (rq_query rq)
     \<and> body_value (pr_body (d_request d)) = body_value (rq_body rq)"

text \<open>The first dispatch that matches and has budget left, from index \<open>k\<close> on.\<close>

fun find_dispatch :: "string \<Rightarrow> string \<Rightarrow> request_template \<Rightarrow> nat \<Rightarrow> dispatch list \<Rightarrow> int list \<Rightarrow> nat option" where
  "find_dispatch ph i rq k (d # ds) (c # cs) =
     (if dispatch_matches ph i rq d \<and> c < d_max d then Some k else find_dispatch ph i rq (Suc k) ds cs)"
| "find_dispatch ph i rq k _ _ = None"

definition allow :: "guard \<Rightarrow> attempt \<Rightarrow> bool \<times> guard" where
  "allow g a = (case a of (ph, cancelled, i, rq) \<Rightarrow>
     if stage_of ph < g_stage g \<or> stage_of ph < 0 \<or> pl_max (g_plan g) \<le> g_total g \<or> cancelled then (False, g)
     else if lower_headers (rq_headers rq) = None then (False, g)
     else if body_value (rq_body rq) = None then (False, g)
     else case find_dispatch ph i rq 0 (pl_dispatches (g_plan g)) (g_counts g) of
       None \<Rightarrow> (False, g)
     | Some k \<Rightarrow> (True, g\<lparr>g_counts := (g_counts g)[k := g_counts g ! k + 1], g_total := g_total g + 1,
         g_stage := stage_of ph\<rparr>))"

fun allow_all :: "guard \<Rightarrow> attempt list \<Rightarrow> bool list \<times> guard" where
  "allow_all g [] = ([], g)"
| "allow_all g (a # as) =
     (case allow g a of (b, g1) \<Rightarrow> case allow_all g1 as of (bs, g2) \<Rightarrow> (b # bs, g2))"

section \<open>The invariant\<close>

definition guard_ok :: "guard \<Rightarrow> bool" where
  "guard_ok g \<longleftrightarrow> length (g_counts g) = length (pl_dispatches (g_plan g))
     \<and> (\<forall>k<length (g_counts g). 0 \<le> g_counts g ! k \<and> g_counts g ! k \<le> d_max (pl_dispatches (g_plan g) ! k))
     \<and> g_total g = sum_list (g_counts g) \<and> g_total g \<le> pl_max (g_plan g)"

lemma new_guard_Some:
  assumes "new_guard L p = Some g"
  shows "g = \<lparr>g_plan = p\<lparr>pl_dispatches := map clone_dispatch (pl_dispatches p)\<rparr>,
      g_counts = replicate (length (pl_dispatches p)) 0, g_total = 0, g_stage = - 1\<rparr>"
    and "\<forall>d\<in>set (pl_dispatches p). 1 \<le> d_max d \<and> lower_headers (pr_headers (d_request d)) \<noteq> None" "1 \<le> pl_max p"
  using assms by (simp_all add: new_guard_def list_all_iff dispatch_valid_def split: if_splits)

lemma clone_dispatch_sel [simp]:
  "d_max (clone_dispatch d) = d_max d" "d_phase (clone_dispatch d) = d_phase d" "d_identity (clone_dispatch d) = d_identity d"
  "pr_method (d_request (clone_dispatch d)) = pr_method (d_request d)" "pr_url (d_request (clone_dispatch d)) = pr_url (d_request d)"
  "pr_query (d_request (clone_dispatch d)) = pr_query (d_request d)" "pr_body (d_request (clone_dispatch d)) = pr_body (d_request d)"
  by (simp_all add: clone_dispatch_def)

lemma new_guard_ok [inv_intro]: "new_guard L p = Some g \<Longrightarrow> guard_ok g"
proof -
  assume n: "new_guard L p = Some g"
  note g = new_guard_Some [OF n]
  have "0 \<le> d_max (pl_dispatches p ! k)" if "k < length (pl_dispatches p)" for k
    using g(2) nth_mem [OF that] by fastforce
  then show ?thesis using g(1,3) by (simp add: guard_ok_def sum_list_replicate)
qed

lemma sum_list_set: "k < length xs \<Longrightarrow> sum_list (xs[k := x]) = sum_list xs - xs ! k + (x :: int)"
proof (induction xs arbitrary: k)
  case (Cons y xs)
  then show ?case by (cases k) auto
qed simp

lemma find_dispatch_Some:
  "find_dispatch ph i rq k ds cs = Some j \<Longrightarrow>
     k \<le> j \<and> j - k < length ds \<and> j - k < length cs \<and> dispatch_matches ph i rq (ds ! (j - k)) \<and> cs ! (j - k) < d_max (ds ! (j - k))"
proof (induction ph i rq k ds cs rule: find_dispatch.induct)
  case (1 ph i rq k d ds c cs)
  then show ?case by (cases "dispatch_matches ph i rq d \<and> c < d_max d") (auto simp: nth_Cons' Suc_diff_le)
qed simp_all

lemma allow_True:
  assumes "allow g (ph, cancelled, i, rq) = (True, g')"
  obtains k where "k < length (pl_dispatches (g_plan g))" "k < length (g_counts g)"
    "dispatch_matches ph i rq (pl_dispatches (g_plan g) ! k)" "g_counts g ! k < d_max (pl_dispatches (g_plan g) ! k)"
    "g' = g\<lparr>g_counts := (g_counts g)[k := g_counts g ! k + 1], g_total := g_total g + 1, g_stage := stage_of ph\<rparr>"
    "g_stage g \<le> stage_of ph" "g_total g < pl_max (g_plan g)" "\<not> cancelled"
  using assms
  by (auto simp: allow_def split: if_splits option.splits dest!: find_dispatch_Some)

lemma allow_False: "allow g a = (False, g') \<Longrightarrow> g' = g"
  by (auto simp: allow_def split: prod.splits if_splits option.splits)

lemma allow_ok [inv_intro]:
  assumes "allow g a = (b, g')" "guard_ok g"
  shows "guard_ok g' \<and> g_plan g' = g_plan g"
proof (cases b)
  case True
  obtain ph cancelled i rq where a: "a = (ph, cancelled, i, rq)" by (metis surj_pair)
  obtain k where k: "k < length (g_counts g)" "g_counts g ! k < d_max (pl_dispatches (g_plan g) ! k)"
    "g' = g\<lparr>g_counts := (g_counts g)[k := g_counts g ! k + 1], g_total := g_total g + 1, g_stage := stage_of ph\<rparr>"
    "g_total g < pl_max (g_plan g)"
    using assms(1) True a by (auto elim!: allow_True)
  have "sum_list ((g_counts g)[k := g_counts g ! k + 1]) = sum_list (g_counts g) + 1"
    using k(1) by (simp add: sum_list_set)
  then show ?thesis using assms(2) k by (auto simp: guard_ok_def nth_list_update)
next
  case False
  then show ?thesis using assms allow_False [of g a g'] by simp
qed


section \<open>Lowered header names\<close>

lemma lower_loop_extends:
  "lower_loop r hs = Some m \<Longrightarrow> distinct (map fst r) \<Longrightarrow>
     \<exists>t. m = r @ t \<and> distinct (map fst m) \<and> (\<forall>kv\<in>set t. to_lower (fst kv) = fst kv)"
proof (induction r hs rule: lower_loop.induct)
  case (2 r k v hs)
  then have new: "amap_get r (to_lower k) = None" "lower_loop (r @ [(to_lower k, v)]) hs = Some m"
    by (auto split: if_splits)
  then have "distinct (map fst (r @ [(to_lower k, v)]))"
    using 2(3) by (auto simp: amap_get_None_iff)
  from "2.IH" [OF _ new(2) this] new(1) obtain t where
    "m = (r @ [(to_lower k, v)]) @ t" "distinct (map fst m)" "\<forall>kv\<in>set t. to_lower (fst kv) = fst kv" by auto
  then show ?case by (intro exI [of _ "(to_lower k, v) # t"]) auto
qed simp

lemma lower_loop_lowered:
  "distinct (map fst (r @ t)) \<Longrightarrow> (\<forall>kv\<in>set t. to_lower (fst kv) = fst kv) \<Longrightarrow> lower_loop r t = Some (r @ t)"
proof (induction r t rule: lower_loop.induct)
  case (2 r k v hs)
  then have "amap_get r (to_lower k) = None" by (auto simp: amap_get_None_iff)
  then show ?case using 2 by simp
qed simp

lemma lower_headers_idem: "lower_headers hs = Some m \<Longrightarrow> lower_headers m = Some m"
  using lower_loop_extends [of "[]" hs m] lower_loop_lowered [of "[]" m] by (auto simp: lower_headers_def)

lemma matches_clone:
  "lower_headers (pr_headers (d_request d)) \<noteq> None \<Longrightarrow>
     dispatch_matches ph i rq (clone_dispatch d) \<longleftrightarrow> dispatch_matches ph i rq d"
  by (auto simp: dispatch_matches_def clone_dispatch_def lower_headers_idem split: option.split)

section \<open>What the guard lets through\<close>

definition accepted :: "attempt list \<Rightarrow> bool list \<Rightarrow> attempt list" where
  "accepted as bs = map fst (filter snd (zip as bs))"

lemma accepted_simps [simp]:
  "accepted [] bs = []" "accepted (a # as) (True # bs) = a # accepted as bs" "accepted (a # as) (False # bs) = accepted as bs"
  by (simp_all add: accepted_def)

text \<open>The attempt is the one dispatch \<open>k\<close> of the list approves.\<close>

definition charged :: "dispatch list \<Rightarrow> attempt \<Rightarrow> nat \<Rightarrow> bool" where
  "charged ds a k = (case a of (ph, cancelled, i, rq) \<Rightarrow>
     k < length ds \<and> \<not> cancelled \<and> dispatch_matches ph i rq (ds ! k))"

definition attempt_stage :: "attempt \<Rightarrow> int" where
  "attempt_stage a = stage_of (fst a)"

lemma allow_all_charges:
  "allow_all g as = (bs, g') \<Longrightarrow> guard_ok g \<Longrightarrow>
     \<exists>ks. list_all2 (charged (pl_dispatches (g_plan g))) (accepted as bs) ks
       \<and> (\<forall>k<length (g_counts g). g_counts g' ! k = g_counts g ! k + int (count_list ks k))
       \<and> sorted (g_stage g # map attempt_stage (accepted as bs))
       \<and> g_total g' = g_total g + int (length (accepted as bs)) \<and> guard_ok g' \<and> g_plan g' = g_plan g"
proof (induction as arbitrary: g bs)
  case (Cons a as)
  obtain b g1 where b: "allow g a = (b, g1)" by (metis surj_pair)
  obtain bs1 where bs: "allow_all g1 as = (bs1, g')" "bs = b # bs1"
    using Cons.prems(1) b by (auto split: prod.splits)
  note ok = allow_ok [OF b Cons.prems(2)]
  obtain ks where ks: "list_all2 (charged (pl_dispatches (g_plan g))) (accepted as bs1) ks"
    "\<forall>k<length (g_counts g1). g_counts g' ! k = g_counts g1 ! k + int (count_list ks k)"
    "sorted (g_stage g1 # map attempt_stage (accepted as bs1))"
    "g_total g' = g_total g1 + int (length (accepted as bs1))" "guard_ok g'" "g_plan g' = g_plan g"
    using Cons.IH [OF bs(1)] ok by auto
  show ?case
  proof (cases b)
    case True
    obtain ph cancelled i rq where a: "a = (ph, cancelled, i, rq)" by (metis surj_pair)
    obtain k where k: "k < length (pl_dispatches (g_plan g))" "k < length (g_counts g)"
      "dispatch_matches ph i rq (pl_dispatches (g_plan g) ! k)"
      "g1 = g\<lparr>g_counts := (g_counts g)[k := g_counts g ! k + 1], g_total := g_total g + 1, g_stage := stage_of ph\<rparr>"
      "g_stage g \<le> stage_of ph" "\<not> cancelled"
      using b True a by (auto elim!: allow_True)
    have "charged (pl_dispatches (g_plan g)) a k" "attempt_stage a = stage_of ph"
      using k a by (simp_all add: charged_def attempt_stage_def)
    then show ?thesis
      using ks k True bs(2) by (intro exI [of _ "k # ks"]) (auto simp: nth_list_update)
  next
    case False
    then have "g1 = g" using b allow_False [of g a g1] by simp
    then show ?thesis using False ks bs(2) by (intro exI [of _ ks]) simp
  qed
qed simp

text \<open>
  C5. The guard lets through only what the plan approves, and no more of it than approved:
  every request it allows can be charged to a dispatch of the plan with the same phase,
  identity, method, URL, headers, query and body, no dispatch is charged beyond its limit and
  all together not beyond the limit of the plan, nothing is allowed once the context is
  cancelled, and the stages (setup, preflight, the rest) never go back.
\<close>

theorem guard_keeps_to_the_plan:
  assumes "new_guard L p = Some g" and "allow_all g as = (bs, g')"
  shows "\<exists>ks. list_all2 (charged (pl_dispatches p)) (accepted as bs) ks
    \<and> (\<forall>k<length (pl_dispatches p). int (count_list ks k) \<le> d_max (pl_dispatches p ! k))
    \<and> int (length (accepted as bs)) \<le> pl_max p \<and> sorted (map attempt_stage (accepted as bs))"
proof -
  note g = new_guard_Some [OF assms(1)]
  obtain ks where ks: "list_all2 (charged (pl_dispatches (g_plan g))) (accepted as bs) ks"
    "\<forall>k<length (g_counts g). g_counts g' ! k = g_counts g ! k + int (count_list ks k)"
    "sorted (g_stage g # map attempt_stage (accepted as bs))"
    "g_total g' = g_total g + int (length (accepted as bs))" "guard_ok g'" "g_plan g' = g_plan g"
    using allow_all_charges [OF assms(2) new_guard_ok [OF assms(1)]] by blast
  have "charged (pl_dispatches (g_plan g)) a k \<Longrightarrow> charged (pl_dispatches p) a k" for a k
    using g(1,2) by (auto simp: charged_def matches_clone)
  then have "list_all2 (charged (pl_dispatches p)) (accepted as bs) ks" by (rule list_all2_mono [OF ks(1)])
  then show ?thesis using ks(2-6) g(1) by (intro exI [of _ ks]) (auto simp: guard_ok_def)
qed


definition sample_dispatch :: dispatch where
  "sample_dispatch = \<lparr>d_phase = ''reset'', d_identity = ''a'', d_request = \<lparr>pr_method = ''POST'',
     pr_url = ''http://api/o'', pr_headers = [], pr_query = [], pr_body = ''[1]''\<rparr>, d_max = 1\<rparr>"

definition sample_plan :: plan where
  "sample_plan = \<lparr>pl_schema = ''vardr.execution-plan/1'', pl_profile = guard_profile, pl_tool_hash = replicate 64 CHR ''0'',
     pl_case_hash = replicate 64 CHR ''a'', pl_timeout = 30, pl_max_bytes = 1024, pl_allow_private = False,
     pl_credentials = [], pl_dispatches = [sample_dispatch], pl_max = 1\<rparr>"

definition sample_attempt :: "string \<Rightarrow> attempt" where
  "sample_attempt body = (''reset'', False, ''a'', \<lparr>rq_method = ''POST'', rq_url = ''http://api/o'',
     rq_headers = [], rq_query = [], rq_body = body\<rparr>)"

lemma sample_plan_guard: "new_guard sample_net_lib sample_plan \<noteq> None"
  by code_simp

text \<open>The same document with other spacing is allowed, once; another document never.\<close>

lemma guard_keeps_to_the_plan_witness:
  "\<exists>g g'. new_guard sample_net_lib sample_plan = Some g
     \<and> allow_all g [sample_attempt ''[2]'', sample_attempt '' [ 1 ]'', sample_attempt ''[1]''] = ([False, True, False], g')
     \<and> (\<exists>ks. list_all2 (charged (pl_dispatches sample_plan)) [sample_attempt '' [ 1 ]''] ks)"
proof -
  have "case new_guard sample_net_lib sample_plan of None \<Rightarrow> False | Some g \<Rightarrow>
      fst (allow_all g [sample_attempt ''[2]'', sample_attempt '' [ 1 ]'', sample_attempt ''[1]'']) = [False, True, False]"
    by code_simp
  then obtain g where g: "new_guard sample_net_lib sample_plan = Some g"
    "fst (allow_all g [sample_attempt ''[2]'', sample_attempt '' [ 1 ]'', sample_attempt ''[1]'']) = [False, True, False]"
    by (cases "new_guard sample_net_lib sample_plan") auto
  then obtain g' where r: "allow_all g [sample_attempt ''[2]'', sample_attempt '' [ 1 ]'', sample_attempt ''[1]'']
      = ([False, True, False], g')" by (metis prod.collapse)
  have "accepted [sample_attempt ''[2]'', sample_attempt '' [ 1 ]'', sample_attempt ''[1]''] [False, True, False]
      = [sample_attempt '' [ 1 ]'']" by (simp only: accepted_simps)
  with g(1) r guard_keeps_to_the_plan [OF g(1) r] show ?thesis by metis
qed

end
