(* ===== verification/JsonRepair.thy ===== *)
theory JsonRepair
  imports JsonText
begin

text \<open>
  What a document that \<open>json.Marshal\<close> wrote reads back as, whatever bytes its strings hold:
  bytes that are not UTF-8 become the replacement character, everything else is unchanged. A
  document nested deeper than the decoder's limit does not read back.
\<close>

section \<open>Strings\<close>

function repair :: "string \<Rightarrow> string" where
  "repair s = (case s of [] \<Rightarrow> []
    | c # cs \<Rightarrow> if utf8_len s = 0 then replacement @ repair cs
                else take (utf8_len s) s @ repair (drop (utf8_len s) s))"
  by pat_completeness auto
termination by (relation "measure length") auto

declare repair.simps [simp del]

lemma repair_Nil [simp]: "repair [] = []"
  by (subst repair.simps) simp

lemma repair_valid: "utf8_valid s \<Longrightarrow> repair s = s"
proof (induction s rule: repair.induct)
  case (1 s)
  show ?case
  proof (cases s)
    case (Cons c cs)
    then have "utf8_valid s \<longleftrightarrow> utf8_len s \<noteq> 0 \<and> utf8_valid (drop (utf8_len s) s)" by (subst utf8_valid.simps) simp
    then have n: "utf8_len s \<noteq> 0" "utf8_valid (drop (utf8_len s) s)" using "1.prems" by blast+
    then show ?thesis using "1.IH"(2) [OF Cons] Cons by (subst repair.simps) simp
  qed simp
qed

lemma lex_unit_replacement: "lex_unit ((CHR 0x5C # ''ufffd'') @ r) = Some (replacement, r)"
  by (simp add: lex_unit_def lex_escape_def lex_unicode_def hex4_def hex_val_def byte_of_def encode_rune_def
      is_high_surrogate_def is_low_surrogate_def Let_def replacement_def) (simp add: char_of_def bit_iff_odd)

lemma utf8_len_ascii: "byte_of c < 128 \<Longrightarrow> utf8_len (c # cs) = 1"
  by (simp add: utf8_len_def Let_def)

text \<open>The text written for any string reads back as the repaired string.\<close>

lemma lex_str_repair: "lex_str (json_escape s @ CHR 0x22 # r) = Some (repair s, r)"
proof (induction s rule: repair.induct)
  case (1 s)
  show ?case
  proof (cases s)
    case (Cons c cs)
    show ?thesis
    proof (cases "utf8_len s = 0")
      case True
      then have big: "\<not> byte_of c < 128" using Cons by (auto simp: utf8_len_ascii)
      have rest: "lex_str (json_escape cs @ CHR 0x22 # r) = Some (repair cs, r)" using "1.IH"(1) [OF Cons True] .
      have "json_escape s = CHR 0x5C # ''ufffd'' @ json_escape cs"
        using Cons big True by (subst json_escape.simps) simp
      then show ?thesis
        using lex_str_unit_eq [OF refl _ lex_unit_replacement rest] Cons True by (subst repair.simps) simp
    next
      case False
      have rest: "lex_str (json_escape (drop (utf8_len s) s) @ CHR 0x22 # r) = Some (repair (drop (utf8_len s) s), r)"
        using "1.IH"(2) [OF Cons False] .
      obtain u d ds where u: "json_escape s = u @ json_escape (drop (utf8_len s) s)" "u = d # ds" "d \<noteq> CHR 0x22"
          "\<And>r. lex_unit (u @ r) = Some (take (utf8_len s) s, r)"
      proof (cases "byte_of c < 128")
        case True
        obtain d ds where d: "esc_byte c = d # ds" "d \<noteq> CHR 0x22" using esc_byte_head [OF True] .
        have "lex_unit (esc_byte c @ r) = Some (take (utf8_len s) s, r)" for r
          using lex_unit_esc_byte [OF True] Cons True by (simp add: utf8_len_ascii)
        then show ?thesis using that [of "esc_byte c" d ds] d Cons True by (simp add: utf8_len_ascii json_escape_ascii)
      next
        case big: False
        obtain d ds where d: "esc_multi (take (utf8_len s) s) = d # ds" "d \<noteq> CHR 0x22"
          using esc_multi_unit(2) [OF big refl] False Cons by blast
        have "lex_unit (esc_multi (take (utf8_len s) s) @ r) = Some (take (utf8_len s) s, r)" for r
          using esc_multi_unit(1) [OF big refl] False Cons by blast
        then show ?thesis
          using that [of "esc_multi (take (utf8_len s) s)" d ds] d False Cons big json_escape_multi by simp
      qed
      have "repair s = take (utf8_len s) s @ repair (drop (utf8_len s) s)"
        using Cons False by (subst repair.simps) simp
      moreover have "lex_str (u @ json_escape (drop (utf8_len s) s) @ CHR 0x22 # r)
          = Some (take (utf8_len s) s @ repair (drop (utf8_len s) s), r)"
        by (rule lex_str_unit_eq [OF u(2,3,4) rest])
      ultimately show ?thesis using u(1) by simp
    qed
  qed simp
qed

section \<open>Documents\<close>

fun repair_tok :: "jtok \<Rightarrow> jtok" where
  "repair_tok (TStr w) = TStr (repair w)"
| "repair_tok t = t"

fun repair_json :: "json \<Rightarrow> json"
and repair_jsons :: "json list \<Rightarrow> json list"
and repair_members :: "(string \<times> json) list \<Rightarrow> (string \<times> json) list" where
  "repair_json (JStr w) = JStr (repair w)"
| "repair_json (JArr js) = JArr (repair_jsons js)"
| "repair_json (JObj ps) = JObj (repair_members ps)"
| "repair_json j = j"
| "repair_jsons [] = []"
| "repair_jsons (j # js) = repair_json j # repair_jsons js"
| "repair_members [] = []"
| "repair_members ((k, j) # ps) = (repair k, repair_json j) # repair_members ps"

lemma repair_toks:
  "json_toks (repair_json j) = map repair_tok (json_toks j)"
  "elem_toks (repair_jsons js) = map repair_tok (elem_toks js)"
  "member_toks (repair_members ps) = map repair_tok (member_toks ps)"
  by (induction j and js and ps rule: json_toks_elem_toks_member_toks.induct) auto

lemma repair_depth:
  "json_depth (repair_json j) = json_depth j"
  "elems_depth (repair_jsons js) = elems_depth js"
  "members_depth (repair_members ps) = members_depth ps"
  by (induction j and js and ps rule: json_toks_elem_toks_member_toks.induct) auto

text \<open>Documents whose numbers are literals.\<close>

fun nums_ok :: "json \<Rightarrow> bool"
and nums_oks :: "json list \<Rightarrow> bool"
and nums_okm :: "(string \<times> json) list \<Rightarrow> bool" where
  "nums_ok (JNum w) = num_text w"
| "nums_ok (JArr js) = nums_oks js"
| "nums_ok (JObj ps) = nums_okm ps"
| "nums_ok _ = True"
| "nums_oks [] = True"
| "nums_oks (j # js) = (nums_ok j \<and> nums_oks js)"
| "nums_okm [] = True"
| "nums_okm ((k, j) # ps) = (nums_ok j \<and> nums_okm ps)"

fun tok_num :: "jtok \<Rightarrow> bool" where
  "tok_num (TNum w) = num_text w"
| "tok_num t = True"

fun toks_num :: "jtok list \<Rightarrow> bool" where
  "toks_num [] = True"
| "toks_num (t # ts) = (tok_num t \<and> (case t of TNum w \<Rightarrow> closes ts | _ \<Rightarrow> True) \<and> toks_num ts)"

lemma toks_num_append:
  "nums_ok j \<Longrightarrow> closes ts \<Longrightarrow> toks_num ts \<Longrightarrow> toks_num (json_toks j @ ts)"
  "nums_oks js \<Longrightarrow> closes ts \<Longrightarrow> toks_num ts \<Longrightarrow> toks_num (elem_toks js @ ts)"
  "nums_okm ps \<Longrightarrow> closes ts \<Longrightarrow> toks_num ts \<Longrightarrow> toks_num (member_toks ps @ ts)"
  by (induction j and js and ps arbitrary: ts and ts and ts rule: json_toks_elem_toks_member_toks.induct)
     (auto simp: closes_elem)

lemma lex_json_repair_tok:
  assumes "tok_num t" "case t of TNum w \<Rightarrow> closes ts | _ \<Rightarrow> True"
  shows "lex_json (tok_text t @ toks_text ts) = map_option (Cons (repair_tok t)) (lex_json (toks_text ts))"
proof (cases t)
  case (TStr w)
  then show ?thesis
    using lex_str_repair [of w "toks_text ts"] by (simp add: lex_one_def punct_tok_def is_json_space_def)
next
  case (TNum w)
  then show ?thesis using lex_json_tok [of t ts] assms by simp
qed (use lex_json_tok [of t ts] in simp_all)

lemma lex_json_repair: "toks_num ts \<Longrightarrow> lex_json (toks_text ts) = Some (map repair_tok ts)"
proof (induction ts)
  case (Cons t ts)
  then show ?case using lex_json_repair_tok [of t ts] by (simp add: toks_text_def)
qed (simp add: toks_text_def)

text \<open>Too deep a document makes the parser stop at the container that exceeds the limit.\<close>

lemma jrun_too_deep:
  "max_nesting < json_depth j + length st \<Longrightarrow> length st \<le> max_nesting \<Longrightarrow> jrun (json_toks j @ ts) MValue st = None"
  "max_nesting < elems_depth js + Suc (length st) \<Longrightarrow> length st < max_nesting \<Longrightarrow>
     jrun (elem_toks js @ ts) MCommaOrEnd (FArr xs # st) = None"
  "max_nesting < members_depth ps + Suc (length st) \<Longrightarrow> length st < max_nesting \<Longrightarrow>
     jrun (member_toks ps @ ts) MCommaOrEnd (FObj qs # st) = None"
proof (induction j and js and ps arbitrary: st ts and st xs ts and st qs ts
    rule: json_toks_elem_toks_member_toks.induct)
  case (6 j js)
  show ?case
  proof (cases "length st < max_nesting")
    case True
    obtain t us where t: "json_toks j = t # us" "t \<noteq> TRBrack" using json_toks_head by blast
    have "jrun (json_toks j @ elem_toks js @ TRBrack # ts) MValue (FArr [] # st) = None"
    proof (cases "json_depth j + length (FArr [] # st) \<le> max_nesting")
      case ok: True
      then have "jrun (json_toks j @ elem_toks js @ TRBrack # ts) MValue (FArr [] # st)
          = jrun (elem_toks js @ TRBrack # ts) MCommaOrEnd (FArr [j] # st)"
        by (intro jrun_json_toks(1)) simp_all
      then show ?thesis using 6 ok True by simp
    qed (use 6 True in simp)
    then show ?thesis using t True by (simp add: jvalue_tok_def jpush_def)
  qed (use 6 in \<open>simp add: jvalue_tok_def jpush_def\<close>)
next
  case (8 k j ps)
  show ?case
  proof (cases "length st < max_nesting")
    case True
    have "jrun (json_toks j @ member_toks ps @ TRBrace # ts) MValue (FKey [] k # st) = None"
    proof (cases "json_depth j + length (FKey [] k # st) \<le> max_nesting")
      case ok: True
      then have "jrun (json_toks j @ member_toks ps @ TRBrace # ts) MValue (FKey [] k # st)
          = jrun (member_toks ps @ TRBrace # ts) MCommaOrEnd (FObj [(k, j)] # st)"
        by (intro jrun_json_toks(1)) simp_all
      then show ?thesis using 8 ok True by simp
    qed (use 8 True in simp)
    then show ?thesis using True by (simp add: jvalue_tok_def jpush_def)
  qed (use 8 in \<open>simp add: jvalue_tok_def jpush_def\<close>)
next
  case (10 j js)
  show ?case
  proof (cases "json_depth j + length (FArr xs # st) \<le> max_nesting")
    case ok: True
    then have "jrun (json_toks j @ elem_toks js @ ts) MValue (FArr xs # st)
        = jrun (elem_toks js @ ts) MCommaOrEnd (FArr (j # xs) # st)"
      by (intro jrun_json_toks(1)) simp_all
    then show ?thesis using 10 ok by simp
  qed (use 10 in simp)
next
  case (12 k j ps)
  show ?case
  proof (cases "json_depth j + length (FKey qs k # st) \<le> max_nesting")
    case ok: True
    then have "jrun (json_toks j @ member_toks ps @ ts) MValue (FKey qs k # st)
        = jrun (member_toks ps @ ts) MCommaOrEnd (FObj ((k, j) # qs) # st)"
      by (intro jrun_json_toks(1)) simp_all
    then show ?thesis using 12 ok by simp
  qed (use 12 in simp)
qed (auto simp: jvalue_tok_def jpush_def)

text \<open>What \<open>json.Unmarshal\<close> makes of what \<open>json.Marshal\<close> wrote.\<close>

lemma json_parse_written:
  assumes "nums_ok j"
  shows "json_parse (json_text j) = (if json_depth j \<le> max_nesting then Some (repair_json j) else None)"
proof -
  have "lex_json (json_text j) = Some (json_toks (repair_json j))"
    using lex_json_repair [of "json_toks j"] toks_num_append(1) [OF assms, of "[]"]
    by (simp add: json_text_def repair_toks)
  moreover have "jrun (json_toks (repair_json j)) MValue [] = None" if "\<not> json_depth j \<le> max_nesting"
    using jrun_too_deep(1) [of "repair_json j" "[]" "[]"] that by (simp add: repair_depth)
  ultimately show ?thesis
    using json_roundtrip [of "repair_json j"] by (simp add: json_parse_def repair_depth)
qed

section \<open>Numbers of a parsed document\<close>

lemma digits_span: "u = [] \<or> \<not> is_digit (hd u) \<Longrightarrow>
    takeWhile is_digit (takeWhile is_digit s @ u) = takeWhile is_digit s \<and> dropWhile is_digit (takeWhile is_digit s @ u) = u"
  by (induction s) (cases u; auto)+

lemma num_digits_again: "num_digits s = Some (d, r) \<Longrightarrow> u = [] \<or> \<not> is_digit (hd u) \<Longrightarrow> num_digits (d @ u) = Some (d, u)"
  using digits_span [of u s] by (auto simp: num_digits_def split: if_splits)

lemma num_digits_head: "num_digits s = Some (d, r) \<Longrightarrow> \<exists>c cs. d = c # cs \<and> is_digit c"
  by (cases s) (auto simp: num_digits_def split: if_splits)

lemma num_int_again:
  assumes "num_int s = Some (i, r)" "u = [] \<or> \<not> is_digit (hd u)"
  shows "num_int (i @ u) = Some (i, u)"
proof (cases s)
  case (Cons c cs)
  show ?thesis
  proof (cases "c = CHR ''0''")
    case False
    then have i: "i = takeWhile is_digit s" "is_digit c" using assms(1) Cons by (auto simp: num_int_def split: if_splits)
    then have "takeWhile is_digit (i @ u) = i" "dropWhile is_digit (i @ u) = u"
      using digits_span [of u s] assms(2) by simp_all
    moreover obtain xs where "i = c # xs" using i Cons by simp
    ultimately show ?thesis using False i(2) by (simp add: num_int_def)
  qed (use assms Cons in \<open>auto simp: num_int_def\<close>)
qed (use assms in \<open>simp add: num_int_def\<close>)

lemma num_exp_again: "num_exp s = Some (e, r) \<Longrightarrow> num_exp e = Some (e, []) \<and> (e = [] \<or> hd e \<in> {CHR ''e'', CHR ''E''})"
proof (cases s)
  case (Cons c cs)
  assume e: "num_exp s = Some (e, r)"
  obtain g r1 where g: "num_sign cs = (g, r1)" by (cases "num_sign cs")
  show ?thesis
  proof (cases "c = CHR ''e'' \<or> c = CHR ''E''")
    case True
    then obtain d r2 where d: "num_digits r1 = Some (d, r2)" "e = c # g @ d"
      using e Cons g by (auto simp: num_exp_def split: option.splits)
    have "num_digits d = Some (d, [])" using num_digits_again [OF d(1), of "[]"] by simp
    moreover have "num_sign (g @ d) = (g, d)"
    proof (cases "g = []")
      case True
      obtain x xs where "d = x # xs" "is_digit x" using num_digits_head [OF d(1)] by blast
      then show ?thesis using True by (auto simp: num_sign_def is_digit_def byte_of_def)
    next
      case False
      then show ?thesis using g by (auto simp: num_sign_def split: list.splits if_splits)
    qed
    ultimately show ?thesis using True d(2) by (auto simp: num_exp_def)
  qed (use e Cons in \<open>auto simp: num_exp_def\<close>)
qed (simp add: num_exp_def)

lemma num_frac_none: "e = [] \<or> hd e \<in> {CHR ''e'', CHR ''E''} \<Longrightarrow>
    num_frac e = Some ([], e) \<and> (e = [] \<or> \<not> is_digit (hd e))"
  by (cases e) (auto simp: num_frac_def is_digit_def byte_of_def)

lemma num_frac_again:
  assumes "num_frac s = Some (f, r)" "e = [] \<or> hd e \<in> {CHR ''e'', CHR ''E''}"
  shows "num_frac (f @ e) = Some (f, e) \<and> (f @ e = [] \<or> \<not> is_digit (hd (f @ e)))"
proof (cases "f = []")
  case False
  then obtain cs d r' where "s = CHR ''.'' # cs" "num_digits cs = Some (d, r')" "f = CHR ''.'' # d"
    using assms(1) by (auto simp: num_frac_def split: option.splits list.splits if_splits)
  moreover from this have "num_digits (d @ e) = Some (d, e)"
    using num_digits_again [of cs d r' e] num_frac_none [OF assms(2)] by blast
  ultimately show ?thesis by (simp add: num_frac_def is_digit_def byte_of_def)
qed (use num_frac_none [OF assms(2)] in simp)

lemma num_int_head:
  assumes "num_int s = Some (i, r)"
  shows "\<exists>c cs. i = c # cs \<and> is_digit c"
proof (cases s)
  case (Cons c cs)
  show ?thesis
  proof (cases "c = CHR ''0''")
    case True
    then have "i = [c]" "is_digit c" using assms Cons zero_digit by (simp_all add: num_int_def)
    then show ?thesis by blast
  next
    case False
    then have "i = takeWhile is_digit s" "is_digit c" using assms Cons by (simp_all add: num_int_def split: if_splits)
    then show ?thesis using Cons by simp
  qed
qed (use assms in \<open>simp add: num_int_def\<close>)

lemma minus_no_digit: "\<not> is_digit CHR ''-''"
  by (simp add: is_digit_def byte_of_def)

lemma num_neg_again:
  assumes "num_neg s = (n, s1)" "num_int s1 = Some (i, r)"
  shows "num_neg (n @ i @ u) = (n, i @ u)"
proof -
  obtain c cs where i: "i = c # cs" "is_digit c" using num_int_head [OF assms(2)] by blast
  then have c: "c \<noteq> CHR ''-''" using minus_no_digit by blast
  have "n = [] \<or> n = ''-''" using assms(1) by (cases s) (auto simp: num_neg_def split: if_splits)
  then show ?thesis using i c by (auto simp: num_neg_def)
qed

lemma lexed_num_text: "lex_num s = Some (w, r) \<Longrightarrow> num_text w"
proof -
  assume "lex_num s = Some (w, r)"
  then obtain n s1 i s2 f s3 e where p: "num_neg s = (n, s1)" "num_int s1 = Some (i, s2)"
      "num_frac s2 = Some (f, s3)" "num_exp s3 = Some (e, r)" "w = n @ i @ f @ e"
    by (auto simp: lex_num_def split: prod.splits option.splits)
  have e: "num_exp e = Some (e, [])" "e = [] \<or> hd e \<in> {CHR ''e'', CHR ''E''}" using num_exp_again [OF p(4)] by simp_all
  have f: "num_frac (f @ e) = Some (f, e)" "f @ e = [] \<or> \<not> is_digit (hd (f @ e))"
    using num_frac_again [OF p(3) e(2)] by simp_all
  show ?thesis
    using num_neg_again [OF p(1,2), of "f @ e"] num_int_again [OF p(2) f(2)] f(1) e(1) p(5)
    by (simp add: num_text_def lex_num_def)
qed

lemma punct_tok_num: "punct_tok c = Some t \<Longrightarrow> tok_num t"
  by (auto simp: punct_tok_def split: if_splits)

lemma lex_word_num: "lex_word s = Some (t, r) \<Longrightarrow> tok_num t"
  by (auto simp: lex_word_def split: if_splits)

lemma lexed_tok_num:
  assumes "lex_one c cs = Some (t, r)"
  shows "tok_num t"
proof (cases "punct_tok c")
  case None
  then show ?thesis
    using assms lexed_num_text lex_word_num by (auto simp: lex_one_def split: if_splits option.splits)
qed (use assms punct_tok_num in \<open>auto simp: lex_one_def\<close>)

lemma lexed_toks_num: "lex_json s = Some ts \<Longrightarrow> list_all tok_num ts"
  by (induction s arbitrary: ts rule: lex_json.induct)
     (auto dest: lexed_tok_num split: if_splits option.splits prod.splits)

section \<open>Values of a parsed document\<close>

lemma nums_all [simp]: "nums_oks js \<longleftrightarrow> list_all nums_ok js" "nums_okm ps \<longleftrightarrow> list_all (\<lambda>(k, j). nums_ok j) ps"
  by (induction js; simp) (induction ps; auto)

fun frame_nums :: "jframe \<Rightarrow> bool" where
  "frame_nums (FArr js) = list_all nums_ok js"
| "frame_nums (FObj ps) = list_all (\<lambda>(k, j). nums_ok j) ps"
| "frame_nums (FKey ps k) = list_all (\<lambda>(k, j). nums_ok j) ps"

fun mode_nums :: "jmode \<Rightarrow> bool" where
  "mode_nums (MDone v) = nums_ok v"
| "mode_nums m = True"

lemma jcomplete_nums:
  "jcomplete v st = Some (m, st') \<Longrightarrow> nums_ok v \<Longrightarrow> list_all frame_nums st \<Longrightarrow> mode_nums m \<and> list_all frame_nums st'"
  by (induction v st rule: jcomplete.induct) auto

lemma jpush_nums: "jpush m f st = Some (m', st') \<Longrightarrow> m' = m \<and> st' = f # st"
  by (simp add: jpush_def split: if_splits)

lemma jvalue_tok_nums:
  assumes "jvalue_tok t st = Some (m, st')" "tok_num t" "list_all frame_nums st"
  shows "mode_nums m \<and> list_all frame_nums st'"
  using assms by (cases t) (auto simp: jvalue_tok_def dest: jpush_nums jcomplete_nums)

lemma jclose_nums:
  "jclose t st = Some (m, st') \<Longrightarrow> list_all frame_nums st \<Longrightarrow> mode_nums m \<and> list_all frame_nums st'"
  by (induction t st rule: jclose.induct) (auto dest!: jcomplete_nums simp: list.pred_set)

lemma jkey_tok_nums:
  "jkey_tok t st = Some (m, st') \<Longrightarrow> list_all frame_nums st \<Longrightarrow> mode_nums m \<and> list_all frame_nums st'"
  by (induction t st rule: jkey_tok.induct) auto

lemma jstep_nums:
  "jstep m t st = Some (m', st') \<Longrightarrow> tok_num t \<Longrightarrow> list_all frame_nums st \<Longrightarrow> mode_nums m' \<and> list_all frame_nums st'"
  by (induction m t st rule: jstep.induct)
     (auto dest: jvalue_tok_nums jclose_nums jkey_tok_nums split: if_splits list.splits jframe.splits)

lemma jrun_nums:
  "jrun ts m st = Some v \<Longrightarrow> list_all tok_num ts \<Longrightarrow> mode_nums m \<Longrightarrow> list_all frame_nums st \<Longrightarrow> nums_ok v"
proof (induction ts m st rule: jrun.induct)
  case (1 m st)
  then show ?case by (cases m) simp_all
next
  case (2 t ts m st)
  then obtain m' st' where s: "jstep m t st = Some (m', st')" "jrun ts m' st' = Some v"
    by (auto split: option.splits)
  then show ?case using 2 jstep_nums [OF s(1)] by simp
qed

lemma json_parse_nums: "json_parse s = Some v \<Longrightarrow> nums_ok v"
  by (auto simp: json_parse_def dest: lexed_toks_num jrun_nums split: option.splits)

end
