(* ===== verification/JsonValid.thy ===== *)
theory JsonValid
  imports JsonRepair
begin

text \<open>
  What the decoder can produce: every string of a parsed document is UTF-8 (invalid bytes
  become the replacement character while it is read), its numbers are literals and its
  nesting is within the limit. So a decoded value is written and read back unchanged.
\<close>

section \<open>UTF-8\<close>

lemma utf8_validI: "utf8_len s = n \<Longrightarrow> n \<noteq> 0 \<Longrightarrow> utf8_valid (drop n s) \<Longrightarrow> utf8_valid s"
  by (subst utf8_valid.simps) auto

lemma utf8_valid_unit:
  assumes "utf8_valid s" "s \<noteq> []"
  obtains n where "utf8_len s = n" "n \<noteq> 0" "n \<le> length s" "utf8_valid (drop n s)"
proof -
  have "utf8_len s \<noteq> 0 \<and> utf8_valid (drop (utf8_len s) s)"
    using assms utf8_valid.simps [of s] by metis
  then show ?thesis using that utf8_len_le by blast
qed

lemma utf8_valid_append: "utf8_valid a \<Longrightarrow> utf8_valid b \<Longrightarrow> utf8_valid (a @ b)"
proof (induction a rule: utf8_valid.induct)
  case (1 a)
  show ?case
  proof (cases "a = []")
    case False
    with "1.prems"(1) obtain n where n: "utf8_len a = n" "n \<noteq> 0" "n \<le> length a" "utf8_valid (drop n a)"
      by (rule utf8_valid_unit)
    have "utf8_len (take n a @ (drop n a @ b)) = n" by (rule utf8_len_append [OF n(1,2)])
    moreover have "take n a @ (drop n a @ b) = a @ b" by (metis append_assoc append_take_drop_id)
    ultimately have "utf8_len (a @ b) = n" by simp
    moreover have "utf8_valid (drop n a @ b)" using "1.IH" False n "1.prems" by simp
    ultimately show ?thesis using n utf8_validI [of "a @ b" n] by simp
  qed (use "1.prems" in simp)
qed

lemma utf8_valid_take:
  assumes "utf8_len s \<noteq> 0"
  shows "utf8_valid (take (utf8_len s) s)"
proof (rule utf8_validI [OF _ assms])
  show "utf8_len (take (utf8_len s) s) = utf8_len s" using utf8_len_append [OF refl assms, of "[]"] by simp
qed simp

lemma ascii_unit: "byte_of c < 128 \<Longrightarrow> utf8_valid [c]"
  by (rule utf8_validI [of _ 1]) (simp_all add: utf8_len_ascii)

lemma takeWhile_stop: "\<not> P c \<Longrightarrow> length (takeWhile P (xs @ c # b)) \<le> length xs"
  by (induction xs) auto

lemma utf8_unit_before_ascii:
  assumes "utf8_len (a @ c # b) = n" "a \<noteq> []" "byte_of c < 128"
  shows "n \<le> length a"
proof -
  obtain x xs where a: "a = x # xs" using assms(2) by (cases a) auto
  have "length (takeWhile (byte_in 128 191) (xs @ c # b)) \<le> length xs"
    using assms(3) by (intro takeWhile_stop) (simp add: byte_in_def)
  then show ?thesis
    using assms(1,3) a by (cases xs) (auto simp: utf8_len_def Let_def byte_in_def second_range_def split: if_splits)
qed

text \<open>A valid string cut at an ASCII character gives valid parts.\<close>

lemma cut_at_ascii:
  "utf8_valid (a @ c # b) \<Longrightarrow> byte_of c < 128 \<Longrightarrow> utf8_valid a \<and> utf8_valid b"
proof (induction a rule: utf8_valid.induct)
  case (1 a)
  show ?case
  proof (cases "a = []")
    case True
    then show ?thesis using "1.prems" utf8_valid.simps [of "c # b"] by (simp add: utf8_len_ascii)
  next
    case False
    obtain n where n: "utf8_len (a @ c # b) = n" "n \<noteq> 0" "n \<le> length (a @ c # b)" "utf8_valid (drop n (a @ c # b))"
      using utf8_valid_unit [OF "1.prems"(1)] by blast
    have le: "n \<le> length a" by (rule utf8_unit_before_ascii [OF n(1) False "1.prems"(2)])
    then have len: "utf8_len a = n"
      using utf8_len_append [OF n(1,2), of "drop n a"] by (simp add: append_take_drop_id)
    moreover have "utf8_valid (drop n a @ c # b)" using n(4) le by simp
    ultimately show ?thesis using "1.IH" False n(2) "1.prems"(2) utf8_validI [OF len n(2)] by simp
  qed
qed

lemma ascii_chars: "byte_of CHR ''$'' < 128" "byte_of CHR ''}'' < 128"
  by (simp_all add: byte_of_def)

lemma replacement_valid: "utf8_valid replacement"
  by (rule utf8_validI [of _ 3]) (simp_all add: replacement_def utf8_len_def second_range_def byte_in_def byte_of_def)

lemma byte_of_char: "m < 256 \<Longrightarrow> byte_of (char_of m) = m"
  by (simp add: byte_of_def)

lemma two_bytes:
  assumes "194 \<le> byte_of a" "byte_of a \<le> 223" "128 \<le> byte_of b" "byte_of b \<le> 191"
  shows "utf8_valid [a, b]"
  using assms by (subst utf8_valid.simps) (simp add: utf8_len_def Let_def byte_in_def second_range_def)

lemma three_bytes:
  assumes "224 \<le> byte_of a" "byte_of a \<le> 239" "128 \<le> byte_of b" "byte_of b \<le> 191"
    and "128 \<le> byte_of c" "byte_of c \<le> 191"
    and "byte_of a = 224 \<Longrightarrow> 160 \<le> byte_of b" "byte_of a = 237 \<Longrightarrow> byte_of b \<le> 159"
  shows "utf8_valid [a, b, c]"
  using assms by (subst utf8_valid.simps) (simp add: utf8_len_def Let_def byte_in_def second_range_def)

lemma four_bytes:
  assumes "240 \<le> byte_of a" "byte_of a \<le> 244" "128 \<le> byte_of b" "byte_of b \<le> 191"
    and "128 \<le> byte_of c" "byte_of c \<le> 191" "128 \<le> byte_of d" "byte_of d \<le> 191"
    and "byte_of a = 240 \<Longrightarrow> 144 \<le> byte_of b" "byte_of a = 244 \<Longrightarrow> byte_of b \<le> 143"
  shows "utf8_valid [a, b, c, d]"
  using assms by (subst utf8_valid.simps) (simp add: utf8_len_def Let_def byte_in_def second_range_def)

lemma encode_rune_valid:
  assumes "n < 1114112" "\<not> is_high_surrogate n" "\<not> is_low_surrogate n"
  shows "utf8_valid (encode_rune n)"
proof -
  have s: "n < 55296 \<or> 57343 < n" using assms(2,3) by (auto simp: is_high_surrogate_def is_low_surrogate_def)
  define a b c d where abcd: "a = n div 262144" "b = n div 4096 mod 64" "c = n div 64 mod 64" "d = n mod 64"
  have "n = n div 64 * 64 + d" "n div 64 = n div 64 div 64 * 64 + c" "n div 4096 = n div 4096 div 64 * 64 + b"
    unfolding abcd(2-4) by (simp_all only: div_mult_mod_eq)
  moreover have "n div 64 div 64 = n div 4096" "n div 4096 div 64 = a"
    unfolding abcd(1) by (simp_all add: div_mult2_eq [symmetric])
  ultimately have q: "n div 64 = n div 4096 * 64 + c" "n div 4096 = a * 64 + b"
    and n: "n = 262144 * a + 4096 * b + 64 * c + d" by linarith+
  have lt: "b < 64" "c < 64" "d < 64" by (simp_all add: abcd)
  consider "n < 128" | "128 \<le> n" "n < 2048" | "2048 \<le> n" "n < 65536" | "65536 \<le> n" by linarith
  then show ?thesis
  proof cases
    case 1
    then show ?thesis using ascii_unit by (simp add: encode_rune_def byte_of_char)
  next
    case 2
    then have z: "a = 0" "b = 0" using n by linarith+
    then have "n div 64 = c" "c < 32" "2 \<le> c" using 2 q n lt by linarith+
    then show ?thesis using 2 lt two_bytes [of "char_of (192 + c)" "char_of (128 + d)"]
      by (simp add: encode_rune_def byte_of_char abcd(4))
  next
    case 3
    then have z: "a = 0" "b < 16" using n lt by linarith+
    then have b: "n div 4096 = b" using q by linarith
    have "b = 0 \<Longrightarrow> 32 \<le> c" "b = 13 \<Longrightarrow> c \<le> 31" using n lt z 3 s by linarith+
    then show ?thesis using 3 lt z three_bytes [of "char_of (224 + b)" "char_of (128 + c)" "char_of (128 + d)"]
      unfolding encode_rune_def b by (simp add: byte_of_char abcd(3,4))
  next
    case 4
    have a: "a \<le> 4" using n assms(1) by linarith
    have "a = 0 \<Longrightarrow> 16 \<le> b" "a = 4 \<Longrightarrow> b \<le> 15" using n lt 4 assms(1) by linarith+
    then show ?thesis using 4 lt a four_bytes [of "char_of (240 + a)" "char_of (128 + b)" "char_of (128 + c)" "char_of (128 + d)"]
      by (simp add: encode_rune_def byte_of_char abcd)
  qed
qed

section \<open>Strings of a parsed document\<close>

lemma hex_val_less: "hex_val c = Some n \<Longrightarrow> n < 16"
  by (auto simp: hex_val_def Let_def split: if_splits)

lemma hex4_less: "hex4 s = Some (n, r) \<Longrightarrow> n < 65536"
  by (auto simp: hex4_def dest!: hex_val_less split: list.splits option.splits)

lemma lex_unicode_valid:
  assumes "lex_unicode s = Some (w, r)"
  shows "utf8_valid w"
proof -
  obtain n rest where n: "hex4 s = Some (n, rest)" using assms by (auto simp: lex_unicode_def split: option.splits)
  show ?thesis
  proof (cases "is_high_surrogate n")
    case True
    have pair: "utf8_valid (encode_rune (65536 + (n - 55296) * 1024 + (m - 56320)))" if "is_low_surrogate m" for m
      using that True by (intro encode_rune_valid)
        (auto simp: is_high_surrogate_def is_low_surrogate_def)
    show ?thesis
      using assms n True pair replacement_valid
      by (auto simp: lex_unicode_def split: list.splits option.splits if_splits)
  next
    case False
    then show ?thesis
      using assms n replacement_valid encode_rune_valid [of n] hex4_less [OF n]
      by (auto simp: lex_unicode_def split: if_splits)
  qed
qed

lemma lex_escape_valid: "lex_escape s = Some (w, r) \<Longrightarrow> utf8_valid w"
  by (auto simp: lex_escape_def byte_of_def intro!: ascii_unit dest: lex_unicode_valid split: list.splits if_splits)

lemma lex_unit_valid: "lex_unit s = Some (w, r) \<Longrightarrow> utf8_valid w"
  by (auto simp: lex_unit_def intro: ascii_unit replacement_valid utf8_valid_take dest: lex_escape_valid
      split: list.splits if_splits)

lemma lex_str_valid: "lex_str s = Some (w, r) \<Longrightarrow> utf8_valid w"
proof (induction s arbitrary: w r rule: lex_str.induct)
  case (1 s)
  show ?case
  proof (cases s)
    case (Cons c cs)
    show ?thesis
    proof (cases "c = CHR 0x22")
      case False
      then obtain u t ws where u: "lex_unit (c # cs) = Some (u, t)" "lex_str t = Some (ws, r)" "w = u @ ws"
        using "1.prems" Cons by (auto simp: lex_str_unit split: option.splits prod.splits)
      then have "utf8_valid ws" using "1.IH" Cons False by blast
      then show ?thesis using u lex_unit_valid utf8_valid_append by simp
    qed (use "1.prems" Cons in simp)
  qed (use "1.prems" in simp)
qed

lemma punct_tok_ok: "punct_tok c = Some t \<Longrightarrow> tok_ok t"
  by (auto simp: punct_tok_def split: if_splits)

lemma lex_word_ok: "lex_word s = Some (t, r) \<Longrightarrow> tok_ok t"
  by (auto simp: lex_word_def split: if_splits)

lemma lexed_tok_ok:
  assumes "lex_one c cs = Some (t, r)"
  shows "tok_ok t"
proof (cases "punct_tok c")
  case None
  then show ?thesis
    using assms lexed_num_text lex_word_ok lex_str_valid by (auto simp: lex_one_def split: if_splits option.splits)
qed (use assms punct_tok_ok in \<open>auto simp: lex_one_def\<close>)

lemma lexed_toks_ok: "lex_json s = Some ts \<Longrightarrow> list_all tok_ok ts"
  by (induction s arbitrary: ts rule: lex_json.induct)
     (auto dest: lexed_tok_ok split: if_splits option.splits prod.splits)

section \<open>Parsed documents\<close>

text \<open>A value that sits under \<open>n\<close> open containers.\<close>

definition fits :: "nat \<Rightarrow> json \<Rightarrow> bool" where
  "fits n j \<longleftrightarrow> json_ok j \<and> json_depth j + n \<le> max_nesting"

definition member_fits :: "nat \<Rightarrow> string \<times> json \<Rightarrow> bool" where
  "member_fits n kj \<longleftrightarrow> utf8_valid (fst kj) \<and> fits n (snd kj)"

lemma fits_arr: "n < max_nesting \<Longrightarrow> fits n (JArr js) \<longleftrightarrow> list_all (fits (Suc n)) js"
  by (induction js) (auto simp: fits_def)

lemma fits_obj: "n < max_nesting \<Longrightarrow> fits n (JObj ps) \<longleftrightarrow> list_all (member_fits (Suc n)) ps"
  by (induction ps) (auto simp: fits_def member_fits_def)

fun frame_fits :: "nat \<Rightarrow> jframe \<Rightarrow> bool" where
  "frame_fits n (FArr js) \<longleftrightarrow> list_all (fits n) js"
| "frame_fits n (FObj ps) \<longleftrightarrow> list_all (member_fits n) ps"
| "frame_fits n (FKey ps k) \<longleftrightarrow> utf8_valid k \<and> list_all (member_fits n) ps"

fun stack_fits :: "jframe list \<Rightarrow> bool" where
  "stack_fits [] = True"
| "stack_fits (f # st) \<longleftrightarrow> length st < max_nesting \<and> frame_fits (Suc (length st)) f \<and> stack_fits st"

fun mode_fits :: "jmode \<Rightarrow> bool" where
  "mode_fits (MDone v) = fits 0 v"
| "mode_fits (MColon k) = utf8_valid k"
| "mode_fits m = True"

lemma jcomplete_fits:
  "jcomplete v st = Some (m, st') \<Longrightarrow> fits (length st) v \<Longrightarrow> stack_fits st \<Longrightarrow> mode_fits m \<and> stack_fits st'"
  by (induction v st rule: jcomplete.induct) (auto simp: member_fits_def)

lemma scalar_fits: "json_ok j \<Longrightarrow> json_depth j = 0 \<Longrightarrow> stack_fits st \<Longrightarrow> fits (length st) j"
  by (cases st) (auto simp: fits_def)

lemma jpush_fits: "jpush m f st = Some (m', st') \<Longrightarrow> mode_fits m \<Longrightarrow> frame_fits (Suc (length st)) f
    \<Longrightarrow> stack_fits st \<Longrightarrow> mode_fits m' \<and> stack_fits st'"
  by (auto simp: jpush_def split: if_splits)

lemma jvalue_tok_fits:
  assumes "jvalue_tok t st = Some (m, st')" "tok_ok t" "stack_fits st"
  shows "mode_fits m \<and> stack_fits st'"
  using assms by (cases t) (auto simp: jvalue_tok_def scalar_fits dest: jpush_fits jcomplete_fits)

lemma jclose_fits:
  "jclose t st = Some (m, st') \<Longrightarrow> stack_fits st \<Longrightarrow> mode_fits m \<and> stack_fits st'"
  by (induction t st rule: jclose.induct)
     (auto dest!: jcomplete_fits simp: fits_arr fits_obj list.pred_set)

lemma jkey_tok_fits:
  "jkey_tok t st = Some (m, st') \<Longrightarrow> tok_ok t \<Longrightarrow> stack_fits st \<Longrightarrow> mode_fits m \<and> stack_fits st'"
  by (induction t st rule: jkey_tok.induct) auto

lemma jstep_fits:
  "jstep m t st = Some (m', st') \<Longrightarrow> tok_ok t \<Longrightarrow> mode_fits m \<Longrightarrow> stack_fits st \<Longrightarrow> mode_fits m' \<and> stack_fits st'"
  by (induction m t st rule: jstep.induct)
     (auto dest: jvalue_tok_fits jclose_fits jkey_tok_fits split: if_splits list.splits jframe.splits)

lemma jrun_fits:
  "jrun ts m st = Some v \<Longrightarrow> list_all tok_ok ts \<Longrightarrow> mode_fits m \<Longrightarrow> stack_fits st \<Longrightarrow> fits 0 v"
proof (induction ts m st rule: jrun.induct)
  case (1 m st)
  then show ?case by (cases m) simp_all
next
  case (2 t ts m st)
  then obtain m' st' where s: "jstep m t st = Some (m', st')" "jrun ts m' st' = Some v"
    by (auto split: option.splits)
  then show ?case using 2 jstep_fits [OF s(1)] by simp
qed

lemma json_parse_ok:
  assumes "json_parse s = Some v"
  shows "json_ok v" and "json_depth v \<le> max_nesting"
proof -
  obtain ts where "lex_json s = Some ts" "jrun ts MValue [] = Some v"
    using assms by (auto simp: json_parse_def split: option.splits)
  then have "fits 0 v" using jrun_fits lexed_toks_ok by fastforce
  then show "json_ok v" "json_depth v \<le> max_nesting" by (simp_all add: fits_def)
qed

end
