(* ===== verification/SecretRef.thy ===== *)
theory SecretRef
  imports Setup JsonValid
begin

text \<open>
  \<open>internal/secretref/secretref.go\<close>: references \<open>${VAR}\<close> to the environment in credentials,
  requests and assertions. The environment is a function, the empty string for an unset
  variable, as \<open>os.Getenv\<close> gives it.
\<close>

section \<open>Expansion\<close>

datatype expand_error = UnterminatedRef | EmptyRef | UnsetRef string

function expand :: "(string \<Rightarrow> string) \<Rightarrow> string \<Rightarrow> expand_error + string" where
  "expand env s =
     (case index_of ''${'' s of
        None \<Rightarrow> Inr s
      | Some i \<Rightarrow>
          (case index_of ''}'' (drop i s) of
             None \<Rightarrow> Inl UnterminatedRef
           | Some e \<Rightarrow>
               let name = take (e - 2) (drop (i + 2) s) in
               if name = [] then Inl EmptyRef
               else if env name = [] then Inl (UnsetRef name)
               else (case expand env (drop (i + e + 1) s) of
                       Inl err \<Rightarrow> Inl err | Inr r \<Rightarrow> Inr (take i s @ env name @ r))))"
  by pat_completeness auto
termination
proof (relation "measure (\<lambda>(env, s). length s)", goal_cases)
  case (2 env s i e x)
  then show ?case using index_of_bound [of "''${''" s i] by auto
qed simp

declare expand.simps [simp del]

text \<open>Strings inside a decoded JSON value; keys are not expanded.\<close>

fun expand_strings :: "(string \<Rightarrow> string) \<Rightarrow> gval \<Rightarrow> expand_error + gval"
and expand_elems :: "(string \<Rightarrow> string) \<Rightarrow> gval list \<Rightarrow> expand_error + gval list"
and expand_members :: "(string \<Rightarrow> string) \<Rightarrow> (string \<times> gval) list \<Rightarrow> expand_error + (string \<times> gval) list" where
  "expand_strings env (GStr w) = bind_res (expand env w) (\<lambda>r. Inr (GStr r))"
| "expand_strings env (GArr vs) = bind_res (expand_elems env vs) (\<lambda>ws. Inr (GArr ws))"
| "expand_strings env (GObj ps) = bind_res (expand_members env ps) (\<lambda>qs. Inr (GObj qs))"
| "expand_strings env v = Inr v"
| "expand_elems env [] = Inr []"
| "expand_elems env (v # vs) = bind_res (expand_strings env v) (\<lambda>w. bind_res (expand_elems env vs) (\<lambda>ws. Inr (w # ws)))"
| "expand_members env [] = Inr []"
| "expand_members env ((k, v) # ps) =
     bind_res (expand_strings env v) (\<lambda>w. bind_res (expand_members env ps) (\<lambda>qs. Inr ((k, w) # qs)))"

text \<open>\<open>json.Marshal\<close> of a decoded value: compact, the keys of objects in ascending order.\<close>

fun json_of :: "gval \<Rightarrow> json"
and jsons_of :: "gval list \<Rightarrow> json list"
and jmembers_of :: "(string \<times> gval) list \<Rightarrow> (string \<times> json) list" where
  "json_of GNull = JNull"
| "json_of (GBool b) = JBool b"
| "json_of (GNum w) = JNum w"
| "json_of (GStr w) = JStr w"
| "json_of (GArr vs) = JArr (jsons_of vs)"
| "json_of (GObj ps) = JObj (jmembers_of ps)"
| "jsons_of [] = []"
| "jsons_of (v # vs) = json_of v # jsons_of vs"
| "jmembers_of [] = []"
| "jmembers_of ((k, v) # ps) = (k, json_of v) # jmembers_of ps"

definition marshal_any :: "gval \<Rightarrow> string" where
  "marshal_any v = json_text (json_of v)"

datatype secret_error = PlainRef expand_error | IdentityRef string expand_error | BodyNotJson | BodyRef expand_error
  | InVerification secret_error | InReset secret_error

definition expand_body :: "(string \<Rightarrow> string) \<Rightarrow> string \<Rightarrow> secret_error + string" where
  "expand_body env raw =
     (if raw = [] \<or> \<not> contains raw ''${'' then Inr raw
      else case unmarshal_any Some raw of None \<Rightarrow> Inl BodyNotJson
       | Some v \<Rightarrow> bind_res (map_err BodyRef (expand_strings env v)) (\<lambda>w. Inr (marshal_any w)))"

definition expand_values :: "(string \<Rightarrow> string) \<Rightarrow> (string \<times> string) list \<Rightarrow> secret_error + (string \<times> string) list" where
  "expand_values env m = map_res (\<lambda>(k, v). bind_res (map_err PlainRef (expand env v)) (\<lambda>r. Inr (k, r))) m"

definition expand_request :: "(string \<Rightarrow> string) \<Rightarrow> request_template \<Rightarrow> secret_error + request_template" where
  "expand_request env t =
     bind_res (map_err PlainRef (expand env (rq_url t))) (\<lambda>url.
     bind_res (expand_values env (rq_headers t)) (\<lambda>headers.
     bind_res (expand_values env (rq_query t)) (\<lambda>query.
     bind_res (expand_body env (rq_body t)) (\<lambda>body.
       Inr (t\<lparr>rq_url := url, rq_headers := headers, rq_query := query, rq_body := body\<rparr>)))))"

definition expand_preflight :: "(string \<Rightarrow> string) \<Rightarrow> identity_preflight \<Rightarrow> secret_error + identity_preflight" where
  "expand_preflight env p =
     bind_res (map_err PlainRef (expand env (pf_url p))) (\<lambda>url.
     bind_res (expand_values env (pf_json_fields p)) (\<lambda>fs. Inr (p\<lparr>pf_url := url, pf_json_fields := fs\<rparr>)))"

definition expand_identity :: "(string \<Rightarrow> string) \<Rightarrow> identity \<Rightarrow> secret_error + identity" where
  "expand_identity env i =
     bind_res (map_err (IdentityRef (id_id i)) (expand env (cr_value (id_credential i)))) (\<lambda>v.
     bind_res (map_option_res (expand_preflight env) (id_preflight i)) (\<lambda>p.
       Inr ((set_credential_value i v)\<lparr>id_preflight := p\<rparr>)))"

definition expand_identities :: "(string \<Rightarrow> string) \<Rightarrow> identity list \<Rightarrow> secret_error + identity list" where
  "expand_identities env ids = map_res (expand_identity env) ids"

definition expand_verification :: "(string \<Rightarrow> string) \<Rightarrow> write_verification \<Rightarrow> secret_error + write_verification" where
  "expand_verification env wv =
     bind_res (map_err InVerification (expand_identity env (wv_identity wv))) (\<lambda>i.
     bind_res (map_err InVerification (expand_request env (wv_request wv))) (\<lambda>rq.
     bind_res (map_option_res (\<lambda>s. bind_res (map_err InReset (expand_request env (ss_request s)))
                 (\<lambda>q. Inr (s\<lparr>ss_request := q\<rparr>))) (wv_reset wv)) (\<lambda>reset.
       Inr (wv\<lparr>wv_identity := i, wv_request := rq, wv_reset := reset\<rparr>))))"

text \<open>The assertion values are expanded as the body of a request.\<close>

definition expand_expected :: "(string \<Rightarrow> string) \<Rightarrow> expected_access \<Rightarrow> secret_error + expected_access" where
  "expand_expected env ea =
     bind_res (map_res (\<lambda>r. bind_res (expand_body env (ra_equals r)) (\<lambda>e. Inr (r\<lparr>ra_equals := e\<rparr>))) (ea_assertions ea))
       (\<lambda>rules. Inr (ea\<lparr>ea_assertions := rules\<rparr>))"

definition expand_case :: "(string \<Rightarrow> string) \<Rightarrow> test_case \<Rightarrow> secret_error + test_case" where
  "expand_case env tc =
     bind_res (expand_identities env (tc_identities tc)) (\<lambda>ids.
     bind_res (map_option_res (expand_verification env) (tc_verification tc)) (\<lambda>wv.
     bind_res (expand_request env (tc_request tc)) (\<lambda>rq.
     bind_res (map_res (\<lambda>s. bind_res (expand_request env (ss_request s)) (\<lambda>q. Inr (s\<lparr>ss_request := q\<rparr>))) (tc_setup tc)) (\<lambda>setup.
     bind_res (map_res (expand_expected env) (tc_expected tc)) (\<lambda>expected.
     bind_res (map_option_res (\<lambda>wv. bind_res (expand_body env (wv_changed_to wv))
                 (\<lambda>c. Inr (wv\<lparr>wv_changed_to := c\<rparr>))) wv) (\<lambda>wv'.
       Inr (tc\<lparr>tc_identities := ids, tc_verification := wv', tc_request := rq, tc_setup := setup,
               tc_expected := expected\<rparr>)))))))"

section \<open>No reference expands to nothing\<close>

fun ref_text :: "segment \<Rightarrow> string" where
  "ref_text (Lit w) = w"
| "ref_text (Var n) = ''${'' @ n @ ''}''"

fun ref_ok :: "segment \<Rightarrow> bool" where
  "ref_ok (Lit w) \<longleftrightarrow> CHR ''$'' \<notin> set w"
| "ref_ok (Var n) \<longleftrightarrow> CHR ''}'' \<notin> set n \<and> n \<noteq> []"

fun ref_value :: "(string \<Rightarrow> string) \<Rightarrow> segment \<Rightarrow> expand_error + string" where
  "ref_value env (Lit w) = Inr w"
| "ref_value env (Var n) = (if env n = [] then Inl (UnsetRef n) else Inr (env n))"

definition refs_text :: "segment list \<Rightarrow> string" where
  "refs_text ts = concat (map ref_text ts)"

lemma index_of_char: "c \<notin> set a \<Longrightarrow> index_of [c] (a @ c # b) = Some (length a)"
  by (induction a) (auto simp: has_prefix_iff)

lemma expand_copy:
  assumes "CHR ''$'' \<notin> set a"
  shows "expand env (a @ b) = (case expand env b of Inl e \<Rightarrow> Inl e | Inr r \<Rightarrow> Inr (a @ r))"
proof (cases "index_of ''${'' b")
  case None
  then have "index_of ''${'' (a @ b) = None" using index_of_no_first [OF assms] by simp
  then show ?thesis using None by (subst (1 2) expand.simps) simp
next
  case (Some i)
  then have "index_of ''${'' (a @ b) = Some (length a + i)" using index_of_no_first [OF assms] by simp
  moreover have "drop (length a + n) (a @ b) = drop n b" "take (length a + n) (a @ b) = a @ take n b" for n by simp_all
  ultimately show ?thesis
    using Some by (subst (1 2) expand.simps) (auto simp: Let_def add.assoc split: option.split sum.split)
qed

lemma expand_ref:
  assumes "CHR ''}'' \<notin> set n" "n \<noteq> []"
  shows "expand env (''${'' @ n @ ''}'' @ b) =
    (if env n = [] then Inl (UnsetRef n) else case expand env b of Inl e \<Rightarrow> Inl e | Inr r \<Rightarrow> Inr (env n @ r))"
proof -
  have "index_of ''}'' (''${'' @ n @ ''}'' @ b) = Some (2 + length n)"
    using index_of_char [of "CHR ''}''" "''${'' @ n" b] assms(1) by simp
  moreover have "index_of ''${'' (''${'' @ n @ ''}'' @ b) = Some 0"
    using index_of_prefix [of "''${''"] by metis
  ultimately show ?thesis
    using assms(2) by (subst expand.simps) (simp del: index_of.simps split: sum.split)
qed

text \<open>
  A reference never becomes a blank credential: text with references to variables that
  are all set and not empty expands to the same text with their values, verbatim and once;
  if any of them is unset or empty the expansion fails, naming the first.
\<close>

theorem expand_exact:
  assumes "\<forall>t\<in>set ts. ref_ok t"
  shows "expand env (refs_text ts) = (case map_res (ref_value env) ts of Inl e \<Rightarrow> Inl e | Inr vs \<Rightarrow> Inr (concat vs))"
  using assms
proof (induction ts)
  case Nil
  then show ?case by (subst expand.simps) (simp add: refs_text_def)
next
  case (Cons t ts)
  then have IH: "expand env (refs_text ts) = (case map_res (ref_value env) ts of Inl e \<Rightarrow> Inl e | Inr vs \<Rightarrow> Inr (concat vs))"
    by simp
  have parts: "refs_text (t # ts) = ref_text t @ refs_text ts" by (simp add: refs_text_def)
  show ?case
  proof (cases t)
    case (Lit w)
    then show ?thesis using Cons.prems expand_copy [of w env "refs_text ts"]
      unfolding parts by (auto simp: IH bind_res_def split: sum.split)
  next
    case (Var n)
    then show ?thesis using Cons.prems expand_ref [of n env "refs_text ts"]
      unfolding parts by (auto simp: IH bind_res_def split: sum.split)
  qed
qed

lemma expand_exact_witness:
  "expand (\<lambda>n. if n = ''TOKEN'' then ''${TOKEN}'' else []) ''Bearer ${TOKEN}!'' = Inr ''Bearer ${TOKEN}!''
   \<and> expand (\<lambda>n. []) ''Bearer ${TOKEN}!'' = Inl (UnsetRef ''TOKEN'')"
proof -
  let ?ts = "[Lit ''Bearer '', Var ''TOKEN'', Lit ''!'']" and ?e = "\<lambda>n. if n = ''TOKEN'' then ''${TOKEN}'' else ([] :: string)"
  have ok: "\<forall>t\<in>set ?ts. ref_ok t" and flat: "refs_text ?ts = ''Bearer ${TOKEN}!''"
    and v: "map_res (ref_value ?e) ?ts = Inr [''Bearer '', ''${TOKEN}'', ''!'']"
      "map_res (ref_value (\<lambda>n. [])) ?ts = Inl (UnsetRef ''TOKEN'')" by code_simp+
  show ?thesis
    using expand_exact [OF ok, of ?e] expand_exact [OF ok, of "\<lambda>n. []"] unfolding flat v by simp
qed

section \<open>An expanded body reads back\<close>

lemma obj_put_append_sorted:
  "sorted_wrt (<) (map fst (acc @ [(k, v)])) \<Longrightarrow> obj_put k v acc = acc @ [(k, v)]"
  by (induction k v acc rule: obj_put.induct) (auto simp: sorted_wrt_append)

text \<open>The values that encoding a decoded value keeps: the bytes of a string that are not UTF-8 become the replacement character.\<close>

fun repair_value :: "gval \<Rightarrow> gval"
and repair_values :: "gval list \<Rightarrow> gval list"
and repair_pairs :: "(string \<times> gval) list \<Rightarrow> (string \<times> gval) list" where
  "repair_value (GStr w) = GStr (repair w)"
| "repair_value (GArr vs) = GArr (repair_values vs)"
| "repair_value (GObj ps) = GObj (repair_pairs ps)"
| "repair_value v = v"
| "repair_values [] = []"
| "repair_values (v # vs) = repair_value v # repair_values vs"
| "repair_pairs [] = []"
| "repair_pairs ((k, v) # ps) = (k, repair_value v) # repair_pairs ps"

text \<open>Values with keys in UTF-8 and in ascending order, and numbers that are literals.\<close>

fun keyed :: "gval \<Rightarrow> bool"
and keyeds :: "gval list \<Rightarrow> bool"
and keyed_pairs :: "(string \<times> gval) list \<Rightarrow> bool" where
  "keyed (GNum w) = num_text w"
| "keyed (GArr vs) = keyeds vs"
| "keyed (GObj ps) = (sorted_wrt (<) (map fst ps) \<and> keyed_pairs ps)"
| "keyed _ = True"
| "keyeds [] = True"
| "keyeds (v # vs) = (keyed v \<and> keyeds vs)"
| "keyed_pairs [] = True"
| "keyed_pairs ((k, v) # ps) = (utf8_valid k \<and> keyed v \<and> keyed_pairs ps)"

lemma fst_repair_pairs [simp]: "map fst (repair_pairs ps) = map fst ps"
  by (induction ps) auto

lemma keyed_nums:
  "keyed v \<Longrightarrow> nums_ok (json_of v)"
  "keyeds vs \<Longrightarrow> nums_oks (jsons_of vs)"
  "keyed_pairs ps \<Longrightarrow> nums_okm (jmembers_of ps)"
  by (induction v and vs and ps rule: json_of_jsons_of_jmembers_of.induct) auto

lemma to_gval_repaired:
  "keyed v \<Longrightarrow> to_gval Some (repair_json (json_of v)) = Some (repair_value v)"
  "keyeds vs \<Longrightarrow> to_gvals Some (repair_jsons (jsons_of vs)) = Some (repair_values vs)"
  "keyed_pairs ps \<Longrightarrow> sorted_wrt (<) (map fst (acc @ ps)) \<Longrightarrow>
     to_members Some (repair_members (jmembers_of ps)) acc = Some (acc @ repair_pairs ps)"
proof (induction v and vs and ps arbitrary: and and acc rule: json_of_jsons_of_jmembers_of.induct)
  case (10 k v ps)
  then have "sorted_wrt (<) (map fst (acc @ [(k, repair_value v)]))" by (auto simp: sorted_wrt_append)
  then show ?case using 10 by (simp add: obj_put_append_sorted repair_valid)
qed simp_all

lemma keyed_obj_put: "keyed_pairs m \<Longrightarrow> utf8_valid k \<Longrightarrow> keyed v \<Longrightarrow> keyed_pairs (obj_put k v m)"
  by (induction k v m rule: obj_put.induct) auto

lemma depth_obj_put: "members_depth (jmembers_of (obj_put k v m)) \<le> max (json_depth (json_of v)) (members_depth (jmembers_of m))"
  by (induction k v m rule: obj_put.induct) auto

text \<open>A document gives such a value, no deeper than itself.\<close>

lemma to_gval_keyed:
  "to_gval num j = Some v \<Longrightarrow> num = Some \<Longrightarrow> json_ok j \<Longrightarrow> keyed v \<and> json_depth (json_of v) \<le> json_depth j"
  "to_gvals num js = Some vs \<Longrightarrow> num = Some \<Longrightarrow> jsons_ok js \<Longrightarrow> keyeds vs \<and> elems_depth (jsons_of vs) \<le> elems_depth js"
  "to_members num ps acc = Some m \<Longrightarrow> num = Some \<Longrightarrow> jmembers_ok ps \<Longrightarrow>
     sorted_wrt (<) (map fst acc) \<Longrightarrow> keyed_pairs acc \<Longrightarrow>
     sorted_wrt (<) (map fst m) \<and> keyed_pairs m
       \<and> members_depth (jmembers_of m) \<le> max (members_depth ps) (members_depth (jmembers_of acc))"
proof (induction num j and num js and num ps acc arbitrary: v and vs and m
    rule: to_gval_to_gvals_to_members.induct)
  case (10 num k j ps acc)
  then obtain v where v: "to_gval num j = Some v" "to_members num ps (obj_put k v acc) = Some m"
    by (auto split: option.splits)
  with 10 have "keyed v \<and> json_depth (json_of v) \<le> json_depth j" by simp
  moreover from this 10 v have "sorted_wrt (<) (map fst m) \<and> keyed_pairs m
      \<and> members_depth (jmembers_of m) \<le> max (members_depth ps) (members_depth (jmembers_of (obj_put k v acc)))"
    by (intro "10.IH"(2)) (simp_all add: sorted_obj_put keyed_obj_put)
  ultimately show ?case using depth_obj_put [of k v acc] by auto
next
  case (8 num j js)
  then obtain v vs' where v: "to_gval num j = Some v" "to_gvals num js = Some vs'" "vs = v # vs'"
    by (auto split: option.splits)
  with 8 have "keyed v \<and> json_depth (json_of v) \<le> json_depth j"
    "keyeds vs' \<and> elems_depth (jsons_of vs') \<le> elems_depth js" by simp_all
  then show ?case using v(3) by auto
qed (auto split: option.splits)

text \<open>Expansion touches only the string values.\<close>

lemma expanded_members_keys: "expand_members env ps = Inr qs \<Longrightarrow> map fst qs = map fst ps"
  by (induction ps arbitrary: qs) (auto simp: bind_res_eq_Inr)

lemma expanded_keyed:
  "expand_strings env v = Inr w \<Longrightarrow> keyed v \<Longrightarrow> keyed w \<and> json_depth (json_of w) = json_depth (json_of v)"
  "expand_elems env vs = Inr ws \<Longrightarrow> keyeds vs \<Longrightarrow> keyeds ws \<and> elems_depth (jsons_of ws) = elems_depth (jsons_of vs)"
  "expand_members env ps = Inr qs \<Longrightarrow> keyed_pairs ps \<Longrightarrow>
     keyed_pairs qs \<and> members_depth (jmembers_of qs) = members_depth (jmembers_of ps)"
  by (induction env v and env vs and env ps arbitrary: w and ws and qs
      rule: expand_strings_expand_elems_expand_members.induct)
     (simp_all add: bind_res_eq_Inr, (force simp: expanded_members_keys)+)

text \<open>Where every variable is UTF-8, so is every expanded string.\<close>

lemma expand_valid:
  "expand env s = Inr r \<Longrightarrow> \<forall>n. utf8_valid (env n) \<Longrightarrow> utf8_valid s \<Longrightarrow> utf8_valid r"
proof (induction env s arbitrary: r rule: expand.induct)
  case (1 env s)
  show ?case
  proof (cases "index_of ''${'' s")
    case None
    then show ?thesis using "1.prems" by (subst (asm) expand.simps) simp
  next
    case (Some i)
    then obtain e where e: "index_of ''}'' (drop i s) = Some e"
      using "1.prems"(1) by (subst (asm) expand.simps) (auto split: option.splits)
    let ?name = "take (e - 2) (drop (i + 2) s)"
    obtain r' where r': "expand env (drop (i + e + 1) s) = Inr r'" "r = take i s @ env ?name @ r'" "?name \<noteq> []" "env ?name \<noteq> []"
      using "1.prems"(1) Some e by (subst (asm) expand.simps) (auto simp: Let_def split: if_splits sum.splits)
    have "s = take i s @ CHR ''$'' # CHR ''{'' # drop (i + 2) s"
      using index_of_split [OF Some] by simp
    then have a: "utf8_valid (take i s)" using cut_at_ascii "1.prems"(3) by (metis ascii_chars(1))
    have "drop i s = take e (drop i s) @ CHR ''}'' # drop (e + 1) (drop i s)"
      using index_of_split [OF e] by simp
    then have "s = (take i s @ take e (drop i s)) @ CHR ''}'' # drop (i + e + 1) s"
      by (metis append.assoc append_take_drop_id drop_drop add.commute add.assoc)
    then have "utf8_valid (drop (i + e + 1) s)" using cut_at_ascii "1.prems"(3) by (metis ascii_chars(2))
    then have "utf8_valid r'" using "1.IH" [OF Some e refl r'(3,4)] r'(1) "1.prems"(2) by simp
    then show ?thesis using a "1.prems"(2) r'(2) utf8_valid_append by simp
  qed
qed

lemma json_ok_obj_put: "jmembers_ok (jmembers_of m) \<Longrightarrow> utf8_valid k \<Longrightarrow> json_ok (json_of v) \<Longrightarrow>
    jmembers_ok (jmembers_of (obj_put k v m))"
  by (induction k v m rule: obj_put.induct) auto

lemma to_gval_json_ok:
  "to_gval num j = Some v \<Longrightarrow> num = Some \<Longrightarrow> json_ok j \<Longrightarrow> json_ok (json_of v)"
  "to_gvals num js = Some vs \<Longrightarrow> num = Some \<Longrightarrow> jsons_ok js \<Longrightarrow> jsons_ok (jsons_of vs)"
  "to_members num ps acc = Some m \<Longrightarrow> num = Some \<Longrightarrow> jmembers_ok ps \<Longrightarrow> jmembers_ok (jmembers_of acc) \<Longrightarrow>
     jmembers_ok (jmembers_of m)"
proof (induction num j and num js and num ps acc arbitrary: v and vs and m
    rule: to_gval_to_gvals_to_members.induct)
  case (10 num k j ps acc)
  then show ?case by (auto simp: json_ok_obj_put split: option.splits)
qed (auto split: option.splits)

lemma expanded_json_ok:
  "expand_strings env v = Inr w \<Longrightarrow> \<forall>n. utf8_valid (env n) \<Longrightarrow> json_ok (json_of v) \<Longrightarrow> json_ok (json_of w)"
  "expand_elems env vs = Inr ws \<Longrightarrow> \<forall>n. utf8_valid (env n) \<Longrightarrow> jsons_ok (jsons_of vs) \<Longrightarrow> jsons_ok (jsons_of ws)"
  "expand_members env ps = Inr qs \<Longrightarrow> \<forall>n. utf8_valid (env n) \<Longrightarrow> jmembers_ok (jmembers_of ps) \<Longrightarrow>
     jmembers_ok (jmembers_of qs)"
  by (induction env v and env vs and env ps arbitrary: w and ws and qs
      rule: expand_strings_expand_elems_expand_members.induct)
     (auto simp: bind_res_eq_Inr intro: expand_valid)

lemma repair_value_ok:
  "json_ok (json_of v) \<Longrightarrow> repair_value v = v"
  "jsons_ok (jsons_of vs) \<Longrightarrow> repair_values vs = vs"
  "jmembers_ok (jmembers_of ps) \<Longrightarrow> repair_pairs ps = ps"
  by (induction v and vs and ps rule: json_of_jsons_of_jmembers_of.induct) (simp_all add: repair_valid)

text \<open>
  C23. A secret cannot break out of a JSON body, whatever bytes it holds: when a body with
  references is expanded, the text that is sent decodes to the decoded body with its string
  values expanded, and nothing else in it has changed; only bytes that are not UTF-8 arrive
  as the replacement character, so where all variables are UTF-8 the values are exactly the
  expanded ones.
\<close>

theorem expanded_body_reads_back:
  assumes "expand_body env raw = Inr out" and "contains raw ''${''"
  shows "\<exists>v w. unmarshal_any Some raw = Some v \<and> expand_strings env v = Inr w
    \<and> unmarshal_any Some out = Some (repair_value w)
    \<and> ((\<forall>n. utf8_valid (env n)) \<longrightarrow> unmarshal_any Some out = Some w)"
proof -
  have "raw \<noteq> []" using assms(2) by (auto simp: contains_def)
  then obtain v w where v: "unmarshal_any Some raw = Some v" "expand_strings env v = Inr w" "out = marshal_any w"
    using assms(1,2) by (auto simp: expand_body_def bind_res_eq_Inr split: option.splits)
  then obtain j where j: "json_parse raw = Some j" "to_gval Some j = Some v"
    by (auto simp: unmarshal_any_def split: option.splits)
  note ok = json_parse_ok [OF j(1)]
  have w: "keyed w" "json_depth (json_of w) \<le> max_nesting"
    using to_gval_keyed(1) [OF j(2) refl ok(1)] expanded_keyed(1) [OF v(2)] ok(2) by auto
  then have rt: "unmarshal_any Some out = Some (repair_value w)"
    using json_parse_written [OF keyed_nums(1) [OF w(1)]] to_gval_repaired(1) [OF w(1)] v(3)
    by (simp add: unmarshal_any_def marshal_any_def)
  have "repair_value w = w" if "\<forall>n. utf8_valid (env n)"
    using expanded_json_ok(1) [OF v(2) that to_gval_json_ok(1) [OF j(2) refl ok(1)]] repair_value_ok(1) by blast
  then show ?thesis using v(1,2) rt by auto
qed

lemma expanded_body_reads_back_witness:
  "\<exists>out. expand_body (\<lambda>n. [CHR 0x22, CHR 0xFF]) ''[\"${P}\"]'' = Inr out
     \<and> unmarshal_any Some out = Some (GArr [GStr (CHR 0x22 # replacement)])"
proof -
  let ?e = "\<lambda>n :: string. [CHR 0x22, CHR 0xFF]"
  have u: "unmarshal_any Some ''[\"${P}\"]'' = Some (GArr [GStr ''${P}''])"
    and c: "contains ''[\"${P}\"]'' ''${''"
    and x: "expand ?e ''${P}'' = Inr [CHR 0x22, CHR 0xFF]"
    and r: "repair [CHR 0x22, CHR 0xFF] = CHR 0x22 # replacement" by code_simp+
  then have e: "expand_strings ?e (GArr [GStr ''${P}'']) = Inr (GArr [GStr [CHR 0x22, CHR 0xFF]])" by simp
  then obtain out where out: "expand_body ?e ''[\"${P}\"]'' = Inr out"
    using c by (simp add: expand_body_def u)
  from expanded_body_reads_back [OF out c] out show ?thesis unfolding u using e r by auto
qed

end
