(* ===== verification/Client.thy ===== *)
theory Client
  imports Executor RequestGuard UrlCheck GoQuery
begin

text \<open>
  \<open>internal/client/client.go\<close>: the production executor. One call asks the guard, checks the
  URL, builds the request, sends it and reads a bounded response. The transport
  (\<open>http.Client.Do\<close>, the body stream and the context) is the record \<open>transport\<close>, whose
  functions are arbitrary; DNS is the argument of \<open>dial_target\<close>.
\<close>

section \<open>Headers of \<open>net/http\<close>\<close>

definition token_char :: "char \<Rightarrow> bool" where
  "token_char c \<longleftrightarrow> is_lower c \<or> is_upper c \<or> is_digit c \<or> c \<in> set ''!#$%&*+-.^_`|~'' \<or> byte_of c = 39"

fun canonical_loop :: "bool \<Rightarrow> string \<Rightarrow> string" where
  "canonical_loop up [] = []"
| "canonical_loop up (c # cs) = (if up then upper_char c else lower_char c) # canonical_loop (c = CHR ''-'') cs"

text \<open>\<open>CanonicalHeaderKey\<close>: a name that is no token is left as it is.\<close>

definition canonical_key :: "string \<Rightarrow> string" where
  "canonical_key k = (if list_all token_char k then canonical_loop True k else k)"

definition header_set :: "string \<Rightarrow> string \<Rightarrow> (string \<times> string) list \<Rightarrow> (string \<times> string) list" where
  "header_set k v h = amap_put (canonical_key k) v h"

definition header_get :: "(string \<times> string) list \<Rightarrow> string \<Rightarrow> string" where
  "header_get h k = (case amap_get h (canonical_key k) of Some v \<Rightarrow> v | None \<Rightarrow> [])"

section \<open>Configuration and transport\<close>

record client_config =
  cc_timeout :: int
  cc_max_body :: int
  cc_allow_private :: bool

definition default_timeout :: int where
  "default_timeout = 30 * 1000000000"

definition default_max_body :: int where
  "default_max_body = 5 * 1024 * 1024"

definition with_defaults :: "client_config \<Rightarrow> client_config" where
  "with_defaults c = c\<lparr>cc_timeout := (if cc_timeout c = 0 then default_timeout else cc_timeout c),
     cc_max_body := (if cc_max_body c = 0 then default_max_body else cc_max_body c)\<rparr>"

record http_request =
  hr_method :: string
  hr_url :: go_url
  hr_headers :: "(string \<times> string) list"
  hr_body :: "string option"

text \<open>A response: the body is what can be read before the end or before a read error.\<close>

record http_response =
  hp_status :: int
  hp_headers :: "(string \<times> string) list"
  hp_body :: string
  hp_read_error :: "string option"

record 'w transport =
  tr_do :: "http_request \<Rightarrow> int \<Rightarrow> 'w \<Rightarrow> ((string + http_response) \<times> int) \<times> 'w"
  tr_cancelled :: "'w \<Rightarrow> bool \<times> 'w"

section \<open>Building the request\<close>

definition apply_credential :: "credential \<Rightarrow> (string \<times> string) list \<Rightarrow> (string \<times> string) list" where
  "apply_credential c h = (case cr_type c of
     Bearer \<Rightarrow> header_set ''Authorization'' (''Bearer '' @ cr_value c) h
   | APIKeyHeader \<Rightarrow> header_set (if cr_header c = [] then ''X-API-Key'' else cr_header c) (cr_value c) h
   | StaticHeader \<Rightarrow> (if cr_header c \<noteq> [] then header_set (cr_header c) (cr_value c) h else h)
   | _ \<Rightarrow> h)"

text \<open>\<open>http.NewRequestWithContext\<close>: an empty method is GET, any other must be a token.\<close>

definition new_request :: "golib \<Rightarrow> string \<Rightarrow> string \<Rightarrow> string option \<Rightarrow> string + http_request" where
  "new_request L m url body =
     (let m' = (if m = [] then ''GET'' else m) in
      if \<not> list_all token_char m' then Inl ''net/http: invalid method''
      else case gl_url_parse L url of None \<Rightarrow> Inl ''parse url''
       | Some u \<Rightarrow> Inr \<lparr>hr_method = m', hr_url = u, hr_headers = [], hr_body = body\<rparr>)"

definition merge_query :: "(string \<times> string) list \<Rightarrow> go_url \<Rightarrow> go_url" where
  "merge_query ps u = (if ps = [] then u else u\<lparr>u_raw_query :=
     encode_values (foldl (\<lambda>q (k, v). obj_put k [v] q) (parse_query (u_raw_query u)) ps)\<rparr>)"

definition build_headers :: "identity \<Rightarrow> request_template \<Rightarrow> (string \<times> string) list" where
  "build_headers i rq =
     (let h = apply_credential (id_credential i) (foldl (\<lambda>h (k, v). header_set k v h) [] (rq_headers rq)) in
      if rq_body rq \<noteq> [] \<and> header_get h ''Content-Type'' = []
      then header_set ''Content-Type'' ''application/json'' h else h)"

definition build_request :: "golib \<Rightarrow> identity \<Rightarrow> request_template \<Rightarrow> string + http_request" where
  "build_request L i rq =
     bind_res (new_request L (rq_method rq) (rq_url rq) (if rq_body rq = [] then None else Some (rq_body rq)))
       (\<lambda>r. Inr (r\<lparr>hr_headers := build_headers i rq, hr_url := merge_query (rq_query rq) (hr_url r)\<rparr>))"

definition selected_names :: "string list" where
  "selected_names = [''Content-Type'', ''WWW-Authenticate'', ''X-Request-Id'', ''X-RateLimit-Remaining'',
     ''Access-Control-Allow-Origin'', ''Access-Control-Allow-Credentials'']"

definition selected_headers :: "(string \<times> string) list \<Rightarrow> (string \<times> string) list" where
  "selected_headers h = filter (\<lambda>kv. snd kv \<noteq> []) (map (\<lambda>k. (k, header_get h k)) selected_names)"

section \<open>Execute\<close>

definition failed :: "string \<Rightarrow> string \<Rightarrow> error_kind \<Rightarrow> execution_result" where
  "failed i msg k = (empty_execution i)\<lparr>er_error := msg, er_error_kind := k, er_outcome := OError\<rparr>"

fun url_error_text :: "url_error \<Rightarrow> string" where
  "url_error_text UrlParse = ''invalid url''"
| "url_error_text (SchemeNotAllowed s) = ''scheme not allowed; use http or https''"
| "url_error_text NoHost = ''url has no host''"
| "url_error_text (BlockedIp e) = ''address is not allowed''"

definition phase_name :: "phase \<Rightarrow> string" where
  "phase_name ph = (case ph of PhSetup \<Rightarrow> ''setup'' | PhPreflight \<Rightarrow> ''preflight''
     | PhVerification \<Rightarrow> ''verification'' | PhReset \<Rightarrow> ''reset'' | PhResource \<Rightarrow> ''resource'')"

text \<open>The bounded read and what becomes of the response.\<close>

definition read_response :: "client_config \<Rightarrow> string \<Rightarrow> http_response \<Rightarrow> execution_result" where
  "read_response cfg i p =
     (let body = take (nat (cc_max_body cfg + 1)) (hp_body p) in
      case (if length body < nat (cc_max_body cfg + 1) then hp_read_error p else None) of
        Some e \<Rightarrow> failed i (''read body: '' @ e) EKBodyRead
      | None \<Rightarrow>
          if cc_max_body cfg < int (length body)
          then failed i ''response body exceeded maximum'' EKBodySizeExceeded
          else (empty_execution i)\<lparr>er_status := hp_status p, er_outcome := classify_outcome (hp_status p) False,
                 er_body := body, er_headers := selected_headers (hp_headers p)\<rparr>)"

text \<open>From the URL check on; the guard has agreed.\<close>

definition send :: "golib \<Rightarrow> (string \<Rightarrow> ip option) \<Rightarrow> client_config \<Rightarrow> 'w transport \<Rightarrow> identity \<Rightarrow> request_template
    \<Rightarrow> 'w \<Rightarrow> execution_result \<times> 'w" where
  "send L parse_ip cfg T i rq w =
     (case check_url L parse_ip (rq_url rq) (cc_allow_private cfg) of
        Inl e \<Rightarrow> (failed (id_id i) (url_error_text e) EKUrlValidation, w)
      | Inr _ \<Rightarrow>
          (case build_request L i rq of
             Inl e \<Rightarrow> (failed (id_id i) (''build request: '' @ e) EKBuildRequest, w)
           | Inr hr \<Rightarrow>
               (case tr_do T hr (cc_timeout cfg) w of
                  ((Inl e, ms), w') \<Rightarrow> ((failed (id_id i) (''execute request: '' @ e) EKNetwork)\<lparr>er_duration := ms\<rparr>, w')
                | ((Inr p, ms), w') \<Rightarrow> ((read_response cfg (id_id i) p)\<lparr>er_duration := ms\<rparr>, w'))))"

definition execute :: "golib \<Rightarrow> (string \<Rightarrow> ip option) \<Rightarrow> client_config \<Rightarrow> 'w transport \<Rightarrow> phase \<Rightarrow> identity
    \<Rightarrow> request_template \<Rightarrow> guard option \<times> 'w \<Rightarrow> execution_result \<times> (guard option \<times> 'w)" where
  "execute L parse_ip cfg T ph i rq gw =
     (case fst gw of
        None \<Rightarrow> (case send L parse_ip cfg T i rq (snd gw) of (r, w') \<Rightarrow> (r, (None, w')))
      | Some g \<Rightarrow>
          (case tr_cancelled T (snd gw) of (c, w1) \<Rightarrow>
             case allow g (phase_name ph, c, id_id i, rq) of (ok, g') \<Rightarrow>
               if \<not> ok then (failed (id_id i) ''authorization request projection denied'' EKUrlValidation, (Some g', w1))
               else case send L parse_ip cfg T i rq w1 of (r, w') \<Rightarrow> (r, (Some g', w'))))"

definition client_executor :: "golib \<Rightarrow> (string \<Rightarrow> ip option) \<Rightarrow> client_config \<Rightarrow> 'w transport
    \<Rightarrow> (guard option \<times> 'w) executor" where
  "client_executor L parse_ip cfg T = \<lparr>ex_call = execute L parse_ip (with_defaults cfg) T,
     ex_poll = (\<lambda>gw. case tr_cancelled T (snd gw) of (c, w') \<Rightarrow> (c, (fst gw, w')))\<rparr>"

text \<open>\<open>Redact\<close>.\<close>

definition redact_credential :: "credential \<Rightarrow> credential" where
  "redact_credential c = (if cr_value c \<noteq> [] then c\<lparr>cr_value := ''[REDACTED]''\<rparr> else c)"

section \<open>Dialing\<close>

datatype dial_error = BadHostPort | CannotResolve string | NoAddresses | TargetBlocked ip_error

text \<open>The \<open>DialContext\<close> of the transport: \<open>split\<close> is \<open>net.SplitHostPort\<close>, \<open>lookup\<close> the resolver.\<close>

definition dial_target :: "(string \<Rightarrow> (string \<times> string) option) \<Rightarrow> (string \<Rightarrow> string + ip list) \<Rightarrow> bool
    \<Rightarrow> string \<Rightarrow> dial_error + ip \<times> string" where
  "dial_target split lookup allow_private addr =
     (case split addr of None \<Rightarrow> Inl BadHostPort
      | Some (host, port) \<Rightarrow>
          (case lookup host of Inl e \<Rightarrow> Inl (CannotResolve e)
           | Inr addrs \<Rightarrow>
               if addrs = [] then Inl NoAddresses
               else bind_res (map_err TargetBlocked (iter_res (\<lambda>a. check_ip a allow_private) addrs))
                      (\<lambda>_. Inr (hd addrs, port))))"

section \<open>What the engine relies on\<close>

lemma failed_sel [simp]:
  "er_identity (failed i msg k) = i" "er_error (failed i msg k) = msg" "er_error_kind (failed i msg k) = k"
  "er_status (failed i msg k) = 0" "er_body (failed i msg k) = []" "er_headers (failed i msg k) = []"
  "er_outcome (failed i msg k) = OError"
  by (simp_all add: failed_def empty_execution_def)

lemma url_error_text_nonempty [simp]: "url_error_text e \<noteq> []"
  by (cases e) simp_all

text \<open>What one call returns, whatever the transport answers.\<close>

definition well_reported :: "client_config \<Rightarrow> string \<Rightarrow> execution_result \<Rightarrow> bool" where
  "well_reported cfg i r \<longleftrightarrow> er_identity r = i \<and> (er_error r = [] \<longleftrightarrow> er_error_kind r = EKNone)
     \<and> (er_error r \<noteq> [] \<longrightarrow> er_status r = 0 \<and> er_body r = [] \<and> er_headers r = [] \<and> er_outcome r = OError)
     \<and> (er_body r = [] \<or> int (length (er_body r)) \<le> cc_max_body cfg)
     \<and> (\<forall>(k, v)\<in>set (er_headers r). k \<in> set selected_names \<and> v \<noteq> [])"

lemma well_reported_failed [simp]: "msg \<noteq> [] \<Longrightarrow> k \<noteq> EKNone \<Longrightarrow> well_reported cfg i (failed i msg k)"
  by (simp add: well_reported_def)

lemma well_reported_duration [simp]: "well_reported cfg i (r\<lparr>er_duration := ms\<rparr>) = well_reported cfg i r"
  by (simp add: well_reported_def)

lemma read_response_reported: "well_reported cfg i (read_response cfg i p)"
  by (auto simp: read_response_def Let_def well_reported_def empty_execution_def selected_headers_def split: option.splits)

lemma send_reported: "send L parse_ip cfg T i rq w = (r, w') \<Longrightarrow> well_reported cfg (id_id i) r"
  by (auto simp: send_def read_response_reported split: sum.splits prod.splits)

lemma execute_reported: "execute L parse_ip cfg T ph i rq gw = (r, gw') \<Longrightarrow> well_reported cfg (id_id i) r"
  by (auto simp: execute_def dest: send_reported split: option.splits prod.splits if_splits)

interpretation client: engine_executor "client_executor L parse_ip cfg T" for L parse_ip cfg T
proof
  fix ph i rq and gw :: "guard option \<times> 'a"
  have w: "well_reported (with_defaults cfg) (id_id i) (fst (ex_call (client_executor L parse_ip cfg T) ph i rq gw))"
    using execute_reported [of L parse_ip "with_defaults cfg" T ph i rq gw] by (simp add: client_executor_def prod_eq_iff)
  then show "er_identity (fst (ex_call (client_executor L parse_ip cfg T) ph i rq gw)) = id_id i"
    by (simp add: well_reported_def)
  show "er_error (fst (ex_call (client_executor L parse_ip cfg T) ph i rq gw)) \<noteq> []"
    if "er_error_kind (fst (ex_call (client_executor L parse_ip cfg T) ph i rq gw)) \<noteq> EKNone"
    using w that by (simp add: well_reported_def)
qed

text \<open>
  The client reports without ambiguity: a result names the caller, carries a message
  precisely when it carries an error kind, and then no status, body or headers that could be
  taken for an answer; a body is never longer than the limit; and of the response headers
  only the selected ones are kept.
\<close>

theorem client_reports_honestly:
  assumes "ex_call (client_executor L parse_ip cfg T) ph i rq gw = (r, gw')"
  shows "er_identity r = id_id i \<and> (er_error r = [] \<longleftrightarrow> er_error_kind r = EKNone)
     \<and> (er_error r \<noteq> [] \<longrightarrow> er_status r = 0 \<and> er_body r = [] \<and> er_headers r = [] \<and> er_outcome r = OError)
     \<and> (er_body r = [] \<or> int (length (er_body r)) \<le> cc_max_body (with_defaults cfg))
     \<and> (\<forall>(k, v)\<in>set (er_headers r). k \<in> set selected_names \<and> v \<noteq> [])"
  using execute_reported [of L parse_ip "with_defaults cfg" T ph i rq gw r gw'] assms
  by (simp add: client_executor_def well_reported_def)

section \<open>What is sent\<close>

text \<open>A transport that records the requests it is given.\<close>

definition recording :: "'w transport \<Rightarrow> ('w \<times> http_request list) transport" where
  "recording T = \<lparr>tr_do = (\<lambda>hr t (w, log). case tr_do T hr t w of (a, w') \<Rightarrow> (a, (w', log @ [hr]))),
     tr_cancelled = (\<lambda>(w, log). case tr_cancelled T w of (c, w') \<Rightarrow> (c, (w', log)))\<rparr>"

lemma send_records:
  assumes "send L parse_ip cfg (recording T) i rq (w, log) = (r, (w', log'))"
  shows "log' = log \<or> (\<exists>hr. log' = log @ [hr] \<and> build_request L i rq = Inr hr
           \<and> check_url L parse_ip (rq_url rq) (cc_allow_private cfg) = Inr ())"
  using assms by (auto simp: send_def recording_def split: sum.splits prod.splits)

lemma recording_cancelled: "tr_cancelled (recording T) (w, log) = (c, (w', log')) \<Longrightarrow> log' = log"
  by (auto simp: recording_def split: prod.splits)

lemma execute_records:
  assumes "execute L parse_ip cfg (recording T) ph i rq (og, (w, log)) = (r, (og', (w', log')))"
  shows "(og = None \<longrightarrow> og' = None \<and> (log' = log \<or> (\<exists>hr. log' = log @ [hr] \<and> build_request L i rq = Inr hr
           \<and> check_url L parse_ip (rq_url rq) (cc_allow_private cfg) = Inr ())))
    \<and> (\<forall>g. og = Some g \<longrightarrow> (\<exists>g' c ok. og' = Some g' \<and> allow g (phase_name ph, c, id_id i, rq) = (ok, g')
         \<and> (log' = log \<or> (ok \<and> (\<exists>hr. log' = log @ [hr] \<and> build_request L i rq = Inr hr
               \<and> check_url L parse_ip (rq_url rq) (cc_allow_private cfg) = Inr ())))))"
  using assms
  by (cases og) (auto simp: execute_def split: prod.splits if_splits dest!: send_records recording_cancelled)

text \<open>
  C9. One call sends at most one request, and only with every permission: the request it sends
  is the one built from the template and the identity, its URL passed the check, and a guard,
  if there is one, has allowed exactly this phase, identity and template.
\<close>

theorem client_sends_only_what_is_allowed:
  assumes "ex_call (client_executor L parse_ip cfg (recording T)) ph i rq (og, (w, log)) = (r, (og', (w', log')))"
    and "log' \<noteq> log"
  shows "\<exists>hr. log' = log @ [hr] \<and> build_request L i rq = Inr hr
    \<and> check_url L parse_ip (rq_url rq) (cc_allow_private cfg) = Inr ()
    \<and> (\<forall>g. og = Some g \<longrightarrow> (\<exists>c g'. og' = Some g' \<and> allow g (phase_name ph, c, id_id i, rq) = (True, g')))"
  using execute_records [of L parse_ip "with_defaults cfg" T ph i rq og w log r og' w' log'] assms
  by (cases og) (auto simp: client_executor_def with_defaults_def)

definition sample_transport :: "http_response list transport" where
  "sample_transport = \<lparr>tr_do = (\<lambda>hr t w. case w of [] \<Rightarrow> ((Inl ''no answer'', 1), []) | p # ps \<Rightarrow> ((Inr p, 1), ps)),
     tr_cancelled = (\<lambda>w. (False, w))\<rparr>"

definition sample_config :: client_config where
  "sample_config = \<lparr>cc_timeout = 0, cc_max_body = 2, cc_allow_private = False\<rparr>"

definition sample_client_call :: "http_response list \<Rightarrow> execution_result \<times> (guard option \<times> (http_response list \<times> http_request list))" where
  "sample_client_call ps = ex_call (client_executor sample_net_lib (\<lambda>_. None) sample_config (recording sample_transport))
     PhResource (sample_identity ''a'' ''t'') (sample_request ''GET'' ''/o'') (None, (ps, []))"

lemma sample_client_call_eq:
  "ex_call (client_executor sample_net_lib (\<lambda>_. None) sample_config (recording sample_transport))
     PhResource (sample_identity ''a'' ''t'') (sample_request ''GET'' ''/o'') (None, (ps, []))
   = (fst (sample_client_call ps), (fst (snd (sample_client_call ps)),
       (fst (snd (snd (sample_client_call ps))), snd (snd (snd (sample_client_call ps))))))"
  by (simp add: sample_client_call_def)

lemma client_sends_only_what_is_allowed_witness:
  "\<exists>hr. snd (snd (snd (sample_client_call []))) = [hr]
     \<and> build_request sample_net_lib (sample_identity ''a'' ''t'') (sample_request ''GET'' ''/o'') = Inr hr"
proof -
  have "snd (snd (snd (sample_client_call []))) \<noteq> []" by code_simp
  from client_sends_only_what_is_allowed [OF sample_client_call_eq this] show ?thesis by auto
qed

lemma client_reports_honestly_witness:
  "er_error (fst (sample_client_call [\<lparr>hp_status = 200, hp_headers = [], hp_body = ''abc'', hp_read_error = None\<rparr>])) \<noteq> []
   \<and> er_status (fst (sample_client_call [\<lparr>hp_status = 200, hp_headers = [], hp_body = ''abc'', hp_read_error = None\<rparr>])) = 0"
proof -
  have "er_error (fst (sample_client_call [\<lparr>hp_status = 200, hp_headers = [], hp_body = ''abc'', hp_read_error = None\<rparr>])) \<noteq> []"
    by code_simp
  with client_reports_honestly [OF sample_client_call_eq] show ?thesis by blast
qed

section \<open>The credential\<close>

definition credential_header :: "credential \<Rightarrow> string option" where
  "credential_header c = (case cr_type c of Bearer \<Rightarrow> Some ''Authorization''
     | APIKeyHeader \<Rightarrow> Some (if cr_header c = [] then ''X-API-Key'' else cr_header c)
     | StaticHeader \<Rightarrow> (if cr_header c \<noteq> [] then Some (cr_header c) else None)
     | _ \<Rightarrow> None)"

definition credential_text :: "credential \<Rightarrow> string" where
  "credential_text c = (if cr_type c = Bearer then ''Bearer '' @ cr_value c else cr_value c)"

lemma apply_credential_eq: "apply_credential c h = (case credential_header c of None \<Rightarrow> h
    | Some k \<Rightarrow> header_set k (credential_text c) h)"
  by (auto simp: apply_credential_def credential_header_def credential_text_def split: cred_type.split)

lemma header_get_set [simp]: "header_get (header_set k v h) k' = (if canonical_key k' = canonical_key k then v else header_get h k')"
  by (simp add: header_get_def header_set_def)

definition template_headers :: "request_template \<Rightarrow> (string \<times> string) list" where
  "template_headers rq = foldl (\<lambda>h (k, v). header_set k v h) [] (rq_headers rq)"

text \<open>
  Every request carries the credential of its identity and nobody else's: whatever the
  template says, the credential's header has the credential's value; every other header is
  the template's, except that a body without a content type is sent as JSON.
\<close>

theorem credential_on_the_wire:
  assumes "build_request L i rq = Inr hr"
  shows "header_get (hr_headers hr) k =
    (let v = (case credential_header (id_credential i) of
                Some k' \<Rightarrow> (if canonical_key k = canonical_key k' then credential_text (id_credential i)
                           else header_get (template_headers rq) k)
              | None \<Rightarrow> header_get (template_headers rq) k) in
     if canonical_key k = ''Content-Type'' \<and> rq_body rq \<noteq> [] \<and> v = [] then ''application/json'' else v)"
proof -
  have c: "canonical_key ''Content-Type'' = ''Content-Type''" by code_simp
  have k: "canonical_key k = ''Content-Type'' \<Longrightarrow> header_get h ''Content-Type'' = header_get h k" for h
    by (simp add: header_get_def c)
  have "hr_headers hr = build_headers i rq"
    using assms by (auto simp: build_request_def bind_res_eq_Inr)
  then show ?thesis
    using k by (auto simp: build_headers_def Let_def apply_credential_eq template_headers_def [symmetric] c split: option.split)
qed

lemma credential_on_the_wire_witness:
  "\<exists>hr. build_request sample_net_lib (sample_identity ''a'' ''t'')
       ((sample_request ''GET'' ''/o'')\<lparr>rq_headers := [(''authorization'', ''Bearer stolen'')]\<rparr>) = Inr hr
     \<and> header_get (hr_headers hr) ''Authorization'' = ''Bearer t''"
proof -
  let ?i = "sample_identity ''a'' ''t''" and ?rq = "(sample_request ''GET'' ''/o'')\<lparr>rq_headers := [(''authorization'', ''Bearer stolen'')]\<rparr>"
  have "\<not> isl (build_request sample_net_lib ?i ?rq)" by code_simp
  then obtain hr where hr: "build_request sample_net_lib ?i ?rq = Inr hr"
    by (cases "build_request sample_net_lib ?i ?rq") simp_all
  have v: "(let v = (case credential_header (id_credential ?i) of
                Some k' \<Rightarrow> (if canonical_key ''Authorization'' = canonical_key k' then credential_text (id_credential ?i)
                           else header_get (template_headers ?rq) ''Authorization'')
              | None \<Rightarrow> header_get (template_headers ?rq) ''Authorization'') in
     if canonical_key ''Authorization'' = ''Content-Type'' \<and> rq_body ?rq \<noteq> [] \<and> v = [] then ''application/json'' else v) = ''Bearer t''"
    by code_simp
  show ?thesis using hr credential_on_the_wire [OF hr, of "''Authorization''"] unfolding v by (intro exI conjI)
qed

section \<open>No connection to a blocked address\<close>

text \<open>
  C20. A connection goes only to a checked address: the transport dials the first address the
  resolver returned, in the same call, and only if every returned address passed the check,
  so a name that resolves differently later, or to one good and one bad address, gains nothing.
\<close>

theorem dial_only_checked_addresses:
  assumes "dial_target split lookup allow_private addr = Inr (a, port)"
  shows "\<exists>host addrs. split addr = Some (host, port) \<and> lookup host = Inr addrs \<and> addrs \<noteq> [] \<and> a = hd addrs
    \<and> (\<forall>b\<in>set addrs. check_ip b allow_private = Inr ())"
  using assms by (auto simp: dial_target_def bind_res_eq_Inr split: option.splits prod.splits sum.splits if_splits)

lemma dial_only_checked_addresses_witness:
  "dial_target (\<lambda>s. Some (s, ''80'')) (\<lambda>h. Inr [ipv4 93 184 216 34]) False ''example.org'' = Inr (ipv4 93 184 216 34, ''80'')
   \<and> check_ip (ipv4 93 184 216 34) False = Inr ()"
proof -
  have d: "dial_target (\<lambda>s. Some (s, ''80'')) (\<lambda>h. Inr [ipv4 93 184 216 34]) False ''example.org'' = Inr (ipv4 93 184 216 34, ''80'')"
    by code_simp
  from d dial_only_checked_addresses [OF d] show ?thesis by auto
qed

end
