(* ===== verification/Guarded.thy ===== *)
theory Guarded
  imports Engine Client
begin

text \<open>
  A whole run over the production client. The locale says what it takes for a property of the
  outside world to survive a run (every call and every poll keeps it); the engine's functions
  are followed once inside it, and the interpretation on the guarded client carries the
  guard's budget from single calls to complete runs.
\<close>

section \<open>Properties of the world a run keeps\<close>

locale kept_by_calls =
  fixes X :: "'w executor" and I :: "'w \<Rightarrow> bool"
  assumes call_keeps: "I w \<Longrightarrow> I (snd (ex_call X ph i rq w))"
    and poll_keeps: "I w \<Longrightarrow> I (snd (ex_poll X w))"
begin

lemma call_kept: "ex_call X ph i rq w = (r, w') \<Longrightarrow> I w \<Longrightarrow> I w'"
  using call_keeps [of w ph i rq] by simp

lemma poll_kept: "ex_poll X w = (b, w') \<Longrightarrow> I w \<Longrightarrow> I w'"
  using poll_keeps [of w] by simp

lemma steps_kept: "run_steps L X ids ss vars w = (r, w') \<Longrightarrow> I w \<Longrightarrow> I w'"
proof (induction ss arbitrary: vars w)
  case (Cons p ss)
  then show ?case by (cases p) (auto split: sum.splits prod.splits dest: call_kept)
qed simp

lemma setup_kept: "run_setup L X tc w = (r, w') \<Longrightarrow> I w \<Longrightarrow> I w'"
  by (auto simp: run_setup_def dest: steps_kept)

lemma probes_kept: "run_probes X ids w = (rs, w') \<Longrightarrow> I w \<Longrightarrow> I w'"
proof (induction ids arbitrary: rs w)
  case (Cons i ids)
  then show ?case by (auto split: option.splits prod.splits dest: call_kept)
qed simp

lemma preflight_kept: "run_preflight X tc w = (r, w') \<Longrightarrow> I w \<Longrightarrow> I w'"
  by (auto simp: run_preflight_def split: prod.splits dest: probes_kept)

lemma observe_kept: "observe X wv after w = (r, w') \<Longrightarrow> I w \<Longrightarrow> I w'"
  by (auto simp: observe_def Let_def split: prod.splits if_splits dest!: call_kept poll_kept)

lemma read_before_kept: "read_before X wv w = (r, w') \<Longrightarrow> I w \<Longrightarrow> I w'"
  by (auto simp: read_before_def Let_def split: prod.splits if_splits dest!: observe_kept)

lemma reset_kept: "run_reset X tc wv w = (r, w') \<Longrightarrow> I w \<Longrightarrow> I w'"
  by (auto simp: run_reset_def split: prod.splits option.splits dest: call_kept)

lemma attempt_kept:
  assumes "attempt_write X wv i req a ve s w = (r, w')" "I w"
  shows "I w'"
proof -
  obtain before sts r0 w1 where rb: "read_before X wv w = ((before, sts, r0), w1)" by (metis surj_pair)
  obtain r1 s1 where cs: "check_session wv before (check_target wv before r0) s = (r1, s1)" by (metis surj_pair)
  obtain c w2 where pl: "(if r1 = RNone then ex_poll X w1 else (False, w1)) = (c, w2)" by (metis surj_pair)
  have I2: "I w2" using read_before_kept [OF rb assms(2)] pl by (auto split: if_splits dest: poll_kept)
  show ?thesis
  proof (cases "(if c then RCancelled else r1) = RNone")
    case False
    then show ?thesis using assms(1) rb cs pl I2 by (auto simp: attempt_write_def Let_def)
  next
    case True
    obtain ex w3 where call: "ex_call X PhResource i req w2 = (ex, w3)" by (metis surj_pair)
    obtain ar w4 where ob: "observe X wv True w3 = (ar, w4)" by (metis surj_pair)
    have "w' = w4" using assms(1) rb cs pl True call ob
      by (auto simp: attempt_write_def Let_def split: prod.splits if_splits)
    then show ?thesis using observe_kept [OF ob call_kept [OF call I2]] by simp
  qed
qed

lemma verified_kept:
  assumes "verified_execute X tc wv i req ea s w = (r, w')" "I w"
  shows "I w'"
proof -
  obtain c w1 where p: "ex_poll X w = (c, w1)" by (metis surj_pair)
  obtain ro w2 where rr: "run_reset X tc wv w1 = (ro, w2)" by (metis surj_pair)
  have "I w1" "I w2" using poll_kept [OF p assms(2)] reset_kept [OF rr] by blast+
  then show ?thesis using assms(1) p rr
    by (auto simp: verified_execute_def Let_def split: if_splits dest!: attempt_kept)
qed

lemma execute_one_kept: "execute_one L X tc req i st w = (st', w') \<Longrightarrow> I w \<Longrightarrow> I w'"
  by (auto simp: execute_one_def split: option.splits prod.splits dest: verified_kept call_kept)

lemma execute_all_kept: "execute_all L X tc req ids st w = (st', w') \<Longrightarrow> I w \<Longrightarrow> I w'"
  by (induction ids arbitrary: st w) (auto split: prod.splits dest: execute_one_kept)

lemma prepared_kept: "run_prepared L X tc w = (r, w') \<Longrightarrow> I w \<Longrightarrow> I w'"
  by (auto simp: run_prepared_def split: prod.splits if_splits dest: preflight_kept execute_all_kept)

lemma run_kept: "run L X tc w = (r, w') \<Longrightarrow> I w \<Longrightarrow> I w'"
  by (auto simp: run_def split: sum.splits prod.splits dest!: setup_kept prepared_kept)

end

section \<open>The guarded client\<close>

text \<open>A request on the wire that some dispatch of the plan approves.\<close>

definition planned :: "golib \<Rightarrow> (string \<Rightarrow> ip option) \<Rightarrow> bool \<Rightarrow> dispatch list \<Rightarrow> http_request \<Rightarrow> bool" where
  "planned L parse_ip private ds hr \<longleftrightarrow> (\<exists>d\<in>set ds. \<exists>i rq. id_id i = d_identity d
     \<and> dispatch_matches (d_phase d) (d_identity d) rq d
     \<and> build_request L i rq = Inr hr \<and> check_url L parse_ip (rq_url rq) private = Inr ())"

definition within_plan :: "golib \<Rightarrow> (string \<Rightarrow> ip option) \<Rightarrow> bool \<Rightarrow> plan
    \<Rightarrow> guard option \<times> ('w \<times> http_request list) \<Rightarrow> bool" where
  "within_plan L parse_ip private p gw \<longleftrightarrow> (case gw of (og, (w, sent)) \<Rightarrow>
     \<exists>g. og = Some g \<and> guard_ok g \<and> g_plan g = p \<and> int (length sent) \<le> g_total g
       \<and> (\<forall>hr\<in>set sent. planned L parse_ip private (pl_dispatches p) hr))"

lemma client_keeps_plan:
  assumes "ex_call (client_executor L parse_ip cfg (recording T)) ph i rq gw = (r, gw')"
    and "within_plan L parse_ip (cc_allow_private cfg) p gw"
  shows "within_plan L parse_ip (cc_allow_private cfg) p gw'"
proof -
  obtain og w sent where gw: "gw = (og, (w, sent))" by (metis surj_pair)
  obtain og' w' sent' where gw': "gw' = (og', (w', sent'))" by (metis surj_pair)
  obtain g where g: "og = Some g" "guard_ok g" "g_plan g = p" "int (length sent) \<le> g_total g"
    "\<forall>hr\<in>set sent. planned L parse_ip (cc_allow_private cfg) (pl_dispatches p) hr"
    using assms(2) by (auto simp: within_plan_def gw)
  obtain g' c ok where a: "og' = Some g'" "allow g (phase_name ph, c, id_id i, rq) = (ok, g')"
    and sent: "sent' = sent \<or> (ok \<and> (\<exists>hr. sent' = sent @ [hr] \<and> build_request L i rq = Inr hr
       \<and> check_url L parse_ip (rq_url rq) (cc_allow_private cfg) = Inr ()))"
    using execute_records [of L parse_ip "with_defaults cfg" T ph i rq og w sent r og' w' sent'] assms(1) g(1)
    by (auto simp: client_executor_def with_defaults_def gw gw')
  note ok = allow_ok [OF a(2) g(2)]
  show ?thesis
  proof (cases ok)
    case False
    then show ?thesis using allow_False [of g _ g'] a sent g by (auto simp: within_plan_def gw')
  next
    case True
    obtain k where k: "k < length (pl_dispatches (g_plan g))"
      "dispatch_matches (phase_name ph) (id_id i) rq (pl_dispatches (g_plan g) ! k)" "g_total g' = g_total g + 1"
      using a(2) True by (auto elim!: allow_True)
    have "planned L parse_ip (cc_allow_private cfg) (pl_dispatches p) hr"
      if "build_request L i rq = Inr hr" "check_url L parse_ip (rq_url rq) (cc_allow_private cfg) = Inr ()" for hr
    proof -
      let ?d = "pl_dispatches p ! k"
      have "?d \<in> set (pl_dispatches p)" "dispatch_matches (phase_name ph) (id_id i) rq ?d" using k g(3) by auto
      moreover from this(2) have "d_phase ?d = phase_name ph" "d_identity ?d = id_id i"
        by (simp_all add: dispatch_matches_def)
      ultimately show ?thesis unfolding planned_def using that by metis
    qed
    then show ?thesis using sent g ok k(3) a(1) by (auto simp: within_plan_def gw')
  qed
qed

interpretation guarded: kept_by_calls "client_executor L parse_ip cfg (recording T)"
    "within_plan L parse_ip (cc_allow_private cfg) p" for L parse_ip cfg T p
proof
  fix gw :: "guard option \<times> ('a \<times> http_request list)" and ph i rq
  assume I: "within_plan L parse_ip (cc_allow_private cfg) p gw"
  show "within_plan L parse_ip (cc_allow_private cfg) p (snd (ex_call (client_executor L parse_ip cfg (recording T)) ph i rq gw))"
    using client_keeps_plan [OF _ I] by (metis prod.collapse)
  show "within_plan L parse_ip (cc_allow_private cfg) p (snd (ex_poll (client_executor L parse_ip cfg (recording T)) gw))"
    using I by (auto simp: client_executor_def recording_def within_plan_def split: prod.splits)
qed

text \<open>
  A guarded run stays inside its approved plan from beginning to end: whatever the test
  case, the answers of the servers and the moment of cancellation, the requests that reach
  the wire number at most the plan's total, and each of them was built for an identity and a
  template that a dispatch of the plan approves and went to a URL that passed the check.
\<close>

theorem guarded_run_stays_in_plan:
  assumes "new_guard L p = Some g"
    and "run L (client_executor L parse_ip cfg (recording T)) tc (Some g, (w, [])) = (res, (og', (w', sent)))"
  shows "int (length sent) \<le> pl_max p
    \<and> (\<forall>hr\<in>set sent. planned L parse_ip (cc_allow_private cfg) (map clone_dispatch (pl_dispatches p)) hr)"
proof -
  note g = new_guard_Some [OF assms(1)]
  have "within_plan L parse_ip (cc_allow_private cfg) (g_plan g) (Some g, (w, []))"
    using new_guard_ok [OF assms(1)] g(1) by (simp add: within_plan_def)
  from guarded.run_kept [OF assms(2) this] show ?thesis
    using g(1) by (auto simp: within_plan_def guard_ok_def)
qed

lemma guarded_run_stays_in_plan_witness:
  "\<exists>g res og w sent. new_guard sample_net_lib sample_plan = Some g
     \<and> run sample_net_lib (client_executor sample_net_lib (\<lambda>_. None) sample_config (recording sample_transport)) sample_case
         (Some g, ([\<lparr>hp_status = 200, hp_headers = [], hp_body = [], hp_read_error = None\<rparr>], [])) = (res, (og, (w, sent)))
     \<and> int (length sent) \<le> 1"
proof -
  obtain g where g: "new_guard sample_net_lib sample_plan = Some g" using sample_plan_guard by blast
  obtain res og w sent where r: "run sample_net_lib
      (client_executor sample_net_lib (\<lambda>_. None) sample_config (recording sample_transport)) sample_case
      (Some g, ([\<lparr>hp_status = 200, hp_headers = [], hp_body = [], hp_read_error = None\<rparr>], [])) = (res, (og, (w, sent)))"
    by (metis surj_pair)
  have "pl_max sample_plan = 1" by (simp add: sample_plan_def)
  with guarded_run_stays_in_plan [OF g r] g r show ?thesis by auto
qed

end
