(* ===== verification/Policy.thy ===== *)
theory Policy
  imports SecretRef GoNum
begin

text \<open>
  \<open>internal/policy\<close> (\<open>policy.go\<close>, \<open>profiles.go\<close>, \<open>identities.go\<close>): declarative policies and
  their compilation into test cases. The YAML decoder is a parameter, as is its reading of a
  scalar tagged as a boolean; the values it leaves undecoded are the nodes below. A Go map is
  an association list with one entry per key, a nil one is empty.
\<close>

section \<open>YAML nodes as JSON\<close>

text \<open>
  \<open>yaml.Node\<close> by its \<open>Kind\<close>: the zero node, a scalar with its tag and value, a sequence, a
  mapping (keys and values alternate in \<open>Content\<close>), an alias with its name, a document. Nodes are
  finite trees.
\<close>

datatype yaml = YZero | YScalar string string | YSeq "yaml list" | YMap "yaml list"
  | YAlias string yaml | YDocument "yaml list"

fun yaml_text :: "yaml \<Rightarrow> string" where
  "yaml_text (YScalar t v) = v"
| "yaml_text (YAlias a n) = a"
| "yaml_text _ = []"

datatype node_error = BadBool string | BadNumber string | UnsupportedNode

definition json_quote :: "string \<Rightarrow> string" where
  "json_quote w = CHR 0x22 # json_escape w @ [CHR 0x22]"

definition scalar_json :: "(string \<Rightarrow> bool option) \<Rightarrow> string \<Rightarrow> string \<Rightarrow> node_error + string" where
  "scalar_json yb t v =
     (if t = ''!!null'' then Inr ''null''
      else if t = ''!!bool'' then (case yb v of None \<Rightarrow> Inl (BadBool v) | Some b \<Rightarrow> Inr (if b then ''true'' else ''false''))
      else if t = ''!!int'' \<or> t = ''!!float'' then (if json_valid v then Inr v else Inl (BadNumber v))
      else Inr (json_quote v))"

fun node_json :: "(string \<Rightarrow> bool option) \<Rightarrow> yaml \<Rightarrow> node_error + string"
and node_parts :: "(string \<Rightarrow> bool option) \<Rightarrow> yaml list \<Rightarrow> node_error + string list"
and node_pairs :: "(string \<Rightarrow> bool option) \<Rightarrow> yaml list \<Rightarrow> node_error + string list" where
  "node_json yb (YScalar t v) = scalar_json yb t v"
| "node_json yb (YSeq ns) = bind_res (node_parts yb ns) (\<lambda>ps. Inr (''['' @ join_with '','' ps @ '']''))"
| "node_json yb (YMap ns) = bind_res (node_pairs yb ns) (\<lambda>ps. Inr (''{'' @ join_with '','' ps @ ''}''))"
| "node_json yb (YAlias a n) = node_json yb n"
| "node_json yb _ = Inl UnsupportedNode"
| "node_parts yb [] = Inr []"
| "node_parts yb (n # ns) = bind_res (node_json yb n) (\<lambda>v. bind_res (node_parts yb ns) (\<lambda>vs. Inr (v # vs)))"
| "node_pairs yb (k # n # ns) =
     bind_res (node_json yb n) (\<lambda>v. bind_res (node_pairs yb ns) (\<lambda>vs. Inr ((json_quote (yaml_text k) @ '':'' @ v) # vs)))"
| "node_pairs yb _ = Inr []"

section \<open>Policies\<close>

record setup_request_spec =
  sq_method :: string
  sq_path :: string
  sq_headers :: "(string \<times> string) list"
  sq_body :: string

record setup_spec =
  sp_name :: string
  sp_as :: string
  sp_request :: setup_request_spec
  sp_capture :: "(string \<times> string) list"

record verify_spec =
  vs_strategy :: string
  vs_after_status :: "int list"
  vs_reset :: "setup_spec option"
  vs_environment :: string
  vs_as :: string
  vs_request :: setup_request_spec
  vs_allow_unsafe :: bool
  vs_pointer :: string
  vs_changed_to :: yaml

record resource_spec =
  rc_type :: string
  rc_id_param :: string
  rc_tenant_field :: string

record api_spec =
  ap_endpoint :: string
  ap_owner :: string
  ap_resource :: resource_spec
  ap_mutating :: bool
  ap_body :: string
  ap_headers :: "(string \<times> string) list"

record json_field_spec =
  jp_path :: string
  jp_equals :: string

record deny_when_spec =
  dw_body_contains :: "string list"
  dw_json_field :: "json_field_spec option"

record assertion_spec =
  sa_status_codes :: "int list"
  sa_pointer :: string
  sa_equals :: yaml
  sa_decision :: string
  sa_roles :: "string list"

record sensitive_spec =
  sn_forbidden_for :: "string list"

record response_spec =
  re_profiles :: "string list"
  re_deny_status :: "int list"
  re_unauthorized_is_denial :: bool
  re_deny_when :: "deny_when_spec option"
  re_sensitive :: sensitive_spec
  re_assertions :: "assertion_spec list"

record denial_profile =
  dp_confirmed :: bool
  dp_endpoints :: "string list"
  dp_rules :: "assertion_spec list"

record policy =
  po_api :: api_spec
  po_setup :: "setup_spec list"
  po_expect :: "(string \<times> string) list"
  po_response :: response_spec
  po_verify :: "verify_spec option"
  po_profiles :: "(string \<times> denial_profile) list"

record bindings =
  bi_profiles :: "(string \<times> denial_profile) list"
  bi_require_preflight :: bool
  bi_test_case_id :: string
  bi_base_url :: string
  bi_params :: "(string \<times> string) list"
  bi_identities :: "identity list"
  bi_resource_tenant :: string
  bi_allow_mutating :: bool

definition verifier_role :: "policy \<Rightarrow> string" where
  "verifier_role p = (case po_verify p of None \<Rightarrow> [] | Some v \<Rightarrow> trim_space (vs_as v))"

definition deny_when_condition :: "deny_when_spec option \<Rightarrow> deny_condition option" where
  "deny_when_condition d = (case d of None \<Rightarrow> None
     | Some w \<Rightarrow>
         let cond = \<lparr>dc_body_contains = dw_body_contains w,
            dc_json_field = map_option (\<lambda>f. \<lparr>jf_path = jp_path f, jf_equals = jp_equals f\<rparr>) (dw_json_field w)\<rparr> in
         if deny_is_zero (Some cond) then None else Some cond)"

datatype decision_error = DraftDecision | InvalidDecision string

datatype policy_error =
    ParseFailed | EndpointRequired | EndpointFormat string | ExpectEmpty | ExpectInvalid string decision_error
  | BaseUrlRequired | IdentitiesRequired
  | UnterminatedVarRef string | UnterminatedParam string | MissingParam string
  | VerifierUnnamed | VerifierExpected string | VerifierTwice string | VerifierMissing string
  | VerifyPath policy_error | VerifyBody | VerifyReset policy_error | VerifyChangedTo node_error
  | VerifyExpand secret_error
  | ProfileTwice string | ProfileUnusable string | ProfileOutOfScope string | ProfileNotDeny string
  | AssertionDecision nat string | AssertionEquals nat | AssertionNode nat node_error | AssertionRole nat string
  | RoleNotExpected string string | DecisionRejected decision_error
  | StepIncomplete string | StepPath string policy_error | StepRole string string | BodyInvalid
  | IdentityWithoutId nat | IdentityWithoutRole string | IdentityExpand secret_error

definition draft_marker :: string where
  "draft_marker = ''TODO''"

definition to_decision :: "string \<Rightarrow> decision_error + access_decision" where
  "to_decision s = (let trimmed = trim_space s in
     if equal_fold trimmed draft_marker then Inl DraftDecision
     else let d = to_lower trimmed in
       if d = ''allow'' then Inr DAllow
       else if d = ''deny'' then Inr DDeny
       else if d = ''skip'' then Inr DSkip
       else Inl (InvalidDecision s))"

definition policy_method :: "policy \<Rightarrow> policy_error + string \<times> string" where
  "policy_method p = (case str_fields (ap_endpoint (po_api p)) of
       [m, path] \<Rightarrow> Inr (to_upper m, path)
     | _ \<Rightarrow> Inl (EndpointFormat (ap_endpoint (po_api p))))"

definition validate_policy :: "policy \<Rightarrow> policy_error + unit" where
  "validate_policy p =
     bind_res (guard_err (trim_space (ap_endpoint (po_api p)) = []) EndpointRequired) (\<lambda>_.
     bind_res (policy_method p) (\<lambda>_.
     bind_res (guard_err (po_expect p = []) ExpectEmpty) (\<lambda>_.
       iter_res (\<lambda>(role, d). bind_res (map_err (ExpectInvalid role) (to_decision d)) (\<lambda>_. Inr ())) (po_expect p))))"

definition parse_policy :: "(string \<Rightarrow> policy option) \<Rightarrow> string \<Rightarrow> policy_error + policy" where
  "parse_policy decode data = (case decode data of None \<Rightarrow> Inl ParseFailed
     | Some p \<Rightarrow> bind_res (validate_policy p) (\<lambda>_. Inr p))"

definition owner_role :: "policy \<Rightarrow> string" where
  "owner_role p = trim_prefix (trim_space (ap_owner (po_api p))) ''identity:''"

text \<open>The placeholders of a path; a reference to a captured variable stays as it is.\<close>

function substitute_path :: "(string \<times> string) list \<Rightarrow> string \<Rightarrow> policy_error + string" where
  "substitute_path params path =
     (case index_of ''{'' path of
        None \<Rightarrow> Inr path
      | Some i \<Rightarrow>
          if has_prefix (drop i path) ''{{'' then
            (case index_of ''}}'' (drop i path) of
               None \<Rightarrow> Inl (UnterminatedVarRef path)
             | Some e \<Rightarrow>
                 (case substitute_path params (drop (i + e + 2) path) of
                    Inl err \<Rightarrow> Inl err | Inr r \<Rightarrow> Inr (take (i + e + 2) path @ r)))
          else
            (case index_of ''}'' (drop i path) of
               None \<Rightarrow> Inl (UnterminatedParam path)
             | Some e \<Rightarrow>
                 let name = take (e - 1) (drop (i + 1) path) in
                 (case amap_get params name of
                    None \<Rightarrow> Inl (MissingParam name)
                  | Some v \<Rightarrow>
                      (case substitute_path params (drop (i + e + 1) path) of
                         Inl err \<Rightarrow> Inl err | Inr r \<Rightarrow> Inr (take i path @ v @ r)))))"
  by pat_completeness auto
termination
proof (relation "measure (\<lambda>(ps, s). length s)", goal_cases)
  case (2 params path i e)
  then show ?case using index_of_bound [of "''{''" path i] by auto
next
  case (3 params path i e name v)
  then show ?case using index_of_bound [of "''{''" path i] by auto
qed simp

declare substitute_path.simps [simp del]
definition default_id :: "string \<Rightarrow> string \<Rightarrow> string \<Rightarrow> string" where
  "default_id explicit meth path =
     (if explicit \<noteq> [] then explicit
      else trim_set (replace_bytes [(CHR ''/'', ''-''), (CHR ''{'', []), (CHR ''}'', []), (CHR '' '', ''-'')]
             (to_lower (meth @ path))) ''-'')"

section \<open>Assertions\<close>

text \<open>A compiled assertion with the roles it applies to; none means every role.\<close>

record role_assertion =
  rl_rule :: response_assertion
  rl_roles :: "string list"

definition compile_assertion :: "(string \<Rightarrow> bool option) \<Rightarrow> (string \<times> string) list \<Rightarrow> nat \<times> assertion_spec
    \<Rightarrow> policy_error + role_assertion" where
  "compile_assertion yb expect = (\<lambda>(i, a).
     let d = to_lower (trim_space (sa_decision a)) in
     bind_res (guard_err (d \<noteq> ''allow'' \<and> d \<noteq> ''deny'') (AssertionDecision i (sa_decision a))) (\<lambda>_.
     bind_res (guard_err (sa_equals a = YZero \<and> (sa_status_codes a = [] \<or> d \<noteq> ''deny'' \<or> sa_pointer a \<noteq> []))
                 (AssertionEquals i)) (\<lambda>_.
     bind_res (if sa_equals a = YZero then Inr [] else map_err (AssertionNode i) (node_json yb (sa_equals a))) (\<lambda>raw.
     bind_res (iter_res (\<lambda>r. guard_err (amap_get expect r = None) (AssertionRole i r)) (sa_roles a)) (\<lambda>_.
       Inr \<lparr>rl_rule = \<lparr>ra_status_codes = sa_status_codes a, ra_pointer = sa_pointer a, ra_equals = raw,
                        ra_decision = (if d = ''allow'' then DAllow else DDeny)\<rparr>,
            rl_roles = sa_roles a\<rparr>)))))"

definition compile_assertions :: "(string \<Rightarrow> bool option) \<Rightarrow> (string \<times> string) list \<Rightarrow> assertion_spec list
    \<Rightarrow> policy_error + role_assertion list" where
  "compile_assertions yb expect as = map_res (compile_assertion yb expect) (enum_list as)"

definition assertions_for :: "role_assertion list \<Rightarrow> string \<Rightarrow> response_assertion list" where
  "assertions_for rules role = map rl_rule (filter (\<lambda>a. rl_roles a = [] \<or> role \<in> set (rl_roles a)) rules)"

text \<open>Denial profiles: confirmed conventions of an explicit list of endpoints, deny rules only.\<close>

definition profile_rules :: "string \<Rightarrow> denial_profile \<Rightarrow> policy_error + assertion_spec list" where
  "profile_rules name prof = map_res (\<lambda>rule.
     if sa_decision rule \<noteq> [] \<and> sa_decision rule \<noteq> ''deny'' then Inl (ProfileNotDeny name)
     else Inr (rule\<lparr>sa_decision := ''deny''\<rparr>)) (dp_rules prof)"

definition named_profile :: "policy \<Rightarrow> (string \<times> denial_profile) list \<Rightarrow> string \<Rightarrow> policy_error + assertion_spec list" where
  "named_profile p shared name =
     bind_res (guard_err (amap_get (po_profiles p) name \<noteq> None \<and> amap_get shared name \<noteq> None) (ProfileTwice name)) (\<lambda>_.
     case (case amap_get (po_profiles p) name of None \<Rightarrow> amap_get shared name | Some x \<Rightarrow> Some x) of
       None \<Rightarrow> Inl (ProfileUnusable name)
     | Some prof \<Rightarrow>
         bind_res (guard_err (\<not> dp_confirmed prof \<or> dp_rules prof = []) (ProfileUnusable name)) (\<lambda>_.
         bind_res (guard_err (\<not> list_ex (\<lambda>e. e = ap_endpoint (po_api p)) (dp_endpoints prof)) (ProfileOutOfScope name)) (\<lambda>_.
           profile_rules name prof)))"

definition profile_assertions :: "policy \<Rightarrow> (string \<times> denial_profile) list \<Rightarrow> policy_error + assertion_spec list" where
  "profile_assertions p shared =
     bind_res (map_res (named_profile p shared) (re_profiles (po_response p))) (\<lambda>rs. Inr (concat rs))"

section \<open>Requests\<close>

definition has_header :: "(string \<times> string) list \<Rightarrow> string \<Rightarrow> bool" where
  "has_header h name \<longleftrightarrow> list_ex (\<lambda>(k, v). equal_fold k name) h"

definition with_json_type :: "(string \<times> string) list \<Rightarrow> (string \<times> string) list" where
  "with_json_type h = (if has_header h ''Content-Type'' then h
     else amap_put ''Content-Type'' ''application/json'' h)"

definition policy_request :: "policy \<Rightarrow> string \<Rightarrow> string \<Rightarrow> policy_error + request_template" where
  "policy_request p meth url =
     (let body = trim_space (ap_body (po_api p));
          rq = \<lparr>rq_method = meth, rq_url = url, rq_headers = ap_headers (po_api p), rq_query = [], rq_body = []\<rparr> in
      if body = [] then Inr rq
      else if \<not> json_valid body then Inl BodyInvalid
      else Inr (rq\<lparr>rq_body := body, rq_headers := with_json_type (ap_headers (po_api p))\<rparr>))"

text \<open>Two identities with one role: the last one is the role's identity.\<close>

definition role_identity :: "identity list \<Rightarrow> string \<Rightarrow> string option" where
  "role_identity ids r = map_option id_id (List.find (\<lambda>i. id_role i = r) (rev ids))"

definition bind_url :: "bindings \<Rightarrow> string \<Rightarrow> string" where
  "bind_url b path = trim_right_set (bi_base_url b) ''/'' @ path"

definition compile_step :: "bindings \<Rightarrow> nat \<times> setup_spec \<Rightarrow> policy_error + setup_step" where
  "compile_step b = (\<lambda>(i, s).
     let label = (if sp_name s = [] then ''setup['' @ show_nat i @ '']'' else sp_name s); q = sp_request s in
     bind_res (guard_err (trim_space (sq_method q) = [] \<or> trim_space (sq_path q) = []) (StepIncomplete label)) (\<lambda>_.
     bind_res (map_err (StepPath label) (substitute_path (bi_params b) (sq_path q))) (\<lambda>path.
     bind_res (if sp_as s = [] then Inr []
               else case role_identity (bi_identities b) (sp_as s) of
                 None \<Rightarrow> Inl (StepRole label (sp_as s)) | Some i \<Rightarrow> Inr i) (\<lambda>as.
       Inr \<lparr>ss_name = label, ss_as = as,
            ss_request = \<lparr>rq_method = to_upper (sq_method q), rq_url = bind_url b path,
              rq_headers = sq_headers q, rq_query = [], rq_body = trim_space (sq_body q)\<rparr>,
            ss_capture = sp_capture s\<rparr>))))"

definition compile_setup :: "bindings \<Rightarrow> setup_spec list \<Rightarrow> policy_error + setup_step list" where
  "compile_setup b steps = map_res (compile_step b) (enum_list steps)"

definition compile_resource :: "policy \<Rightarrow> bindings \<Rightarrow> string \<Rightarrow> resource option" where
  "compile_resource p b owner =
     (let rs = ap_resource (po_api p);
          zero = \<lparr>rs_type = [], rs_object_id = [], rs_owner = [], rs_tenant = [], rs_required_role = [], rs_tenant_field = []\<rparr>;
          res = zero\<lparr>rs_type := rc_type rs, rs_owner := owner, rs_tenant := bi_resource_tenant b,
                     rs_tenant_field := rc_tenant_field rs,
                     rs_object_id := (if rc_id_param rs = [] then []
                        else case amap_get (bi_params b) (rc_id_param rs) of None \<Rightarrow> [] | Some v \<Rightarrow> v)\<rparr> in
      if res = zero then None else Some res)"

section \<open>Write verification\<close>

text \<open>The identities under test and the one with the verifier role.\<close>

fun split_verifier :: "string \<Rightarrow> identity list \<Rightarrow> identity list \<Rightarrow> identity option
    \<Rightarrow> policy_error + identity list \<times> identity option" where
  "split_verifier role [] executed v = Inr (executed, v)"
| "split_verifier role (i # is) executed v =
     (if id_role i \<noteq> role then split_verifier role is (executed @ [i]) v
      else case v of Some _ \<Rightarrow> Inl (VerifierTwice role)
        | None \<Rightarrow> split_verifier role is executed (Some i))"

definition reader_request :: "bindings \<Rightarrow> verify_spec \<Rightarrow> policy_error + request_template" where
  "reader_request b v =
     bind_res (map_err VerifyPath (substitute_path (bi_params b) (sq_path (vs_request v)))) (\<lambda>path.
     let body = trim_space (sq_body (vs_request v));
         rq = \<lparr>rq_method = to_upper (trim_space (sq_method (vs_request v))), rq_url = bind_url b path,
               rq_headers = sq_headers (vs_request v), rq_query = [], rq_body = []\<rparr> in
     if body = [] then Inr rq
     else if \<not> json_valid body then Inl VerifyBody
     else Inr (rq\<lparr>rq_body := body, rq_headers := with_json_type (rq_headers rq)\<rparr>))"

definition compile_verify :: "(string \<Rightarrow> bool option) \<Rightarrow> (string \<Rightarrow> string) \<Rightarrow> policy \<Rightarrow> bindings
    \<Rightarrow> policy_error + identity list \<times> write_verification option" where
  "compile_verify yb env p b =
     (case po_verify p of
        None \<Rightarrow> Inr (bi_identities b, None)
      | Some v \<Rightarrow>
          let role = verifier_role p in
          bind_res (guard_err (role = []) VerifierUnnamed) (\<lambda>_.
          bind_res (guard_err (amap_get (po_expect p) role \<noteq> None) (VerifierExpected role)) (\<lambda>_.
          bind_res (split_verifier role (bi_identities b) [] None) (\<lambda>(executed, verifier).
          case verifier of
            None \<Rightarrow> Inl (VerifierMissing role)
          | Some i \<Rightarrow>
              bind_res (reader_request b v) (\<lambda>rq.
              bind_res (case vs_reset v of None \<Rightarrow> Inr None
                 | Some s \<Rightarrow> bind_res (map_err VerifyReset (compile_setup b [s])) (\<lambda>steps. Inr (Some (hd steps)))) (\<lambda>reset.
              bind_res (if vs_changed_to v = YZero then Inr [] else map_err VerifyChangedTo (node_json yb (vs_changed_to v))) (\<lambda>ch.
              bind_res (map_err VerifyExpand (expand_verification env
                 \<lparr>wv_strategy = vs_strategy v, wv_after_status = vs_after_status v, wv_reset = reset, wv_identity = i,
                  wv_request = rq, wv_environment = vs_environment v, wv_allow_unsafe = vs_allow_unsafe v,
                  wv_pointer = vs_pointer v, wv_changed_to = ch\<rparr>)) (\<lambda>wv.
                Inr (executed, Some wv)))))))))"

section \<open>Compilation\<close>

definition compile_expected :: "policy \<Rightarrow> role_assertion list \<Rightarrow> identity list
    \<Rightarrow> policy_error + expected_access list \<times> string" where
  "compile_expected p rules ids = fold_res (\<lambda>(expected, owner) i.
     case amap_get (po_expect p) (id_role i) of
       None \<Rightarrow> Inl (RoleNotExpected (id_id i) (id_role i))
     | Some d \<Rightarrow>
         bind_res (map_err DecisionRejected (to_decision d)) (\<lambda>decision.
           Inr (expected @ [\<lparr>ea_identity = id_id i, ea_decision = decision, ea_note = [],
                  ea_forbid_sensitive = (id_role i \<in> set (sn_forbidden_for (re_sensitive (po_response p)))),
                  ea_assertions = assertions_for rules (id_role i)\<rparr>],
                if owner_role p \<noteq> [] \<and> id_role i = owner_role p then id_id i else owner))) ([], []) ids"

definition compile_policy :: "(string \<Rightarrow> bool option) \<Rightarrow> (string \<Rightarrow> string) \<Rightarrow> policy \<Rightarrow> bindings
    \<Rightarrow> policy_error + test_case" where
  "compile_policy yb env p b =
     bind_res (policy_method p) (\<lambda>(meth, template).
     bind_res (guard_err (trim_space (bi_base_url b) = []) BaseUrlRequired) (\<lambda>_.
     bind_res (guard_err (bi_identities b = []) IdentitiesRequired) (\<lambda>_.
     bind_res (substitute_path (bi_params b) template) (\<lambda>path.
     bind_res (compile_verify yb env p b) (\<lambda>(executed, verification).
     bind_res (profile_assertions p (bi_profiles b)) (\<lambda>profile_rules.
     bind_res (compile_assertions yb (po_expect p) (re_assertions (po_response p) @ profile_rules)) (\<lambda>rules.
     bind_res (compile_expected p rules executed) (\<lambda>(expected, owner).
     bind_res (compile_setup (b\<lparr>bi_identities := executed\<rparr>) (po_setup p)) (\<lambda>setup.
     bind_res (policy_request p meth (bind_url b path)) (\<lambda>rq.
       Inr \<lparr>tc_require_preflight = bi_require_preflight b,
            tc_id = default_id (bi_test_case_id b) meth path, tc_description = [],
            tc_identities = executed, tc_request = rq, tc_resource = compile_resource p b owner,
            tc_role_hierarchy = [], tc_sensitive_fields = [],
            tc_deny_statuses = re_deny_status (po_response p),
            tc_unauthorized_is_denial = re_unauthorized_is_denial (po_response p),
            tc_deny_when = deny_when_condition (re_deny_when (po_response p)),
            tc_mutating = (ap_mutating (po_api p) \<or> bi_allow_mutating b),
            tc_verification = verification, tc_setup = setup, tc_cors = None, tc_expected = expected\<rparr>))))))))))"

section \<open>Identities\<close>

definition check_identity :: "nat \<times> identity \<Rightarrow> policy_error + unit" where
  "check_identity = (\<lambda>(i, x).
     bind_res (guard_err (id_id x = []) (IdentityWithoutId i)) (\<lambda>_.
       guard_err (id_role x = []) (IdentityWithoutRole (id_id x))))"

definition parse_identities :: "(string \<Rightarrow> identity list option) \<Rightarrow> (string \<Rightarrow> string) \<Rightarrow> string
    \<Rightarrow> policy_error + identity list" where
  "parse_identities decode env data =
     (case decode data of None \<Rightarrow> Inl ParseFailed
      | Some ids \<Rightarrow>
          bind_res (guard_err (ids = []) IdentitiesRequired) (\<lambda>_.
          bind_res (iter_res check_identity (enum_list ids)) (\<lambda>_.
            map_err IdentityExpand (expand_identities env ids))))"

section \<open>What a compiled case expects\<close>

lemma fold_res_append: "fold_res f s (xs @ ys) = bind_res (fold_res f s xs) (\<lambda>t. fold_res f t ys)"
  by (induction f s xs rule: fold_res.induct) (auto simp: bind_res_def split: sum.split)

lemma to_decision_Inr: "to_decision s = Inr d \<Longrightarrow> d \<in> {DAllow, DDeny, DSkip} \<and> \<not> equal_fold (trim_space s) draft_marker"
  by (auto simp: to_decision_def Let_def split: if_splits)

text \<open>An expectation that says of an identity what the policy says of its role.\<close>

definition states_policy :: "policy \<Rightarrow> role_assertion list \<Rightarrow> identity \<Rightarrow> expected_access \<Rightarrow> bool" where
  "states_policy p rules i e \<longleftrightarrow>
     ea_identity e = id_id i
     \<and> (\<exists>d. amap_get (po_expect p) (id_role i) = Some d \<and> to_decision d = Inr (ea_decision e))
     \<and> (ea_forbid_sensitive e \<longleftrightarrow> id_role i \<in> set (sn_forbidden_for (re_sensitive (po_response p))))
     \<and> ea_assertions e = assertions_for rules (id_role i)"

definition owner_identity :: "policy \<Rightarrow> identity list \<Rightarrow> string" where
  "owner_identity p ids = (if owner_role p = [] then []
     else case role_identity ids (owner_role p) of None \<Rightarrow> [] | Some i \<Rightarrow> i)"

lemma compile_expected_step:
  "compile_expected p rules (ids @ [i]) = bind_res (compile_expected p rules ids) (\<lambda>(expected, owner).
     case amap_get (po_expect p) (id_role i) of
       None \<Rightarrow> Inl (RoleNotExpected (id_id i) (id_role i))
     | Some d \<Rightarrow>
         bind_res (map_err DecisionRejected (to_decision d)) (\<lambda>decision.
           Inr (expected @ [\<lparr>ea_identity = id_id i, ea_decision = decision, ea_note = [],
                  ea_forbid_sensitive = (id_role i \<in> set (sn_forbidden_for (re_sensitive (po_response p)))),
                  ea_assertions = assertions_for rules (id_role i)\<rparr>],
                if owner_role p \<noteq> [] \<and> id_role i = owner_role p then id_id i else owner)))"
  unfolding compile_expected_def fold_res_append
  by (auto simp: bind_res_def split: sum.split option.split prod.split)

lemma compile_expected_states:
  "compile_expected p rules ids = Inr (expected, owner) \<Longrightarrow>
     list_all2 (states_policy p rules) ids expected \<and> owner = owner_identity p ids"
proof (induction ids arbitrary: expected owner rule: rev_induct)
  case Nil
  then show ?case by (simp add: compile_expected_def owner_identity_def role_identity_def)
next
  case (snoc i ids)
  from snoc.prems obtain ex ow d dec where
    pre: "compile_expected p rules ids = Inr (ex, ow)" and d: "amap_get (po_expect p) (id_role i) = Some d"
    and dec: "to_decision d = Inr dec"
    and eq: "expected = ex @ [\<lparr>ea_identity = id_id i, ea_decision = dec, ea_note = [],
         ea_forbid_sensitive = (id_role i \<in> set (sn_forbidden_for (re_sensitive (po_response p)))),
         ea_assertions = assertions_for rules (id_role i)\<rparr>]"
      "owner = (if owner_role p \<noteq> [] \<and> id_role i = owner_role p then id_id i else ow)"
    unfolding compile_expected_step by (auto simp: bind_res_eq_Inr split: option.splits)
  from snoc.IH [OF pre] show ?case
    using d dec unfolding eq
    by (auto simp: states_policy_def owner_identity_def role_identity_def list_all2_append intro!: list_all2_appendI)
qed

lemma split_verifier_Inr:
  "split_verifier role ids ex v = Inr (executed, w) \<Longrightarrow>
     executed = ex @ filter (\<lambda>i. id_role i \<noteq> role) ids
     \<and> (case v of Some i \<Rightarrow> w = Some i \<and> filter (\<lambda>i. id_role i = role) ids = []
        | None \<Rightarrow> (w = None \<and> filter (\<lambda>i. id_role i = role) ids = [])
             \<or> (\<exists>i. w = Some i \<and> filter (\<lambda>i. id_role i = role) ids = [i]))"
  by (induction role ids ex v arbitrary: executed w rule: split_verifier.induct)
     (auto split: if_splits option.splits)

text \<open>The steps of a compilation that produced a case.\<close>

lemma compile_policy_Inr:
  assumes "compile_policy yb env p b = Inr tc"
  obtains meth template path executed wv profs rules expected owner steps rq where
    "policy_method p = Inr (meth, template)" "substitute_path (bi_params b) template = Inr path"
    "compile_verify yb env p b = Inr (executed, wv)"
    "profile_assertions p (bi_profiles b) = Inr profs"
    "compile_assertions yb (po_expect p) (re_assertions (po_response p) @ profs) = Inr rules"
    "compile_expected p rules executed = Inr (expected, owner)"
    "compile_setup (b\<lparr>bi_identities := executed\<rparr>) (po_setup p) = Inr steps"
    "policy_request p meth (bind_url b path) = Inr rq"
    "tc_identities tc = executed" "tc_verification tc = wv" "tc_expected tc = expected" "tc_request tc = rq"
    "tc_setup tc = steps" "tc_resource tc = compile_resource p b owner"
    "tc_mutating tc = (ap_mutating (po_api p) \<or> bi_allow_mutating b)"
    "tc_deny_statuses tc = re_deny_status (po_response p)"
  using assms unfolding compile_policy_def
  by (auto simp: bind_res_eq_Inr)

lemma expand_verification_Inr:
  "expand_verification env wv = Inr w \<Longrightarrow> expand_identity env (wv_identity wv) = Inr (wv_identity w)
     \<and> expand_request env (wv_request wv) = Inr (wv_request w)"
  by (auto simp: expand_verification_def bind_res_eq_Inr)

lemma compile_verify_Inr:
  assumes "compile_verify yb env p b = Inr (executed, wv)"
  shows "case po_verify p of
      None \<Rightarrow> wv = None \<and> executed = bi_identities b
    | Some v \<Rightarrow> \<exists>w i rq. wv = Some w
        \<and> executed = filter (\<lambda>i. id_role i \<noteq> verifier_role p) (bi_identities b)
        \<and> filter (\<lambda>i. id_role i = verifier_role p) (bi_identities b) = [i]
        \<and> expand_identity env i = Inr (wv_identity w)
        \<and> reader_request b v = Inr rq \<and> expand_request env rq = Inr (wv_request w)
        \<and> verifier_role p \<noteq> [] \<and> amap_get (po_expect p) (verifier_role p) = None"
proof (cases "po_verify p")
  case (Some v)
  with assms obtain i rq reset ch w where
      parts: "verifier_role p \<noteq> []" "amap_get (po_expect p) (verifier_role p) = None"
      "split_verifier (verifier_role p) (bi_identities b) [] None = Inr (executed, Some i)"
      "reader_request b v = Inr rq" "wv = Some w"
    and w: "expand_verification env
       \<lparr>wv_strategy = vs_strategy v, wv_after_status = vs_after_status v, wv_reset = reset, wv_identity = i,
        wv_request = rq, wv_environment = vs_environment v, wv_allow_unsafe = vs_allow_unsafe v,
        wv_pointer = vs_pointer v, wv_changed_to = ch\<rparr> = Inr w"
    unfolding compile_verify_def by (auto simp: Let_def bind_res_eq_Inr split: option.splits)
  show ?thesis using split_verifier_Inr [OF parts(3)] parts expand_verification_Inr [OF w] Some by auto
qed (use assms in \<open>simp add: compile_verify_def\<close>)

text \<open>
  C12. A compiled case says exactly what the policy says. It runs the bound identities, in
  order, without the verifier, and for each of them it expects the decision the policy states
  for its role, forbids sensitive data when the policy forbids it for the role, and uses the
  assertions that apply to the role. A decision is one a person typed, never the draft marker.
\<close>

theorem compiled_case_states_the_policy:
  assumes "compile_policy yb env p b = Inr tc"
  shows "tc_identities tc = filter (\<lambda>i. po_verify p = None \<or> id_role i \<noteq> verifier_role p) (bi_identities b)
    \<and> (\<exists>profs rules. profile_assertions p (bi_profiles b) = Inr profs
         \<and> compile_assertions yb (po_expect p) (re_assertions (po_response p) @ profs) = Inr rules
         \<and> list_all2 (states_policy p rules) (tc_identities tc) (tc_expected tc))
    \<and> (\<forall>e\<in>set (tc_expected tc). ea_decision e \<in> {DAllow, DDeny, DSkip})
    \<and> (\<forall>i\<in>set (tc_identities tc). \<exists>d. amap_get (po_expect p) (id_role i) = Some d
         \<and> \<not> equal_fold (trim_space d) draft_marker)"
  using assms
proof (rule compile_policy_Inr)
  fix meth template path executed wv profs rules expected owner steps rq
  assume v: "compile_verify yb env p b = Inr (executed, wv)" and pr: "profile_assertions p (bi_profiles b) = Inr profs"
    and ru: "compile_assertions yb (po_expect p) (re_assertions (po_response p) @ profs) = Inr rules"
    and ex: "compile_expected p rules executed = Inr (expected, owner)"
    and eq: "tc_identities tc = executed" "tc_expected tc = expected"
  have ids: "executed = filter (\<lambda>i. po_verify p = None \<or> id_role i \<noteq> verifier_role p) (bi_identities b)"
    using compile_verify_Inr [OF v] by (auto split: option.splits)
  have all: "list_all2 (states_policy p rules) executed expected" using compile_expected_states [OF ex] by simp
  have "ea_decision e \<in> {DAllow, DDeny, DSkip}" if "e \<in> set expected" for e
    using all that by (fastforce simp: list_all2_conv_all_nth in_set_conv_nth states_policy_def dest: to_decision_Inr)
  moreover have "\<exists>d. amap_get (po_expect p) (id_role i) = Some d \<and> \<not> equal_fold (trim_space d) draft_marker"
    if "i \<in> set executed" for i
    using all that by (fastforce simp: list_all2_conv_all_nth in_set_conv_nth states_policy_def dest: to_decision_Inr)
  ultimately show ?thesis using all pr ru eq ids by blast
qed

section \<open>The verifier and denial profiles\<close>

lemma expand_identity_sel:
  "expand_identity env i = Inr j \<Longrightarrow> id_id j = id_id i \<and> id_role j = id_role i \<and> cr_type (id_credential j) = cr_type (id_credential i)"
  by (auto simp: expand_identity_def bind_res_eq_Inr set_credential_value_def)

text \<open>
  C28. The verifier only reads. When a policy declares a verification, exactly one bound
  identity has the verifier's role, it becomes the verifier of the case with its own
  credential, the role has no expectation, and none of the identities that send the request
  under test has it; without a declaration every bound identity is under test.
\<close>

theorem verifier_is_not_under_test:
  assumes "compile_policy yb env p b = Inr tc"
  shows "(tc_verification tc = None \<longleftrightarrow> po_verify p = None)
    \<and> (po_verify p = None \<longrightarrow> tc_identities tc = bi_identities b)
    \<and> (\<forall>wv. tc_verification tc = Some wv \<longrightarrow>
         (\<exists>i. filter (\<lambda>i. id_role i = verifier_role p) (bi_identities b) = [i]
            \<and> expand_identity env i = Inr (wv_identity wv))
         \<and> id_role (wv_identity wv) = verifier_role p \<and> verifier_role p \<noteq> []
         \<and> verifier_role p \<notin> fst ` set (po_expect p)
         \<and> (\<forall>i\<in>set (tc_identities tc). id_role i \<noteq> verifier_role p))"
  using assms
proof (rule compile_policy_Inr)
  fix executed wv assume v: "compile_verify yb env p b = Inr (executed, wv)"
    and eq: "tc_identities tc = executed" "tc_verification tc = wv"
  have role: "id_role j = verifier_role p"
    if "filter (\<lambda>i. id_role i = verifier_role p) ids = [i]" "expand_identity env i = Inr j" for i j ids
    using filter_eq_ConsD [OF that(1)] expand_identity_sel [OF that(2)] by auto
  show ?thesis
    using compile_verify_Inr [OF v] unfolding eq
    by (auto simp: amap_get_None_iff dest: role split: option.splits)
qed

text \<open>An assertion of the case, and the declared one it was compiled from.\<close>

definition compiled_from :: "response_assertion \<Rightarrow> assertion_spec \<Rightarrow> bool" where
  "compiled_from r a \<longleftrightarrow> ra_pointer r = sa_pointer a \<and> ra_status_codes r = sa_status_codes a
     \<and> to_decision (sa_decision a) = Inr (ra_decision r)"

lemma draft_marker_iff: "equal_fold s draft_marker \<longleftrightarrow> to_lower s = ''todo''"
proof -
  have "to_lower draft_marker = ''todo''" by code_simp
  then show ?thesis by (simp add: equal_fold_def)
qed

lemma to_decision_read:
  "to_lower (trim_space s) = ''allow'' \<Longrightarrow> to_decision s = Inr DAllow"
  "to_lower (trim_space s) = ''deny'' \<Longrightarrow> to_decision s = Inr DDeny"
  unfolding to_decision_def Let_def draft_marker_iff by simp_all

lemma compile_assertion_Inr:
  assumes "compile_assertion yb ex (i, a) = Inr ra"
  shows "compiled_from (rl_rule ra) a \<and> rl_roles ra = sa_roles a"
proof -
  let ?d = "to_lower (trim_space (sa_decision a))"
  from assms obtain raw where "?d = ''allow'' \<or> ?d = ''deny''"
      "ra = \<lparr>rl_rule = \<lparr>ra_status_codes = sa_status_codes a, ra_pointer = sa_pointer a, ra_equals = raw,
          ra_decision = (if ?d = ''allow'' then DAllow else DDeny)\<rparr>, rl_roles = sa_roles a\<rparr>"
    unfolding compile_assertion_def by (simp only: Let_def prod.case bind_res_eq_Inr guard_err_Inr) blast
  then show ?thesis using to_decision_read [of "sa_decision a"] by (auto simp: compiled_from_def)
qed

lemma compile_assertions_elem:
  assumes "compile_assertions yb ex as = Inr rules" "r \<in> set (assertions_for rules role)"
  shows "\<exists>a\<in>set as. compiled_from r a"
proof -
  obtain ra where ra: "ra \<in> set rules" "r = rl_rule ra" using assms(2) by (auto simp: assertions_for_def)
  then obtain i a where "(i, a) \<in> set (enum_list as)" "compile_assertion yb ex (i, a) = Inr ra"
    using assms(1) unfolding compile_assertions_def by (auto dest: map_res_elem)
  then show ?thesis using ra compile_assertion_Inr by (force simp: set_enum_list)
qed

text \<open>A profile the endpoint may use: named by the policy, known once, confirmed, in scope.\<close>

definition usable_profile :: "policy \<Rightarrow> bindings \<Rightarrow> denial_profile \<Rightarrow> bool" where
  "usable_profile p b prof \<longleftrightarrow>
     (\<exists>name\<in>set (re_profiles (po_response p)).
        amap_get (po_profiles p) name = Some prof \<and> amap_get (bi_profiles b) name = None
        \<or> amap_get (po_profiles p) name = None \<and> amap_get (bi_profiles b) name = Some prof)
     \<and> dp_confirmed prof \<and> ap_endpoint (po_api p) \<in> set (dp_endpoints prof)"

lemma profile_assertions_elem:
  assumes "profile_assertions p (bi_profiles b) = Inr profs" "a \<in> set profs"
  shows "sa_decision a = ''deny'' \<and> (\<exists>prof. usable_profile p b prof \<and> (\<exists>a'\<in>set (dp_rules prof). a = a'\<lparr>sa_decision := ''deny''\<rparr>))"
proof -
  obtain rs where rs: "map_res (named_profile p (bi_profiles b)) (re_profiles (po_response p)) = Inr rs" "profs = concat rs"
    using assms(1) by (auto simp: profile_assertions_def bind_res_eq_Inr)
  then obtain ys where "ys \<in> set rs" "a \<in> set ys" using assms(2) by auto
  then obtain name where n: "name \<in> set (re_profiles (po_response p))" "named_profile p (bi_profiles b) name = Inr ys"
    using map_res_elem [OF rs(1)] by blast
  then obtain prof where prof: "amap_get (po_profiles p) name = Some prof \<and> amap_get (bi_profiles b) name = None
        \<or> amap_get (po_profiles p) name = None \<and> amap_get (bi_profiles b) name = Some prof"
      "dp_confirmed prof" "ap_endpoint (po_api p) \<in> set (dp_endpoints prof)" "profile_rules name prof = Inr ys"
    by (auto simp: named_profile_def bind_res_eq_Inr list_ex_iff split: option.splits)
  then have "usable_profile p b prof" using n(1) by (auto simp: usable_profile_def)
  then show ?thesis
    using prof(4) \<open>a \<in> set ys\<close> unfolding profile_rules_def by (fastforce dest: map_res_elem split: if_splits)
qed

text \<open>
  C29. A denial profile can only make the verdict stricter. Every assertion of a compiled case
  comes from the policy itself or is a deny rule of a profile that the policy names, that
  someone confirmed, and that lists this endpoint explicitly.
\<close>

theorem denial_profiles_only_deny:
  assumes "compile_policy yb env p b = Inr tc" "e \<in> set (tc_expected tc)" "r \<in> set (ea_assertions e)"
  shows "(\<exists>a\<in>set (re_assertions (po_response p)). compiled_from r a)
    \<or> ra_decision r = DDeny \<and> (\<exists>prof. usable_profile p b prof
         \<and> (\<exists>a\<in>set (dp_rules prof). ra_pointer r = sa_pointer a \<and> ra_status_codes r = sa_status_codes a))"
proof -
  obtain profs rules where pr: "profile_assertions p (bi_profiles b) = Inr profs"
    and ru: "compile_assertions yb (po_expect p) (re_assertions (po_response p) @ profs) = Inr rules"
    and "\<exists>ids. list_all2 (states_policy p rules) ids (tc_expected tc)"
    using assms(1) by (elim compile_policy_Inr) (auto dest: compile_expected_states)
  then obtain role where "ea_assertions e = assertions_for rules role"
    using assms(2) by (force simp: list_all2_conv_all_nth in_set_conv_nth states_policy_def)
  then obtain a where a: "a \<in> set (re_assertions (po_response p) @ profs)" "compiled_from r a"
    using compile_assertions_elem [OF ru] assms(3) by auto
  show ?thesis
  proof (cases "a \<in> set (re_assertions (po_response p))")
    case False
    then have "a \<in> set profs" using a(1) by simp
    then obtain prof a' where "sa_decision a = ''deny''" "usable_profile p b prof" "a' \<in> set (dp_rules prof)"
        "a = a'\<lparr>sa_decision := ''deny''\<rparr>"
      using profile_assertions_elem [OF pr] by blast
    moreover have "to_decision ''deny'' = Inr DDeny" by code_simp
    ultimately show ?thesis using a(2) by (auto simp: compiled_from_def)
  qed (use a in blast)
qed

section \<open>Paths\<close>

text \<open>A path template as its segments: literal text, a bound parameter, a captured variable.\<close>

datatype path_segment = PText string | PParam string | PVar string

fun path_text :: "path_segment \<Rightarrow> string" where
  "path_text (PText w) = w"
| "path_text (PParam n) = ''{'' @ n @ ''}''"
| "path_text (PVar n) = ''{{'' @ n @ ''}}''"

fun path_ok :: "path_segment \<Rightarrow> bool" where
  "path_ok (PText w) \<longleftrightarrow> CHR ''{'' \<notin> set w"
| "path_ok (PParam n) \<longleftrightarrow> CHR ''{'' \<notin> set n \<and> CHR ''}'' \<notin> set n"
| "path_ok (PVar n) \<longleftrightarrow> CHR ''}'' \<notin> set n"

fun path_value :: "(string \<times> string) list \<Rightarrow> path_segment \<Rightarrow> policy_error + string" where
  "path_value params (PText w) = Inr w"
| "path_value params (PParam n) = (case amap_get params n of None \<Rightarrow> Inl (MissingParam n) | Some v \<Rightarrow> Inr v)"
| "path_value params (PVar n) = Inr (''{{'' @ n @ ''}}'')"

lemma substitute_path_param:
  assumes "CHR ''{'' \<notin> set a" "CHR ''{'' \<notin> set n" "CHR ''}'' \<notin> set n"
  shows "substitute_path ps (a @ ''{'' @ n @ ''}'' @ b) =
    (case amap_get ps n of None \<Rightarrow> Inl (MissingParam n)
     | Some v \<Rightarrow> (case substitute_path ps b of Inl e \<Rightarrow> Inl e | Inr r \<Rightarrow> Inr (a @ v @ r)))"
proof -
  let ?s = "a @ ''{'' @ n @ ''}'' @ b"
  have "index_of ''{'' ?s = Some (length a)" using index_of_char [OF assms(1)] by simp
  moreover have "drop (length a) ?s = ''{'' @ n @ ''}'' @ b" by simp
  moreover have "index_of ''}'' (''{'' @ n @ ''}'' @ b) = Some (1 + length n)"
    using index_of_char [of "CHR ''}''" "''{'' @ n" b] assms(3) by simp
  moreover have "\<not> has_prefix (''{'' @ n @ ''}'' @ b) ''{{''"
    using assms(2) by (cases n) (auto simp: has_prefix_iff)
  moreover have "take (1 + length n - 1) (drop (length a + 1) ?s) = n" "drop (length a + (1 + length n) + 1) ?s = b"
    "take (length a) ?s = a"
    by simp_all
  ultimately show ?thesis
    by (subst substitute_path.simps) (simp del: index_of.simps add: Let_def split: option.split sum.split)
qed

lemma substitute_path_var:
  assumes "CHR ''{'' \<notin> set a" "CHR ''}'' \<notin> set n"
  shows "substitute_path ps (a @ ''{{'' @ n @ ''}}'' @ b) =
    (case substitute_path ps b of Inl e \<Rightarrow> Inl e | Inr r \<Rightarrow> Inr (a @ ''{{'' @ n @ ''}}'' @ r))"
proof -
  let ?s = "a @ ''{{'' @ n @ ''}}'' @ b"
  have "index_of ''{'' ?s = Some (length a)" using index_of_char [OF assms(1)] by simp
  moreover have "drop (length a) ?s = ''{{'' @ n @ ''}}'' @ b" by simp
  moreover have "index_of ''}}'' (''{{'' @ n @ ''}}'' @ b) = Some (2 + length n)"
    using index_of_no_first [of "CHR ''}''" "''{{'' @ n" "CHR ''}''" "''}}'' @ b"] assms(2)
      index_of_prefix [of "''}}''" b]
    by simp
  moreover have "has_prefix (''{{'' @ n @ ''}}'' @ b) ''{{''" by (rule has_prefix_append)
  moreover have "drop (length a + (2 + length n) + 2) ?s = b" "take (length a + (2 + length n) + 2) ?s = a @ ''{{'' @ n @ ''}}''"
    by (simp_all add: eval_nat_numeral)
  ultimately show ?thesis
    by (subst substitute_path.simps) (simp only: option.case if_True append_assoc)
qed

lemma substitute_path_segments:
  "\<forall>t\<in>set ts. path_ok t \<Longrightarrow> CHR ''{'' \<notin> set a \<Longrightarrow>
     substitute_path ps (a @ concat (map path_text ts)) =
       (case map_res (path_value ps) ts of Inl e \<Rightarrow> Inl e | Inr vs \<Rightarrow> Inr (a @ concat vs))"
proof (induction ts arbitrary: a)
  case Nil
  then have "index_of ''{'' a = None"
    using index_of_split [of "''{''" a] by (cases "index_of ''{'' a") (force, metis append_Cons in_set_conv_decomp)
  then show ?case by (subst substitute_path.simps) simp
next
  case (Cons t ts)
  note IH = Cons.IH [of "[]"]
  show ?case
  proof (cases t)
    case (PText w)
    then show ?thesis using Cons.IH [of "a @ w"] Cons.prems by (simp add: bind_res_def split: sum.split)
  next
    case (PParam n)
    then show ?thesis
      using Cons.prems IH substitute_path_param [of a n ps "concat (map path_text ts)"]
      by (auto simp: bind_res_def split: sum.split option.split)
  next
    case (PVar n)
    then show ?thesis
      using Cons.prems IH substitute_path_var [of a n ps "concat (map path_text ts)"]
      by (auto simp: bind_res_def split: sum.split)
  qed
qed

text \<open>
  Binding a path replaces every \<open>{param}\<close> by its bound value, verbatim and once, and keeps
  every \<open>{{var}}\<close> of a setup step and all other text; when a parameter is not bound it fails,
  naming the first.
\<close>

theorem substituted_path_exact:
  assumes "\<forall>t\<in>set ts. path_ok t"
  shows "substitute_path ps (concat (map path_text ts)) =
    (case map_res (path_value ps) ts of Inl e \<Rightarrow> Inl e | Inr vs \<Rightarrow> Inr (concat vs))"
  using substitute_path_segments [OF assms, of "[]" ps] by (simp split: sum.split)

lemma substituted_path_exact_witness:
  "substitute_path [(''id'', ''{x}'')] ''/u/{id}/{{tok}}'' = Inr ''/u/{x}/{{tok}}''
   \<and> substitute_path [] ''/u/{id}/{{tok}}'' = Inl (MissingParam ''id'')"
proof -
  let ?ts = "[PText ''/u/'', PParam ''id'', PText ''/'', PVar ''tok'']"
  have ok: "\<forall>t\<in>set ?ts. path_ok t" and flat: "concat (map path_text ?ts) = ''/u/{id}/{{tok}}''"
    and v: "map_res (path_value [(''id'', ''{x}'')]) ?ts = Inr [''/u/'', ''{x}'', ''/'', ''{{tok}}'']"
      "map_res (path_value []) ?ts = Inl (MissingParam ''id'')" by code_simp+
  show ?thesis
    using substituted_path_exact [OF ok, of "[(''id'', ''{x}'')]"] substituted_path_exact [OF ok, of "[]"]
    unfolding flat v by simp
qed

section \<open>Nodes read back\<close>

text \<open>The JSON value a node stands for, and the nodes that have one.\<close>

fun node_tree :: "(string \<Rightarrow> bool option) \<Rightarrow> yaml \<Rightarrow> json"
and node_trees :: "(string \<Rightarrow> bool option) \<Rightarrow> yaml list \<Rightarrow> json list"
and node_members :: "(string \<Rightarrow> bool option) \<Rightarrow> yaml list \<Rightarrow> (string \<times> json) list" where
  "node_tree yb (YScalar t v) =
     (if t = ''!!null'' then JNull else if t = ''!!bool'' then JBool (yb v = Some True)
      else if t = ''!!int'' \<or> t = ''!!float'' then JNum v else JStr v)"
| "node_tree yb (YSeq ns) = JArr (node_trees yb ns)"
| "node_tree yb (YMap ns) = JObj (node_members yb ns)"
| "node_tree yb (YAlias a n) = node_tree yb n"
| "node_tree yb _ = JNull"
| "node_trees yb [] = []"
| "node_trees yb (n # ns) = node_tree yb n # node_trees yb ns"
| "node_members yb (k # n # ns) = (yaml_text k, node_tree yb n) # node_members yb ns"
| "node_members yb _ = []"

fun node_ok :: "(string \<Rightarrow> bool option) \<Rightarrow> yaml \<Rightarrow> bool"
and nodes_ok :: "(string \<Rightarrow> bool option) \<Rightarrow> yaml list \<Rightarrow> bool"
and node_pairs_ok :: "(string \<Rightarrow> bool option) \<Rightarrow> yaml list \<Rightarrow> bool" where
  "node_ok yb (YScalar t v) \<longleftrightarrow>
     (if t = ''!!null'' then True else if t = ''!!bool'' then yb v \<noteq> None
      else if t = ''!!int'' \<or> t = ''!!float'' then num_text v else utf8_valid v)"
| "node_ok yb (YSeq ns) \<longleftrightarrow> nodes_ok yb ns"
| "node_ok yb (YMap ns) \<longleftrightarrow> node_pairs_ok yb ns"
| "node_ok yb (YAlias a n) \<longleftrightarrow> node_ok yb n"
| "node_ok yb _ \<longleftrightarrow> False"
| "nodes_ok yb [] \<longleftrightarrow> True"
| "nodes_ok yb (n # ns) \<longleftrightarrow> node_ok yb n \<and> nodes_ok yb ns"
| "node_pairs_ok yb (k # n # ns) \<longleftrightarrow> utf8_valid (yaml_text k) \<and> node_ok yb n \<and> node_pairs_ok yb ns"
| "node_pairs_ok yb _ \<longleftrightarrow> True"

fun member_text :: "string \<times> json \<Rightarrow> string" where
  "member_text (k, j) = json_quote k @ '':'' @ json_text j"

lemma toks_text_simps [simp]:
  "toks_text [] = []" "toks_text (t # ts) = tok_text t @ toks_text ts" "toks_text (ts @ us) = toks_text ts @ toks_text us"
  by (simp_all add: toks_text_def)

lemma elem_toks_text: "toks_text (elem_toks js) = concat (map (\<lambda>j. '','' @ json_text j) js)"
  by (induction js) (simp_all add: json_text_def)

lemma member_toks_text: "toks_text (member_toks ps) = concat (map (\<lambda>p. '','' @ member_text p) ps)"
  by (induction ps) (auto simp: json_text_def json_quote_def)

lemma join_with_concat: "join_with sep (w # ws) = w @ concat (map (\<lambda>v. sep @ v) ws)"
  by (induction ws arbitrary: w) auto

lemma json_text_arr: "json_text (JArr js) = ''['' @ join_with '','' (map json_text js) @ '']''"
proof (cases js)
  case (Cons j ks)
  then show ?thesis
    by (simp add: join_with_concat json_text_def elem_toks_text [unfolded json_text_def] comp_def del: join_with.simps)
qed (simp add: json_text_def)

lemma json_text_obj: "json_text (JObj ps) = ''{'' @ join_with '','' (map member_text ps) @ ''}''"
proof (cases ps)
  case (Cons p qs)
  then show ?thesis
    by (cases p) (simp add: join_with_concat json_text_def json_quote_def member_toks_text [unfolded json_text_def]
      comp_def del: join_with.simps)
qed (simp add: json_text_def)

lemma json_text_leaf [simp]:
  "json_text JNull = ''null''" "json_text (JBool b) = (if b then ''true'' else ''false'')"
  "json_text (JNum w) = w" "json_text (JStr w) = json_quote w"
  by (simp_all add: json_text_def json_quote_def)

lemma num_text_valid: "num_text v \<Longrightarrow> json_valid v"
  using json_parse_text [of "JNum v"] by (simp add: json_valid_def)

lemma node_json_text:
  "node_ok yb n \<Longrightarrow> node_json yb n = Inr (json_text (node_tree yb n)) \<and> json_ok (node_tree yb n)"
  "nodes_ok yb ns \<Longrightarrow> node_parts yb ns = Inr (map json_text (node_trees yb ns)) \<and> jsons_ok (node_trees yb ns)"
  "node_pairs_ok yb ms \<Longrightarrow> node_pairs yb ms = Inr (map member_text (node_members yb ms)) \<and> jmembers_ok (node_members yb ms)"
proof (induction yb n and yb ns and yb ms rule: node_json_node_parts_node_pairs.induct)
  case (1 yb t v)
  then show ?case by (auto simp: scalar_json_def num_text_valid split: if_splits)
qed (simp_all add: json_text_arr json_text_obj)

text \<open>
  A YAML value becomes exactly that JSON value: what \<open>nodeJSON\<close> produces for a node
  parses as the tree the node stands for, with every number as the literal that was written,
  however long, so an identifier beyond the precision of a float is compared exactly.
\<close>

theorem node_json_reads_back:
  assumes "node_ok yb n" and "json_depth (node_tree yb n) \<le> max_nesting"
  shows "\<exists>raw. node_json yb n = Inr raw \<and> json_parse raw = Some (node_tree yb n)"
  using node_json_text(1) [OF assms(1)] json_parse_text [OF _ assms(2)] by blast

lemma node_json_reads_back_witness:
  "\<exists>raw. node_json (\<lambda>_. None) (YMap [YScalar ''!!str'' ''id'', YSeq [YScalar ''!!int'' ''9007199254740993'']]) = Inr raw
     \<and> json_parse raw = Some (JObj [(''id'', JArr [JNum ''9007199254740993''])])"
proof -
  let ?n = "YMap [YScalar ''!!str'' ''id'', YSeq [YScalar ''!!int'' ''9007199254740993'']]"
  have "node_ok (\<lambda>_. None) ?n" "json_depth (node_tree (\<lambda>_. None) ?n) \<le> max_nesting"
    and t: "node_tree (\<lambda>_. None) ?n = JObj [(''id'', JArr [JNum ''9007199254740993''])]" by code_simp+
  from node_json_reads_back [OF this(1,2)] show ?thesis unfolding t .
qed

section \<open>A policy to evaluate\<close>

definition sample_profile :: denial_profile where
  "sample_profile = \<lparr>dp_confirmed = True, dp_endpoints = [''DELETE /u/{id}''],
     dp_rules = [\<lparr>sa_status_codes = [200], sa_pointer = ''/error'', sa_equals = YScalar ''!!str'' ''denied'',
       sa_decision = [], sa_roles = []\<rparr>]\<rparr>"

definition sample_policy :: policy where
  "sample_policy = \<lparr>po_api = \<lparr>ap_endpoint = ''DELETE /u/{id}'', ap_owner = ''identity:owner'',
       ap_resource = \<lparr>rc_type = [], rc_id_param = ''id'', rc_tenant_field = []\<rparr>, ap_mutating = True,
       ap_body = [], ap_headers = []\<rparr>,
     po_setup = [], po_expect = [(''owner'', '' Allow''), (''other'', ''deny'')],
     po_response = \<lparr>re_profiles = [''refused''], re_deny_status = [403], re_unauthorized_is_denial = False,
       re_deny_when = None, re_sensitive = \<lparr>sn_forbidden_for = [''other'']\<rparr>, re_assertions = []\<rparr>,
     po_verify = Some \<lparr>vs_strategy = [], vs_after_status = [], vs_reset = None, vs_environment = [],
       vs_as = ''auditor'', vs_request = \<lparr>sq_method = ''get'', sq_path = ''/u/{id}'', sq_headers = [], sq_body = []\<rparr>,
       vs_allow_unsafe = False, vs_pointer = [], vs_changed_to = YZero\<rparr>,
     po_profiles = [(''refused'', sample_profile)]\<rparr>"

definition sample_bound :: "string \<Rightarrow> string \<Rightarrow> identity" where
  "sample_bound i r = \<lparr>id_id = i, id_name = [], id_role = r, id_tenant = [], id_description = [],
     id_credential = \<lparr>cr_type = Bearer, cr_header = [], cr_value = ''${T}''\<rparr>, id_preflight = None\<rparr>"

definition sample_bindings :: bindings where
  "sample_bindings = \<lparr>bi_profiles = [], bi_require_preflight = False, bi_test_case_id = [], bi_base_url = ''http://api/'',
     bi_params = [(''id'', ''7'')],
     bi_identities = [sample_bound ''a'' ''owner'', sample_bound ''b'' ''other'', sample_bound ''v'' ''auditor''],
     bi_resource_tenant = [], bi_allow_mutating = False\<rparr>"

definition sample_compiled :: "policy_error + test_case" where
  "sample_compiled = compile_policy (\<lambda>_. None) (\<lambda>_. ''s'') sample_policy sample_bindings"

definition compiles_to :: "policy_error + test_case \<Rightarrow> (test_case \<Rightarrow> bool) \<Rightarrow> bool" where
  "compiles_to r P = (case r of Inl e \<Rightarrow> False | Inr tc \<Rightarrow> P tc)"

lemma sample_compiled_facts:
  "compiles_to sample_compiled (\<lambda>tc. map id_id (tc_identities tc) = [''a'', ''b'']
     \<and> map ea_decision (tc_expected tc) = [DAllow, DDeny]
     \<and> map (map ra_decision \<circ> ea_assertions) (tc_expected tc) = [[DDeny], [DDeny]]
     \<and> rq_url (tc_request tc) = ''http://api/u/7'' \<and> tc_id tc = ''delete-u-7''
     \<and> map_option (\<lambda>wv. (id_id (wv_identity wv), cr_value (id_credential (wv_identity wv)))) (tc_verification tc)
         = Some (''v'', ''s''))"
  by code_simp

lemma sample_compiled_case: "\<exists>tc. compile_policy (\<lambda>_. None) (\<lambda>_. ''s'') sample_policy sample_bindings = Inr tc
     \<and> map id_id (tc_identities tc) = [''a'', ''b''] \<and> map ea_decision (tc_expected tc) = [DAllow, DDeny]
     \<and> map (map ra_decision \<circ> ea_assertions) (tc_expected tc) = [[DDeny], [DDeny]]
     \<and> map_option (\<lambda>wv. (id_id (wv_identity wv), cr_value (id_credential (wv_identity wv)))) (tc_verification tc)
         = Some (''v'', ''s'')"
  using sample_compiled_facts unfolding compiles_to_def sample_compiled_def by (auto split: sum.splits)

lemma compiled_case_states_the_policy_witness:
  "\<exists>tc. compile_policy (\<lambda>_. None) (\<lambda>_. ''s'') sample_policy sample_bindings = Inr tc
     \<and> (\<forall>e\<in>set (tc_expected tc). ea_decision e \<in> {DAllow, DDeny, DSkip}) \<and> map id_id (tc_identities tc) = [''a'', ''b'']"
proof -
  obtain tc where tc: "compile_policy (\<lambda>_. None) (\<lambda>_. ''s'') sample_policy sample_bindings = Inr tc"
    "map id_id (tc_identities tc) = [''a'', ''b'']"
    using sample_compiled_case by auto
  have "\<forall>e\<in>set (tc_expected tc). ea_decision e \<in> {DAllow, DDeny, DSkip}"
    using compiled_case_states_the_policy [OF tc(1)] by (elim conjE)
  with tc show ?thesis by (intro exI [of _ tc] conjI)
qed

lemma verifier_is_not_under_test_witness:
  "\<exists>tc. compile_policy (\<lambda>_. None) (\<lambda>_. ''s'') sample_policy sample_bindings = Inr tc \<and> tc_verification tc \<noteq> None
     \<and> (\<forall>i\<in>set (tc_identities tc). id_role i \<noteq> verifier_role sample_policy)"
proof -
  obtain tc where tc: "compile_policy (\<lambda>_. None) (\<lambda>_. ''s'') sample_policy sample_bindings = Inr tc"
    "tc_verification tc \<noteq> None"
    using sample_compiled_case by auto
  then show ?thesis using verifier_is_not_under_test [OF tc(1)] by blast
qed

lemma denial_profiles_only_deny_witness:
  "\<exists>tc e r. compile_policy (\<lambda>_. None) (\<lambda>_. ''s'') sample_policy sample_bindings = Inr tc
     \<and> e \<in> set (tc_expected tc) \<and> r \<in> set (ea_assertions e) \<and> ra_decision r = DDeny
     \<and> (\<exists>prof. usable_profile sample_policy sample_bindings prof)"
proof -
  obtain tc where tc: "compile_policy (\<lambda>_. None) (\<lambda>_. ''s'') sample_policy sample_bindings = Inr tc"
    "map (map ra_decision \<circ> ea_assertions) (tc_expected tc) = [[DDeny], [DDeny]]"
    using sample_compiled_case by auto
  then obtain e r where er: "e \<in> set (tc_expected tc)" "r \<in> set (ea_assertions e)" "ra_decision r = DDeny"
    by (cases "tc_expected tc") fastforce+
  have "re_assertions (po_response sample_policy) = []" by (simp add: sample_policy_def)
  then show ?thesis using denial_profiles_only_deny [OF tc(1) er(1,2)] tc(1) er by auto
qed

end
