(* ===== verification/Store.thy ===== *)
theory Store
  imports GoStrings "HOL-Library.Multiset"
begin

text \<open>
  \<open>internal/store/store.go\<close>: the job queue the runners poll, behind the interface \<open>Store\<close>, and
  its in-memory implementation. An operation takes the readings of the clock it makes; a new
  identifier is an argument, as \<open>newID\<close> draws it at random. The mutex of every method makes the
  methods atomic, so that any concurrent use is a sequence of operations.
\<close>

section \<open>Data\<close>

text \<open>
  \<open>time.Time\<close> in UTC: the calendar time as the number \<open>YYYYMMDDHHMMSS\<close>, and the nanoseconds. The zero
  time is the first second of the year 1.
\<close>

type_synonym time = "int \<times> int"

definition zero_time :: time where
  "zero_time = (10101000000, 0)"

definition time_key :: "time \<Rightarrow> int" where
  "time_key t = fst t * 1000000000 + snd t"

definition time_before :: "time \<Rightarrow> time \<Rightarrow> bool" where
  "time_before t u \<longleftrightarrow> time_key t < time_key u"

definition status_pending :: string where "status_pending = ''pending''"
definition status_claimed :: string where "status_claimed = ''claimed''"
definition status_running :: string where "status_running = ''running''"
definition status_done :: string where "status_done = ''done''"
definition status_failed :: string where "status_failed = ''failed''"

lemmas status_defs = status_pending_def status_claimed_def status_running_def status_done_def status_failed_def

lemma status_distinct [simp]:
  "status_claimed \<noteq> status_pending" "status_running \<noteq> status_pending" "status_done \<noteq> status_pending"
  "status_failed \<noteq> status_pending" "status_running \<noteq> status_claimed" "status_done \<noteq> status_claimed"
  "status_failed \<noteq> status_claimed" "status_done \<noteq> status_running" "status_failed \<noteq> status_running"
  "status_pending \<noteq> status_claimed" "status_claimed \<noteq> status_running"
  by (simp_all add: status_defs)

record event =
  ev_kind :: string
  ev_text :: string
  ev_at :: time

text \<open>\<open>Config\<close> and \<open>Result\<close> are raw JSON; the empty string is an absent value.\<close>

record job =
  jb_id :: string
  jb_tenant :: string
  jb_tool_type :: string
  jb_target_source :: string
  jb_program_id :: string
  jb_config :: string
  jb_status :: string
  jb_error_message :: string
  jb_claimed_by :: string
  jb_events :: "event list"
  jb_result :: string
  jb_created_at :: time
  jb_updated_at :: time

record runner_info =
  ri_hostname :: string
  ri_version :: string
  ri_os :: string
  ri_tools :: "string list"
  ri_last_seen :: time

record audit_entry =
  au_at :: time
  au_tenant :: string
  au_action :: string
  au_job :: string
  au_actor :: string
  au_detail :: string

definition zero_job :: job where
  "zero_job = \<lparr>jb_id = [], jb_tenant = [], jb_tool_type = [], jb_target_source = [], jb_program_id = [], jb_config = [],
     jb_status = [], jb_error_message = [], jb_claimed_by = [], jb_events = [], jb_result = [],
     jb_created_at = zero_time, jb_updated_at = zero_time\<rparr>"

text \<open>The sentinel errors; a backend may fail for reasons of its own.\<close>

datatype store_error = JobNotFound | AlreadyClaimed | InvalidStatus | JobExists | BackendError string

text \<open>The interface \<open>Store\<close>: a value of this record is an implementation over states \<open>'s\<close>.\<close>

record 's store_ops =
  st_create :: "time \<Rightarrow> string \<Rightarrow> job \<Rightarrow> 's \<Rightarrow> (store_error + job) \<times> 's"
  st_get :: "string \<Rightarrow> 's \<Rightarrow> job option"
  st_pending :: "'s \<Rightarrow> job list"
  st_claim :: "time \<Rightarrow> string \<Rightarrow> string \<Rightarrow> 's \<Rightarrow> (store_error + job) \<times> 's"
  st_append_event :: "time \<Rightarrow> string \<Rightarrow> event \<Rightarrow> 's \<Rightarrow> (store_error + unit) \<times> 's"
  st_set_result :: "time \<Rightarrow> string \<Rightarrow> string \<Rightarrow> 's \<Rightarrow> (store_error + unit) \<times> 's"
  st_complete :: "time \<Rightarrow> string \<Rightarrow> string \<Rightarrow> string \<Rightarrow> 's \<Rightarrow> (store_error + unit) \<times> 's"
  st_heartbeat :: "time \<Rightarrow> runner_info \<Rightarrow> 's \<Rightarrow> 's"
  st_runners :: "'s \<Rightarrow> runner_info list"
  st_audit :: "time \<Rightarrow> audit_entry \<Rightarrow> 's \<Rightarrow> 's"
  st_audit_log :: "int \<Rightarrow> 's \<Rightarrow> audit_entry list"

section \<open>What the operations do to a job\<close>

definition with_id :: "string \<Rightarrow> job \<Rightarrow> job" where
  "with_id fresh j = (if jb_id j = [] then j\<lparr>jb_id := fresh\<rparr> else j)"

definition created_job :: "time \<Rightarrow> job \<Rightarrow> job" where
  "created_job t j = j\<lparr>jb_status := status_pending, jb_created_at := t, jb_updated_at := t\<rparr>"

definition claimed_job :: "time \<Rightarrow> string \<Rightarrow> job \<Rightarrow> job" where
  "claimed_job t runner j = j\<lparr>jb_status := status_claimed, jb_claimed_by := runner, jb_updated_at := t\<rparr>"

definition stamp_event :: "time \<Rightarrow> event \<Rightarrow> event" where
  "stamp_event t e = (if ev_at e = zero_time then e\<lparr>ev_at := t\<rparr> else e)"

definition evented_job :: "time \<Rightarrow> event \<Rightarrow> job \<Rightarrow> job" where
  "evented_job t e j = j\<lparr>jb_events := jb_events j @ [stamp_event t e],
     jb_status := (if ev_kind e = ''running'' \<and> jb_status j = status_claimed then status_running else jb_status j),
     jb_updated_at := t\<rparr>"

definition resulted_job :: "time \<Rightarrow> string \<Rightarrow> job \<Rightarrow> job" where
  "resulted_job t res j = j\<lparr>jb_result := res, jb_updated_at := t\<rparr>"

definition completed_job :: "time \<Rightarrow> string \<Rightarrow> string \<Rightarrow> job \<Rightarrow> job" where
  "completed_job t status err j = j\<lparr>jb_status := status, jb_error_message := err, jb_updated_at := t\<rparr>"

definition final_status :: "string \<Rightarrow> bool" where
  "final_status s \<longleftrightarrow> s = status_done \<or> s = status_failed"

section \<open>The in-memory store\<close>

record memory =
  me_jobs :: "(string \<times> job) list"
  me_runners :: "(string \<times> runner_info) list"
  me_audit :: "audit_entry list"

definition new_memory :: memory where
  "new_memory = \<lparr>me_jobs = [], me_runners = [], me_audit = []\<rparr>"

definition mem_create :: "time \<Rightarrow> string \<Rightarrow> job \<Rightarrow> memory \<Rightarrow> (store_error + job) \<times> memory" where
  "mem_create t fresh j m = (let j = with_id fresh j in
     if amap_get (me_jobs m) (jb_id j) \<noteq> None then (Inl JobExists, m)
     else let j = created_job t j in (Inr j, m\<lparr>me_jobs := amap_put (jb_id j) j (me_jobs m)\<rparr>))"

definition mem_get :: "string \<Rightarrow> memory \<Rightarrow> job option" where
  "mem_get i m = amap_get (me_jobs m) i"

text \<open>
  \<open>sort.Slice\<close> by creation time, over the values of a map: the order of jobs created at the same
  instant is not specified by Go. The model takes one of the orders it may give, that of
  insertion; the contract below and what is proved from it say nothing of the order of the
  pending jobs (\<open>vw_arrange\<close> is any arrangement of them, and answers are compared without it).
\<close>

definition mem_pending :: "memory \<Rightarrow> job list" where
  "mem_pending m = sort_key (\<lambda>j. time_key (jb_created_at j))
     (filter (\<lambda>j. jb_status j = status_pending) (map snd (me_jobs m)))"

definition mem_claim :: "time \<Rightarrow> string \<Rightarrow> string \<Rightarrow> memory \<Rightarrow> (store_error + job) \<times> memory" where
  "mem_claim t i runner m = (case amap_get (me_jobs m) i of
       None \<Rightarrow> (Inl JobNotFound, m)
     | Some j \<Rightarrow>
         if jb_status j \<noteq> status_pending then (Inl AlreadyClaimed, m)
         else (Inr (claimed_job t runner j), m\<lparr>me_jobs := amap_put i (claimed_job t runner j) (me_jobs m)\<rparr>))"

definition mem_append_event :: "time \<Rightarrow> string \<Rightarrow> event \<Rightarrow> memory \<Rightarrow> (store_error + unit) \<times> memory" where
  "mem_append_event t i e m = (case amap_get (me_jobs m) i of
       None \<Rightarrow> (Inl JobNotFound, m)
     | Some j \<Rightarrow> (Inr (), m\<lparr>me_jobs := amap_put i (evented_job t e j) (me_jobs m)\<rparr>))"

definition mem_set_result :: "time \<Rightarrow> string \<Rightarrow> string \<Rightarrow> memory \<Rightarrow> (store_error + unit) \<times> memory" where
  "mem_set_result t i res m = (case amap_get (me_jobs m) i of
       None \<Rightarrow> (Inl JobNotFound, m)
     | Some j \<Rightarrow> (Inr (), m\<lparr>me_jobs := amap_put i (resulted_job t res j) (me_jobs m)\<rparr>))"

definition mem_complete :: "time \<Rightarrow> string \<Rightarrow> string \<Rightarrow> string \<Rightarrow> memory \<Rightarrow> (store_error + unit) \<times> memory" where
  "mem_complete t i status err m =
     (if \<not> final_status status then (Inl InvalidStatus, m)
      else case amap_get (me_jobs m) i of
        None \<Rightarrow> (Inl JobNotFound, m)
      | Some j \<Rightarrow> (Inr (), m\<lparr>me_jobs := amap_put i (completed_job t status err j) (me_jobs m)\<rparr>))"

definition stamp_runner :: "time \<Rightarrow> runner_info \<Rightarrow> runner_info" where
  "stamp_runner t r = (if ri_last_seen r = zero_time then r\<lparr>ri_last_seen := t\<rparr> else r)"

definition mem_heartbeat :: "time \<Rightarrow> runner_info \<Rightarrow> memory \<Rightarrow> memory" where
  "mem_heartbeat t r m = m\<lparr>me_runners := amap_put (ri_hostname r) (stamp_runner t r) (me_runners m)\<rparr>"

definition mem_runners :: "memory \<Rightarrow> runner_info list" where
  "mem_runners m = sort_key ri_hostname (map snd (me_runners m))"

definition stamp_audit :: "time \<Rightarrow> audit_entry \<Rightarrow> audit_entry" where
  "stamp_audit t e = (if au_at e = zero_time then e\<lparr>au_at := t\<rparr> else e)"

definition mem_audit :: "time \<Rightarrow> audit_entry \<Rightarrow> memory \<Rightarrow> memory" where
  "mem_audit t e m = m\<lparr>me_audit := me_audit m @ [stamp_audit t e]\<rparr>"

definition tail_entries :: "audit_entry list \<Rightarrow> int \<Rightarrow> audit_entry list" where
  "tail_entries all limit = (let start = (if 0 < limit \<and> limit < int (length all) then length all - nat limit else 0) in
     drop start all)"

definition mem_audit_log :: "int \<Rightarrow> memory \<Rightarrow> audit_entry list" where
  "mem_audit_log limit m = tail_entries (me_audit m) limit"

definition memory_store :: "memory store_ops" where
  "memory_store = \<lparr>st_create = mem_create, st_get = mem_get, st_pending = mem_pending, st_claim = mem_claim,
     st_append_event = mem_append_event, st_set_result = mem_set_result, st_complete = mem_complete,
     st_heartbeat = mem_heartbeat, st_runners = mem_runners, st_audit = mem_audit, st_audit_log = mem_audit_log\<rparr>"

section \<open>The contract of a store\<close>

text \<open>
  What a client may rely on, over an abstraction of the state: the readable jobs in the order
  of their creation, the identifiers in use, and the audit trail. \<open>vw_write\<close> says what a job
  reads back as once written (\<open>None\<close> when it cannot be read), or why it is not written;
  \<open>vw_sound\<close> which jobs keep their identity when written, \<open>vw_note\<close> what an audit entry reads back as.
\<close>

record 's store_view =
  vw_ok :: "'s \<Rightarrow> bool"
  vw_listing :: "'s \<Rightarrow> job list"
  vw_used :: "'s \<Rightarrow> string set"
  vw_trail :: "'s \<Rightarrow> audit_entry list"
  vw_write :: "job \<Rightarrow> store_error + job option"
  vw_sound :: "job \<Rightarrow> bool"
  vw_note :: "audit_entry \<Rightarrow> audit_entry"
  vw_arrange :: "job list \<Rightarrow> job list"

definition job_by_id :: "job list \<Rightarrow> string \<Rightarrow> job option" where
  "job_by_id js i = List.find (\<lambda>j. jb_id j = i) js"

definition replace_job :: "string \<Rightarrow> job option \<Rightarrow> job list \<Rightarrow> job list" where
  "replace_job i r js = List.map_filter (\<lambda>j. if jb_id j = i then r else Some j) js"

definition moves :: "'s store_view \<Rightarrow> 's \<Rightarrow> 's \<Rightarrow> job list \<Rightarrow> bool" where
  "moves V s s' L \<longleftrightarrow> vw_ok V s' \<and> vw_listing V s' = L \<and> vw_used V s' = vw_used V s \<and> vw_trail V s' = vw_trail V s"

definition updates :: "'s store_view \<Rightarrow> 's \<Rightarrow> (store_error + 'a) \<times> 's \<Rightarrow> string \<Rightarrow> (job \<Rightarrow> job) \<Rightarrow> (job \<Rightarrow> 'a) \<Rightarrow> bool" where
  "updates V s res i f out \<longleftrightarrow> (case job_by_id (vw_listing V s) i of
       None \<Rightarrow> isl (fst res) \<and> (i \<notin> vw_used V s \<longrightarrow> fst res = Inl JobNotFound) \<and> moves V s (snd res) (vw_listing V s)
     | Some j \<Rightarrow> (case vw_write V (f j) of
         Inl e \<Rightarrow> fst res = Inl e \<and> moves V s (snd res) (vw_listing V s)
       | Inr r \<Rightarrow> fst res = Inr (out (f j)) \<and> moves V s (snd res) (replace_job i r (vw_listing V s))))"

definition creates :: "'s store_view \<Rightarrow> 's \<Rightarrow> (store_error + job) \<times> 's \<Rightarrow> job \<Rightarrow> bool" where
  "creates V s res j \<longleftrightarrow>
     (if jb_id j \<in> vw_used V s then fst res = Inl JobExists \<and> moves V s (snd res) (vw_listing V s)
      else case vw_write V j of
        Inl e \<Rightarrow> fst res = Inl e \<and> moves V s (snd res) (vw_listing V s)
      | Inr r \<Rightarrow> fst res = Inr j \<and> vw_ok V (snd res)
          \<and> vw_listing V (snd res) = vw_listing V s @ (case r of None \<Rightarrow> [] | Some k \<Rightarrow> [k])
          \<and> vw_used V (snd res) = insert (jb_id j) (vw_used V s) \<and> vw_trail V (snd res) = vw_trail V s)"

lemma job_by_id_Some: "job_by_id js i = Some j \<Longrightarrow> j \<in> set js \<and> jb_id j = i"
  unfolding job_by_id_def by (drule find_SomeD) auto

lemma job_by_id_None: "job_by_id js i = None \<longleftrightarrow> i \<notin> jb_id ` set js"
  unfolding job_by_id_def by (auto simp: find_None_iff)

lemma job_by_id_unique: "distinct (map jb_id js) \<Longrightarrow> j \<in> set js \<Longrightarrow> job_by_id js (jb_id j) = Some j"
  unfolding job_by_id_def by (induction js) (auto simp: rev_image_eqI)

lemma job_by_id_append:
  "job_by_id (js @ ks) i = (case job_by_id js i of None \<Rightarrow> job_by_id ks i | Some j \<Rightarrow> Some j)"
  unfolding job_by_id_def by (induction js) auto

lemma replace_job_simps [simp]:
  "replace_job i r [] = []"
  "replace_job i r (j # js) = (if jb_id j = i then (case r of None \<Rightarrow> [] | Some k \<Rightarrow> [k]) else [j]) @ replace_job i r js"
  by (auto simp: replace_job_def List.map_filter_simps split: option.split)

lemma replace_job_other: "i \<notin> jb_id ` set js \<Longrightarrow> replace_job i r js = js"
  by (induction js) auto

lemma set_replace_job: "set (replace_job i r js) \<subseteq> set js \<union> set_option r"
  by (induction js) (auto split: option.splits)

lemma replace_job_ids:
  "(\<And>k. r = Some k \<Longrightarrow> jb_id k = i) \<Longrightarrow> jb_id ` set (replace_job i r js) \<subseteq> jb_id ` set js"
  by (induction js) (auto split: option.splits)

lemma distinct_replace_job:
  assumes "\<And>k. r = Some k \<Longrightarrow> jb_id k = i"
  shows "distinct (map jb_id js) \<Longrightarrow> distinct (map jb_id (replace_job i r js))"
proof (induction js)
  case (Cons j js)
  show ?case
  proof (cases "jb_id j = i")
    case True
    then have "replace_job i r js = js" using Cons.prems by (intro replace_job_other) simp
    then show ?thesis using True Cons.prems assms by (cases r) simp_all
  next
    case False
    have "jb_id j \<notin> jb_id ` set (replace_job i r js)" using replace_job_ids [of r i js, OF assms] Cons.prems by auto
    then show ?thesis using False Cons by simp
  qed
qed simp

lemma job_by_id_simps [simp]:
  "job_by_id [] i = None" "job_by_id (j # js) i = (if jb_id j = i then Some j else job_by_id js i)"
  by (simp_all add: job_by_id_def)

lemma job_by_id_replace:
  assumes "\<And>k. r = Some k \<Longrightarrow> jb_id k = i"
  shows "distinct (map jb_id js) \<Longrightarrow> job_by_id (replace_job i r js) n =
    (if n = i \<and> job_by_id js i \<noteq> None then r else job_by_id js n)"
proof (induction js)
  case (Cons j js)
  show ?case
  proof (cases "jb_id j = i")
    case True
    then have "replace_job i r js = js" "job_by_id js i = None"
      using Cons.prems by (auto simp: job_by_id_None intro: replace_job_other)
    then show ?thesis using True assms by (cases r) auto
  qed (use Cons in auto)
qed simp

locale job_store =
  fixes S :: "'s store_ops" and V :: "'s store_view"
  assumes listed: "vw_ok V s \<Longrightarrow> distinct (map jb_id (vw_listing V s)) \<and> jb_id ` set (vw_listing V s) \<subseteq> vw_used V s
      \<and> (\<forall>j\<in>set (vw_listing V s). vw_sound V j)"
    and written: "vw_sound V j \<Longrightarrow> vw_write V j = Inr (Some k) \<Longrightarrow>
      jb_id k = jb_id j \<and> jb_tenant k = jb_tenant j \<and> jb_status k = jb_status j"
    and sound_like: "vw_sound V j \<Longrightarrow> jb_id k = jb_id j \<Longrightarrow> jb_tenant k = jb_tenant j \<Longrightarrow>
      jb_status k \<in> {jb_status j, status_pending, status_claimed, status_running, status_done, status_failed} \<Longrightarrow> vw_sound V k"
    and arranged: "filter P (vw_arrange V js) = vw_arrange V (filter P js)" "mset (vw_arrange V js) = mset js"
    and get_law: "vw_ok V s \<Longrightarrow> st_get S i s = job_by_id (vw_listing V s) i"
    and pending_law: "vw_ok V s \<Longrightarrow>
      st_pending S s = vw_arrange V (filter (\<lambda>j. jb_status j = status_pending) (vw_listing V s))"
    and create_law: "vw_ok V s \<Longrightarrow> vw_sound V (created_job t (with_id fresh j)) \<Longrightarrow>
      creates V s (st_create S t fresh j s) (created_job t (with_id fresh j))"
    and claim_law: "vw_ok V s \<Longrightarrow>
      (case job_by_id (vw_listing V s) i of
         Some j \<Rightarrow> jb_status j \<noteq> status_pending \<and> st_claim S t i runner s = (Inl AlreadyClaimed, s)
           \<or> jb_status j = status_pending \<and> updates V s (st_claim S t i runner s) i (claimed_job t runner) id
       | None \<Rightarrow> updates V s (st_claim S t i runner s) i (claimed_job t runner) id)"
    and event_law: "vw_ok V s \<Longrightarrow> updates V s (st_append_event S t i e s) i (evented_job t e) (\<lambda>_. ())"
    and result_law: "vw_ok V s \<Longrightarrow> updates V s (st_set_result S t i res s) i (resulted_job t res) (\<lambda>_. ())"
    and complete_law: "vw_ok V s \<Longrightarrow>
      (if final_status status then updates V s (st_complete S t i status err s) i (completed_job t status err) (\<lambda>_. ())
       else st_complete S t i status err s = (Inl InvalidStatus, s))"
    and heartbeat_law: "vw_ok V s \<Longrightarrow> moves V s (st_heartbeat S t r s) (vw_listing V s)"
    and audit_law: "vw_ok V s \<Longrightarrow> vw_ok V (st_audit S t a s) \<and> vw_listing V (st_audit S t a s) = vw_listing V s
      \<and> vw_used V (st_audit S t a s) = vw_used V s \<and> vw_trail V (st_audit S t a s) = vw_trail V s @ [vw_note V (stamp_audit t a)]"
    and noted: "au_tenant (vw_note V a) = au_tenant a"
    and audit_log_law: "vw_ok V s \<Longrightarrow> st_audit_log S n s = tail_entries (vw_trail V s) n"
begin

lemma arranged_set: "set (vw_arrange V js) = set js"
  using arranged(2) by (rule mset_eq_setD)

lemma update_cases:
  assumes "vw_ok V s" "updates V s res i f out"
  obtains (missing) e where "job_by_id (vw_listing V s) i = None" "fst res = Inl e"
      "moves V s (snd res) (vw_listing V s)"
    | (refused) j e where "job_by_id (vw_listing V s) i = Some j" "vw_write V (f j) = Inl e" "fst res = Inl e"
      "moves V s (snd res) (vw_listing V s)"
    | (updated) j r where "job_by_id (vw_listing V s) i = Some j" "vw_write V (f j) = Inr r" "fst res = Inr (out (f j))"
      "moves V s (snd res) (replace_job i r (vw_listing V s))"
  using assms(2) unfolding updates_def by (auto simp: isl_def split: option.splits sum.splits)

lemma updates_ok: "vw_ok V s \<Longrightarrow> updates V s res i f out \<Longrightarrow> vw_ok V (snd res)"
  by (erule update_cases, assumption) (auto simp: moves_def)

end

section \<open>The life of a job\<close>

definition status_rank :: "string \<Rightarrow> nat" where
  "status_rank s = (if s = status_pending then 0 else if s = status_claimed then 1
     else if s = status_running then 2 else 3)"

text \<open>One call of a store operation, as an observer sees it; \<open>good\<close> restricts the jobs created.\<close>

datatype queue_label = LCreated string | LClaimed string | LOther

inductive queue_step :: "'s store_ops \<Rightarrow> (job \<Rightarrow> bool) \<Rightarrow> 's \<Rightarrow> queue_label \<Rightarrow> 's \<Rightarrow> bool" for S good where
  create: "good (created_job t (with_id fresh j)) \<Longrightarrow> st_create S t fresh j s = (Inr k, s') \<Longrightarrow>
     queue_step S good s (LCreated (jb_id k)) s'"
| create_fails: "good (created_job t (with_id fresh j)) \<Longrightarrow> st_create S t fresh j s = (Inl e, s') \<Longrightarrow>
     queue_step S good s LOther s'"
| claim: "st_claim S t i runner s = (Inr k, s') \<Longrightarrow> queue_step S good s (LClaimed i) s'"
| claim_fails: "st_claim S t i runner s = (Inl e, s') \<Longrightarrow> queue_step S good s LOther s'"
| event: "st_append_event S t i ev s = (r, s') \<Longrightarrow> queue_step S good s LOther s'"
| result: "st_set_result S t i res s = (r, s') \<Longrightarrow> queue_step S good s LOther s'"
| complete: "st_complete S t i status err s = (r, s') \<Longrightarrow> queue_step S good s LOther s'"
| heartbeat: "queue_step S good s LOther (st_heartbeat S t info s)"
| audit: "queue_step S good s LOther (st_audit S t a s)"

inductive queue_run :: "'s store_ops \<Rightarrow> (job \<Rightarrow> bool) \<Rightarrow> 's \<Rightarrow> queue_label list \<Rightarrow> 's \<Rightarrow> bool" for S good s where
  start: "queue_run S good s [] s"
| step: "queue_run S good s ls s' \<Longrightarrow> queue_step S good s' l s'' \<Longrightarrow> queue_run S good s (ls @ [l]) s''"

inductive_cases queue_run_empty: "queue_run S good s [] s'"

text \<open>A job of the later list that was known before: the same job, no further back in its life.\<close>

definition grown :: "string set \<Rightarrow> job list \<Rightarrow> job list \<Rightarrow> bool" where
  "grown used js ks \<longleftrightarrow> (\<forall>n\<in>used. \<forall>k. job_by_id ks n = Some k \<longrightarrow>
     (\<exists>j. job_by_id js n = Some j \<and> jb_tenant k = jb_tenant j \<and> status_rank (jb_status j) \<le> status_rank (jb_status k)))"

lemma grown_refl: "grown u js js"
  by (simp add: grown_def)

lemma grown_trans: "grown u js ks \<Longrightarrow> u \<subseteq> v \<Longrightarrow> grown v ks ls \<Longrightarrow> grown u js ls"
proof (unfold grown_def, intro ballI allI impI)
  fix n l assume jk: "\<forall>n\<in>u. \<forall>k. job_by_id ks n = Some k \<longrightarrow>
       (\<exists>j. job_by_id js n = Some j \<and> jb_tenant k = jb_tenant j \<and> status_rank (jb_status j) \<le> status_rank (jb_status k))"
    and uv: "u \<subseteq> v" and n: "n \<in> u" "job_by_id ls n = Some l"
    and kl: "\<forall>n\<in>v. \<forall>k. job_by_id ls n = Some k \<longrightarrow>
       (\<exists>j. job_by_id ks n = Some j \<and> jb_tenant k = jb_tenant j \<and> status_rank (jb_status j) \<le> status_rank (jb_status k))"
  obtain k where k: "job_by_id ks n = Some k" "jb_tenant l = jb_tenant k" "status_rank (jb_status k) \<le> status_rank (jb_status l)"
    using kl uv n by blast
  with jk n obtain j where "job_by_id js n = Some j" "jb_tenant k = jb_tenant j"
      "status_rank (jb_status j) \<le> status_rank (jb_status k)" by blast
  with k show "\<exists>j. job_by_id js n = Some j \<and> jb_tenant l = jb_tenant j \<and> status_rank (jb_status j) \<le> status_rank (jb_status l)"
    by (intro exI [of _ j]) simp
qed

lemma status_ranks [simp]:
  "status_rank status_pending = 0" "status_rank status_claimed = 1" "status_rank status_running = 2"
  "status_rank s = 0 \<longleftrightarrow> s = status_pending" "status_rank s \<le> 3" "final_status s \<Longrightarrow> status_rank s = 3"
  by (auto simp: status_rank_def final_status_def)

text \<open>What an operation may do to a job: keep its identity and never move its status back.\<close>

definition ages :: "(job \<Rightarrow> job) \<Rightarrow> job \<Rightarrow> bool" where
  "ages f j \<longleftrightarrow> jb_id (f j) = jb_id j \<and> jb_tenant (f j) = jb_tenant j \<and> status_rank (jb_status j) \<le> status_rank (jb_status (f j))
     \<and> jb_status (f j) \<in> {jb_status j, status_pending, status_claimed, status_running, status_done, status_failed}"

lemma ages_ops:
  "jb_status j = status_pending \<Longrightarrow> ages (claimed_job t r) j" "ages (evented_job t e) j" "ages (resulted_job t res) j"
  "final_status s \<Longrightarrow> ages (completed_job t s err) j"
  by (auto simp: ages_def claimed_job_def evented_job_def resulted_job_def completed_job_def)
    (auto simp: final_status_def)

context job_store
begin

definition ahead :: "'s \<Rightarrow> 's \<Rightarrow> bool" where
  "ahead s s' \<longleftrightarrow> vw_ok V s' \<and> vw_used V s \<subseteq> vw_used V s' \<and> grown (vw_used V s) (vw_listing V s) (vw_listing V s')"

lemma ahead_refl: "vw_ok V s \<Longrightarrow> ahead s s"
  by (simp add: ahead_def grown_refl)

lemma ahead_trans: "ahead a b \<Longrightarrow> ahead b c \<Longrightarrow> ahead a c"
  unfolding ahead_def by (meson grown_trans order_trans)

lemma ahead_moves: "moves V s s' (vw_listing V s) \<Longrightarrow> ahead s s'"
  by (simp add: ahead_def moves_def grown_refl)

lemma sound_listed: "vw_ok V s \<Longrightarrow> job_by_id (vw_listing V s) i = Some j \<Longrightarrow> vw_sound V j"
  using listed job_by_id_Some by blast

lemma written_aged:
  assumes "vw_ok V s" "job_by_id (vw_listing V s) i = Some j" "ages f j" "vw_write V (f j) = Inr (Some k)"
  shows "jb_id k = i \<and> jb_tenant k = jb_tenant j \<and> jb_status k = jb_status (f j)"
proof -
  have "vw_sound V (f j)"
    using sound_like [OF sound_listed [OF assms(1,2)], of "f j"] assms(3) by (simp add: ages_def)
  from written [OF this assms(4)] show ?thesis using assms(3) job_by_id_Some [OF assms(2)] by (simp add: ages_def)
qed

lemma ahead_updates:
  assumes "vw_ok V s" "updates V s res i f out" "\<And>j. job_by_id (vw_listing V s) i = Some j \<Longrightarrow> ages f j"
  shows "ahead s (snd res)"
  using assms(1,2)
proof (cases rule: update_cases)
  case (updated j r)
  have id: "jb_id k = i" if "r = Some k" for k using written_aged [OF assms(1) updated(1) assms(3)] updated that by simp
  have "grown (vw_used V s) (vw_listing V s) (replace_job i r (vw_listing V s))"
    using written_aged [OF assms(1) updated(1) assms(3) [OF updated(1)]] updated(1,2) assms(3) [OF updated(1)]
      listed [OF assms(1)]
    by (auto simp: grown_def job_by_id_replace [OF id] ages_def split: if_splits)
  then show ?thesis using updated(4) by (simp add: ahead_def moves_def)
qed (auto dest: ahead_moves)

lemma ahead_claim:
  assumes ok: "vw_ok V s" and res: "st_claim S t i runner s = (r, s')"
  shows "ahead s s'"
    and "r = Inr k \<Longrightarrow> \<exists>j. job_by_id (vw_listing V s) i = Some j \<and> jb_status j = status_pending"
    and "r = Inr k \<Longrightarrow> job_by_id (vw_listing V s') i = Some j' \<Longrightarrow> jb_status j' \<noteq> status_pending"
proof -
  have "ahead s s' \<and> (r = Inr k \<longrightarrow> (\<exists>j. job_by_id (vw_listing V s) i = Some j \<and> jb_status j = status_pending)
     \<and> (\<forall>j'. job_by_id (vw_listing V s') i = Some j' \<longrightarrow> jb_status j' \<noteq> status_pending))"
  proof (cases "\<exists>j. job_by_id (vw_listing V s) i = Some j \<and> jb_status j \<noteq> status_pending")
    case True
    then have "r = Inl AlreadyClaimed" "s' = s"
      using claim_law [OF ok, where i = i and t = t and runner = runner] res by (auto split: option.splits)
    then show ?thesis using ahead_refl [OF ok] by simp
  next
    case False
    then have u: "updates V s (r, s') i (claimed_job t runner) id"
      using claim_law [OF ok, where i = i and t = t and runner = runner] res by (auto split: option.splits)
    have ages: "ages (claimed_job t runner) j" if "job_by_id (vw_listing V s) i = Some j" for j
      using False that by (intro ages_ops(1)) blast
    from ok u show ?thesis
    proof (cases rule: update_cases)
      case (updated j w)
      have new: "jb_id k' = i \<and> jb_status k' = status_claimed" if "w = Some k'" for k'
        using written_aged [OF ok updated(1) ages [OF updated(1)]] updated(2) that by (simp add: claimed_job_def)
      then have "job_by_id (vw_listing V s') i = w"
        using updated listed [OF ok] by (simp add: moves_def job_by_id_replace)
      then show ?thesis using ahead_updates [OF ok u ages] updated(1) False new by auto
    qed (use ahead_updates [OF ok u ages] in auto)
  qed
  then show "ahead s s'"
    and "r = Inr k \<Longrightarrow> \<exists>j. job_by_id (vw_listing V s) i = Some j \<and> jb_status j = status_pending"
    and "r = Inr k \<Longrightarrow> job_by_id (vw_listing V s') i = Some j' \<Longrightarrow> jb_status j' \<noteq> status_pending"
    by blast+
qed

lemma ahead_create:
  assumes ok: "vw_ok V s" and good: "vw_sound V (created_job t (with_id fresh j))"
    and res: "st_create S t fresh j s = (r, s')"
  shows "ahead s s' \<and> (r = Inr k \<longrightarrow> jb_id k \<notin> vw_used V s \<and> jb_id k \<in> vw_used V s')"
proof -
  let ?j = "created_job t (with_id fresh j)"
  have c: "creates V s (r, s') ?j" using create_law [OF ok good] res by simp
  show ?thesis
  proof (cases "jb_id ?j \<in> vw_used V s \<or> (\<exists>e. vw_write V ?j = Inl e)")
    case True
    then show ?thesis using c by (auto simp: creates_def split: if_splits dest: ahead_moves)
  next
    case False
    then obtain w where w: "vw_write V ?j = Inr w" "r = Inr ?j" "vw_ok V s'" "jb_id ?j \<notin> vw_used V s"
       "vw_listing V s' = vw_listing V s @ (case w of None \<Rightarrow> [] | Some k \<Rightarrow> [k])"
       "vw_used V s' = insert (jb_id ?j) (vw_used V s)"
      using c by (cases "vw_write V ?j") (auto simp: creates_def)
    have "job_by_id (vw_listing V s') n = job_by_id (vw_listing V s) n" if "n \<in> vw_used V s" for n
      using that written [OF good] w(1,4,5) by (cases w) (auto simp: job_by_id_append split: option.split)
    then have "grown (vw_used V s) (vw_listing V s) (vw_listing V s')" by (simp add: grown_def)
    then show ?thesis using w by (auto simp: ahead_def)
  qed
qed

lemma ahead_step:
  assumes "queue_step S (vw_sound V) s l s'" "vw_ok V s"
  shows "ahead s s' \<and> (\<forall>i. l = LClaimed i \<longrightarrow>
      (\<exists>j. job_by_id (vw_listing V s) i = Some j \<and> jb_status j = status_pending)
      \<and> (\<forall>k. job_by_id (vw_listing V s') i = Some k \<longrightarrow> jb_status k \<noteq> status_pending))"
  using assms
proof (cases rule: queue_step.cases)
  case (create t fresh j k)
  then show ?thesis using ahead_create [OF assms(2) create(2,3)] by auto
next
  case (create_fails t fresh j e)
  then show ?thesis using ahead_create [OF assms(2) create_fails(2,3)] by auto
next
  case (claim t i runner k)
  then show ?thesis using ahead_claim [OF assms(2) claim(2)] by auto
next
  case (claim_fails t i runner e)
  then show ?thesis using ahead_claim [OF assms(2) claim_fails(2)] by auto
next
  case (event t i ev r)
  then show ?thesis using ahead_updates [OF assms(2) event_law [OF assms(2)] ages_ops(2), of t i ev] by simp
next
  case (result t i res r)
  then show ?thesis using ahead_updates [OF assms(2) result_law [OF assms(2)] ages_ops(3), of t i res] by simp
next
  case (complete t i status err r)
  note law = complete_law [OF assms(2), where status = status and t = t and i = i and err = err]
  show ?thesis
  proof (cases "final_status status")
    case True
    then have "updates V s (r, s') i (completed_job t status err) (\<lambda>_. ())" using law complete by simp
    from ahead_updates [OF assms(2) this ages_ops(4) [OF True]] show ?thesis using complete by simp
  next
    case False
    then show ?thesis using law complete ahead_refl [OF assms(2)] by simp
  qed
next
  case (heartbeat t info)
  then show ?thesis using heartbeat_law [OF assms(2)] ahead_moves by simp
next
  case (audit t a)
  then show ?thesis using audit_law [OF assms(2)] by (simp add: ahead_def grown_refl)
qed

text \<open>Over any sequence of calls a job keeps its identity, its status never goes back, and it is claimed once.\<close>

lemma lifecycle:
  assumes "queue_run S (vw_sound V) s ls s'" "vw_ok V s"
  shows "ahead s s' \<and> count_list ls (LClaimed i) \<le> 1
    \<and> (LClaimed i \<in> set ls \<longrightarrow> i \<in> vw_used V s'
         \<and> (\<forall>k. job_by_id (vw_listing V s') i = Some k \<longrightarrow> jb_status k \<noteq> status_pending))"
  using assms
proof (induction rule: queue_run.induct)
  case start
  then show ?case by (simp add: ahead_refl)
next
  case (step ls s' l s'')
  then have IH: "ahead s s'" "count_list ls (LClaimed i) \<le> 1"
    "LClaimed i \<in> set ls \<Longrightarrow> i \<in> vw_used V s' \<and> (\<forall>k. job_by_id (vw_listing V s') i = Some k \<longrightarrow> jb_status k \<noteq> status_pending)"
    by auto
  then have ok: "vw_ok V s'" by (simp add: ahead_def)
  note st = ahead_step [OF step.hyps(2) ok]
  have late: "LClaimed i \<in> set ls \<Longrightarrow> l \<noteq> LClaimed i" using IH(3) st by auto
  have here: "i \<in> vw_used V s'" if l: "l = LClaimed i"
  proof -
    obtain j where "job_by_id (vw_listing V s') i = Some j" using st l by blast
    then show ?thesis using listed [OF ok] job_by_id_Some by blast
  qed
  have kept: "jb_status k \<noteq> status_pending"
    if i: "LClaimed i \<in> set ls" "job_by_id (vw_listing V s'') i = Some k" for k
  proof -
    have "grown (vw_used V s') (vw_listing V s') (vw_listing V s'')" using st by (simp add: ahead_def)
    then obtain j where "job_by_id (vw_listing V s') i = Some j" "status_rank (jb_status j) \<le> status_rank (jb_status k)"
      using IH(3) [OF i(1)] i(2) unfolding grown_def by blast
    moreover have "jb_status j \<noteq> status_pending" using IH(3) [OF i(1)] calculation(1) by blast
    ultimately show ?thesis by auto
  qed
  have sub: "vw_used V s' \<subseteq> vw_used V s''" using st by (simp add: ahead_def)
  have "count_list (ls @ [l]) (LClaimed i) \<le> 1"
    using late IH(2) by (cases "LClaimed i \<in> set ls") (auto simp: count_list_0_iff)
  then show ?case
    using ahead_trans [OF IH(1)] st kept here sub IH(3) by auto
qed

end

section \<open>The in-memory store keeps the contract\<close>

definition memory_view :: "memory store_view" where
  "memory_view = \<lparr>vw_ok = \<lambda>m. distinct (map fst (me_jobs m)) \<and> (\<forall>(i, j)\<in>set (me_jobs m). jb_id j = i),
     vw_listing = \<lambda>m. map snd (me_jobs m), vw_used = \<lambda>m. fst ` set (me_jobs m), vw_trail = me_audit,
     vw_write = \<lambda>j. Inr (Some j), vw_sound = \<lambda>_. True, vw_note = id, vw_arrange = sort_key (\<lambda>j. time_key (jb_created_at j))\<rparr>"

lemma amap_get_simps [simp]:
  "amap_get [] i = None" "amap_get ((k, v) # m) i = (if k = i then Some v else amap_get m i)"
  by (simp_all add: amap_get_def)

lemma keyed_get: "\<forall>(i, j)\<in>set js. jb_id j = i \<Longrightarrow> amap_get js i = job_by_id (map snd js) i"
  by (induction js) auto

lemma keyed_ids: "\<forall>(i, j)\<in>set js. jb_id j = i \<Longrightarrow> map jb_id (map snd js) = map fst js"
  by (induction js) auto

lemma keyed_put:
  assumes "jb_id k = i"
  shows "\<forall>(i, j)\<in>set js. jb_id j = i \<Longrightarrow> distinct (map fst js) \<Longrightarrow>
    map snd (amap_put i k js) = (if i \<in> fst ` set js then replace_job i (Some k) (map snd js) else map snd js @ [k])"
proof (induction js)
  case (Cons p js)
  obtain n j where p: "p = (n, j)" by force
  have ids: "jb_id ` set (map snd js) = fst ` set js" using Cons.prems(1) by (force simp: image_iff)
  show ?case
  proof (cases "n = i")
    case True
    then have "replace_job i (Some k) (map snd js) = map snd js"
      using Cons.prems(2) p ids by (intro replace_job_other) auto
    then show ?thesis using True Cons.prems p by simp
  next
    case False
    then show ?thesis using Cons p by auto
  qed
qed simp

lemma keyed_put_ok:
  "jb_id k = i \<Longrightarrow> \<forall>(i, j)\<in>set js. jb_id j = i \<Longrightarrow> \<forall>(i, j)\<in>set (amap_put i k js). jb_id j = i"
  by (induction i k js rule: amap_put.induct) auto

lemma memory_update:
  assumes "vw_ok memory_view m" "job_by_id (map snd (me_jobs m)) i = Some j" "jb_id k = i"
  shows "moves memory_view m (m\<lparr>me_jobs := amap_put i k (me_jobs m)\<rparr>) (replace_job i (Some k) (map snd (me_jobs m)))"
proof -
  have ok: "\<forall>(i, j)\<in>set (me_jobs m). jb_id j = i" "distinct (map fst (me_jobs m))"
    using assms(1) by (auto simp: memory_view_def)
  have "i \<in> fst ` set (me_jobs m)" using assms(2) keyed_get [OF ok(1), of i] amap_get_None_iff [of "me_jobs m" i] by force
  then show ?thesis
    using keyed_put [OF assms(3) ok] keyed_put_ok [OF assms(3) ok(1)] ok
    by (auto simp: moves_def memory_view_def)
qed

lemma memory_stays: "vw_ok memory_view m \<Longrightarrow> moves memory_view m m (map snd (me_jobs m))"
  by (simp add: moves_def memory_view_def)

lemma memory_sel [simp]:
  "vw_listing memory_view m = map snd (me_jobs m)" "vw_write memory_view j = Inr (Some j)" "vw_trail memory_view m = me_audit m"
  by (simp_all add: memory_view_def)

lemma memory_updates:
  assumes "vw_ok memory_view m" "\<And>j. jb_id (f j) = jb_id j"
    and "res = (case amap_get (me_jobs m) i of None \<Rightarrow> (Inl JobNotFound, m)
      | Some j \<Rightarrow> (Inr (out (f j)), m\<lparr>me_jobs := amap_put i (f j) (me_jobs m)\<rparr>))"
  shows "updates memory_view m res i f out"
proof -
  have "amap_get (me_jobs m) i = job_by_id (map snd (me_jobs m)) i"
    using assms(1) by (intro keyed_get) (simp add: memory_view_def)
  then show ?thesis
    using memory_update [OF assms(1)] memory_stays [OF assms(1)] assms(2,3) job_by_id_Some
    by (auto simp: updates_def split: option.split)
qed

interpretation mem: job_store memory_store memory_view
proof (unfold_locales, goal_cases)
  case (1 s)
  then have ids: "map jb_id (map snd (me_jobs s)) = map fst (me_jobs s)" by (intro keyed_ids) (simp add: memory_view_def)
  then have "jb_id ` set (map snd (me_jobs s)) = fst ` set (me_jobs s)" by (metis set_map)
  then show ?case using 1 ids by (simp only: memory_view_def store_view.simps order_refl simp_thms ball_triv)
next
  case (2 j k) then show ?case by simp
next
  case (3 j k) then show ?case by (simp add: memory_view_def)
next
  case (4 P js) then show ?case by (simp add: memory_view_def filter_sort)
next
  case (5 js) then show ?case by (simp add: memory_view_def)
next
  case (6 s i) then show ?case by (auto simp: memory_store_def mem_get_def memory_view_def intro: keyed_get)
next
  case (7 s) then show ?case by (simp add: memory_store_def mem_pending_def memory_view_def)
next
  case (8 s t fresh j)
  let ?j = "created_job t (with_id fresh j)"
  have ok: "\<forall>(i, j)\<in>set (me_jobs s). jb_id j = i" "distinct (map fst (me_jobs s))" using 8 by (auto simp: memory_view_def)
  have "jb_id ?j = jb_id (with_id fresh j)" by (simp add: created_job_def)
  then show ?case
    using keyed_put [OF refl ok, of ?j] keyed_put_ok [OF refl ok(1), of ?j] ok memory_stays [of s] 8
    by (auto simp: creates_def memory_store_def mem_create_def Let_def amap_get_None_iff memory_view_def)
next
  case (9 s t i runner)
  have "amap_get (me_jobs s) i = job_by_id (map snd (me_jobs s)) i"
    using 9 by (intro keyed_get) (simp add: memory_view_def)
  then show ?case
    using memory_updates [OF 9, where f = "claimed_job t runner" and res = "mem_claim t i runner s" and i = i and out = id]
    by (auto simp: memory_store_def mem_claim_def claimed_job_def split: option.splits)
next
  case (10 s t i e) then show ?case
    by (auto simp: memory_store_def mem_append_event_def evented_job_def intro!: memory_updates split: option.split)
next
  case (11 s t i res) then show ?case
    by (auto simp: memory_store_def mem_set_result_def resulted_job_def intro!: memory_updates split: option.split)
next
  case (12 s status t i err) then show ?case
    by (auto simp: memory_store_def mem_complete_def completed_job_def intro!: memory_updates split: option.split)
next
  case (13 s t r) then show ?case by (simp add: memory_store_def mem_heartbeat_def moves_def memory_view_def)
next
  case (14 s t a) then show ?case by (simp add: memory_store_def mem_audit_def memory_view_def)
next
  case (15 a) then show ?case by (simp add: memory_view_def)
next
  case (16 s n) then show ?case by (simp add: memory_store_def mem_audit_log_def)
qed

lemma queue_run_append:
  "queue_run S good b ms c \<Longrightarrow> queue_run S good a ls b \<Longrightarrow> queue_run S good a (ls @ ms) c"
  by (induction rule: queue_run.induct) (auto simp flip: append_assoc intro: queue_run.step)

lemma memory_sound [simp]: "vw_sound memory_view = (\<lambda>_. True)"
  by (simp add: memory_view_def)

lemma new_memory_ok [simp]: "vw_ok memory_view new_memory"
  by (simp add: memory_view_def new_memory_def)

text \<open>
  C7. A job is handed out at most once, whatever the runners do and in whatever order: over
  any sequence of store operations from an empty store at most one claim of a job succeeds.
  A job that exists stays, keeps its tenant, and its status only moves forward from pending over
  claimed and running to done or failed; once claimed it never becomes pending again.
\<close>

theorem jobs_are_claimed_once:
  assumes "queue_run memory_store (\<lambda>_. True) new_memory ls m" and "queue_run memory_store (\<lambda>_. True) m ls' m'"
  shows "count_list (ls @ ls') (LClaimed i) \<le> 1
    \<and> (\<forall>j. mem_get i m = Some j \<longrightarrow> (\<exists>k. mem_get i m' = Some k \<and> jb_tenant k = jb_tenant j
         \<and> status_rank (jb_status j) \<le> status_rank (jb_status k)
         \<and> (LClaimed i \<in> set (ls @ ls') \<longrightarrow> jb_status k \<noteq> status_pending)))"
proof -
  note whole = mem.lifecycle [of new_memory "ls @ ls'" m' i, simplified, OF queue_run_append [OF assms(2,1)]]
  have ok: "vw_ok memory_view m" "vw_ok memory_view m'"
    using mem.lifecycle [of new_memory ls m i] whole assms(1) by (auto simp: mem.ahead_def)
  have later: "mem.ahead m m'" using mem.lifecycle [of m ls' m' i] assms(2) ok(1) by simp
  have get: "mem_get i s = job_by_id (map snd (me_jobs s)) i" if "vw_ok memory_view s" for s i
    using mem.get_law [OF that] by (simp add: memory_store_def)
  have used: "mem_get n s \<noteq> None \<longleftrightarrow> n \<in> vw_used memory_view s" for n s
    by (simp add: mem_get_def memory_view_def amap_get_None_iff)
  show ?thesis
  proof (intro conjI allI impI)
    show "count_list (ls @ ls') (LClaimed i) \<le> 1" using whole by simp
    fix j assume j: "mem_get i m = Some j"
    then have "i \<in> vw_used memory_view m" using used [of i m] by simp
    moreover from this have "mem_get i m' \<noteq> None" using later used [of i m'] by (auto simp: mem.ahead_def)
    then obtain k where k: "mem_get i m' = Some k" by blast
    ultimately have "jb_tenant k = jb_tenant j \<and> status_rank (jb_status j) \<le> status_rank (jb_status k)"
      using later j get [OF ok(1)] get [OF ok(2)] by (auto simp: mem.ahead_def grown_def)
    moreover have "LClaimed i \<in> set (ls @ ls') \<longrightarrow> jb_status k \<noteq> status_pending"
      using whole k get [OF ok(2)] by simp
    ultimately show "\<exists>k. mem_get i m' = Some k \<and> jb_tenant k = jb_tenant j
         \<and> status_rank (jb_status j) \<le> status_rank (jb_status k)
         \<and> (LClaimed i \<in> set (ls @ ls') \<longrightarrow> jb_status k \<noteq> status_pending)"
      using k by (intro exI [of _ k]) simp
  qed
qed

definition sample_job :: job where
  "sample_job = \<lparr>jb_id = [], jb_tenant = ''acme'', jb_tool_type = ''t'', jb_target_source = ''config'', jb_program_id = [],
     jb_config = [], jb_status = [], jb_error_message = [], jb_claimed_by = [], jb_events = [], jb_result = [],
     jb_created_at = zero_time, jb_updated_at = zero_time\<rparr>"

definition sample_memory :: memory where
  "sample_memory = snd (mem_create (1, 0) ''j1'' sample_job new_memory)"

lemma jobs_are_claimed_once_witness:
  "\<exists>m. queue_run memory_store (\<lambda>_. True) new_memory [LCreated ''j1''] sample_memory
     \<and> queue_run memory_store (\<lambda>_. True) sample_memory [LClaimed ''j1'', LOther] m
     \<and> (\<exists>k. mem_get ''j1'' m = Some k \<and> jb_tenant k = ''acme'' \<and> jb_status k \<noteq> status_pending)"
proof -
  let ?m = "snd (mem_claim (2, 0) ''j1'' ''r'' sample_memory)"
  have c: "st_create memory_store (1, 0) ''j1'' sample_job new_memory = (Inr (created_job (1, 0) (with_id ''j1'' sample_job)), sample_memory)"
    and i: "jb_id (created_job (1, 0) (with_id ''j1'' sample_job)) = ''j1''" by code_simp+
  have "queue_run memory_store (\<lambda>_. True) new_memory [LCreated ''j1''] sample_memory"
    using queue_run.step [OF queue_run.start queue_step.create [OF _ c]] i by simp
  moreover have "st_claim memory_store (2, 0) ''j1'' ''r'' sample_memory
       = (Inr (claimed_job (2, 0) ''r'' (created_job (1, 0) (with_id ''j1'' sample_job))), ?m)"
    and "st_claim memory_store (3, 0) ''j1'' ''q'' ?m = (Inl AlreadyClaimed, ?m)" by code_simp+
  then have "queue_run memory_store (\<lambda>_. True) sample_memory [LClaimed ''j1'', LOther] ?m"
    using queue_run.step [OF queue_run.step [OF queue_run.start queue_step.claim] queue_step.claim_fails] by fastforce
  moreover have "mem_get ''j1'' sample_memory = Some (created_job (1, 0) (with_id ''j1'' sample_job))"
    and "jb_tenant (created_job (1, 0) (with_id ''j1'' sample_job)) = ''acme''" by code_simp+
  ultimately show ?thesis
    using jobs_are_claimed_once [of "[LCreated ''j1'']" sample_memory "[LClaimed ''j1'', LOther]" ?m "''j1''"] by auto
qed

end
