(* ===== verification/Api.thy ===== *)
theory Api
  imports Store Model GoNum JsonText
begin

text \<open>
  \<open>internal/api\<close> (\<open>handler.go\<close>, \<open>jobs.go\<close>): the HTTP interface of the job queue, over any
  implementation of the store. A handler takes the request, the tenant it was authenticated
  as, the clock and a new identifier, and returns the status, the body and the store.
  Decoding a test case from JSON and the engine's answer are parameters.
\<close>

section \<open>Requests and responses\<close>

text \<open>What \<open>ParseMultipartForm\<close> and \<open>FormFile\<close> make of a body: no form, no file, a file.\<close>

datatype upload_form = FormInvalid | FormNoFile | FormFile string

record api_request =
  ar_method :: string
  ar_path :: "string list"
  ar_authorization :: string
  ar_user_agent :: string
  ar_content_type :: string
  ar_limit :: string
  ar_body :: string
  ar_form :: upload_form

datatype api_msg = MsgText string | MsgStore store_error | MsgBadBody string | MsgEngine string

datatype 'r api_body = BHealth | BJob job | BJobs "job list" | BOk | BAudit "audit_entry list"
  | BResult 'r | BError string api_msg

type_synonym 'r response = "int \<times> 'r api_body"

definition code_method_not_allowed :: string where "code_method_not_allowed = ''method_not_allowed''"
definition code_body_too_large :: string where "code_body_too_large = ''body_too_large''"
definition code_invalid_json :: string where "code_invalid_json = ''invalid_json''"
definition code_trailing_content :: string where "code_trailing_content = ''trailing_content''"
definition code_validation_failed :: string where "code_validation_failed = ''validation_failed''"
definition code_unauthorized :: string where "code_unauthorized = ''unauthorized''"
definition code_not_found :: string where "code_not_found = ''not_found''"
definition code_conflict :: string where "code_conflict = ''conflict''"

definition max_request_body :: nat where "max_request_body = 1048576"
definition max_upload :: nat where "max_upload = 10485760"
definition default_tenant :: string where "default_tenant = ''default''"

text \<open>
  The configuration: accepted tokens with their tenants. \<open>al_unfinished\<close> tells whether a text is
  a beginning of a JSON value that more input could complete, \<open>al_case\<close> is the typed decoding of
  a test case.
\<close>

record api_config =
  ah_keys :: "(string \<times> string) list"
  al_unfinished :: "string \<Rightarrow> bool"
  al_case :: "json \<Rightarrow> test_case option"

section \<open>Authentication\<close>

definition resolve_tenant :: "api_config \<Rightarrow> api_request \<Rightarrow> string option" where
  "resolve_tenant h r =
     (if ah_keys h = [] then Some default_tenant
      else if \<not> has_prefix (ar_authorization r) ''Bearer '' then None
      else let token = trim_prefix (ar_authorization r) ''Bearer '' in
        foldl (\<lambda>found (key, t). if token = key then Some t else found) None (ah_keys h))"

definition protected :: "api_config \<Rightarrow> (string \<Rightarrow> api_request \<Rightarrow> 's \<Rightarrow> 'r response \<times> 's) \<Rightarrow> api_request \<Rightarrow> 's
    \<Rightarrow> 'r response \<times> 's" where
  "protected h next r s = (case resolve_tenant h r of
       None \<Rightarrow> ((401, BError code_unauthorized (MsgText ''missing or invalid API key'')), s)
     | Some tenant \<Rightarrow> next tenant r s)"

section \<open>Request bodies\<close>

text \<open>
  The first JSON value of a text and what follows it, as \<open>Decoder.Decode\<close> reads it: the shortest
  beginning that is a complete value. (A number would be read to its end; no body is a number.)
\<close>

definition first_value :: "string \<Rightarrow> (json \<times> string) option" where
  "first_value s = (case List.find (\<lambda>n. json_parse (take n s) \<noteq> None) [0..<Suc (length s)] of
       None \<Rightarrow> None
     | Some n \<Rightarrow> map_option (\<lambda>v. (v, drop n s)) (json_parse (take n s)))"

datatype 'a decoded = BodyTooLarge | BodyInvalid | BodyValue 'a

definition read_body :: "api_config \<Rightarrow> string \<Rightarrow> (json \<times> string) decoded" where
  "read_body h body = (let seen = take max_request_body body in
     case first_value seen of
       Some v \<Rightarrow> BodyValue v
     | None \<Rightarrow> if max_request_body < length body \<and> al_unfinished h seen then BodyTooLarge else BodyInvalid)"

text \<open>
  Decoding into a struct: a member names a field exactly or up to case; a string sets a string
  field, an array of strings a list field, and \<open>null\<close> leaves both as they are; a raw field
  takes any value. A member of another type is an error, reported after all were decoded; the
  raw value is kept in its compact rendering.
\<close>

datatype field_kind = StrField | ListField | RawField

datatype decoded_field = VStr string | VList "string list"

definition field_for :: "(string \<times> field_kind) list \<Rightarrow> string \<Rightarrow> (string \<times> field_kind) option" where
  "field_for fs k = (case amap_get fs k of Some kind \<Rightarrow> Some (k, kind)
     | None \<Rightarrow> List.find (\<lambda>(n, _). equal_fold n k) fs)"

fun element_texts :: "json list \<Rightarrow> string list \<times> bool" where
  "element_texts [] = ([], True)"
| "element_texts (v # vs) = (let (ws, ok) = element_texts vs in
     case v of JStr w \<Rightarrow> (w # ws, ok) | JNull \<Rightarrow> ([] # ws, ok) | _ \<Rightarrow> ([] # ws, False))"

text \<open>The value a field takes, if any, and whether the types agree.\<close>

definition field_decode :: "field_kind \<Rightarrow> json \<Rightarrow> decoded_field option \<times> bool" where
  "field_decode kind v = (case kind of
       RawField \<Rightarrow> (Some (VStr (json_text v)), True)
     | StrField \<Rightarrow> (case v of JStr w \<Rightarrow> (Some (VStr w), True) | JNull \<Rightarrow> (None, True) | _ \<Rightarrow> (None, False))
     | ListField \<Rightarrow> (case v of
          JArr vs \<Rightarrow> (let (ws, ok) = element_texts vs in (Some (VList ws), ok))
        | JNull \<Rightarrow> (Some (VList []), True) | _ \<Rightarrow> (None, False)))"

fun decode_fields :: "(string \<times> field_kind) list \<Rightarrow> (string \<times> json) list \<Rightarrow> (string \<times> decoded_field) list \<Rightarrow> bool
    \<Rightarrow> (string \<times> decoded_field) list \<times> bool" where
  "decode_fields fs [] acc ok = (acc, ok)"
| "decode_fields fs ((k, v) # ps) acc ok = (case field_for fs k of
     None \<Rightarrow> decode_fields fs ps acc ok
   | Some (n, kind) \<Rightarrow> (case field_decode kind v of
         (None, good) \<Rightarrow> decode_fields fs ps acc (ok \<and> good)
       | (Some x, good) \<Rightarrow> decode_fields fs ps (amap_put n x acc) (ok \<and> good)))"

definition decode_struct :: "(string \<times> field_kind) list \<Rightarrow> json \<Rightarrow> (string \<times> decoded_field) list \<times> bool" where
  "decode_struct fs v = (case v of JObj ps \<Rightarrow> decode_fields fs ps [] True | JNull \<Rightarrow> ([], True) | _ \<Rightarrow> ([], False))"

definition str_field :: "string \<Rightarrow> (string \<times> decoded_field) list \<Rightarrow> string" where
  "str_field n xs = (case amap_get xs n of Some (VStr w) \<Rightarrow> w | _ \<Rightarrow> [])"

definition list_field :: "string \<Rightarrow> (string \<times> decoded_field) list \<Rightarrow> string list" where
  "list_field n xs = (case amap_get xs n of Some (VList ws) \<Rightarrow> ws | _ \<Rightarrow> [])"

text \<open>\<open>decodeJSON\<close>: what follows the first value is not looked at.\<close>

definition decode_json :: "api_config \<Rightarrow> (string \<times> field_kind) list \<Rightarrow> api_request
    \<Rightarrow> 'r response + (string \<times> decoded_field) list" where
  "decode_json h fs r = (case read_body h (ar_body r) of
       BodyTooLarge \<Rightarrow> Inl (413, BError code_body_too_large (MsgText ''request body too large''))
     | BodyInvalid \<Rightarrow> Inl (400, BError code_invalid_json (MsgBadBody (ar_body r)))
     | BodyValue (v, rest) \<Rightarrow> (case decode_struct fs v of
           (xs, True) \<Rightarrow> Inr xs
         | (_, False) \<Rightarrow> Inl (400, BError code_invalid_json (MsgBadBody (ar_body r)))))"

section \<open>Handlers\<close>

definition add_audit :: "'s store_ops \<Rightarrow> time \<Rightarrow> string \<Rightarrow> api_request \<Rightarrow> string \<Rightarrow> string \<Rightarrow> string \<Rightarrow> 's \<Rightarrow> 's" where
  "add_audit S t tenant r action jobid detail s = st_audit S t
     \<lparr>au_at = zero_time, au_tenant = tenant, au_action = action, au_job = jobid, au_actor = ar_user_agent r,
      au_detail = detail\<rparr> s"

definition job_not_found :: "'r response" where
  "job_not_found = (404, BError code_not_found (MsgText ''job not found''))"

definition require_owned :: "'s store_ops \<Rightarrow> string \<Rightarrow> string \<Rightarrow> 's \<Rightarrow> job option" where
  "require_owned S tenant i s = (case st_get S i s of None \<Rightarrow> None
     | Some j \<Rightarrow> if jb_tenant j \<noteq> tenant then None else Some j)"

text \<open>The job \<open>handleCreateJob\<close> asks the store for.\<close>

definition requested_job :: "string \<Rightarrow> (string \<times> decoded_field) list \<Rightarrow> job" where
  "requested_job tenant xs = \<lparr>jb_id = [], jb_tenant = tenant, jb_tool_type = str_field ''tool_type'' xs,
     jb_target_source = (if str_field ''target_source'' xs = [] then ''config'' else str_field ''target_source'' xs),
     jb_program_id = str_field ''program_id'' xs, jb_config = str_field ''config'' xs, jb_status = [],
     jb_error_message = [], jb_claimed_by = [], jb_events = [], jb_result = [], jb_created_at = zero_time,
     jb_updated_at = zero_time\<rparr>"

definition handle_create_job :: "'s store_ops \<Rightarrow> api_config \<Rightarrow> time \<Rightarrow> string \<Rightarrow> string \<Rightarrow> api_request \<Rightarrow> 's \<Rightarrow> 'r response \<times> 's" where
  "handle_create_job S h t fresh tenant r s =
     (case decode_json h [(''tool_type'', StrField), (''target_source'', StrField), (''program_id'', StrField),
            (''config'', RawField)] r of
        Inl resp \<Rightarrow> (resp, s)
      | Inr xs \<Rightarrow>
          if str_field ''tool_type'' xs = []
          then ((422, BError code_validation_failed (MsgText ''tool_type is required'')), s)
          else (case st_create S t fresh (requested_job tenant xs) s of
              (Inl e, s') \<Rightarrow> ((422, BError code_validation_failed (MsgStore e)), s')
            | (Inr j, s') \<Rightarrow> ((201, BJob j), add_audit S t tenant r ''job_created'' (jb_id j) (jb_tool_type j) s')))"

definition handle_pending_jobs :: "'s store_ops \<Rightarrow> string \<Rightarrow> api_request \<Rightarrow> 's \<Rightarrow> 'r response \<times> 's" where
  "handle_pending_jobs S tenant r s = ((200, BJobs (filter (\<lambda>j. jb_tenant j = tenant) (st_pending S s))), s)"

definition handle_get_job :: "'s store_ops \<Rightarrow> string \<Rightarrow> string \<Rightarrow> api_request \<Rightarrow> 's \<Rightarrow> 'r response \<times> 's" where
  "handle_get_job S i tenant r s = (case require_owned S tenant i s of
       None \<Rightarrow> (job_not_found, s) | Some j \<Rightarrow> ((200, BJob j), s))"

definition handle_claim_job :: "'s store_ops \<Rightarrow> time \<Rightarrow> string \<Rightarrow> string \<Rightarrow> api_request \<Rightarrow> 's \<Rightarrow> 'r response \<times> 's" where
  "handle_claim_job S t i tenant r s = (case require_owned S tenant i s of
       None \<Rightarrow> (job_not_found, s)
     | Some _ \<Rightarrow> (case st_claim S t i (ar_user_agent r) s of
           (Inr j, s') \<Rightarrow> ((200, BJob j), add_audit S t tenant r ''job_claimed'' (jb_id j) (ar_user_agent r) s')
         | (Inl JobNotFound, s') \<Rightarrow> (job_not_found, s')
         | (Inl AlreadyClaimed, s') \<Rightarrow> ((409, BError code_conflict (MsgText ''job already claimed'')), s')
         | (Inl e, s') \<Rightarrow> ((500, BError code_validation_failed (MsgStore e)), s')))"

definition finish_job :: "'s store_ops \<Rightarrow> time \<Rightarrow> string \<Rightarrow> api_request \<Rightarrow> string \<Rightarrow> string \<Rightarrow> string \<Rightarrow> 's \<Rightarrow> 'r response \<times> 's" where
  "finish_job S t tenant r i status err s = (case st_complete S t i status err s of
       (Inr _, s') \<Rightarrow>
         ((200, BJob (case st_get S i s' of None \<Rightarrow> zero_job | Some j \<Rightarrow> j)),
          add_audit S t tenant r ''job_completed'' i status s')
     | (Inl JobNotFound, s') \<Rightarrow> (job_not_found, s')
     | (Inl InvalidStatus, s') \<Rightarrow> ((422, BError code_validation_failed (MsgText ''status must be done or failed'')), s')
     | (Inl e, s') \<Rightarrow> ((500, BError code_validation_failed (MsgStore e)), s'))"

definition handle_complete_job :: "'s store_ops \<Rightarrow> api_config \<Rightarrow> time \<Rightarrow> string \<Rightarrow> string \<Rightarrow> api_request \<Rightarrow> 's \<Rightarrow> 'r response \<times> 's" where
  "handle_complete_job S h t i tenant r s =
     (case decode_json h [(''status'', StrField), (''error_message'', StrField)] r of
        Inl resp \<Rightarrow> (resp, s)
      | Inr xs \<Rightarrow> (case require_owned S tenant i s of
            None \<Rightarrow> (job_not_found, s)
          | Some _ \<Rightarrow> finish_job S t tenant r i (str_field ''status'' xs) (str_field ''error_message'' xs) s))"

definition handle_done_job :: "'s store_ops \<Rightarrow> time \<Rightarrow> string \<Rightarrow> string \<Rightarrow> api_request \<Rightarrow> 's \<Rightarrow> 'r response \<times> 's" where
  "handle_done_job S t i tenant r s = (case require_owned S tenant i s of
       None \<Rightarrow> (job_not_found, s) | Some _ \<Rightarrow> finish_job S t tenant r i status_done [] s)"

text \<open>The body of \<open>/failed\<close> is optional: what could be decoded before an error counts.\<close>

definition failure_reason :: "api_request \<Rightarrow> string" where
  "failure_reason r =
     (let xs = (case first_value (take max_request_body (ar_body r)) of None \<Rightarrow> []
                | Some (v, _) \<Rightarrow> fst (decode_struct [(''error'', StrField), (''reason'', StrField)] v)) in
      if str_field ''error'' xs = [] then str_field ''reason'' xs else str_field ''error'' xs)"

definition handle_failed_job :: "'s store_ops \<Rightarrow> time \<Rightarrow> string \<Rightarrow> string \<Rightarrow> api_request \<Rightarrow> 's \<Rightarrow> 'r response \<times> 's" where
  "handle_failed_job S t i tenant r s = (case require_owned S tenant i s of
       None \<Rightarrow> (job_not_found, s)
     | Some _ \<Rightarrow> finish_job S t tenant r i status_failed (failure_reason r) s)"

definition handle_job_event :: "'s store_ops \<Rightarrow> api_config \<Rightarrow> time \<Rightarrow> string \<Rightarrow> string \<Rightarrow> api_request \<Rightarrow> 's \<Rightarrow> 'r response \<times> 's" where
  "handle_job_event S h t i tenant r s =
     (case decode_json h [(''kind'', StrField), (''text'', StrField)] r of
        Inl resp \<Rightarrow> (resp, s)
      | Inr xs \<Rightarrow>
          if str_field ''kind'' xs = [] then ((422, BError code_validation_failed (MsgText ''kind is required'')), s)
          else (case require_owned S tenant i s of
              None \<Rightarrow> (job_not_found, s)
            | Some _ \<Rightarrow> (case st_append_event S t i
                  \<lparr>ev_kind = str_field ''kind'' xs, ev_text = str_field ''text'' xs, ev_at = zero_time\<rparr> s of
                (Inl e, s') \<Rightarrow> (job_not_found, s')
              | (Inr _, s') \<Rightarrow> ((200, BOk), s'))))"

definition uploaded :: "api_request \<Rightarrow> 'r response + string" where
  "uploaded r = (if has_prefix (ar_content_type r) ''multipart/'' then
       (case ar_form r of
          FormInvalid \<Rightarrow> Inl (400, BError code_invalid_json (MsgText ''invalid multipart upload''))
        | FormNoFile \<Rightarrow> Inl (422, BError code_validation_failed (MsgText ''missing file field''))
        | FormFile content \<Rightarrow> Inr (take max_upload content))
     else Inr (take max_upload (ar_body r)))"

definition handle_job_upload :: "'s store_ops \<Rightarrow> time \<Rightarrow> string \<Rightarrow> string \<Rightarrow> api_request \<Rightarrow> 's \<Rightarrow> 'r response \<times> 's" where
  "handle_job_upload S t i tenant r s = (case require_owned S tenant i s of
       None \<Rightarrow> (job_not_found, s)
     | Some _ \<Rightarrow> (case uploaded r of
           Inl resp \<Rightarrow> (resp, s)
         | Inr result \<Rightarrow>
             if \<not> json_valid result then ((400, BError code_invalid_json (MsgText ''result must be valid JSON'')), s)
             else (case st_set_result S t i result s of
                 (Inl e, s') \<Rightarrow> (job_not_found, s')
               | (Inr _, s') \<Rightarrow> ((200, BOk), add_audit S t tenant r ''job_result_uploaded'' i [] s'))))"

definition handle_heartbeat :: "'s store_ops \<Rightarrow> api_config \<Rightarrow> time \<Rightarrow> string \<Rightarrow> api_request \<Rightarrow> 's \<Rightarrow> 'r response \<times> 's" where
  "handle_heartbeat S h t tenant r s =
     (case decode_json h [(''hostname'', StrField), (''version'', StrField), (''os'', StrField), (''tools'', ListField)] r of
        Inl resp \<Rightarrow> (resp, s)
      | Inr xs \<Rightarrow>
          if str_field ''hostname'' xs = [] then ((422, BError code_validation_failed (MsgText ''hostname is required'')), s)
          else ((200, BOk), add_audit S t tenant r ''runner_heartbeat'' [] (str_field ''hostname'' xs)
            (st_heartbeat S t \<lparr>ri_hostname = str_field ''hostname'' xs, ri_version = str_field ''version'' xs,
               ri_os = str_field ''os'' xs, ri_tools = list_field ''tools'' xs, ri_last_seen = zero_time\<rparr> s)))"

text \<open>\<open>strconv.Atoi\<close> as the audit handler uses it: 0 unless the text is a positive \<open>int\<close>.\<close>

definition positive_limit :: "string \<Rightarrow> int" where
  "positive_limit w = (let ds = (case w of CHR ''+'' # cs \<Rightarrow> cs | _ \<Rightarrow> w) in
     if ds \<noteq> [] \<and> list_all is_digit ds \<and> nat_of_digits ds < 2 ^ 63 then int (nat_of_digits ds) else 0)"

definition handle_audit_log :: "'s store_ops \<Rightarrow> string \<Rightarrow> api_request \<Rightarrow> 's \<Rightarrow> 'r response \<times> 's" where
  "handle_audit_log S tenant r s =
     (let limit = positive_limit (ar_limit r);
          entries = filter (\<lambda>e. au_tenant e = tenant) (st_audit_log S 0 s) in
      ((200, BAudit (if 0 < limit \<and> limit < int (length entries) then drop (length entries - nat limit) entries
                     else entries)), s))"

definition handle_health :: "api_request \<Rightarrow> 's \<Rightarrow> 'r response \<times> 's" where
  "handle_health r s =
     (if ar_method r \<noteq> ''GET'' then ((405, BError code_method_not_allowed (MsgText ''method not allowed'')), s)
      else ((200, BHealth), s))"

text \<open>\<open>run\<close> is the engine's answer to a test case: a result, or the text of its error.\<close>

definition handle_tests_execute :: "api_config \<Rightarrow> (test_case \<Rightarrow> string + 'r) \<Rightarrow> string \<Rightarrow> api_request \<Rightarrow> 's \<Rightarrow> 'r response \<times> 's" where
  "handle_tests_execute h run tenant r s =
     (if ar_method r \<noteq> ''POST'' then ((405, BError code_method_not_allowed (MsgText ''method not allowed'')), s)
      else (case read_body h (ar_body r) of
          BodyTooLarge \<Rightarrow> ((413, BError code_body_too_large (MsgText ''request body too large'')), s)
        | BodyInvalid \<Rightarrow> ((400, BError code_invalid_json (MsgBadBody (ar_body r))), s)
        | BodyValue (v, rest) \<Rightarrow> (case al_case h v of
              None \<Rightarrow> ((400, BError code_invalid_json (MsgBadBody (ar_body r))), s)
            | Some tc \<Rightarrow>
                if \<not> list_all is_json_space rest \<or> max_request_body < length (ar_body r)
                then ((400, BError code_trailing_content (MsgText ''request body must contain exactly one JSON value'')), s)
                else (case run tc of
                    Inl e \<Rightarrow> ((422, BError code_validation_failed (MsgEngine e)), s)
                  | Inr res \<Rightarrow> ((200, BResult res), s)))))"

section \<open>Routes\<close>

datatype route = RHealth | RTestsExecute | RCreateJob | RPendingJobs | RGetJob string | RClaimJob string
  | RCompleteJob string | RDoneJob string | RFailedJob string | RJobEvent string | RJobUpload string
  | RHeartbeat | RAuditLog

text \<open>The patterns \<open>New\<close> registers, over the decoded segments of the path; \<open>GET\<close> serves \<open>HEAD\<close> too.\<close>

definition route_of :: "string \<Rightarrow> string list \<Rightarrow> route option" where
  "route_of m p =
     (if p = [''health''] then Some RHealth
      else if p = [''tests'', ''execute''] then Some RTestsExecute
      else if p = [''jobs''] then (if m = ''POST'' then Some RCreateJob else None)
      else if p = [''runner'', ''heartbeat''] then (if m = ''POST'' then Some RHeartbeat else None)
      else if p = [''audit''] then (if m = ''GET'' \<or> m = ''HEAD'' then Some RAuditLog else None)
      else (case p of
          [jobs, i] \<Rightarrow>
            if jobs \<noteq> ''jobs'' \<or> i = [] then None
            else if m = ''GET'' \<or> m = ''HEAD'' then Some (if i = ''pending'' then RPendingJobs else RGetJob i)
            else if m = ''PATCH'' then Some (RCompleteJob i) else None
        | [jobs, i, act] \<Rightarrow>
            if jobs \<noteq> ''jobs'' \<or> i = [] \<or> m \<noteq> ''POST'' then None
            else map_of [(''claim'', RClaimJob i), (''done'', RDoneJob i), (''failed'', RFailedJob i),
                         (''events'', RJobEvent i), (''upload'', RJobUpload i)] act
        | _ \<Rightarrow> None))"

text \<open>A request with what it finds: the clock, a new identifier, the engine's answers.\<close>

record 'r api_call =
  cl_request :: api_request
  cl_time :: time
  cl_fresh :: string
  cl_run :: "test_case \<Rightarrow> string + 'r"

definition dispatch_route :: "'s store_ops \<Rightarrow> api_config \<Rightarrow> 'r api_call \<Rightarrow> route \<Rightarrow> string \<Rightarrow> api_request \<Rightarrow> 's \<Rightarrow> 'r response \<times> 's" where
  "dispatch_route S h c rt = (case rt of
       RHealth \<Rightarrow> (\<lambda>tenant. handle_health)
     | RTestsExecute \<Rightarrow> handle_tests_execute h (cl_run c)
     | RCreateJob \<Rightarrow> handle_create_job S h (cl_time c) (cl_fresh c)
     | RPendingJobs \<Rightarrow> handle_pending_jobs S
     | RGetJob i \<Rightarrow> handle_get_job S i
     | RClaimJob i \<Rightarrow> handle_claim_job S (cl_time c) i
     | RCompleteJob i \<Rightarrow> handle_complete_job S h (cl_time c) i
     | RDoneJob i \<Rightarrow> handle_done_job S (cl_time c) i
     | RFailedJob i \<Rightarrow> handle_failed_job S (cl_time c) i
     | RJobEvent i \<Rightarrow> handle_job_event S h (cl_time c) i
     | RJobUpload i \<Rightarrow> handle_job_upload S (cl_time c) i
     | RHeartbeat \<Rightarrow> handle_heartbeat S h (cl_time c)
     | RAuditLog \<Rightarrow> handle_audit_log S)"

text \<open>\<open>ServeHTTP\<close>: every route but \<open>/health\<close> is protected; what matches no pattern is the mux's answer.\<close>

definition serve :: "'s store_ops \<Rightarrow> api_config \<Rightarrow> 'r api_call \<Rightarrow> 's \<Rightarrow> 'r response option \<times> 's" where
  "serve S h c s = (let r = cl_request c in case route_of (ar_method r) (ar_path r) of
       None \<Rightarrow> (None, s)
     | Some RHealth \<Rightarrow> (let (resp, s') = handle_health r s in (Some resp, s'))
     | Some rt \<Rightarrow> (let (resp, s') = protected h (dispatch_route S h c rt) r s in (Some resp, s')))"

fun serve_all :: "'s store_ops \<Rightarrow> api_config \<Rightarrow> 'r api_call list \<Rightarrow> 's \<Rightarrow> 'r response option list \<times> 's" where
  "serve_all S h [] s = ([], s)"
| "serve_all S h (c # cs) s = (let (resp, s') = serve S h c s; (resps, s'') = serve_all S h cs s' in (resp # resps, s''))"

section \<open>Isolation of tenants\<close>

text \<open>
  What one tenant can see of the store: its jobs in order and its part of the audit trail. A
  handler is local to a tenant when its answer and its effect on this view depend on this view
  only, and it changes no other tenant's view; \<open>F\<close> are the identifiers it may take into use,
  \<open>P\<close> is known of the state.
\<close>

text \<open>The tenant a request is served for.\<close>

definition served_by :: "api_config \<Rightarrow> 'r api_call \<Rightarrow> string option" where
  "served_by h c = (case route_of (ar_method (cl_request c)) (ar_path (cl_request c)) of
     None \<Rightarrow> None | Some RHealth \<Rightarrow> None | Some rt \<Rightarrow> resolve_tenant h (cl_request c))"

context job_store
begin

definition tview :: "string \<Rightarrow> 's \<Rightarrow> job list \<times> audit_entry list" where
  "tview T s = (filter (\<lambda>j. jb_tenant j = T) (vw_listing V s), filter (\<lambda>e. au_tenant e = T) (vw_trail V s))"

definition local_if :: "string \<Rightarrow> string set \<Rightarrow> ('s \<Rightarrow> bool) \<Rightarrow> ('s \<Rightarrow> 'a \<times> 's) \<Rightarrow> bool" where
  "local_if T F P m \<longleftrightarrow>
     (\<forall>s1 s2. vw_ok V s1 \<longrightarrow> vw_ok V s2 \<longrightarrow> P s1 \<longrightarrow> P s2 \<longrightarrow> F \<inter> vw_used V s1 = {} \<longrightarrow> F \<inter> vw_used V s2 = {} \<longrightarrow>
        tview T s1 = tview T s2 \<longrightarrow>
        fst (m s1) = fst (m s2) \<and> tview T (snd (m s1)) = tview T (snd (m s2)))
     \<and> (\<forall>s. vw_ok V s \<longrightarrow> P s \<longrightarrow> F \<inter> vw_used V s = {} \<longrightarrow>
        vw_ok V (snd (m s)) \<and> vw_used V (snd (m s)) \<subseteq> vw_used V s \<union> F
        \<and> (\<forall>U. U \<noteq> T \<longrightarrow> tview U (snd (m s)) = tview U s))"

lemma local_ifD:
  assumes "local_if T F P m"
  shows "vw_ok V s1 \<Longrightarrow> vw_ok V s2 \<Longrightarrow> P s1 \<Longrightarrow> P s2 \<Longrightarrow> F \<inter> vw_used V s1 = {} \<Longrightarrow> F \<inter> vw_used V s2 = {} \<Longrightarrow>
      tview T s1 = tview T s2 \<Longrightarrow> fst (m s1) = fst (m s2) \<and> tview T (snd (m s1)) = tview T (snd (m s2))"
    and "vw_ok V s \<Longrightarrow> P s \<Longrightarrow> F \<inter> vw_used V s = {} \<Longrightarrow> vw_ok V (snd (m s)) \<and> vw_used V (snd (m s)) \<subseteq> vw_used V s \<union> F"
    and "vw_ok V s \<Longrightarrow> P s \<Longrightarrow> F \<inter> vw_used V s = {} \<Longrightarrow> U \<noteq> T \<Longrightarrow> tview U (snd (m s)) = tview U s"
  using assms unfolding local_if_def by blast+

text \<open>A sufficient condition: the answer and the new view are functions of the view.\<close>

lemma local_ifI:
  assumes "\<And>s. vw_ok V s \<Longrightarrow> P s \<Longrightarrow> F \<inter> vw_used V s = {} \<Longrightarrow>
      fst (m s) = f (tview T s) \<and> tview T (snd (m s)) = g (tview T s) \<and> vw_ok V (snd (m s))
      \<and> vw_used V (snd (m s)) \<subseteq> vw_used V s \<union> F \<and> (\<forall>U. U \<noteq> T \<longrightarrow> tview U (snd (m s)) = tview U s)"
  shows "local_if T F P m"
proof -
  note * = assms [THEN conjunct1] assms [THEN conjunct2, THEN conjunct1]
  have "fst (m s1) = fst (m s2) \<and> tview T (snd (m s1)) = tview T (snd (m s2))"
    if "vw_ok V s1" "vw_ok V s2" "P s1" "P s2" "F \<inter> vw_used V s1 = {}" "F \<inter> vw_used V s2 = {}" "tview T s1 = tview T s2"
    for s1 s2
    using * [OF that(1,3,5)] * [OF that(2,4,6)] that(7) by simp
  then show ?thesis unfolding local_if_def using assms [THEN conjunct2, THEN conjunct2] by blast
qed

lemma local_return: "local_if T F P (\<lambda>s. (a, s))"
  by (simp add: local_if_def)

lemma local_read:
  assumes "\<And>s. vw_ok V s \<Longrightarrow> a s = f (tview T s)"
  shows "local_if T F P (\<lambda>s. (a s, s))"
  by (rule local_ifI [where f = f and g = id]) (simp add: assms)

lemma local_bind:
  assumes m: "local_if T F P m" and k: "\<And>a. local_if T {} (\<lambda>_. True) (k a)"
  shows "local_if T F P (\<lambda>s. case m s of (a, s') \<Rightarrow> k a s')"
  unfolding local_if_def
proof (intro conjI allI impI)
  fix s1 s2
  assume *: "vw_ok V s1" "vw_ok V s2" "P s1" "P s2" "F \<inter> vw_used V s1 = {}" "F \<inter> vw_used V s2 = {}" "tview T s1 = tview T s2"
  obtain a1 t1 a2 t2 where r: "m s1 = (a1, t1)" "m s2 = (a2, t2)" by (meson surj_pair)
  have "a1 = a2" "tview T t1 = tview T t2" "vw_ok V t1" "vw_ok V t2"
    using local_ifD(1) [OF m *] local_ifD(2) [OF m *(1,3,5)] local_ifD(2) [OF m *(2,4,6)] r by simp_all
  then show "fst (case m s1 of (a, s') \<Rightarrow> k a s') = fst (case m s2 of (a, s') \<Rightarrow> k a s')"
    "tview T (snd (case m s1 of (a, s') \<Rightarrow> k a s')) = tview T (snd (case m s2 of (a, s') \<Rightarrow> k a s'))"
    using local_ifD(1) [OF k, of t1 t2 a2] r by simp_all
next
  fix s assume *: "vw_ok V s" "P s" "F \<inter> vw_used V s = {}"
  obtain a t where r: "m s = (a, t)" by force
  have t: "vw_ok V t" "vw_used V t \<subseteq> vw_used V s \<union> F" "\<And>U. U \<noteq> T \<Longrightarrow> tview U t = tview U s"
    using local_ifD(2) [OF m *] local_ifD(3) [OF m *] r by simp_all
  then show "vw_ok V (snd (case m s of (a, s') \<Rightarrow> k a s'))"
    "vw_used V (snd (case m s of (a, s') \<Rightarrow> k a s')) \<subseteq> vw_used V s \<union> F"
    using local_ifD(2) [OF k, of t a] r by auto
  show "tview U (snd (case m s of (a, s') \<Rightarrow> k a s')) = tview U s" if "U \<noteq> T" for U
    using local_ifD(3) [OF k, of t U a] r t that by simp
qed

lemma local_cong: "local_if T F P m \<Longrightarrow> (\<And>s. n s = m s) \<Longrightarrow> local_if T F P n"
  by (drule ext [of n m]) blast

lemma job_by_id_filter:
  assumes "distinct (map jb_id js)"
  shows "job_by_id (filter P js) i = (case job_by_id js i of None \<Rightarrow> None | Some j \<Rightarrow> if P j then Some j else None)"
  using assms
proof (induction js)
  case (Cons j js)
  have none: "job_by_id js (jb_id j) = None" using Cons.prems by (simp add: job_by_id_None)
  then show ?case using Cons by auto
qed simp

lemma owned_view: "vw_ok V s \<Longrightarrow> require_owned S T i s = job_by_id (fst (tview T s)) i"
  using listed [of s] by (auto simp: require_owned_def get_law tview_def job_by_id_filter split: option.split)

lemma local_owned:
  assumes body: "\<And>j. local_if T F (\<lambda>s. require_owned S T i s = Some j) (body j)"
  shows "local_if T F P (\<lambda>s. case require_owned S T i s of None \<Rightarrow> (nf, s) | Some j \<Rightarrow> body j s)"
    (is "local_if T F P ?m")
  unfolding local_if_def
proof (rule conjI; intro allI impI)
  fix s1 s2
  assume *: "vw_ok V s1" "vw_ok V s2" "F \<inter> vw_used V s1 = {}" "F \<inter> vw_used V s2 = {}" "tview T s1 = tview T s2"
  have same: "require_owned S T i s2 = require_owned S T i s1" using * by (simp add: owned_view)
  show "fst (?m s1) = fst (?m s2) \<and> tview T (snd (?m s1)) = tview T (snd (?m s2))"
  proof (cases "require_owned S T i s1")
    case (Some j)
    then show ?thesis using local_ifD(1) [OF body *(1,2) Some _ *(3-5)] same by simp
  qed (simp add: same *(5))
next
  fix s assume *: "vw_ok V s" "F \<inter> vw_used V s = {}"
  show "vw_ok V (snd (?m s)) \<and> vw_used V (snd (?m s)) \<subseteq> vw_used V s \<union> F
     \<and> (\<forall>U. U \<noteq> T \<longrightarrow> tview U (snd (?m s)) = tview U s)"
  proof (cases "require_owned S T i s")
    case (Some j)
    then show ?thesis
      using local_ifD(2) [OF body *(1) Some *(2)] local_ifD(3) [OF body *(1) Some *(2)] by simp
  qed (simp add: *)
qed

lemma filter_replace_own:
  "(\<And>k. r = Some k \<Longrightarrow> Q k) \<Longrightarrow> (\<And>j. j \<in> set js \<Longrightarrow> jb_id j = i \<Longrightarrow> Q j) \<Longrightarrow>
     filter Q (replace_job i r js) = replace_job i r (filter Q js)"
  by (induction js) (auto split: option.splits)

lemma filter_replace_other:
  "(\<And>k. r = Some k \<Longrightarrow> \<not> Q k) \<Longrightarrow> (\<And>j. j \<in> set js \<Longrightarrow> jb_id j = i \<Longrightarrow> \<not> Q j) \<Longrightarrow>
     filter Q (replace_job i r js) = filter Q js"
  by (induction js) (auto split: option.splits)

lemma owned_update:
  assumes ok: "vw_ok V s" and own: "require_owned S T i s = Some j" and u: "updates V s res i f out" and ages: "ages f j"
  shows "fst res = (case vw_write V (f j) of Inl e \<Rightarrow> Inl e | Inr r \<Rightarrow> Inr (out (f j)))"
    and "tview T (snd res) = (case vw_write V (f j) of Inl e \<Rightarrow> tview T s
           | Inr r \<Rightarrow> (replace_job i r (fst (tview T s)), snd (tview T s)))"
    and "st_get S i (snd res) = (case vw_write V (f j) of Inl e \<Rightarrow> Some j | Inr r \<Rightarrow> r)"
    and "vw_ok V (snd res)" and "vw_used V (snd res) = vw_used V s"
    and "U \<noteq> T \<Longrightarrow> tview U (snd res) = tview U s"
proof -
  have j: "job_by_id (vw_listing V s) i = Some j" "jb_tenant j = T"
    using own get_law [OF ok] by (auto simp: require_owned_def split: option.splits if_splits)
  have mine: "jb_tenant k = T" if "k \<in> set (vw_listing V s)" "jb_id k = i" for k
    using job_by_id_unique [of "vw_listing V s" k] that j listed [OF ok] by simp
  have new: "jb_id k = i \<and> jb_tenant k = T" if "vw_write V (f j) = Inr (Some k)" for k
    using written_aged [OF ok j(1) ages that] j(2) by simp
  have d: "distinct (map jb_id (vw_listing V s))" using listed [OF ok] by simp
  have "fst res = (case vw_write V (f j) of Inl e \<Rightarrow> Inl e | Inr r \<Rightarrow> Inr (out (f j)))
    \<and> tview T (snd res) = (case vw_write V (f j) of Inl e \<Rightarrow> tview T s
           | Inr r \<Rightarrow> (replace_job i r (fst (tview T s)), snd (tview T s)))
    \<and> st_get S i (snd res) = (case vw_write V (f j) of Inl e \<Rightarrow> Some j | Inr r \<Rightarrow> r)
    \<and> vw_ok V (snd res) \<and> vw_used V (snd res) = vw_used V s \<and> (U \<noteq> T \<longrightarrow> tview U (snd res) = tview U s)"
  proof (cases "vw_write V (f j)")
    case (Inl e)
    then have "fst res = Inl e" "moves V s (snd res) (vw_listing V s)" using u j by (auto simp: updates_def)
    then show ?thesis using Inl j get_law by (simp add: moves_def tview_def)
  next
    case (Inr r)
    then have m: "fst res = Inr (out (f j))" "moves V s (snd res) (replace_job i r (vw_listing V s))"
      using u j by (auto simp: updates_def)
    have "st_get S i (snd res) = r"
      using m(2) j job_by_id_replace [OF _ d, of r i] new Inr by (simp add: moves_def get_law)
    moreover have "filter (\<lambda>j. jb_tenant j = T) (replace_job i r (vw_listing V s))
        = replace_job i r (filter (\<lambda>j. jb_tenant j = T) (vw_listing V s))"
      using new Inr mine by (intro filter_replace_own) auto
    moreover have "filter (\<lambda>j. jb_tenant j = U) (replace_job i r (vw_listing V s)) = filter (\<lambda>j. jb_tenant j = U) (vw_listing V s)"
      if "U \<noteq> T" using new Inr mine that by (intro filter_replace_other) auto
    ultimately show ?thesis using m Inr by (auto simp: moves_def tview_def)
  qed
  then show "fst res = (case vw_write V (f j) of Inl e \<Rightarrow> Inl e | Inr r \<Rightarrow> Inr (out (f j)))"
    and "tview T (snd res) = (case vw_write V (f j) of Inl e \<Rightarrow> tview T s
           | Inr r \<Rightarrow> (replace_job i r (fst (tview T s)), snd (tview T s)))"
    and "st_get S i (snd res) = (case vw_write V (f j) of Inl e \<Rightarrow> Some j | Inr r \<Rightarrow> r)"
    and "vw_ok V (snd res)" and "vw_used V (snd res) = vw_used V s"
    and "U \<noteq> T \<Longrightarrow> tview U (snd res) = tview U s" by blast+
qed

end

context job_store
begin

lemma local_update:
  assumes "\<And>s. vw_ok V s \<Longrightarrow> require_owned S T i s = Some j \<Longrightarrow> updates V s (m s) i f out" "ages f j"
  shows "local_if T {} (\<lambda>s. require_owned S T i s = Some j) m"
proof (rule local_ifI)
  fix s assume *: "vw_ok V s" "require_owned S T i s = Some j"
  note u = owned_update [OF * assms(1) [OF *] assms(2)]
  show "fst (m s) = (\<lambda>v. case vw_write V (f j) of Inl e \<Rightarrow> Inl e | Inr r \<Rightarrow> Inr (out (f j))) (tview T s)
    \<and> tview T (snd (m s)) = (\<lambda>v. case vw_write V (f j) of Inl e \<Rightarrow> v | Inr r \<Rightarrow> (replace_job i r (fst v), snd v)) (tview T s)
    \<and> vw_ok V (snd (m s)) \<and> vw_used V (snd (m s)) \<subseteq> vw_used V s \<union> {} \<and> (\<forall>U. U \<noteq> T \<longrightarrow> tview U (snd (m s)) = tview U s)"
    using u(1,2,4,5) u(6) by (auto split: sum.split)
qed

lemma require_owned_job:
  "vw_ok V s \<Longrightarrow> require_owned S T i s = Some j \<Longrightarrow> job_by_id (vw_listing V s) i = Some j \<and> jb_tenant j = T"
  by (auto simp: require_owned_def get_law split: option.splits if_splits)

lemma local_claim:
  "local_if T {} (\<lambda>s. require_owned S T i s = Some j) (st_claim S t i runner)"
proof (cases "jb_status j = status_pending")
  case True
  have "updates V s (st_claim S t i runner s) i (claimed_job t runner) id"
    if "vw_ok V s" "require_owned S T i s = Some j" for s
    using claim_law [OF that(1), where t = t and i = i and runner = runner] require_owned_job [OF that] True by simp
  then show ?thesis using ages_ops(1) [OF True] by (rule local_update)
next
  case False
  show ?thesis
  proof (rule local_ifI)
    fix s assume "vw_ok V s" "require_owned S T i s = Some j"
    then have "st_claim S t i runner s = (Inl AlreadyClaimed, s)"
      using claim_law [where t = t and i = i and runner = runner and s = s] False require_owned_job by fastforce
    then show "fst (st_claim S t i runner s) = (\<lambda>_. Inl AlreadyClaimed) (tview T s)
        \<and> tview T (snd (st_claim S t i runner s)) = id (tview T s) \<and> vw_ok V (snd (st_claim S t i runner s))
        \<and> vw_used V (snd (st_claim S t i runner s)) \<subseteq> vw_used V s \<union> {}
        \<and> (\<forall>U. U \<noteq> T \<longrightarrow> tview U (snd (st_claim S t i runner s)) = tview U s)"
      using \<open>vw_ok V s\<close> by simp
  qed
qed

lemma local_event: "local_if T {} (\<lambda>s. require_owned S T i s = Some j) (st_append_event S t i e)"
  by (rule local_update [where f = "evented_job t e" and out = "\<lambda>_. ()"]) (auto intro: event_law ages_ops)

lemma local_result: "local_if T {} (\<lambda>s. require_owned S T i s = Some j) (st_set_result S t i res)"
  by (rule local_update [where f = "resulted_job t res" and out = "\<lambda>_. ()"]) (auto intro: result_law ages_ops)

text \<open>Completion with the job read back.\<close>

lemma local_complete:
  "local_if T {} (\<lambda>s. require_owned S T i s = Some j)
     (\<lambda>s. case st_complete S t i status err s of (r, s') \<Rightarrow> ((r, st_get S i s'), s'))"
proof (cases "final_status status")
  case True
  let ?f = "completed_job t status err"
  show ?thesis
  proof (rule local_ifI)
    fix s assume *: "vw_ok V s" "require_owned S T i s = Some j"
    have "updates V s (st_complete S t i status err s) i ?f (\<lambda>_. ())"
      using complete_law [OF *(1), where status = status and t = t and i = i and err = err] True by simp
    note u = owned_update [OF * this ages_ops(4) [OF True]]
    obtain r s' where rs: "st_complete S t i status err s = (r, s')" by force
    let ?m = "case st_complete S t i status err s of (r, s') \<Rightarrow> ((r, st_get S i s'), s')"
    show "fst ?m = (\<lambda>v. case vw_write V (?f j) of Inl e \<Rightarrow> (Inl e, Some j) | Inr r \<Rightarrow> (Inr (), r)) (tview T s)
      \<and> tview T (snd ?m) = (\<lambda>v. case vw_write V (?f j) of Inl e \<Rightarrow> v | Inr r \<Rightarrow> (replace_job i r (fst v), snd v)) (tview T s)
      \<and> vw_ok V (snd ?m) \<and> vw_used V (snd ?m) \<subseteq> vw_used V s \<union> {} \<and> (\<forall>U. U \<noteq> T \<longrightarrow> tview U (snd ?m) = tview U s)"
      using u(1-5) u(6) rs by (auto split: sum.split)
  qed
next
  case False
  show ?thesis
  proof (rule local_ifI)
    fix s assume *: "vw_ok V s" "require_owned S T i s = Some j"
    let ?m = "case st_complete S t i status err s of (r, s') \<Rightarrow> ((r, st_get S i s'), s')"
    have "?m = ((Inl InvalidStatus, Some j), s)"
      using complete_law [OF *(1), where status = status and t = t and i = i and err = err] False
        require_owned_job [OF *] get_law [OF *(1)] by simp
    then show "fst ?m = (\<lambda>_. (Inl InvalidStatus, Some j)) (tview T s) \<and> tview T (snd ?m) = id (tview T s)
      \<and> vw_ok V (snd ?m) \<and> vw_used V (snd ?m) \<subseteq> vw_used V s \<union> {} \<and> (\<forall>U. U \<noteq> T \<longrightarrow> tview U (snd ?m) = tview U s)"
      using * by simp
  qed
qed

lemma local_audit: "local_if T {} P (\<lambda>s. (a, add_audit S t T r act i d s))"
proof (rule local_ifI)
  fix s assume *: "vw_ok V s"
  let ?e = "\<lparr>au_at = zero_time, au_tenant = T, au_action = act, au_job = i, au_actor = ar_user_agent r, au_detail = d\<rparr>"
  show "fst (a, add_audit S t T r act i d s) = (\<lambda>_. a) (tview T s)
    \<and> tview T (snd (a, add_audit S t T r act i d s)) = (\<lambda>v. (fst v, snd v @ [vw_note V (stamp_audit t ?e)])) (tview T s)
    \<and> vw_ok V (snd (a, add_audit S t T r act i d s))
    \<and> vw_used V (snd (a, add_audit S t T r act i d s)) \<subseteq> vw_used V s \<union> {}
    \<and> (\<forall>U. U \<noteq> T \<longrightarrow> tview U (snd (a, add_audit S t T r act i d s)) = tview U s)"
    using audit_law [OF *, of t ?e] by (simp add: add_audit_def tview_def stamp_audit_def noted)
qed

lemma local_heartbeat: "local_if T {} P (\<lambda>s. ((), st_heartbeat S t info s))"
proof (rule local_ifI)
  fix s assume *: "vw_ok V s"
  show "fst ((), st_heartbeat S t info s) = (\<lambda>_. ()) (tview T s) \<and> tview T (snd ((), st_heartbeat S t info s)) = id (tview T s)
    \<and> vw_ok V (snd ((), st_heartbeat S t info s)) \<and> vw_used V (snd ((), st_heartbeat S t info s)) \<subseteq> vw_used V s \<union> {}
    \<and> (\<forall>U. U \<noteq> T \<longrightarrow> tview U (snd ((), st_heartbeat S t info s)) = tview U s)"
    using heartbeat_law [OF *, of t info] by (simp add: moves_def tview_def)
qed

lemma local_create:
  assumes id: "jb_id j = []" and T: "jb_tenant j = T" and good: "vw_sound V (created_job t (with_id fresh j))"
  shows "local_if T {fresh} P (st_create S t fresh j)"
proof (rule local_ifI)
  fix s assume *: "vw_ok V s" "{fresh} \<inter> vw_used V s = {}"
  let ?j = "created_job t (with_id fresh j)"
  have j: "jb_id ?j = fresh" "jb_tenant ?j = T" using id T by (simp_all add: created_job_def with_id_def)
  have c: "creates V s (st_create S t fresh j s) ?j" by (rule create_law [OF *(1) good])
  have k: "jb_tenant k = T" if "vw_write V ?j = Inr (Some k)" for k using written [OF good that] j(2) by simp
  show "fst (st_create S t fresh j s) = (\<lambda>_. case vw_write V ?j of Inl e \<Rightarrow> Inl e | Inr r \<Rightarrow> Inr ?j) (tview T s)
    \<and> tview T (snd (st_create S t fresh j s)) = (\<lambda>v. case vw_write V ?j of Inl e \<Rightarrow> v
        | Inr r \<Rightarrow> (fst v @ (case r of None \<Rightarrow> [] | Some k \<Rightarrow> [k]), snd v)) (tview T s)
    \<and> vw_ok V (snd (st_create S t fresh j s)) \<and> vw_used V (snd (st_create S t fresh j s)) \<subseteq> vw_used V s \<union> {fresh}
    \<and> (\<forall>U. U \<noteq> T \<longrightarrow> tview U (snd (st_create S t fresh j s)) = tview U s)"
    using c *(2) k by (auto simp: creates_def j moves_def tview_def split: sum.splits option.splits)
qed

end

context job_store
begin

lemma local_if_weaken:
  assumes m: "local_if T {} P m"
  shows "local_if T F P m"
  unfolding local_if_def
  using local_ifD(1) [OF m _ _ _ _ Int_empty_left Int_empty_left] local_ifD(2) [OF m _ _ Int_empty_left]
    local_ifD(3) [OF m _ _ Int_empty_left]
  by (intro conjI allI impI) blast+

lemma local_case_sum:
  "(\<And>e. local_if T F P (f e)) \<Longrightarrow> (\<And>x. local_if T F P (g x)) \<Longrightarrow>
     local_if T F P (\<lambda>s. case a of Inl e \<Rightarrow> f e s | Inr x \<Rightarrow> g x s)"
  by (cases a) simp_all

lemma local_case_error:
  "local_if T F P a \<Longrightarrow> local_if T F P b \<Longrightarrow> local_if T F P c \<Longrightarrow> local_if T F P d \<Longrightarrow>
     (\<And>w. local_if T F P (g w)) \<Longrightarrow>
     local_if T F P (\<lambda>s. case e of JobNotFound \<Rightarrow> a s | AlreadyClaimed \<Rightarrow> b s | InvalidStatus \<Rightarrow> c s
       | JobExists \<Rightarrow> d s | BackendError w \<Rightarrow> g w s)"
  by (cases e) simp_all

lemma local_split:
  "(c \<Longrightarrow> local_if T F P f) \<Longrightarrow> (\<not> c \<Longrightarrow> local_if T F P g) \<Longrightarrow> local_if T F P (\<lambda>s. if c then f s else g s)"
  by (cases c) simp_all

lemmas local_intros = local_case_sum local_case_error local_split local_return local_audit

lemma local_finish:
  "local_if T {} (\<lambda>s. require_owned S T i s = Some j) (finish_job S t T r i status err)"
proof (rule local_cong)
  let ?m = "\<lambda>s. case st_complete S t i status err s of (r, s') \<Rightarrow> ((r, st_get S i s'), s')"
  let ?k = "\<lambda>(q, g) s'. case q of
      Inr _ \<Rightarrow> ((200, BJob (case g of None \<Rightarrow> zero_job | Some j \<Rightarrow> j)), add_audit S t T r ''job_completed'' i status s')
    | Inl JobNotFound \<Rightarrow> (job_not_found, s')
    | Inl InvalidStatus \<Rightarrow> ((422, BError code_validation_failed (MsgText ''status must be done or failed'')), s')
    | Inl e \<Rightarrow> ((500, BError code_validation_failed (MsgStore e)), s')"
  have "local_if T {} (\<lambda>_. True) (?k a)" for a
    by (cases a) (simp only: prod.case, intro local_intros)
  then show "local_if T {} (\<lambda>s. require_owned S T i s = Some j) (\<lambda>s. case ?m s of (a, s') \<Rightarrow> ?k a s')"
    by (rule local_bind [OF local_complete])
  show "finish_job S t T r i status err s = (case ?m s of (a, s') \<Rightarrow> ?k a s')" for s
    by (simp add: finish_job_def split: prod.split)
qed

lemma local_handle_claim: "local_if T {} P (handle_claim_job S t i T r)"
  unfolding handle_claim_job_def
  by (rule local_owned, rule local_bind [OF local_claim])
     (intro local_intros)

lemma local_handle_done: "local_if T {} P (handle_done_job S t i T r)"
  unfolding handle_done_job_def by (rule local_owned, rule local_finish)

lemma local_handle_failed: "local_if T {} P (handle_failed_job S t i T r)"
  unfolding handle_failed_job_def by (rule local_owned, rule local_finish)

lemma local_handle_complete: "local_if T {} P (handle_complete_job S h t i T r)"
  unfolding handle_complete_job_def by (intro local_intros local_owned local_finish)

lemma local_handle_get: "local_if T {} P (handle_get_job S i T r)"
  unfolding handle_get_job_def by (rule local_owned, rule local_return)

lemma local_handle_event: "local_if T {} P (handle_job_event S h t i T r)"
  unfolding handle_job_event_def by (intro local_intros local_owned local_bind [OF local_event])

lemma local_handle_upload: "local_if T {} P (handle_job_upload S t i T r)"
  unfolding handle_job_upload_def by (intro local_intros local_owned local_bind [OF local_result])

lemma local_handle_pending: "local_if T {} P (handle_pending_jobs S T r)"
  unfolding handle_pending_jobs_def
proof (rule local_read)
  fix s assume "vw_ok V s"
  then have "filter (\<lambda>j. jb_tenant j = T) (st_pending S s)
      = vw_arrange V (filter (\<lambda>j. jb_status j = status_pending) (fst (tview T s)))"
    by (simp add: pending_law arranged arranged_set tview_def) (metis filter_filter conj_commute)
  then show "(200, BJobs (filter (\<lambda>j. jb_tenant j = T) (st_pending S s)))
      = (\<lambda>v. (200, BJobs (vw_arrange V (filter (\<lambda>j. jb_status j = status_pending) (fst v))))) (tview T s)"
    by simp
qed

lemma local_handle_audit: "local_if T {} P (handle_audit_log S T r)"
  unfolding handle_audit_log_def Let_def
  by (rule local_read [where f = "\<lambda>v. (200, BAudit (if 0 < positive_limit (ar_limit r) \<and> positive_limit (ar_limit r) < int (length (snd v))
        then drop (length (snd v) - nat (positive_limit (ar_limit r))) (snd v) else snd v))"])
     (simp add: audit_log_law tail_entries_def tview_def)

lemma local_heartbeat_audit:
  "local_if T {} P (\<lambda>s. (a, add_audit S t T r act i d (st_heartbeat S t info s)))"
proof -
  have "local_if T {} P (\<lambda>s. case ((), st_heartbeat S t info s) of (_, s') \<Rightarrow> (a, add_audit S t T r act i d s'))"
    by (rule local_bind [OF local_heartbeat]) (rule local_audit)
  then show ?thesis by simp
qed

lemma local_handle_heartbeat: "local_if T {} P (handle_heartbeat S h t T r)"
  unfolding handle_heartbeat_def by (intro local_intros local_heartbeat_audit)

lemma local_handle_create:
  assumes "\<And>j. jb_id j = fresh \<Longrightarrow> jb_tenant j = T \<Longrightarrow> jb_status j = status_pending \<Longrightarrow> vw_sound V j"
  shows "local_if T {fresh} P (handle_create_job S h t fresh T r)"
proof -
  have "local_if T {fresh} P (st_create S t fresh (requested_job T xs))" for xs
    by (intro local_create assms) (simp_all add: created_job_def with_id_def requested_job_def)
  then show ?thesis
    unfolding handle_create_job_def by (intro local_intros local_bind [where m = "st_create S t fresh _"])
qed

lemma local_execute: "local_if T F P (handle_tests_execute h run T r)"
proof -
  have "handle_tests_execute h run T r = (\<lambda>s. (fst (handle_tests_execute h run T r undefined), s))"
    by (rule ext) (simp add: handle_tests_execute_def split: decoded.split option.split sum.split prod.split)
  then show ?thesis by (metis local_return)
qed

lemma local_dispatch:
  assumes "\<And>j. jb_id j = cl_fresh c \<Longrightarrow> jb_tenant j = T \<Longrightarrow> jb_status j = status_pending \<Longrightarrow> vw_sound V j"
    and "rt \<noteq> RHealth"
  shows "local_if T {cl_fresh c} P (dispatch_route S h c rt T r)"
  using assms(2)
  by (cases rt) (simp_all add: dispatch_route_def local_execute local_handle_create [OF assms(1)] local_if_weaken
      local_handle_claim local_handle_done local_handle_failed local_handle_complete local_handle_get
      local_handle_event local_handle_upload local_handle_pending local_handle_audit local_handle_heartbeat)

lemma serve_nobody: "served_by h c = None \<Longrightarrow> serve S h c s = (fst (serve S h c undefined), s)"
  by (auto simp: served_by_def serve_def handle_health_def protected_def Let_def split: option.splits route.splits)

lemma serve_local:
  assumes "\<And>j. jb_id j = cl_fresh c \<Longrightarrow> jb_tenant j = T \<Longrightarrow> jb_status j = status_pending \<Longrightarrow> vw_sound V j"
    and "served_by h c = Some T"
  shows "local_if T {cl_fresh c} P (serve S h c)"
proof -
  obtain rt where rt: "route_of (ar_method (cl_request c)) (ar_path (cl_request c)) = Some rt" "rt \<noteq> RHealth"
      "resolve_tenant h (cl_request c) = Some T"
    using assms(2) by (auto simp: served_by_def split: option.splits route.splits)
  have "serve S h c s = (case dispatch_route S h c rt T (cl_request c) s of (resp, s') \<Rightarrow> (Some resp, s'))" for s
    using rt by (cases rt) (simp_all add: serve_def protected_def)
  moreover have "local_if T {cl_fresh c} P (\<lambda>s. case dispatch_route S h c rt T (cl_request c) s of (resp, s') \<Rightarrow> (Some resp, s'))"
    by (rule local_bind [OF local_dispatch]) (use assms(1) rt(2) in \<open>auto intro: local_return\<close>)
  ultimately show ?thesis by (rule local_cong [rotated])
qed

end

text \<open>The answers one tenant gets in a run of the server.\<close>

definition answers_to :: "api_config \<Rightarrow> string \<Rightarrow> 'r api_call list \<Rightarrow> 'a list \<Rightarrow> 'a list" where
  "answers_to h T cs resps = map snd (filter (\<lambda>(c, _). served_by h c = Some T) (zip cs resps))"

lemma answers_to_simps [simp]:
  "answers_to h T [] rs = []"
  "answers_to h T (c # cs) (r # rs) = (if served_by h c = Some T then [r] else []) @ answers_to h T cs rs"
  by (simp_all add: answers_to_def)

context job_store
begin

lemma isolation:
  assumes "vw_ok V s1" "vw_ok V s2" "tview T s1 = tview T s2" "distinct (map cl_fresh cs)"
    and "\<forall>c\<in>set cs. cl_fresh c \<notin> vw_used V s1 \<and> cl_fresh c \<notin> vw_used V s2"
    and "\<And>c U j. c \<in> set cs \<Longrightarrow> served_by h c = Some U \<Longrightarrow> jb_id j = cl_fresh c \<Longrightarrow> jb_tenant j = U \<Longrightarrow>
      jb_status j = status_pending \<Longrightarrow> vw_sound V j"
  shows "answers_to h T cs (fst (serve_all S h cs s1))
    = fst (serve_all S h (filter (\<lambda>c. served_by h c = Some T) cs) s2)"
  using assms
proof (induction cs arbitrary: s1 s2)
  case (Cons c cs)
  have dist: "distinct (map cl_fresh cs)" and fresh: "\<forall>d\<in>set cs. cl_fresh d \<noteq> cl_fresh c"
    using Cons.prems(4) by (auto simp: image_iff)
  have used: "\<forall>d\<in>set cs. cl_fresh d \<notin> vw_used V s1 \<and> cl_fresh d \<notin> vw_used V s2"
    "{cl_fresh c} \<inter> vw_used V s1 = {}" "{cl_fresh c} \<inter> vw_used V s2 = {}" using Cons.prems(5) by auto
  have sound: "vw_sound V j"
    if "d \<in> set cs" "served_by h d = Some U" "jb_id j = cl_fresh d" "jb_tenant j = U" "jb_status j = status_pending" for d U j
    using that by (intro Cons.prems(6) [of d U j]) simp_all
  have loc: "local_if U {cl_fresh c} (\<lambda>_. True) (serve S h c)" if "served_by h c = Some U" for U
    using Cons.prems(6) [of c U] that by (intro serve_local) auto
  obtain r1 t1 where r1: "serve S h c s1 = (r1, t1)" by force
  obtain r2 t2 where r2: "serve S h c s2 = (r2, t2)" by force
  show ?case
  proof (cases "served_by h c = Some T")
    case True
    have e: "r1 = r2" "tview T t1 = tview T t2"
      using local_ifD(1) [OF loc [OF True] Cons.prems(1,2) TrueI TrueI used(2,3) Cons.prems(3)] r1 r2 by simp_all
    have t1: "vw_ok V t1" "vw_used V t1 \<subseteq> vw_used V s1 \<union> {cl_fresh c}"
      using local_ifD(2) [OF loc [OF True] Cons.prems(1) TrueI used(2)] r1 by simp_all
    have t2: "vw_ok V t2" "vw_used V t2 \<subseteq> vw_used V s2 \<union> {cl_fresh c}"
      using local_ifD(2) [OF loc [OF True] Cons.prems(2) TrueI used(3)] r2 by simp_all
    have "\<forall>d\<in>set cs. cl_fresh d \<notin> vw_used V t1 \<and> cl_fresh d \<notin> vw_used V t2" using t1(2) t2(2) used(1) fresh by blast
    from Cons.IH [OF t1(1) t2(1) e(2) dist this sound]
    show ?thesis using True e(1) r1 r2 by (simp add: case_prod_unfold Let_def)
  next
    case False
    have t1: "vw_ok V t1 \<and> vw_used V t1 \<subseteq> vw_used V s1 \<union> {cl_fresh c} \<and> tview T t1 = tview T s1"
    proof (cases "served_by h c")
      case None
      then show ?thesis using serve_nobody [of h c s1] r1 Cons.prems(1) by auto
    next
      case (Some U)
      then have "U \<noteq> T" using False by simp
      then show ?thesis
        using local_ifD(2) [OF loc [OF Some] Cons.prems(1) TrueI used(2)]
          local_ifD(3) [OF loc [OF Some] Cons.prems(1) TrueI used(2), of T] r1 by auto
    qed
    then have fr: "\<forall>d\<in>set cs. cl_fresh d \<notin> vw_used V t1 \<and> cl_fresh d \<notin> vw_used V s2" using used(1) fresh by blast
    have v: "tview T t1 = tview T s2" using t1 Cons.prems(3) by simp
    from Cons.IH [OF conjunct1 [OF t1] Cons.prems(2) v dist fr sound]
    show ?thesis using False r1 by (simp add: case_prod_unfold Let_def)
  qed
qed simp

end

text \<open>
  C6. Tenants cannot observe each other. In any sequence of requests to the server, the answers
  to the requests of one tenant - their statuses, bodies and the order of the jobs in them -
  are the answers the server would have given had no other tenant (and no unauthenticated
  caller) sent anything; new identifiers are assumed not to repeat.
\<close>

theorem tenants_are_isolated:
  assumes "distinct (map cl_fresh cs)"
  shows "answers_to h T cs (fst (serve_all memory_store h cs new_memory))
    = fst (serve_all memory_store h (filter (\<lambda>c. served_by h c = Some T) cs) new_memory)"
  using assms
  by (intro mem.isolation) (simp_all add: memory_view_def new_memory_def)

text \<open>Two tenants, a job of the first, and the second looking for it.\<close>

definition sample_api :: api_config where
  "sample_api = \<lparr>ah_keys = [(''ka'', ''a''), (''kb'', ''b'')], al_unfinished = \<lambda>_. False, al_case = \<lambda>_. None\<rparr>"

definition sample_call :: "string \<Rightarrow> string list \<Rightarrow> string \<Rightarrow> string \<Rightarrow> string \<Rightarrow> unit api_call" where
  "sample_call m p key body fresh = \<lparr>cl_request = \<lparr>ar_method = m, ar_path = p, ar_authorization = ''Bearer '' @ key,
     ar_user_agent = ''ua'', ar_content_type = [], ar_limit = [], ar_body = body, ar_form = FormNoFile\<rparr>,
     cl_time = (1, 0), cl_fresh = fresh, cl_run = \<lambda>_. Inl []\<rparr>"

definition sample_calls :: "unit api_call list" where
  "sample_calls = [sample_call ''POST'' [''jobs''] ''ka'' ''{\"tool_type\":\"t\"}'' ''j1'',
     sample_call ''GET'' [''jobs'', ''j1''] ''kb'' [] ''j2'',
     sample_call ''POST'' [''jobs'', ''j1'', ''claim''] ''kb'' [] ''j3'',
     sample_call ''GET'' [''jobs'', ''pending''] ''ka'' [] ''j4'']"

lemma tenants_are_isolated_witness:
  "answers_to sample_api ''b'' sample_calls (fst (serve_all memory_store sample_api sample_calls new_memory))
     = [Some job_not_found, Some job_not_found]"
proof -
  have d: "distinct (map cl_fresh sample_calls)" by code_simp
  have f: "filter (\<lambda>c. served_by sample_api c = Some ''b'') sample_calls =
      [sample_call ''GET'' [''jobs'', ''j1''] ''kb'' [] ''j2'', sample_call ''POST'' [''jobs'', ''j1'', ''claim''] ''kb'' [] ''j3'']"
    unfolding sample_calls_def by (simp add: served_by_def sample_call_def) code_simp
  show ?thesis
    unfolding tenants_are_isolated [OF d] f by code_simp
qed

end
