(* ===== verification/GoTime.thy ===== *)
theory GoTime
  imports Store GoNum
begin

text \<open>
  The text of a time in UTC by the layout \<open>time.RFC3339Nano\<close>, as \<open>Time.Format\<close> and
  \<open>Time.MarshalJSON\<close> write it, and its reading; only times in UTC are read, as the store
  writes no other. The trailing zeros of the fraction are dropped, so the order of the texts is
  not the order of the times.
\<close>

definition days_in_month :: "int \<Rightarrow> int \<Rightarrow> int" where
  "days_in_month y m =
     (if m = 2 then (if y mod 4 = 0 \<and> (y mod 100 \<noteq> 0 \<or> y mod 400 = 0) then 29 else 28)
      else if m \<in> {4, 6, 9, 11} then 30 else 31)"

text \<open>A time of the calendar whose year has four digits.\<close>

definition time_ok :: "time \<Rightarrow> bool" where
  "time_ok t = (let p = fst t; y = p div 10000000000; m = p div 100000000 mod 100; d = p div 1000000 mod 100 in
     0 \<le> p \<and> p < 100000000000000 \<and> 1 \<le> m \<and> m \<le> 12 \<and> 1 \<le> d \<and> d \<le> days_in_month y m
     \<and> p div 10000 mod 100 < 24 \<and> p div 100 mod 100 < 60 \<and> p mod 100 < 60 \<and> 0 \<le> snd t \<and> snd t < 1000000000)"

fun pad_digits :: "nat \<Rightarrow> int \<Rightarrow> string" where
  "pad_digits 0 n = []"
| "pad_digits (Suc k) n = pad_digits k (n div 10) @ [digit_char (nat (n mod 10))]"

definition int_of_digits :: "string \<Rightarrow> int" where
  "int_of_digits s = foldl (\<lambda>n c. 10 * n + int (digit_val c)) 0 s"

text \<open>A layout has \<open>0\<close> for a digit and every other character for itself.\<close>

fun fill_layout :: "string \<Rightarrow> string \<Rightarrow> string" where
  "fill_layout [] ds = []"
| "fill_layout (l # ls) ds = (if l = CHR ''0'' then (case ds of [] \<Rightarrow> [] | d # ds \<Rightarrow> d # fill_layout ls ds)
     else l # fill_layout ls ds)"

fun read_layout :: "string \<Rightarrow> string \<Rightarrow> (string \<times> string) option" where
  "read_layout [] s = Some ([], s)"
| "read_layout (l # ls) [] = None"
| "read_layout (l # ls) (c # cs) =
     (if l = CHR ''0'' then (if is_digit c then map_option (\<lambda>(ds, r). (c # ds, r)) (read_layout ls cs) else None)
      else if c = l then read_layout ls cs else None)"

definition trim_zeros :: "string \<Rightarrow> string" where
  "trim_zeros s = rev (dropWhile (\<lambda>c. c = CHR ''0'') (rev s))"

definition fraction_text :: "int \<Rightarrow> string" where
  "fraction_text ns = (if ns = 0 then [] else CHR ''.'' # trim_zeros (pad_digits 9 ns))"

definition year_text :: "int \<Rightarrow> string" where
  "year_text y = (if y < 10000 then pad_digits 4 y else show_int y)"

definition rfc3339_nano :: "time \<Rightarrow> string" where
  "rfc3339_nano t = year_text (fst t div 10000000000) @ fill_layout ''-00-00T00:00:00'' (pad_digits 10 (fst t))
     @ fraction_text (snd t) @ ''Z''"

definition read_fraction :: "string \<Rightarrow> int option" where
  "read_fraction s = (case s of [] \<Rightarrow> None
     | c # cs \<Rightarrow>
        if c = CHR ''Z'' then (if cs = [] then Some 0 else None)
        else if c = CHR ''.'' \<and> takeWhile is_digit cs \<noteq> [] \<and> dropWhile is_digit cs = ''Z''
          then Some (int_of_digits (take 9 (takeWhile is_digit cs @ replicate 9 (CHR ''0''))))
        else None)"

definition parse_time :: "string \<Rightarrow> time option" where
  "parse_time s = (case read_layout ''0000-00-00T00:00:00'' s of None \<Rightarrow> None
     | Some (ds, rest) \<Rightarrow> (case read_fraction rest of None \<Rightarrow> None
       | Some ns \<Rightarrow> let t = (int_of_digits ds, ns) in if time_ok t then Some t else None))"

lemma length_pad [simp]: "length (pad_digits k n) = k"
  by (induction k n rule: pad_digits.induct) simp_all

lemma pad_is_digits: "list_all is_digit (pad_digits k n)"
proof (induction k n rule: pad_digits.induct)
  case (2 k n)
  have "nat (n mod 10) < 10" by simp
  then show ?case using 2 by simp
qed simp

lemma int_of_digits_snoc [simp]: "int_of_digits (s @ [c]) = 10 * int_of_digits s + int (digit_val c)"
  by (simp add: int_of_digits_def)

lemma int_of_digits_append: "int_of_digits (s @ t) = int_of_digits s * 10 ^ length t + int_of_digits t"
  by (induction t rule: rev_induct) (simp_all add: algebra_simps int_of_digits_def flip: append_assoc)

lemma int_of_pad: "int_of_digits (pad_digits k n) = n mod 10 ^ k"
proof (induction k n rule: pad_digits.induct)
  case (2 k n)
  have "nat (n mod 10) < 10" by simp
  then have "int_of_digits (pad_digits (Suc k) n) = 10 * (n div 10 mod 10 ^ k) + n mod 10" using 2 by simp
  also have "\<dots> = n mod (10 * 10 ^ k)" by (subst zmod_zmult2_eq) simp_all
  finally show ?case by simp
qed (simp add: int_of_digits_def)

lemma int_of_zeros: "int_of_digits (replicate k (CHR ''0'')) = 0"
proof (induction k)
  case (Suc k)
  have "int_of_digits (replicate k (CHR ''0'') @ ''0'') = 0" using Suc by (simp add: digit_val_def byte_of_def)
  then show ?case by (simp only: replicate_append_same replicate.simps)
qed (simp add: int_of_digits_def)

lemma trim_zeros_eq: "\<exists>k. s = trim_zeros s @ replicate k (CHR ''0'')"
proof -
  let ?P = "\<lambda>c. c = CHR ''0''"
  have "takeWhile ?P (rev s) = replicate (length (takeWhile ?P (rev s))) (CHR ''0'')"
    by (rule replicate_eqI) (auto dest: set_takeWhileD)
  then have "rev s = replicate (length (takeWhile ?P (rev s))) (CHR ''0'') @ dropWhile ?P (rev s)"
    by (metis takeWhile_dropWhile_id)
  then have "s = rev (dropWhile ?P (rev s)) @ rev (replicate (length (takeWhile ?P (rev s))) (CHR ''0''))"
    by (metis rev_append rev_rev_ident)
  then show ?thesis unfolding trim_zeros_def by (intro exI) (simp only: rev_replicate)
qed

lemma take_trimmed: "length s = n \<Longrightarrow> take n (trim_zeros s @ replicate n (CHR ''0'')) = s"
proof -
  assume n: "length s = n"
  obtain k where k: "s = trim_zeros s @ replicate k (CHR ''0'')" using trim_zeros_eq by blast
  then have "length s = length (trim_zeros s) + k" by (metis length_append length_replicate)
  then have "take n (trim_zeros s @ replicate n (CHR ''0'')) = trim_zeros s @ replicate k (CHR ''0'')"
    using n by (simp add: take_replicate min_def)
  then show ?thesis using k by simp
qed

lemma read_fill:
  "list_all is_digit ds \<Longrightarrow> length ds = length (filter (\<lambda>l. l = CHR ''0'') ls) \<Longrightarrow>
     read_layout ls (fill_layout ls ds @ r) = Some (ds, r)"
proof (induction ls arbitrary: ds)
  case (Cons l ls)
  show ?case
  proof (cases "l = CHR ''0''")
    case True
    then obtain d es where "ds = d # es" using Cons.prems(2) by (cases ds) auto
    then show ?thesis using True Cons by simp
  qed (use Cons in simp)
qed simp

lemma read_layout_append:
  "read_layout (ls @ ks) s = (case read_layout ls s of None \<Rightarrow> None
     | Some (ds, r) \<Rightarrow> map_option (\<lambda>(es, q). (ds @ es, q)) (read_layout ks r))"
  by (induction ls s rule: read_layout.induct)
     (auto simp: option.map_comp comp_def split_def option.map_ident split: option.split)

lemma read_digits: "list_all is_digit ds \<Longrightarrow> read_layout (replicate (length ds) (CHR ''0'')) (ds @ r) = Some (ds, r)"
  by (induction ds) simp_all

lemma not_digits: "\<not> is_digit CHR ''Z''" "\<not> is_digit CHR ''.''"
  by (simp_all add: is_digit_def byte_of_def)

lemma read_fraction_text:
  assumes "0 \<le> ns" "ns < 1000000000"
  shows "read_fraction (fraction_text ns @ ''Z'') = Some ns"
proof (cases "ns = 0")
  case True
  then show ?thesis by (simp add: fraction_text_def read_fraction_def)
next
  case False
  let ?p = "pad_digits 9 ns" and ?t = "trim_zeros (pad_digits 9 ns)"
  have val: "int_of_digits ?p = ns" using assms by (simp add: int_of_pad)
  obtain k where k: "?p = ?t @ replicate k (CHR ''0'')" using trim_zeros_eq by blast
  have "list_all is_digit (?t @ replicate k (CHR ''0''))" using pad_is_digits [of 9 ns] k by simp
  then have dig: "\<forall>c\<in>set ?t. is_digit c" by (simp add: list_all_iff)
  have ne: "?t \<noteq> []"
  proof
    assume "?t = []"
    then have "int_of_digits ?p = int_of_digits (replicate k (CHR ''0''))" using k by simp
    also have "\<dots> = 0" by (rule int_of_zeros)
    finally show False using val False by simp
  qed
  have "takeWhile is_digit (?t @ ''Z'') = ?t" "dropWhile is_digit (?t @ ''Z'') = ''Z''"
    using dig not_digits by (simp_all add: takeWhile_append dropWhile_append)
  then show ?thesis
    using False ne take_trimmed [of ?p 9] val by (simp add: fraction_text_def read_fraction_def)
qed

text \<open>A time of the calendar is read back from its text.\<close>

lemma parse_rfc3339: "time_ok t \<Longrightarrow> parse_time (rfc3339_nano t) = Some t"
proof -
  assume ok: "time_ok t"
  let ?p = "fst t" and ?l = "''-00-00T00:00:00''"
  have b: "0 \<le> ?p" "?p < 100000000000000" "0 \<le> snd t" "snd t < 1000000000"
    using ok by (simp_all add: time_ok_def Let_def)
  then have y: "?p div 10000000000 < 10000" by simp
  let ?y = "pad_digits 4 (?p div 10000000000)" and ?d = "pad_digits 10 ?p"
  have "int_of_digits (?y @ ?d) = ?p div 10000000000 mod 10000 * 10000000000 + ?p mod 10000000000"
    by (simp add: int_of_digits_append int_of_pad)
  also have "?p div 10000000000 mod 10000 = ?p div 10000000000" using b(1) y by simp
  finally have val: "int_of_digits (?y @ ?d) = ?p" by simp
  have "replicate 4 (CHR ''0'') = ''0000''" by (simp add: numeral_eq_Suc)
  then have "read_layout ''0000'' (?y @ r) = Some (?y, r)" for r
    using read_digits [OF pad_is_digits, of 4 "?p div 10000000000" r] by simp
  moreover have "read_layout ?l (fill_layout ?l ?d @ r) = Some (?d, r)" for r
    by (rule read_fill [OF pad_is_digits]) simp
  moreover have "''0000-00-00T00:00:00'' = ''0000'' @ ?l" by simp
  ultimately have "read_layout ''0000-00-00T00:00:00'' (rfc3339_nano t) = Some (?y @ ?d, fraction_text (snd t) @ ''Z'')"
    using y by (simp only: rfc3339_nano_def year_text_def if_True read_layout_append option.case prod.case
      option.map append_assoc)
  then show ?thesis
    using ok val read_fraction_text [OF b(3,4)] by (simp add: parse_time_def)
qed

end
