(* ===== verification/JobDoc.thy ===== *)
theory JobDoc
  imports GoTime JsonValid
begin

text \<open>
  The JSON documents in which the SQLite store keeps jobs and runners: what \<open>json.Marshal\<close>
  writes for the structs \<open>Job\<close>, \<open>Event\<close> and \<open>RunnerInfo\<close> by their tags, and what \<open>json.Unmarshal\<close>
  makes of it. Raw JSON is written compactly, as the rendering of its value. The documents read
  are those the store wrote, so members are found by their exact names.
\<close>

section \<open>Writing\<close>

definition opt_member :: "string \<Rightarrow> string \<Rightarrow> (string \<times> json) list" where
  "opt_member n w = (if w = [] then [] else [(n, JStr w)])"

definition time_member :: "string \<Rightarrow> time \<Rightarrow> store_error + (string \<times> json) list" where
  "time_member n t = (if time_ok t then Inr [(n, JStr (rfc3339_nano t))]
     else Inl (BackendError ''Time.MarshalJSON: year outside of range [0,9999]''))"

definition raw_member :: "string \<Rightarrow> string \<Rightarrow> store_error + (string \<times> json) list" where
  "raw_member n raw = (if raw = [] then Inr [] else case json_parse raw of
       None \<Rightarrow> Inl (BackendError ''json: error calling MarshalJSON for type json.RawMessage'')
     | Some v \<Rightarrow> Inr [(n, v)])"

definition event_json :: "event \<Rightarrow> store_error + json" where
  "event_json e = bind_res (time_member ''at'' (ev_at e)) (\<lambda>at.
     Inr (JObj ((''kind'', JStr (ev_kind e)) # opt_member ''text'' (ev_text e) @ at)))"

definition events_member :: "event list \<Rightarrow> store_error + (string \<times> json) list" where
  "events_member es = (if es = [] then Inr [] else
     bind_res (map_res event_json es) (\<lambda>vs. Inr [(''events'', JArr vs)]))"

definition job_json :: "job \<Rightarrow> store_error + json" where
  "job_json j =
     bind_res (raw_member ''config'' (jb_config j)) (\<lambda>config.
     bind_res (events_member (jb_events j)) (\<lambda>events.
     bind_res (raw_member ''result'' (jb_result j)) (\<lambda>res.
     bind_res (time_member ''created_at'' (jb_created_at j)) (\<lambda>created.
     bind_res (time_member ''updated_at'' (jb_updated_at j)) (\<lambda>updated.
       Inr (JObj ([(''id'', JStr (jb_id j))] @ opt_member ''tenant'' (jb_tenant j)
         @ [(''tool_type'', JStr (jb_tool_type j)), (''target_source'', JStr (jb_target_source j)),
            (''program_id'', JStr (jb_program_id j))]
         @ config @ [(''status'', JStr (jb_status j))] @ opt_member ''error_message'' (jb_error_message j)
         @ opt_member ''claimed_by'' (jb_claimed_by j) @ events @ res @ created @ updated)))))))"

definition marshal_job :: "job \<Rightarrow> store_error + string" where
  "marshal_job j = bind_res (job_json j) (\<lambda>v. Inr (json_text v))"

section \<open>Reading\<close>

text \<open>A string or a time is left as it is by \<open>null\<close>.\<close>

definition set_string :: "json \<Rightarrow> string \<Rightarrow> string option" where
  "set_string v old = (case v of JStr w \<Rightarrow> Some w | JNull \<Rightarrow> Some old | _ \<Rightarrow> None)"

definition set_time :: "json \<Rightarrow> time \<Rightarrow> time option" where
  "set_time v old = (case v of JStr w \<Rightarrow> parse_time w | JNull \<Rightarrow> Some old | _ \<Rightarrow> None)"

fun read_members :: "(string \<Rightarrow> json \<Rightarrow> 'a \<Rightarrow> 'a option) \<Rightarrow> (string \<times> json) list \<Rightarrow> 'a \<Rightarrow> 'a option" where
  "read_members f [] x = Some x"
| "read_members f ((k, v) # ps) x = (case f k v x of None \<Rightarrow> None | Some y \<Rightarrow> read_members f ps y)"

definition read_object :: "(string \<Rightarrow> json \<Rightarrow> 'a \<Rightarrow> 'a option) \<Rightarrow> json \<Rightarrow> 'a \<Rightarrow> 'a option" where
  "read_object f v x = (case v of JObj ps \<Rightarrow> read_members f ps x | JNull \<Rightarrow> Some x | _ \<Rightarrow> None)"

definition read_elems :: "(json \<Rightarrow> 'a option) \<Rightarrow> json \<Rightarrow> 'a list option" where
  "read_elems f v = (case v of JArr vs \<Rightarrow> those (map f vs) | JNull \<Rightarrow> Some [] | _ \<Rightarrow> None)"

definition event_field :: "string \<Rightarrow> json \<Rightarrow> event \<Rightarrow> event option" where
  "event_field k v e =
     (if k = ''kind'' then map_option (\<lambda>w. e\<lparr>ev_kind := w\<rparr>) (set_string v (ev_kind e))
      else if k = ''text'' then map_option (\<lambda>w. e\<lparr>ev_text := w\<rparr>) (set_string v (ev_text e))
      else if k = ''at'' then map_option (\<lambda>t. e\<lparr>ev_at := t\<rparr>) (set_time v (ev_at e))
      else Some e)"

definition read_event :: "json \<Rightarrow> event option" where
  "read_event v = read_object event_field v \<lparr>ev_kind = [], ev_text = [], ev_at = zero_time\<rparr>"

definition job_field :: "string \<Rightarrow> json \<Rightarrow> job \<Rightarrow> job option" where
  "job_field k v j =
     (if k = ''id'' then map_option (\<lambda>w. j\<lparr>jb_id := w\<rparr>) (set_string v (jb_id j))
      else if k = ''tenant'' then map_option (\<lambda>w. j\<lparr>jb_tenant := w\<rparr>) (set_string v (jb_tenant j))
      else if k = ''tool_type'' then map_option (\<lambda>w. j\<lparr>jb_tool_type := w\<rparr>) (set_string v (jb_tool_type j))
      else if k = ''target_source'' then map_option (\<lambda>w. j\<lparr>jb_target_source := w\<rparr>) (set_string v (jb_target_source j))
      else if k = ''program_id'' then map_option (\<lambda>w. j\<lparr>jb_program_id := w\<rparr>) (set_string v (jb_program_id j))
      else if k = ''config'' then Some (j\<lparr>jb_config := json_text v\<rparr>)
      else if k = ''status'' then map_option (\<lambda>w. j\<lparr>jb_status := w\<rparr>) (set_string v (jb_status j))
      else if k = ''error_message'' then map_option (\<lambda>w. j\<lparr>jb_error_message := w\<rparr>) (set_string v (jb_error_message j))
      else if k = ''claimed_by'' then map_option (\<lambda>w. j\<lparr>jb_claimed_by := w\<rparr>) (set_string v (jb_claimed_by j))
      else if k = ''events'' then map_option (\<lambda>es. j\<lparr>jb_events := es\<rparr>) (read_elems read_event v)
      else if k = ''result'' then Some (j\<lparr>jb_result := json_text v\<rparr>)
      else if k = ''created_at'' then map_option (\<lambda>t. j\<lparr>jb_created_at := t\<rparr>) (set_time v (jb_created_at j))
      else if k = ''updated_at'' then map_option (\<lambda>t. j\<lparr>jb_updated_at := t\<rparr>) (set_time v (jb_updated_at j))
      else Some j)"

definition unmarshal_job :: "string \<Rightarrow> job option" where
  "unmarshal_job s = (case json_parse s of None \<Rightarrow> None | Some v \<Rightarrow> read_object job_field v zero_job)"

section \<open>Runners\<close>

definition runner_json :: "runner_info \<Rightarrow> store_error + json" where
  "runner_json r = bind_res (time_member ''last_seen'' (ri_last_seen r)) (\<lambda>seen.
     Inr (JObj ((''hostname'', JStr (ri_hostname r)) # opt_member ''version'' (ri_version r)
       @ opt_member ''os'' (ri_os r)
       @ (if ri_tools r = [] then [] else [(''tools'', JArr (map JStr (ri_tools r)))]) @ seen)))"

definition marshal_runner :: "runner_info \<Rightarrow> store_error + string" where
  "marshal_runner r = bind_res (runner_json r) (\<lambda>v. Inr (json_text v))"

definition runner_field :: "string \<Rightarrow> json \<Rightarrow> runner_info \<Rightarrow> runner_info option" where
  "runner_field k v r =
     (if k = ''hostname'' then map_option (\<lambda>w. r\<lparr>ri_hostname := w\<rparr>) (set_string v (ri_hostname r))
      else if k = ''version'' then map_option (\<lambda>w. r\<lparr>ri_version := w\<rparr>) (set_string v (ri_version r))
      else if k = ''os'' then map_option (\<lambda>w. r\<lparr>ri_os := w\<rparr>) (set_string v (ri_os r))
      else if k = ''tools'' then map_option (\<lambda>ws. r\<lparr>ri_tools := ws\<rparr>) (read_elems (\<lambda>v. set_string v []) v)
      else if k = ''last_seen'' then map_option (\<lambda>t. r\<lparr>ri_last_seen := t\<rparr>) (set_time v (ri_last_seen r))
      else Some r)"

definition unmarshal_runner :: "string \<Rightarrow> runner_info option" where
  "unmarshal_runner s = (case json_parse s of None \<Rightarrow> None
     | Some v \<Rightarrow> read_object runner_field v
         \<lparr>ri_hostname = [], ri_version = [], ri_os = [], ri_tools = [], ri_last_seen = zero_time\<rparr>)"

section \<open>What reads back\<close>

definition raw_back :: "string \<Rightarrow> string" where
  "raw_back w = (if w = [] then [] else case json_parse w of None \<Rightarrow> w | Some v \<Rightarrow> json_text (repair_json v))"

definition event_back :: "event \<Rightarrow> event" where
  "event_back e = e\<lparr>ev_kind := repair (ev_kind e), ev_text := repair (ev_text e)\<rparr>"

definition job_back :: "job \<Rightarrow> job" where
  "job_back j = j\<lparr>jb_id := repair (jb_id j), jb_tenant := repair (jb_tenant j), jb_tool_type := repair (jb_tool_type j),
     jb_target_source := repair (jb_target_source j), jb_program_id := repair (jb_program_id j),
     jb_config := raw_back (jb_config j), jb_status := repair (jb_status j),
     jb_error_message := repair (jb_error_message j), jb_claimed_by := repair (jb_claimed_by j),
     jb_events := map event_back (jb_events j), jb_result := raw_back (jb_result j)\<rparr>"

lemma ascii_valid: "list_all (\<lambda>c. byte_of c < 128) s \<Longrightarrow> utf8_valid s"
proof (induction s)
  case (Cons c s)
  then show ?case by (subst utf8_valid.simps) (simp add: utf8_len_ascii)
qed simp

lemma digit_ascii: "is_digit c \<Longrightarrow> byte_of c < 128"
  by (simp add: is_digit_def)

lemma fill_ascii:
  "list_all (\<lambda>c. byte_of c < 128) ls \<Longrightarrow> list_all (\<lambda>c. byte_of c < 128) ds \<Longrightarrow>
     list_all (\<lambda>c. byte_of c < 128) (fill_layout ls ds)"
  by (induction ls ds rule: fill_layout.induct) (auto split: list.split)

lemma pad_ascii: "list_all (\<lambda>c. byte_of c < 128) (pad_digits k n)"
  using pad_is_digits [of k n] by (auto simp: list_all_iff digit_ascii)

lemma time_text_valid: "time_ok t \<Longrightarrow> utf8_valid (rfc3339_nano t)"
proof (rule ascii_valid)
  assume "time_ok t"
  then have "fst t < 100000000000000" by (simp add: time_ok_def Let_def)
  then have y: "fst t div 10000000000 < 10000" by simp
  have "list_all (\<lambda>c. byte_of c < 128) (trim_zeros (pad_digits 9 n))" for n
    using pad_ascii [of 9 n] set_dropWhileD by (fastforce simp: trim_zeros_def list_all_iff)
  moreover have "list_all (\<lambda>c. byte_of c < 128) ''-00-00T00:00:00''" by (simp add: byte_of_def)
  from fill_ascii [OF this pad_ascii]
  have "list_all (\<lambda>c. byte_of c < 128) (fill_layout ''-00-00T00:00:00'' (pad_digits 10 (fst t)))" .
  ultimately show "list_all (\<lambda>c. byte_of c < 128) (rfc3339_nano t)"
    using y pad_ascii by (simp add: rfc3339_nano_def year_text_def fraction_text_def byte_of_def del: fill_layout.simps)
qed

lemma repair_members_append [simp]: "repair_members (ps @ qs) = repair_members ps @ repair_members qs"
  by (induction ps) auto

lemma read_members_append:
  "read_members f (ps @ qs) x = (case read_members f ps x of None \<Rightarrow> None | Some y \<Rightarrow> read_members f qs y)"
  by (induction f ps x rule: read_members.induct) (auto split: option.split)

lemma repair_names [simp]:
  "repair ''id'' = ''id''" "repair ''tenant'' = ''tenant''" "repair ''tool_type'' = ''tool_type''"
  "repair ''target_source'' = ''target_source''" "repair ''program_id'' = ''program_id''"
  "repair ''config'' = ''config''" "repair ''status'' = ''status''" "repair ''error_message'' = ''error_message''"
  "repair ''claimed_by'' = ''claimed_by''" "repair ''events'' = ''events''" "repair ''result'' = ''result''"
  "repair ''created_at'' = ''created_at''" "repair ''updated_at'' = ''updated_at''" "repair ''kind'' = ''kind''"
  "repair ''text'' = ''text''" "repair ''at'' = ''at''"
  by (intro repair_valid ascii_valid, simp add: byte_of_def)+

lemma time_member_back:
  assumes "time_member n t = Inr ps" "repair n = n"
  shows "repair_members ps = [(n, JStr (rfc3339_nano t))]" "set_time (JStr (rfc3339_nano t)) old = Some t"
proof -
  have ok: "time_ok t" "ps = [(n, JStr (rfc3339_nano t))]" using assms(1) by (auto simp: time_member_def split: if_splits)
  show "repair_members ps = [(n, JStr (rfc3339_nano t))]"
    using ok assms(2) repair_valid [OF time_text_valid] by simp
  show "set_time (JStr (rfc3339_nano t)) old = Some t" using parse_rfc3339 [OF ok(1)] by (simp add: set_time_def)
qed

lemma event_json_back: "event_json e = Inr v \<Longrightarrow> read_event (repair_json v) = Some (event_back e)"
  by (cases e) (auto simp: event_json_def bind_res_eq_Inr read_event_def read_object_def event_field_def set_string_def
    time_member_back opt_member_def event_back_def)

lemma events_back:
  "map_res event_json es = Inr vs \<Longrightarrow> those (map read_event (repair_jsons vs)) = Some (map event_back es)"
  by (induction es arbitrary: vs) (auto simp: bind_res_eq_Inr event_json_back)

lemma events_member_back:
  assumes "events_member es = Inr ps" "jb_events j = []"
  shows "read_members job_field (repair_members ps) j = Some (j\<lparr>jb_events := map event_back es\<rparr>)"
  using assms by (cases j) (auto simp: events_member_def bind_res_eq_Inr job_field_def read_elems_def events_back split: if_splits)

lemma raw_member_back:
  "raw_member ''config'' w = Inr ps \<Longrightarrow> jb_config j = [] \<Longrightarrow>
     read_members job_field (repair_members ps) j = Some (j\<lparr>jb_config := raw_back w\<rparr>)"
  "raw_member ''result'' w = Inr ps \<Longrightarrow> jb_result j = [] \<Longrightarrow>
     read_members job_field (repair_members ps) j = Some (j\<lparr>jb_result := raw_back w\<rparr>)"
  by (cases j; auto simp: raw_member_def raw_back_def job_field_def split: if_splits option.splits)+

lemma opt_member_back:
  "jb_tenant j = [] \<Longrightarrow> read_members job_field (repair_members (opt_member ''tenant'' w)) j = Some (j\<lparr>jb_tenant := repair w\<rparr>)"
  "jb_error_message j = [] \<Longrightarrow>
     read_members job_field (repair_members (opt_member ''error_message'' w)) j = Some (j\<lparr>jb_error_message := repair w\<rparr>)"
  "jb_claimed_by j = [] \<Longrightarrow>
     read_members job_field (repair_members (opt_member ''claimed_by'' w)) j = Some (j\<lparr>jb_claimed_by := repair w\<rparr>)"
  by (cases j; simp add: opt_member_def job_field_def set_string_def)+

lemma text_member_back:
  "read_members job_field ((''id'', JStr w) # ps) j = read_members job_field ps (j\<lparr>jb_id := w\<rparr>)"
  "read_members job_field ((''tool_type'', JStr w) # ps) j = read_members job_field ps (j\<lparr>jb_tool_type := w\<rparr>)"
  "read_members job_field ((''target_source'', JStr w) # ps) j = read_members job_field ps (j\<lparr>jb_target_source := w\<rparr>)"
  "read_members job_field ((''program_id'', JStr w) # ps) j = read_members job_field ps (j\<lparr>jb_program_id := w\<rparr>)"
  "read_members job_field ((''status'', JStr w) # ps) j = read_members job_field ps (j\<lparr>jb_status := w\<rparr>)"
  by (simp_all add: job_field_def set_string_def)

lemma stamp_back:
  "time_member ''created_at'' t = Inr ps \<Longrightarrow> read_members job_field (repair_members ps) j = Some (j\<lparr>jb_created_at := t\<rparr>)"
  "time_member ''updated_at'' t = Inr ps \<Longrightarrow> read_members job_field (repair_members ps) j = Some (j\<lparr>jb_updated_at := t\<rparr>)"
  by (simp_all add: job_field_def time_member_back)

lemma job_json_back:
  assumes "job_json j = Inr v"
  shows "read_object job_field (repair_json v) zero_job = Some (job_back j)"
proof -
  obtain config events res created updated where
    p: "raw_member ''config'' (jb_config j) = Inr config" "events_member (jb_events j) = Inr events"
      "raw_member ''result'' (jb_result j) = Inr res" "time_member ''created_at'' (jb_created_at j) = Inr created"
      "time_member ''updated_at'' (jb_updated_at j) = Inr updated"
    and v: "v = JObj ([(''id'', JStr (jb_id j))] @ opt_member ''tenant'' (jb_tenant j)
         @ [(''tool_type'', JStr (jb_tool_type j)), (''target_source'', JStr (jb_target_source j)),
            (''program_id'', JStr (jb_program_id j))]
         @ config @ [(''status'', JStr (jb_status j))] @ opt_member ''error_message'' (jb_error_message j)
         @ opt_member ''claimed_by'' (jb_claimed_by j) @ events @ res @ created @ updated)"
    using assms by (auto simp: job_json_def bind_res_eq_Inr)
  show ?thesis unfolding v
    by (simp add: read_object_def read_members_append text_member_back opt_member_back events_member_back [OF p(2)]
        raw_member_back(1) [OF p(1)] raw_member_back(2) [OF p(3)] stamp_back(1) [OF p(4)] stamp_back(2) [OF p(5)]
        zero_job_def job_back_def del: read_members.simps(2))
qed

section \<open>The round trip\<close>

lemma nums_member:
  "opt_member n w = ps \<Longrightarrow> list_all (\<lambda>(k, v). nums_ok v) ps"
  "time_member n t = Inr ps \<Longrightarrow> list_all (\<lambda>(k, v). nums_ok v) ps"
  "raw_member n w = Inr ps \<Longrightarrow> list_all (\<lambda>(k, v). nums_ok v) ps"
  by (auto simp: opt_member_def time_member_def raw_member_def json_parse_nums split: if_splits option.splits)

lemma nums_event: "event_json e = Inr v \<Longrightarrow> nums_ok v"
  by (auto simp: event_json_def bind_res_eq_Inr nums_member)

lemma nums_events: "events_member es = Inr ps \<Longrightarrow> list_all (\<lambda>(k, v). nums_ok v) ps"
  using map_res_elem [of event_json es]
  by (fastforce simp: events_member_def bind_res_eq_Inr list_all_iff nums_event split: if_splits)

lemma nums_job: "job_json j = Inr v \<Longrightarrow> nums_ok v"
  by (auto simp: job_json_def bind_res_eq_Inr nums_member nums_events)

text \<open>A job that could be written reads back, unless its raw JSON is nested too deeply.\<close>

lemma unmarshal_marshal:
  "job_json j = Inr v \<Longrightarrow>
     unmarshal_job (json_text v) = (if json_depth v \<le> max_nesting then Some (job_back j) else None)"
  using json_parse_written [OF nums_job] job_json_back by (simp add: unmarshal_job_def)

lemma members_depth_append [simp]: "members_depth (ps @ qs) = max (members_depth ps) (members_depth qs)"
  by (induction ps) auto

lemma depth_member:
  "members_depth (opt_member n w) = 0"
  "time_member n t = Inr ps \<Longrightarrow> members_depth ps = 0"
  by (auto simp: opt_member_def time_member_def split: if_splits)

lemma depth_event: "event_json e = Inr v \<Longrightarrow> json_depth v \<le> 1"
  by (auto simp: event_json_def bind_res_eq_Inr depth_member)

lemma depth_events: "events_member es = Inr ps \<Longrightarrow> members_depth ps \<le> 2"
proof -
  have "map_res event_json es = Inr vs \<Longrightarrow> elems_depth vs \<le> 1" for vs
    by (induction es arbitrary: vs) (use depth_event in \<open>fastforce simp: bind_res_eq_Inr\<close>)+
  then show "events_member es = Inr ps \<Longrightarrow> members_depth ps \<le> 2"
    by (fastforce simp: events_member_def bind_res_eq_Inr split: if_splits)
qed

text \<open>A job the document keeps as it is: UTF-8 strings, calendar times, raw JSON in compact form.\<close>

definition plain_raw :: "string \<Rightarrow> bool" where
  "plain_raw w \<longleftrightarrow> w = [] \<or> (case json_parse w of None \<Rightarrow> False
     | Some v \<Rightarrow> json_text (repair_json v) = w \<and> json_depth v < max_nesting)"

definition plain_event :: "event \<Rightarrow> bool" where
  "plain_event e \<longleftrightarrow> utf8_valid (ev_kind e) \<and> utf8_valid (ev_text e) \<and> time_ok (ev_at e)"

definition plain_job :: "job \<Rightarrow> bool" where
  "plain_job j \<longleftrightarrow> utf8_valid (jb_id j) \<and> utf8_valid (jb_tenant j) \<and> utf8_valid (jb_tool_type j)
     \<and> utf8_valid (jb_target_source j) \<and> utf8_valid (jb_program_id j) \<and> plain_raw (jb_config j)
     \<and> utf8_valid (jb_status j) \<and> utf8_valid (jb_error_message j) \<and> utf8_valid (jb_claimed_by j)
     \<and> list_all plain_event (jb_events j) \<and> plain_raw (jb_result j)
     \<and> time_ok (jb_created_at j) \<and> time_ok (jb_updated_at j)"

lemma plain_raw_member:
  assumes "plain_raw w"
  obtains ps where "raw_member n w = Inr ps" "raw_back w = w" "members_depth ps < max_nesting"
proof (cases "w = []")
  case True
  then show ?thesis using that [of "[]"] by (simp add: raw_member_def raw_back_def max_nesting_def)
next
  case False
  then obtain v where "json_parse w = Some v" "json_text (repair_json v) = w" "json_depth v < max_nesting"
    using assms by (auto simp: plain_raw_def split: option.splits)
  then show ?thesis using that [of "[(n, v)]"] False by (simp add: raw_member_def raw_back_def)
qed

lemma plain_events_member:
  assumes "list_all plain_event es"
  obtains ps where "events_member es = Inr ps" "map event_back es = es"
proof -
  have "\<exists>vs. map_res event_json es = Inr vs" using assms
    by (induction es) (auto simp: plain_event_def event_json_def time_member_def)
  then have "\<exists>ps. events_member es = Inr ps" by (auto simp: events_member_def)
  moreover have "map event_back es = es" using assms
    by (induction es) (simp_all add: plain_event_def event_back_def repair_valid)
  ultimately show ?thesis using that by blast
qed

lemma plain_job_written:
  assumes "plain_job j"
  obtains v where "job_json j = Inr v" "json_depth v \<le> max_nesting" "job_back j = j"
proof -
  note p = assms [unfolded plain_job_def]
  obtain config where c: "raw_member ''config'' (jb_config j) = Inr config" "raw_back (jb_config j) = jb_config j"
    "members_depth config < max_nesting" using plain_raw_member p by blast
  obtain res where r: "raw_member ''result'' (jb_result j) = Inr res" "raw_back (jb_result j) = jb_result j"
    "members_depth res < max_nesting" using plain_raw_member p by blast
  obtain events where e: "events_member (jb_events j) = Inr events" "map event_back (jb_events j) = jb_events j"
    using plain_events_member p by blast
  have t: "time_member ''created_at'' (jb_created_at j) = Inr [(''created_at'', JStr (rfc3339_nano (jb_created_at j)))]"
    "time_member ''updated_at'' (jb_updated_at j) = Inr [(''updated_at'', JStr (rfc3339_nano (jb_updated_at j)))]"
    using p by (simp_all add: time_member_def)
  have "members_depth events < max_nesting" using depth_events [OF e(1)] by (simp add: max_nesting_def)
  moreover have "job_back j = j" using p c r e by (cases j) (simp add: job_back_def repair_valid)
  moreover have "0 < max_nesting" by (simp add: max_nesting_def)
  ultimately show ?thesis
    using that c r e t by (auto simp: job_json_def depth_member)
qed

text \<open>Which jobs can be written, and how deep their documents are.\<close>

definition storable :: "job \<Rightarrow> bool" where
  "storable j \<longleftrightarrow> time_ok (jb_created_at j) \<and> time_ok (jb_updated_at j) \<and> (\<forall>e\<in>set (jb_events j). time_ok (ev_at e))
     \<and> (\<forall>w\<in>{jb_config j, jb_result j}. w = [] \<or> json_valid w)"

definition raw_depth :: "string \<Rightarrow> nat" where
  "raw_depth w = (case json_parse w of None \<Rightarrow> 0 | Some v \<Rightarrow> json_depth v)"

lemma raw_member_iff: "(\<exists>ps. raw_member n w = Inr ps) \<longleftrightarrow> w = [] \<or> json_valid w"
  by (auto simp: raw_member_def json_valid_def split: option.split)

lemma time_member_iff: "(\<exists>ps. time_member n t = Inr ps) \<longleftrightarrow> time_ok t"
  by (simp add: time_member_def)

lemma events_member_iff: "(\<exists>ps. events_member es = Inr ps) \<longleftrightarrow> (\<forall>e\<in>set es. time_ok (ev_at e))"
proof -
  have "(\<exists>v. event_json e = Inr v) \<longleftrightarrow> time_ok (ev_at e)" for e
    by (auto simp: event_json_def bind_res_eq_Inr time_member_def)
  then have "(\<exists>vs. map_res event_json es = Inr vs) \<longleftrightarrow> (\<forall>e\<in>set es. time_ok (ev_at e))"
    by (induction es) (auto simp: bind_res_eq_Inr)
  then show ?thesis by (auto simp: events_member_def bind_res_eq_Inr)
qed

lemma job_json_iff: "(\<exists>v. job_json j = Inr v) \<longleftrightarrow> storable j"
proof -
  have "(\<exists>v. job_json j = Inr v) \<longleftrightarrow> (\<exists>ps. raw_member ''config'' (jb_config j) = Inr ps)
      \<and> (\<exists>ps. events_member (jb_events j) = Inr ps) \<and> (\<exists>ps. raw_member ''result'' (jb_result j) = Inr ps)
      \<and> (\<exists>ps. time_member ''created_at'' (jb_created_at j) = Inr ps)
      \<and> (\<exists>ps. time_member ''updated_at'' (jb_updated_at j) = Inr ps)"
    unfolding job_json_def bind_res_eq_Inr by blast
  then show ?thesis unfolding raw_member_iff events_member_iff time_member_iff storable_def by auto
qed

lemma raw_member_depth: "raw_member n w = Inr ps \<Longrightarrow> members_depth ps = raw_depth w"
  by (auto simp: raw_member_def raw_depth_def json_parse_def split: if_splits option.splits)

lemma job_json_depth:
  assumes "job_json j = Inr v"
  shows "json_depth v \<le> max_nesting \<longleftrightarrow> raw_depth (jb_config j) < max_nesting \<and> raw_depth (jb_result j) < max_nesting"
proof -
  obtain config events res created updated where
    p: "raw_member ''config'' (jb_config j) = Inr config" "events_member (jb_events j) = Inr events"
      "raw_member ''result'' (jb_result j) = Inr res" "time_member ''created_at'' (jb_created_at j) = Inr created"
      "time_member ''updated_at'' (jb_updated_at j) = Inr updated"
    and v: "v = JObj ([(''id'', JStr (jb_id j))] @ opt_member ''tenant'' (jb_tenant j)
         @ [(''tool_type'', JStr (jb_tool_type j)), (''target_source'', JStr (jb_target_source j)),
            (''program_id'', JStr (jb_program_id j))]
         @ config @ [(''status'', JStr (jb_status j))] @ opt_member ''error_message'' (jb_error_message j)
         @ opt_member ''claimed_by'' (jb_claimed_by j) @ events @ res @ created @ updated)"
    using assms by (auto simp: job_json_def bind_res_eq_Inr)
  have "members_depth events < max_nesting" using depth_events [OF p(2)] by (simp add: max_nesting_def)
  then show ?thesis
    unfolding v using raw_member_depth [OF p(1)] raw_member_depth [OF p(3)] depth_member(2) [OF p(4)] depth_member(2) [OF p(5)]
    by (auto simp: depth_member(1) Suc_le_eq)
qed

text \<open>Whatever was read can be written again.\<close>

lemma zero_time_ok: "time_ok zero_time"
  by code_simp

lemma set_time_ok: "set_time v old = Some t \<Longrightarrow> time_ok old \<Longrightarrow> time_ok t"
  by (auto simp: set_time_def parse_time_def Let_def split: json.splits option.splits if_splits)

lemma read_members_keep:
  assumes "\<And>k v x y. (k, v) \<in> set ps \<Longrightarrow> f k v x = Some y \<Longrightarrow> P x \<Longrightarrow> P y"
  shows "read_members f ps x = Some y \<Longrightarrow> P x \<Longrightarrow> P y"
  using assms by (induction f ps x rule: read_members.induct) (fastforce split: option.splits)+

lemma read_event_ok:
  assumes "read_event v = Some e"
  shows "time_ok (ev_at e)"
proof -
  have "event_field k w x = Some y \<Longrightarrow> time_ok (ev_at x) \<Longrightarrow> time_ok (ev_at y)" for k w x y
    by (auto simp: event_field_def dest: set_time_ok split: if_splits)
  then have "read_members event_field ps x = Some y \<Longrightarrow> time_ok (ev_at x) \<Longrightarrow> time_ok (ev_at y)" for ps x y
    by (rule read_members_keep [where P = "\<lambda>x. time_ok (ev_at x)"])
  then show ?thesis using assms zero_time_ok
    by (force simp: read_event_def read_object_def split: json.splits)
qed

lemma read_events_ok: "those (map read_event vs) = Some es \<Longrightarrow> \<forall>e\<in>set es. time_ok (ev_at e)"
  by (induction vs arbitrary: es) (auto dest: read_event_ok split: option.splits)

lemma job_field_ok:
  assumes "job_field k v j = Some j'" "json_ok v" "json_depth v \<le> max_nesting" "storable j"
  shows "storable j'"
proof -
  have "json_valid (json_text v)" using json_parse_text [OF assms(2,3)] by (simp add: json_valid_def)
  then show ?thesis
    using assms(1,4)
    by (auto simp: job_field_def storable_def read_elems_def dest: set_time_ok read_events_ok
        split: if_splits json.splits)
qed

lemma member_facts:
  "jmembers_ok ps \<Longrightarrow> (k, v) \<in> set ps \<Longrightarrow> json_ok v" "(k, v) \<in> set ps \<Longrightarrow> json_depth v \<le> members_depth ps"
  by (induction ps) auto

lemma unmarshal_storable:
  assumes "unmarshal_job s = Some j"
  shows "storable j"
proof -
  obtain d where d: "json_parse s = Some d" "read_object job_field d zero_job = Some j"
    using assms by (auto simp: unmarshal_job_def split: option.splits)
  have zero: "storable zero_job" using zero_time_ok by (simp add: storable_def zero_job_def)
  note ok = json_parse_ok [OF d(1)]
  show ?thesis
  proof (cases d)
    case (JObj ps)
    have "storable y" if "(k, v) \<in> set ps" "job_field k v x = Some y" "storable x" for k v x y
      using that ok JObj member_facts(1) [of ps k v] member_facts(2) [of k v ps] by (intro job_field_ok [OF that(2)]) auto
    then show ?thesis
      using read_members_keep [where P = storable and f = job_field and ps = ps] d(2) zero JObj
      by (simp add: read_object_def)
  qed (use d zero in \<open>auto simp: read_object_def\<close>)
qed


definition document_job :: job where
  "document_job = \<lparr>jb_id = ''job_1'', jb_tenant = [], jb_tool_type = ''a\"b<'' @ [CHR 0x0A], jb_target_source = ''config'',
     jb_program_id = [], jb_config = ''{\"a\":[1,null]}'', jb_status = status_claimed, jb_error_message = [],
     jb_claimed_by = ''r'', jb_events = [\<lparr>ev_kind = ''log'', ev_text = [], ev_at = (20240229235959, 500000000)\<rparr>],
     jb_result = [], jb_created_at = (20240229235958, 0), jb_updated_at = (20240229235959, 1)\<rparr>"


end
