(* ===== verification/Sqlite.thy ===== *)
theory Sqlite
  imports JobDoc "HOL-Library.Product_Lexorder"
begin

text \<open>
  \<open>internal/store/sqlite.go\<close>: the durable store. The database is a parameter, given by the SQL
  statements the code executes; \<open>sql_tables\<close> states what they do to the tables, as SQL defines
  it. Over any such database the store keeps the contract of a job store.
\<close>

section \<open>The database\<close>

record job_row =
  jr_id :: string
  jr_status :: string
  jr_created :: string
  jr_data :: string

record audit_row =
  dr_at :: string
  dr_tenant :: string
  dr_action :: string
  dr_job :: string
  dr_actor :: string
  dr_detail :: string

text \<open>The statements, in the order of the code; a limit of 0 is no limit.\<close>

record 'd sql_ops =
  sql_has_job :: "string \<Rightarrow> 'd \<Rightarrow> store_error + bool"
  sql_status_data :: "string \<Rightarrow> 'd \<Rightarrow> store_error + string list"
  sql_put_runner :: "string \<Rightarrow> string \<Rightarrow> 'd \<Rightarrow> (store_error + unit) \<times> 'd"
  sql_runner_data :: "'d \<Rightarrow> store_error + string list"
  sql_add_audit :: "audit_row \<Rightarrow> 'd \<Rightarrow> (store_error + unit) \<times> 'd"
  sql_audit_desc :: "nat \<Rightarrow> 'd \<Rightarrow> store_error + audit_row list"
  sql_job_data :: "string \<Rightarrow> 'd \<Rightarrow> store_error + string option"
  sql_insert_job :: "job_row \<Rightarrow> 'd \<Rightarrow> (store_error + unit) \<times> 'd"
  sql_update_job :: "string \<Rightarrow> string \<Rightarrow> string \<Rightarrow> 'd \<Rightarrow> (store_error + unit) \<times> 'd"

section \<open>The store\<close>

text \<open>\<open>load\<close>; no row is \<open>sql.ErrNoRows\<close>, which every caller reports as \<open>ErrNotFound\<close>.\<close>

definition sq_load :: "'d sql_ops \<Rightarrow> string \<Rightarrow> 'd \<Rightarrow> store_error + job" where
  "sq_load D i d = bind_res (sql_job_data D i d) (\<lambda>row. case row of
       None \<Rightarrow> Inl JobNotFound
     | Some data \<Rightarrow> (case unmarshal_job data of None \<Rightarrow> Inl (BackendError ''json'') | Some j \<Rightarrow> Inr j))"

definition sq_insert :: "'d sql_ops \<Rightarrow> job \<Rightarrow> 'd \<Rightarrow> (store_error + unit) \<times> 'd" where
  "sq_insert D j d = (case marshal_job j of Inl e \<Rightarrow> (Inl e, d)
     | Inr data \<Rightarrow> sql_insert_job D \<lparr>jr_id = jb_id j, jr_status = jb_status j,
         jr_created = rfc3339_nano (jb_created_at j), jr_data = data\<rparr> d)"

definition sq_update :: "'d sql_ops \<Rightarrow> job \<Rightarrow> 'd \<Rightarrow> (store_error + unit) \<times> 'd" where
  "sq_update D j d = (case marshal_job j of Inl e \<Rightarrow> (Inl e, d)
     | Inr data \<Rightarrow> sql_update_job D (jb_status j) data (jb_id j) d)"

definition sq_create :: "'d sql_ops \<Rightarrow> time \<Rightarrow> string \<Rightarrow> job \<Rightarrow> 'd \<Rightarrow> (store_error + job) \<times> 'd" where
  "sq_create D t fresh j d = (let j = with_id fresh j in case sql_has_job D (jb_id j) d of
       Inl e \<Rightarrow> (Inl e, d)
     | Inr True \<Rightarrow> (Inl JobExists, d)
     | Inr False \<Rightarrow> (let j = created_job t j in case sq_insert D j d of
           (Inl e, d') \<Rightarrow> (Inl e, d')
         | (Inr _, d') \<Rightarrow> (Inr j, d')))"

definition sq_get :: "'d sql_ops \<Rightarrow> string \<Rightarrow> 'd \<Rightarrow> job option" where
  "sq_get D i d = (case sq_load D i d of Inl _ \<Rightarrow> None | Inr j \<Rightarrow> Some j)"

definition sq_pending :: "'d sql_ops \<Rightarrow> 'd \<Rightarrow> job list" where
  "sq_pending D d = (case sql_status_data D status_pending d of Inl _ \<Rightarrow> []
     | Inr docs \<Rightarrow> List.map_filter unmarshal_job docs)"

definition sq_claim :: "'d sql_ops \<Rightarrow> time \<Rightarrow> string \<Rightarrow> string \<Rightarrow> 'd \<Rightarrow> (store_error + job) \<times> 'd" where
  "sq_claim D t i runner d = (case sq_load D i d of
       Inl e \<Rightarrow> (Inl e, d)
     | Inr j \<Rightarrow>
         if jb_status j \<noteq> status_pending then (Inl AlreadyClaimed, d)
         else (let j = claimed_job t runner j in case sq_update D j d of
             (Inl e, d') \<Rightarrow> (Inl e, d')
           | (Inr _, d') \<Rightarrow> (Inr j, d')))"

definition sq_append_event :: "'d sql_ops \<Rightarrow> time \<Rightarrow> string \<Rightarrow> event \<Rightarrow> 'd \<Rightarrow> (store_error + unit) \<times> 'd" where
  "sq_append_event D t i e d = (case sq_load D i d of
       Inl err \<Rightarrow> (Inl err, d) | Inr j \<Rightarrow> sq_update D (evented_job t e j) d)"

definition sq_set_result :: "'d sql_ops \<Rightarrow> time \<Rightarrow> string \<Rightarrow> string \<Rightarrow> 'd \<Rightarrow> (store_error + unit) \<times> 'd" where
  "sq_set_result D t i res d = (case sq_load D i d of
       Inl err \<Rightarrow> (Inl err, d) | Inr j \<Rightarrow> sq_update D (resulted_job t res j) d)"

definition sq_complete :: "'d sql_ops \<Rightarrow> time \<Rightarrow> string \<Rightarrow> string \<Rightarrow> string \<Rightarrow> 'd \<Rightarrow> (store_error + unit) \<times> 'd" where
  "sq_complete D t i status err d =
     (if \<not> final_status status then (Inl InvalidStatus, d)
      else case sq_load D i d of
        Inl e \<Rightarrow> (Inl e, d) | Inr j \<Rightarrow> sq_update D (completed_job t status err j) d)"

definition sq_heartbeat :: "'d sql_ops \<Rightarrow> time \<Rightarrow> runner_info \<Rightarrow> 'd \<Rightarrow> 'd" where
  "sq_heartbeat D t r d = (let r = stamp_runner t r in case marshal_runner r of
       Inl _ \<Rightarrow> d | Inr data \<Rightarrow> snd (sql_put_runner D (ri_hostname r) data d))"

definition sq_runners :: "'d sql_ops \<Rightarrow> 'd \<Rightarrow> runner_info list" where
  "sq_runners D d = (case sql_runner_data D d of Inl _ \<Rightarrow> []
     | Inr docs \<Rightarrow> List.map_filter unmarshal_runner docs)"

definition audit_row_of :: "audit_entry \<Rightarrow> audit_row" where
  "audit_row_of e = \<lparr>dr_at = rfc3339_nano (au_at e), dr_tenant = au_tenant e, dr_action = au_action e,
     dr_job = au_job e, dr_actor = au_actor e, dr_detail = au_detail e\<rparr>"

text \<open>A time that does not parse is the zero time.\<close>

definition audit_of_row :: "audit_row \<Rightarrow> audit_entry" where
  "audit_of_row r = \<lparr>au_at = (case parse_time (dr_at r) of None \<Rightarrow> zero_time | Some t \<Rightarrow> t), au_tenant = dr_tenant r,
     au_action = dr_action r, au_job = dr_job r, au_actor = dr_actor r, au_detail = dr_detail r\<rparr>"

definition sq_audit :: "'d sql_ops \<Rightarrow> time \<Rightarrow> audit_entry \<Rightarrow> 'd \<Rightarrow> 'd" where
  "sq_audit D t e d = snd (sql_add_audit D (audit_row_of (stamp_audit t e)) d)"

definition sq_audit_log :: "'d sql_ops \<Rightarrow> int \<Rightarrow> 'd \<Rightarrow> audit_entry list" where
  "sq_audit_log D limit d = (case sql_audit_desc D (if 0 < limit then nat limit else 0) d of
       Inl _ \<Rightarrow> [] | Inr rs \<Rightarrow> rev (map audit_of_row rs))"

definition sqlite_store :: "'d sql_ops \<Rightarrow> 'd store_ops" where
  "sqlite_store D = \<lparr>st_create = sq_create D, st_get = sq_get D, st_pending = sq_pending D, st_claim = sq_claim D,
     st_append_event = sq_append_event D, st_set_result = sq_set_result D, st_complete = sq_complete D,
     st_heartbeat = sq_heartbeat D, st_runners = sq_runners D, st_audit = sq_audit D, st_audit_log = sq_audit_log D\<rparr>"

section \<open>What SQL says of the statements\<close>

definition set_row :: "string \<Rightarrow> string \<Rightarrow> string \<Rightarrow> job_row list \<Rightarrow> job_row list" where
  "set_row status data i = map (\<lambda>r. if jr_id r = i then r\<lparr>jr_status := status, jr_data := data\<rparr> else r)"

locale sql_tables =
  fixes D :: "'d sql_ops" and rows :: "'d \<Rightarrow> job_row list" and runners :: "'d \<Rightarrow> (string \<times> string) list"
    and trail :: "'d \<Rightarrow> audit_row list"
  assumes has_job: "sql_has_job D i d = Inr (i \<in> jr_id ` set (rows d))"
    and status_data: "sql_status_data D st d =
      Inr (map jr_data (sort_key (\<lambda>r. (jr_created r, jr_id r)) (filter (\<lambda>r. jr_status r = st) (rows d))))"
    and put_runner: "fst (sql_put_runner D h data d) = Inr ()" "rows (snd (sql_put_runner D h data d)) = rows d"
      "runners (snd (sql_put_runner D h data d)) = amap_put h data (runners d)"
      "trail (snd (sql_put_runner D h data d)) = trail d"
    and runner_data: "sql_runner_data D d = Inr (map snd (sort_key fst (runners d)))"
    and add_audit: "fst (sql_add_audit D a d) = Inr ()" "rows (snd (sql_add_audit D a d)) = rows d"
      "runners (snd (sql_add_audit D a d)) = runners d" "trail (snd (sql_add_audit D a d)) = trail d @ [a]"
    and audit_desc: "sql_audit_desc D n d = Inr (if n = 0 then rev (trail d) else take n (rev (trail d)))"
    and job_data: "sql_job_data D i d = Inr (map_option jr_data (List.find (\<lambda>r. jr_id r = i) (rows d)))"
    and insert_job: "jr_id r \<notin> jr_id ` set (rows d) \<Longrightarrow>
      fst (sql_insert_job D r d) = Inr () \<and> rows (snd (sql_insert_job D r d)) = rows d @ [r]
      \<and> runners (snd (sql_insert_job D r d)) = runners d \<and> trail (snd (sql_insert_job D r d)) = trail d"
    and update_job: "fst (sql_update_job D st data i d) = Inr ()"
      "rows (snd (sql_update_job D st data i d)) = set_row st data i (rows d)"
      "runners (snd (sql_update_job D st data i d)) = runners d" "trail (snd (sql_update_job D st data i d)) = trail d"

section \<open>The view of the tables\<close>

definition sound_text :: "job \<Rightarrow> bool" where
  "sound_text j \<longleftrightarrow> utf8_valid (jb_id j) \<and> utf8_valid (jb_tenant j) \<and> utf8_valid (jb_status j)"

text \<open>The columns of a row agree with the document in it, when that can be read.\<close>

definition row_ok :: "job_row \<Rightarrow> bool" where
  "row_ok r \<longleftrightarrow> (case unmarshal_job (jr_data r) of None \<Rightarrow> True | Some j \<Rightarrow>
     jb_id j = jr_id r \<and> jb_status j = jr_status r \<and> rfc3339_nano (jb_created_at j) = jr_created r \<and> sound_text j)"

definition rows_ok :: "job_row list \<Rightarrow> bool" where
  "rows_ok rs \<longleftrightarrow> distinct (map jr_id rs) \<and> list_all row_ok rs"

definition rows_jobs :: "job_row list \<Rightarrow> job list" where
  "rows_jobs rs = List.map_filter (\<lambda>r. unmarshal_job (jr_data r)) rs"

definition written_job :: "job \<Rightarrow> store_error + job option" where
  "written_job j = bind_res (marshal_job j) (\<lambda>data. Inr (unmarshal_job data))"

definition sqlite_view :: "('d \<Rightarrow> job_row list) \<Rightarrow> ('d \<Rightarrow> audit_row list) \<Rightarrow> 'd store_view" where
  "sqlite_view rows trail = \<lparr>vw_ok = \<lambda>d. rows_ok (rows d), vw_listing = \<lambda>d. rows_jobs (rows d),
     vw_used = \<lambda>d. jr_id ` set (rows d), vw_trail = \<lambda>d. map audit_of_row (trail d), vw_write = written_job,
     vw_sound = sound_text, vw_note = \<lambda>a. audit_of_row (audit_row_of a),
     vw_arrange = sort_key (\<lambda>j. (rfc3339_nano (jb_created_at j), jb_id j))\<rparr>"

lemma sqlite_view_sel [simp]:
  "vw_ok (sqlite_view rows trail) d \<longleftrightarrow> rows_ok (rows d)"
  "vw_listing (sqlite_view rows trail) d = rows_jobs (rows d)"
  "vw_used (sqlite_view rows trail) d = jr_id ` set (rows d)"
  "vw_trail (sqlite_view rows trail) d = map audit_of_row (trail d)"
  "vw_write (sqlite_view rows trail) = written_job" "vw_sound (sqlite_view rows trail) = sound_text"
  "vw_note (sqlite_view rows trail) a = audit_of_row (audit_row_of a)"
  "vw_arrange (sqlite_view rows trail) = sort_key (\<lambda>j. (rfc3339_nano (jb_created_at j), jb_id j))"
  by (simp_all add: sqlite_view_def)

section \<open>The store keeps the contract\<close>

lemma map_insort: "\<forall>y\<in>insert x (set ys). k' (h y) = k y \<Longrightarrow> map h (insort_key k x ys) = insort_key k' (h x) (map h ys)"
  by (induction ys) auto

lemma map_sort_key: "\<forall>x\<in>set xs. k' (h x) = k x \<Longrightarrow> map h (sort_key k xs) = sort_key k' (map h xs)"
  by (induction xs) (simp_all add: map_insort)

lemma map_filter_sort:
  assumes "\<forall>x\<in>set xs. \<forall>y. g x = Some y \<longrightarrow> k' y = k x"
  shows "List.map_filter g (sort_key k xs) = sort_key k' (List.map_filter g xs)"
proof -
  have "map (the \<circ> g) (sort_key k (filter (\<lambda>x. g x \<noteq> None) xs)) = sort_key k' (map (the \<circ> g) (filter (\<lambda>x. g x \<noteq> None) xs))"
    using assms by (intro map_sort_key) auto
  then show ?thesis by (simp add: map_filter_def filter_sort)
qed

lemma rows_jobs_simps [simp]:
  "rows_jobs [] = []"
  "rows_jobs (r # rs) = (case unmarshal_job (jr_data r) of None \<Rightarrow> rows_jobs rs | Some j \<Rightarrow> j # rows_jobs rs)"
  "rows_jobs (rs @ qs) = rows_jobs rs @ rows_jobs qs"
  by (simp add: rows_jobs_def map_filter_simps, simp add: rows_jobs_def map_filter_simps split: option.split,
      simp add: rows_jobs_def map_filter_def)

lemma rows_ok_simps [simp]:
  "rows_ok []" "rows_ok (r # rs) \<longleftrightarrow> jr_id r \<notin> jr_id ` set rs \<and> row_ok r \<and> rows_ok rs"
  by (auto simp: rows_ok_def)

lemma rows_ok_append: "rows_ok (rs @ [r]) \<longleftrightarrow> rows_ok rs \<and> jr_id r \<notin> jr_id ` set rs \<and> row_ok r"
  by (induction rs) auto

lemma rows_jobs_ids: "rows_ok rs \<Longrightarrow> jb_id ` set (rows_jobs rs) \<subseteq> jr_id ` set rs"
  by (induction rs) (auto simp: row_ok_def split: option.splits)

lemma rows_listed:
  "rows_ok rs \<Longrightarrow> distinct (map jb_id (rows_jobs rs)) \<and> (\<forall>j\<in>set (rows_jobs rs). sound_text j)"
proof (induction rs)
  case (Cons r rs)
  then show ?case using rows_jobs_ids [of rs] by (auto simp: row_ok_def split: option.splits)
qed simp

lemma rows_find:
  "rows_ok rs \<Longrightarrow> job_by_id (rows_jobs rs) i =
     (case List.find (\<lambda>r. jr_id r = i) rs of None \<Rightarrow> None | Some r \<Rightarrow> unmarshal_job (jr_data r))"
proof (induction rs)
  case (Cons r rs)
  have "job_by_id (rows_jobs rs) (jr_id r) = None"
    using rows_jobs_ids [of rs] Cons.prems by (auto simp: job_by_id_None)
  then show ?case using Cons by (auto simp: row_ok_def split: option.splits)
qed simp

lemma written_cases:
  assumes "written_job j = Inr r"
  obtains data where "marshal_job j = Inr data" "unmarshal_job data = r" "r = None \<or> r = Some (job_back j)"
proof -
  obtain v where v: "job_json j = Inr v" "marshal_job j = Inr (json_text v)" "r = unmarshal_job (json_text v)"
    using assms by (auto simp: written_job_def marshal_job_def bind_res_eq_Inr)
  then show ?thesis using that unmarshal_marshal [OF v(1)] by (auto split: if_splits)
qed

lemma back_sound:
  "sound_text j \<Longrightarrow> jb_id (job_back j) = jb_id j \<and> jb_tenant (job_back j) = jb_tenant j \<and> jb_status (job_back j) = jb_status j
     \<and> jb_created_at (job_back j) = jb_created_at j \<and> sound_text (job_back j)"
  by (simp add: sound_text_def job_back_def repair_valid)

lemma set_row_ids [simp]: "jr_id ` set (set_row st data i rs) = jr_id ` set rs"
  by (induction rs) (auto simp: set_row_def)

lemma set_row_other: "i \<notin> jr_id ` set rs \<Longrightarrow> set_row st data i rs = rs"
  by (induction rs) (auto simp: set_row_def)

lemma set_row_rows:
  assumes "\<And>k. unmarshal_job data = Some k \<Longrightarrow> jb_id k = i \<and> jb_status k = st \<and> sound_text k
      \<and> jb_created_at k = jb_created_at j"
    and "rows_ok rs" "job_by_id (rows_jobs rs) i = Some j"
  shows "rows_jobs (set_row st data i rs) = replace_job i (unmarshal_job data) (rows_jobs rs) \<and> rows_ok (set_row st data i rs)"
  using assms
proof (induction rs)
  case (Cons r rs)
  have sub: "jb_id ` set (rows_jobs rs) \<subseteq> jr_id ` set rs" using rows_jobs_ids Cons.prems(2) by simp
  show ?case
  proof (cases "jr_id r = i")
    case True
    then have i: "i \<notin> jr_id ` set rs" "i \<notin> jb_id ` set (rows_jobs rs)" using Cons.prems(2) sub by auto
    have rest: "set_row st data i (r # rs) = r\<lparr>jr_status := st, jr_data := data\<rparr> # rs"
      using True set_row_other [OF i(1)] by (simp add: set_row_def)
    have "job_by_id (rows_jobs rs) i = None" using i(2) by (simp only: job_by_id_None not_False_eq_True)
    then obtain j' where j': "unmarshal_job (jr_data r) = Some j'" "jb_id j' = i"
      using Cons.prems(2,3) True by (cases "unmarshal_job (jr_data r)") (simp_all add: row_ok_def)
    have rest_jobs: "replace_job i (unmarshal_job data) (rows_jobs rs) = rows_jobs rs" using i(2) by (rule replace_job_other)
    have "j' = j" using j' Cons.prems(3) by simp
    then have "rfc3339_nano (jb_created_at j) = jr_created r" using Cons.prems(2) j' by (simp add: row_ok_def)
    then have new: "jb_id k = jr_id r \<and> jb_status k = st \<and> rfc3339_nano (jb_created_at k) = jr_created r \<and> sound_text k"
      if "unmarshal_job data = Some k" for k
      using Cons.prems(1) [OF that] True by metis
    have "row_ok (r\<lparr>jr_status := st, jr_data := data\<rparr>)"
    proof (cases "unmarshal_job data")
      case (Some k)
      from new [OF this] Some show ?thesis by (simp add: row_ok_def)
    qed (simp add: row_ok_def)
    then have "rows_ok (r\<lparr>jr_status := st, jr_data := data\<rparr> # rs)" using Cons.prems(2) by simp
    then show ?thesis unfolding rest using j' rest_jobs by (cases "unmarshal_job data") simp_all
  next
    case False
    have row: "row_ok r" "rows_ok rs" using Cons.prems(2) by simp_all
    have same: "job_by_id (rows_jobs (r # rs)) i = job_by_id (rows_jobs rs) i"
      using False row(1) by (auto simp: row_ok_def split: option.splits)
    have IH: "rows_jobs (set_row st data i rs) = replace_job i (unmarshal_job data) (rows_jobs rs) \<and> rows_ok (set_row st data i rs)"
      using Cons.prems(1) row(2) trans [OF same [symmetric] Cons.prems(3)] by (rule Cons.IH)
    have "set_row st data i (r # rs) = r # set_row st data i rs" using False by (simp add: set_row_def)
    moreover have "unmarshal_job (jr_data r) = Some j' \<Longrightarrow> jb_id j' \<noteq> i" for j'
      using row(1) False by (auto simp: row_ok_def)
    ultimately show ?thesis using IH Cons.prems(2) by (auto split: option.splits)
  qed
qed simp

context sql_tables
begin

lemma load_eq:
  "sq_load D i d = (case List.find (\<lambda>r. jr_id r = i) (rows d) of None \<Rightarrow> Inl JobNotFound
     | Some r \<Rightarrow> (case unmarshal_job (jr_data r) of None \<Rightarrow> Inl (BackendError ''json'') | Some j \<Rightarrow> Inr j))"
  by (auto simp: sq_load_def job_data split: option.split)

lemma load_job:
  assumes "rows_ok (rows d)"
  shows "sq_load D i d = Inr j \<longleftrightarrow> job_by_id (rows_jobs (rows d)) i = Some j"
    and "sq_load D i d = Inl e \<Longrightarrow> job_by_id (rows_jobs (rows d)) i = None"
    and "i \<notin> jr_id ` set (rows d) \<Longrightarrow> sq_load D i d = Inl JobNotFound"
proof -
  show "sq_load D i d = Inr j \<longleftrightarrow> job_by_id (rows_jobs (rows d)) i = Some j"
    and "sq_load D i d = Inl e \<Longrightarrow> job_by_id (rows_jobs (rows d)) i = None"
    using rows_find [OF assms, of i] by (auto simp: load_eq split: option.splits)
  assume "i \<notin> jr_id ` set (rows d)"
  then have "List.find (\<lambda>r. jr_id r = i) (rows d) = None" by (auto simp: find_None_iff)
  then show "sq_load D i d = Inl JobNotFound" by (simp add: load_eq)
qed

abbreviation view :: "'d store_view" where
  "view \<equiv> sqlite_view rows trail"

lemma stays: "rows_ok (rows d) \<Longrightarrow> moves view d d (rows_jobs (rows d))"
  by (simp add: moves_def)

text \<open>Every operation that loads a job, changes it and writes it back updates the view.\<close>

lemma update_view:
  assumes ok: "rows_ok (rows d)"
    and f: "\<And>j. jb_id (f j) = jb_id j \<and> jb_tenant (f j) = jb_tenant j \<and> jb_created_at (f j) = jb_created_at j"
    and st: "\<And>j. utf8_valid (jb_status j) \<Longrightarrow> utf8_valid (jb_status (f j))"
    and res: "res = (case sq_load D i d of Inl e \<Rightarrow> (Inl e, d)
      | Inr j \<Rightarrow> (case sq_update D (f j) d of (Inl e, d') \<Rightarrow> (Inl e, d') | (Inr _, d') \<Rightarrow> (Inr (out (f j)), d')))"
  shows "updates view d res i f out"
proof (cases "job_by_id (rows_jobs (rows d)) i")
  case None
  then obtain e where e: "sq_load D i d = Inl e" using load_job(1) [OF ok] by (cases "sq_load D i d") auto
  then have "i \<notin> jr_id ` set (rows d) \<longrightarrow> e = JobNotFound" using load_job(3) [OF ok] by force
  then show ?thesis using None e res stays [OF ok] by (simp add: updates_def)
next
  case (Some j)
  then have l: "sq_load D i d = Inr j" using load_job(1) [OF ok] by blast
  have j: "j \<in> set (rows_jobs (rows d))" "jb_id j = i" using job_by_id_Some [OF Some] by auto
  have sound: "sound_text (f j)" using rows_listed [OF ok] j(1) f st by (auto simp: sound_text_def)
  show ?thesis
  proof (cases "written_job (f j)")
    case (Inl e)
    then have "marshal_job (f j) = Inl e" by (cases "marshal_job (f j)") (simp_all add: written_job_def)
    then show ?thesis using Some Inl l res stays [OF ok] by (simp add: updates_def sq_update_def)
  next
    case (Inr r)
    from written_cases [OF this] obtain data where
      data: "marshal_job (f j) = Inr data" "unmarshal_job data = r" "r = None \<or> r = Some (job_back (f j))" .
    let ?d = "snd (sql_update_job D (jb_status (f j)) data (jb_id (f j)) d)"
    have "res = (Inr (out (f j)), ?d)"
      using l res data(1) update_job(1) [of "jb_status (f j)" data "jb_id (f j)" d]
      by (cases "sql_update_job D (jb_status (f j)) data (jb_id (f j)) d") (simp add: sq_update_def)
    moreover have "moves view d ?d (replace_job i r (rows_jobs (rows d)))"
      using set_row_rows [where data = data and i = i and st = "jb_status (f j)" and rs = "rows d", OF _ ok Some]
        data(2,3) back_sound [OF sound] f [of j] j(2) Some
      by (auto simp: moves_def update_job)
    ultimately show ?thesis using Some Inr by (simp add: updates_def)
  qed
qed

end

lemma map_filter_map: "List.map_filter f (map g xs) = List.map_filter (\<lambda>x. f (g x)) xs"
  by (simp add: map_filter_def filter_map comp_def)

lemma claimed_arranged: "rows_ok rs \<Longrightarrow>
    List.map_filter (\<lambda>r. unmarshal_job (jr_data r)) (filter (\<lambda>r. jr_status r = st) rs)
      = filter (\<lambda>j. jb_status j = st) (rows_jobs rs)"
  by (induction rs) (auto simp: rows_jobs_def [symmetric] row_ok_def map_filter_simps split: option.splits)

sublocale sql_tables \<subseteq> store: job_store "sqlite_store D" "sqlite_view rows trail"
proof (unfold_locales, goal_cases)
  case (1 d) then show ?case using rows_listed rows_jobs_ids by simp
next
  case (2 j k)
  then have "written_job j = Inr (Some k)" "sound_text j" by simp_all
  then show ?case using back_sound [of j] by (auto elim: written_cases)
next
  case (3 j k) then show ?case by (auto simp: sound_text_def status_defs ascii_valid byte_of_def)
next
  case (4 P js) then show ?case by (simp add: filter_sort)
next
  case (5 js) then show ?case by simp
next
  case (6 d i)
  then have ok: "rows_ok (rows d)" by simp
  show ?case
  proof (cases "sq_load D i d")
    case (Inl e)
    then show ?thesis using load_job(2) [OF ok Inl] by (simp add: sqlite_store_def sq_get_def)
  next
    case (Inr j)
    then have "job_by_id (rows_jobs (rows d)) i = Some j" using load_job(1) [OF ok] by blast
    then show ?thesis using Inr by (simp add: sqlite_store_def sq_get_def)
  qed
next
  case (7 d)
  then have ok: "rows_ok (rows d)" by simp
  let ?rs = "filter (\<lambda>r. jr_status r = status_pending) (rows d)"
  have "\<forall>r\<in>set ?rs. \<forall>j. unmarshal_job (jr_data r) = Some j \<longrightarrow>
      (rfc3339_nano (jb_created_at j), jb_id j) = (jr_created r, jr_id r)"
    using ok by (auto simp: rows_ok_def list_all_iff row_ok_def)
  from map_filter_sort [OF this] show ?case
    using ok by (simp add: sqlite_store_def sq_pending_def status_data claimed_arranged map_filter_map)
next
  case (8 d t fresh j)
  let ?j = "created_job t (with_id fresh j)"
  have ok: "rows_ok (rows d)" and sound: "sound_text ?j" using 8 by simp_all
  have id: "jb_id (with_id fresh j) = jb_id ?j" by (simp add: created_job_def)
  show ?case
  proof (cases "jb_id ?j \<in> jr_id ` set (rows d)")
    case True
    then show ?thesis using stays [OF ok] by (simp add: creates_def sqlite_store_def sq_create_def has_job id Let_def)
  next
    case new: False
    show ?thesis
    proof (cases "written_job ?j")
      case (Inl e)
      then have "marshal_job ?j = Inl e" by (cases "marshal_job ?j") (simp_all add: written_job_def)
      then show ?thesis using Inl new stays [OF ok]
        by (simp add: creates_def sqlite_store_def sq_create_def has_job id Let_def sq_insert_def)
    next
      case (Inr r)
      from written_cases [OF this] obtain data where
        data: "marshal_job ?j = Inr data" "unmarshal_job data = r" "r = None \<or> r = Some (job_back ?j)" .
      let ?row = "\<lparr>jr_id = jb_id ?j, jr_status = jb_status ?j, jr_created = rfc3339_nano (jb_created_at ?j), jr_data = data\<rparr>"
      have "row_ok ?row" using data(2,3) back_sound [OF sound] by (auto simp: row_ok_def)
      then have "rows_ok (rows d @ [?row])" using ok new by (simp add: rows_ok_append)
      moreover have "sq_create D t fresh j d = (Inr ?j, snd (sql_insert_job D ?row d))"
        using new data(1) insert_job [of ?row d] by (cases "sql_insert_job D ?row d")
          (simp add: sq_create_def has_job id Let_def sq_insert_def)
      ultimately show ?thesis using new Inr insert_job [of ?row d] data(2)
        by (simp add: creates_def sqlite_store_def split: option.split)
    qed
  qed
next
  case (9 d t i runner)
  then have ok: "rows_ok (rows d)" by simp
  have upd: "updates view d (case sq_load D i d of Inl e \<Rightarrow> (Inl e, d)
      | Inr j \<Rightarrow> (case sq_update D (claimed_job t runner j) d of (Inl e, d') \<Rightarrow> (Inl e, d')
          | (Inr _, d') \<Rightarrow> (Inr (id (claimed_job t runner j)), d'))) i (claimed_job t runner) id"
    by (rule update_view [OF ok _ _ refl]) (simp_all add: claimed_job_def status_claimed_def ascii_valid byte_of_def)
  show ?case
  proof (cases "job_by_id (rows_jobs (rows d)) i")
    case None
    then obtain e where "sq_load D i d = Inl e" using load_job(1) [OF ok] by (cases "sq_load D i d") auto
    then show ?thesis using upd None by (simp add: sqlite_store_def sq_claim_def)
  next
    case (Some j)
    then have "sq_load D i d = Inr j" using load_job(1) [OF ok] by blast
    then show ?thesis using upd [unfolded id_def] Some by (simp add: sqlite_store_def sq_claim_def Let_def id_def)
  qed
next
  case (10 d t i e)
  show ?case unfolding sqlite_store_def sq_append_event_def store_ops.simps
    by (rule update_view [where f = "evented_job t e"])
      (use 10 in \<open>auto simp: evented_job_def status_running_def ascii_valid byte_of_def split: sum.split prod.split\<close>)
next
  case (11 d t i res)
  show ?case unfolding sqlite_store_def sq_set_result_def store_ops.simps
    by (rule update_view [where f = "resulted_job t res"])
      (use 11 in \<open>auto simp: resulted_job_def split: sum.split prod.split\<close>)
next
  case (12 d status t i err)
  show ?case
  proof (cases "final_status status")
    case True
    then have v: "utf8_valid status" by (auto simp: final_status_def status_defs intro!: ascii_valid simp: byte_of_def)
    show ?thesis unfolding sqlite_store_def sq_complete_def store_ops.simps if_P [OF True]
      using True by simp
        (rule update_view [where f = "completed_job t status err"],
         use 12 v in \<open>auto simp: completed_job_def split: sum.split prod.split\<close>)
  qed (simp add: sqlite_store_def sq_complete_def)
next
  case (13 d t r) then show ?case
    by (auto simp: sqlite_store_def sq_heartbeat_def Let_def moves_def put_runner split: sum.split)
next
  case (14 d t a) then show ?case by (simp add: sqlite_store_def sq_audit_def add_audit)
next
  case (15 a) then show ?case by (simp add: audit_of_row_def audit_row_of_def)
next
  case (16 d n) then show ?case
    by (auto simp: sqlite_store_def sq_audit_log_def audit_desc tail_entries_def Let_def rev_map take_rev drop_map)
qed

section \<open>Tables as lists\<close>

text \<open>The tables with the statements as SQL defines them, in the order of insertion.\<close>

record tables =
  tb_jobs :: "job_row list"
  tb_runners :: "(string \<times> string) list"
  tb_audit :: "audit_row list"

definition empty_tables :: tables where
  "empty_tables = \<lparr>tb_jobs = [], tb_runners = [], tb_audit = []\<rparr>"

definition table_ops :: "tables sql_ops" where
  "table_ops = \<lparr>sql_has_job = \<lambda>i d. Inr (i \<in> jr_id ` set (tb_jobs d)),
     sql_status_data = \<lambda>st d. Inr (map jr_data (sort_key (\<lambda>r. (jr_created r, jr_id r)) (filter (\<lambda>r. jr_status r = st) (tb_jobs d)))),
     sql_put_runner = \<lambda>h data d. (Inr (), d\<lparr>tb_runners := amap_put h data (tb_runners d)\<rparr>),
     sql_runner_data = \<lambda>d. Inr (map snd (sort_key fst (tb_runners d))),
     sql_add_audit = \<lambda>a d. (Inr (), d\<lparr>tb_audit := tb_audit d @ [a]\<rparr>),
     sql_audit_desc = \<lambda>n d. Inr (if n = 0 then rev (tb_audit d) else take n (rev (tb_audit d))),
     sql_job_data = \<lambda>i d. Inr (map_option jr_data (List.find (\<lambda>r. jr_id r = i) (tb_jobs d))),
     sql_insert_job = \<lambda>r d. if jr_id r \<in> jr_id ` set (tb_jobs d)
       then (Inl (BackendError ''UNIQUE constraint failed: jobs.id''), d)
       else (Inr (), d\<lparr>tb_jobs := tb_jobs d @ [r]\<rparr>),
     sql_update_job = \<lambda>st data i d. (Inr (), d\<lparr>tb_jobs := set_row st data i (tb_jobs d)\<rparr>)\<rparr>"

interpretation tables: sql_tables table_ops tb_jobs tb_runners tb_audit
  by unfold_locales (simp_all add: table_ops_def)

section \<open>Two stores that keep the contract\<close>

text \<open>One call of a store, and its answer.\<close>

datatype store_call = CCreate time string job | CGet string | CPending | CClaim time string string
  | CEvent time string event | CResult time string string | CComplete time string string string
  | CHeartbeat time runner_info | CAudit time audit_entry | CLog int

datatype store_answer = AJob "store_error + job" | AFound "job option" | AJobs "job list"
  | ADone "store_error + unit" | ANone | ALog "audit_entry list"

fun do_call :: "'s store_ops \<Rightarrow> store_call \<Rightarrow> 's \<Rightarrow> store_answer \<times> 's" where
  "do_call S (CCreate t fresh j) s = map_prod AJob id (st_create S t fresh j s)"
| "do_call S (CGet i) s = (AFound (st_get S i s), s)"
| "do_call S CPending s = (AJobs (st_pending S s), s)"
| "do_call S (CClaim t i r) s = map_prod AJob id (st_claim S t i r s)"
| "do_call S (CEvent t i e) s = map_prod ADone id (st_append_event S t i e s)"
| "do_call S (CResult t i res) s = map_prod ADone id (st_set_result S t i res s)"
| "do_call S (CComplete t i st err) s = map_prod ADone id (st_complete S t i st err s)"
| "do_call S (CHeartbeat t r) s = (ANone, st_heartbeat S t r s)"
| "do_call S (CAudit t e) s = (ANone, st_audit S t e s)"
| "do_call S (CLog n) s = (ALog (st_audit_log S n s), s)"

fun do_calls :: "'s store_ops \<Rightarrow> store_call list \<Rightarrow> 's \<Rightarrow> store_answer list \<times> 's" where
  "do_calls S [] s = ([], s)"
| "do_calls S (c # cs) s = (let (a, s') = do_call S c s; (as, s'') = do_calls S cs s' in (a # as, s''))"

text \<open>The same answer, but for the order in which pending jobs are listed.\<close>

fun same_answer :: "store_answer \<Rightarrow> store_answer \<Rightarrow> bool" where
  "same_answer (AJobs js) a = (case a of AJobs ks \<Rightarrow> mset js = mset ks | _ \<Rightarrow> False)"
| "same_answer a b \<longleftrightarrow> a = b"

text \<open>Calls whose data a document keeps as it is.\<close>

fun plain_call :: "store_call \<Rightarrow> bool" where
  "plain_call (CCreate t fresh j) \<longleftrightarrow> plain_job (created_job t (with_id fresh j))"
| "plain_call (CClaim t i r) \<longleftrightarrow> time_ok t \<and> utf8_valid r"
| "plain_call (CEvent t i e) \<longleftrightarrow> time_ok t \<and> plain_event (stamp_event t e)"
| "plain_call (CResult t i res) \<longleftrightarrow> time_ok t \<and> plain_raw res"
| "plain_call (CComplete t i st err) \<longleftrightarrow> time_ok t \<and> utf8_valid err"
| "plain_call (CAudit t e) \<longleftrightarrow> time_ok (au_at (stamp_audit t e))"
| "plain_call _ \<longleftrightarrow> True"

lemma plain_ops:
  "plain_job j \<Longrightarrow> time_ok t \<Longrightarrow> utf8_valid r \<Longrightarrow> plain_job (claimed_job t r j)"
  "plain_job j \<Longrightarrow> time_ok t \<Longrightarrow> plain_event (stamp_event t e) \<Longrightarrow> plain_job (evented_job t e j)"
  "plain_job j \<Longrightarrow> time_ok t \<Longrightarrow> plain_raw res \<Longrightarrow> plain_job (resulted_job t res j)"
  "plain_job j \<Longrightarrow> time_ok t \<Longrightarrow> final_status st \<Longrightarrow> utf8_valid err \<Longrightarrow> plain_job (completed_job t st err j)"
  by (auto simp: plain_job_def claimed_job_def evented_job_def resulted_job_def completed_job_def final_status_def
    status_defs ascii_valid byte_of_def)

lemma op_ids:
  "jb_id (claimed_job t r j) = jb_id j" "jb_id (evented_job t e j) = jb_id j" "jb_id (resulted_job t res j) = jb_id j"
  "jb_id (completed_job t st err j) = jb_id j"
  by (simp_all add: claimed_job_def evented_job_def resulted_job_def completed_job_def)

lemma plain_written: "plain_job j \<Longrightarrow> written_job j = Inr (Some j)"
  by (erule plain_job_written) (simp add: written_job_def marshal_job_def unmarshal_marshal)

lemma plain_audit: "time_ok (au_at e) \<Longrightarrow> audit_of_row (audit_row_of e) = e"
  by (cases e) (simp add: audit_of_row_def audit_row_of_def parse_rfc3339)

text \<open>
  Two states with the same view, all of whose jobs are kept as they are by both stores, stay
  so under a call, and give the same answer.
\<close>

definition same_view :: "'a store_view \<Rightarrow> 'b store_view \<Rightarrow> 'a \<Rightarrow> 'b \<Rightarrow> bool" where
  "same_view V W s u \<longleftrightarrow> vw_ok V s \<and> vw_ok W u \<and> vw_listing V s = vw_listing W u \<and> vw_used V s = vw_used W u
     \<and> vw_used W u = jb_id ` set (vw_listing W u) \<and> vw_trail V s = vw_trail W u \<and> list_all plain_job (vw_listing W u)"

definition keeps_plain :: "'a store_view \<Rightarrow> bool" where
  "keeps_plain V \<longleftrightarrow> (\<forall>j. plain_job j \<longrightarrow> vw_write V j = Inr (Some j) \<and> vw_sound V j)
     \<and> (\<forall>e. time_ok (au_at e) \<longrightarrow> vw_note V e = e)"

lemma replace_plain:
  "list_all plain_job js \<Longrightarrow> plain_job k \<Longrightarrow> list_all plain_job (replace_job i (Some k) js)"
  by (induction js) auto

lemma replace_ids:
  "jb_id k = i \<Longrightarrow> jb_id ` set (replace_job i (Some k) js) = jb_id ` set js"
  by (induction js) auto

lemma same_moves:
  "same_view V W s u \<Longrightarrow> moves V s s' (vw_listing V s) \<Longrightarrow> moves W u u' (vw_listing W u) \<Longrightarrow> same_view V W s' u'"
  by (simp add: same_view_def moves_def)

lemma same_updates:
  assumes v: "same_view V W s u" and keep: "keeps_plain V" "keeps_plain W"
    and upd: "updates V s r i f out" "updates W u q i f out"
    and f: "\<And>j. plain_job j \<Longrightarrow> job_by_id (vw_listing V s) i = Some j \<Longrightarrow> plain_job (f j) \<and> jb_id (f j) = jb_id j"
  shows "fst r = fst q \<and> same_view V W (snd r) (snd q)"
proof (cases "job_by_id (vw_listing V s) i")
  case None
  moreover have "i \<notin> vw_used V s" "i \<notin> vw_used W u" using None v by (auto simp: job_by_id_None same_view_def)
  moreover have "vw_listing V s = vw_listing W u" using v by (simp add: same_view_def)
  ultimately show ?thesis using upd same_moves [OF v] by (simp add: updates_def)
next
  case (Some j)
  then have p: "plain_job (f j)" "jb_id (f j) = i"
    using f job_by_id_Some [OF Some] v by (auto simp: same_view_def list_all_iff)
  then have "vw_write V (f j) = Inr (Some (f j))" "vw_write W (f j) = Inr (Some (f j))"
    using keep by (simp_all add: keeps_plain_def)
  then show ?thesis
    using upd Some v p replace_plain [of "vw_listing W u" "f j" i] replace_ids [of "f j" i "vw_listing W u"]
    by (simp add: updates_def same_view_def moves_def)
qed

lemma same_call:
  assumes S: "job_store S V" "keeps_plain V" and T: "job_store T W" "keeps_plain W"
    and v: "same_view V W s u" and c: "plain_call c"
  shows "same_answer (fst (do_call S c s)) (fst (do_call T c u)) \<and> same_view V W (snd (do_call S c s)) (snd (do_call T c u))"
proof -
  have ok: "vw_ok V s" "vw_ok W u" and l: "vw_listing V s = vw_listing W u" "vw_trail V s = vw_trail W u"
    using v by (simp_all add: same_view_def)
  note upd = same_updates [OF v S(2) T(2)]
  show ?thesis
  proof (cases c)
    case (CCreate t fresh j)
    let ?j = "created_job t (with_id fresh j)"
    have "vw_write V ?j = Inr (Some ?j)" "vw_write W ?j = Inr (Some ?j)" "vw_sound V ?j" "vw_sound W ?j"
      using c CCreate S(2) T(2) by (simp_all add: keeps_plain_def)
    then show ?thesis
      using job_store.create_law [OF S(1) ok(1), where t = t and fresh = fresh and j = j]
        job_store.create_law [OF T(1) ok(2), where t = t and fresh = fresh and j = j] v c CCreate
      by (auto simp: creates_def same_view_def moves_def split: if_splits)
  next
    case (CGet i)
    then show ?thesis using v l job_store.get_law [OF S(1) ok(1)] job_store.get_law [OF T(1) ok(2)] by simp
  next
    case CPending
    then show ?thesis
      using v l job_store.pending_law [OF S(1) ok(1)] job_store.pending_law [OF T(1) ok(2)]
        job_store.arranged(2) [OF S(1)] job_store.arranged(2) [OF T(1)] by simp
  next
    case (CClaim t i r)
    let ?r = "st_claim S t i r s" and ?q = "st_claim T t i r u"
    note law = job_store.claim_law [OF S(1) ok(1), where i = i and t = t and runner = r]
      job_store.claim_law [OF T(1) ok(2), where i = i and t = t and runner = r]
    have "fst ?r = fst ?q \<and> same_view V W (snd ?r) (snd ?q)"
    proof (cases "\<exists>j. job_by_id (vw_listing W u) i = Some j \<and> jb_status j \<noteq> status_pending")
      case True
      then show ?thesis using law l v by auto
    next
      case False
      then have "updates V s ?r i (claimed_job t r) id" "updates W u ?q i (claimed_job t r) id"
        using law l by (auto split: option.splits)
      from upd [OF this] show ?thesis using c CClaim by (simp add: plain_ops(1) op_ids)
    qed
    then show ?thesis using CClaim by (cases ?r; cases ?q) simp
  next
    case (CEvent t i e)
    let ?r = "st_append_event S t i e s" and ?q = "st_append_event T t i e u"
    have "fst ?r = fst ?q \<and> same_view V W (snd ?r) (snd ?q)"
      using upd [OF job_store.event_law [OF S(1) ok(1)] job_store.event_law [OF T(1) ok(2)]] c CEvent
      by (simp add: plain_ops(2) op_ids)
    then show ?thesis using CEvent by (cases ?r; cases ?q) simp
  next
    case (CResult t i res)
    let ?r = "st_set_result S t i res s" and ?q = "st_set_result T t i res u"
    have "fst ?r = fst ?q \<and> same_view V W (snd ?r) (snd ?q)"
      using upd [OF job_store.result_law [OF S(1) ok(1)] job_store.result_law [OF T(1) ok(2)]] c CResult
      by (simp add: plain_ops(3) op_ids)
    then show ?thesis using CResult by (cases ?r; cases ?q) simp
  next
    case (CComplete t i st err)
    let ?r = "st_complete S t i st err s" and ?q = "st_complete T t i st err u"
    note law = job_store.complete_law [OF S(1) ok(1), where status = st and t = t and i = i and err = err]
      job_store.complete_law [OF T(1) ok(2), where status = st and t = t and i = i and err = err]
    have "fst ?r = fst ?q \<and> same_view V W (snd ?r) (snd ?q)"
    proof (cases "final_status st")
      case True
      then have "updates V s ?r i (completed_job t st err) (\<lambda>_. ())" "updates W u ?q i (completed_job t st err) (\<lambda>_. ())"
        using law by simp_all
      from upd [OF this] show ?thesis using c CComplete True by (simp add: plain_ops(4) op_ids)
    qed (use law v in simp)
    then show ?thesis using CComplete by (cases ?r; cases ?q) simp
  next
    case (CHeartbeat t r)
    then show ?thesis
      using same_moves [OF v job_store.heartbeat_law [OF S(1) ok(1)] job_store.heartbeat_law [OF T(1) ok(2)]] by simp
  next
    case (CAudit t a)
    then have "vw_note V (stamp_audit t a) = stamp_audit t a" "vw_note W (stamp_audit t a) = stamp_audit t a"
      using c S(2) T(2) by (simp_all add: keeps_plain_def)
    then show ?thesis
      using v CAudit job_store.audit_law [OF S(1) ok(1), where t = t and a = a]
        job_store.audit_law [OF T(1) ok(2), where t = t and a = a]
      by (simp add: same_view_def)
  next
    case (CLog n)
    then show ?thesis using v l job_store.audit_log_law [OF S(1) ok(1)] job_store.audit_log_law [OF T(1) ok(2)] by simp
  qed
qed

lemma same_calls:
  assumes "job_store S V" "keeps_plain V" "job_store T W" "keeps_plain W"
  shows "same_view V W s u \<Longrightarrow> list_all plain_call cs \<Longrightarrow>
    list_all2 same_answer (fst (do_calls S cs s)) (fst (do_calls T cs u))"
proof (induction cs arbitrary: s u)
  case (Cons c cs)
  then have "same_answer (fst (do_call S c s)) (fst (do_call T c u))"
    "same_view V W (snd (do_call S c s)) (snd (do_call T c u))"
    using same_call [OF assms, of s u c] by simp_all
  then show ?case using Cons.IH [of "snd (do_call S c s)" "snd (do_call T c u)"] Cons.prems(2) by (simp add: split_def Let_def)
qed simp

context sql_tables
begin

lemma keeps_contract: "job_store (sqlite_store D) (sqlite_view rows trail)"
  by (rule store.job_store_axioms)

end

lemma memory_plain: "keeps_plain memory_view"
  by (simp add: keeps_plain_def memory_view_def)

lemma sqlite_plain: "keeps_plain (sqlite_view rows trail)"
  by (simp add: keeps_plain_def plain_written plain_audit) (simp add: plain_job_def sound_text_def)


definition demo_calls :: "store_call list" where
  "demo_calls = [CCreate (20240101000000, 0) ''j1'' zero_job, CGet ''j1'', CClaim (20240101000001, 5) ''j1'' ''r'',
     CClaim (20240101000001, 6) ''j1'' ''q'', CEvent (20240101000002, 0) ''j1'' \<lparr>ev_kind = ''running'', ev_text = [], ev_at = zero_time\<rparr>,
     CResult (20240101000003, 0) ''j1'' ''{\"ok\":true}'', CComplete (20240101000004, 0) ''j1'' ''done'' [],
     CAudit (20240101000004, 1) \<lparr>au_at = zero_time, au_tenant = [], au_action = ''a'', au_job = ''j1'', au_actor = [],
       au_detail = []\<rparr>, CPending, CLog 0]"


section \<open>Where the documents fall short\<close>

text \<open>
  The SQLite store lists pending jobs by the text of their creation time, from which trailing
  zeros are dropped: a job created half a second after another can be listed, and handed out,
  before it. The in-memory store lists them in the order of creation.
\<close>

definition late_calls :: "store_call list" where
  "late_calls = [CCreate (20240101000000, 0) ''j1'' zero_job, CCreate (20240101000000, 500000000) ''j2'' zero_job]"

theorem pending_order_is_textual:
  "map jb_id (sq_pending table_ops (snd (do_calls (sqlite_store table_ops) late_calls empty_tables))) = [''j2'', ''j1'']
   \<and> map jb_id (mem_pending (snd (do_calls memory_store late_calls new_memory))) = [''j1'', ''j2'']"
  by (rule conjI) code_simp+

lemma deep_job:
  assumes "storable j" "json_parse res = Some v" "max_nesting \<le> json_depth v" "time_ok t"
  shows "written_job (resulted_job t res j) = Inr None"
proof -
  let ?j = "resulted_job t res j"
  have "storable ?j" using assms(1,2,4) by (simp add: storable_def resulted_job_def json_valid_def)
  then obtain w where w: "job_json ?j = Inr w" using job_json_iff by blast
  have "\<not> raw_depth (jb_result ?j) < max_nesting" using assms(2,3) by (simp add: raw_depth_def resulted_job_def)
  then have "unmarshal_job (json_text w) = None"
    using unmarshal_marshal [OF w] job_json_depth [OF w] by simp
  then show ?thesis by (simp add: written_job_def marshal_job_def w)
qed

text \<open>A job that is stored but cannot be read stays so, whatever the store is asked to do.\<close>

context job_store
begin

lemma unreadable_for_good:
  assumes "queue_run S (vw_sound V) s ls s'" "vw_ok V s" "i \<in> vw_used V s" "job_by_id (vw_listing V s) i = None"
  shows "vw_ok V s'" and "i \<in> vw_used V s'" and "job_by_id (vw_listing V s') i = None"
proof -
  have "ahead s s'" using lifecycle [OF assms(1,2)] by blast
  then show "vw_ok V s'" "i \<in> vw_used V s'" "job_by_id (vw_listing V s') i = None"
    using assms(3,4) by (auto simp: ahead_def grown_def)
qed

lemma unreadable_answers:
  assumes "vw_ok V s" "i \<in> vw_used V s" "job_by_id (vw_listing V s) i = None"
  shows "st_get S i s = None" and "i \<notin> jb_id ` set (st_pending S s)" and "isl (fst (st_claim S t i runner s))"
    and "isl (fst (st_append_event S t i e s))" and "isl (fst (st_set_result S t i res s))"
    and "isl (fst (st_complete S t i status err s))"
proof -
  show "st_get S i s = None" using get_law [OF assms(1)] assms(3) by simp
  show "i \<notin> jb_id ` set (st_pending S s)"
    using pending_law [OF assms(1)] assms(3) unfolding job_by_id_None by (auto simp: arranged_set)
  show "isl (fst (st_claim S t i runner s))"
    using claim_law [OF assms(1), where i = i and t = t and runner = runner] assms(3) by (simp add: updates_def)
  show "isl (fst (st_append_event S t i e s))"
    using event_law [OF assms(1), where i = i and t = t and e = e] assms(3) by (simp add: updates_def)
  show "isl (fst (st_set_result S t i res s))"
    using result_law [OF assms(1), where i = i and t = t and res = res] assms(3) by (simp add: updates_def)
  show "isl (fst (st_complete S t i status err s))"
    using complete_law [OF assms(1), where i = i and t = t and status = status and err = err] assms(3)
    by (simp add: updates_def split: if_splits)
qed

end

text \<open>
  C38. A result nested to the decoder's limit is valid JSON and is stored, but the document around
  it is one level deeper, so the upload succeeds and the job is gone for good: after any further
  calls (whose new jobs have UTF-8 names, as those decoded from JSON do) it cannot be read, it is
  not listed as pending, and every claim, event, result and completion of it is answered with an error.
\<close>

theorem deep_result_hides_the_job:
  assumes "sql_tables D rows runners trail" "rows_ok (rows d)" "sq_get D i d = Some j" "time_ok t"
    and "json_parse res = Some v" "json_depth v = max_nesting"
    and "sq_set_result D t i res d = (r, d')" "queue_run (sqlite_store D) sound_text d' ls d''"
  shows "json_valid res \<and> r = Inr () \<and> sq_get D i d'' = None \<and> i \<notin> jb_id ` set (sq_pending D d'')
    \<and> isl (fst (sq_claim D t' i runner d'')) \<and> isl (fst (sq_append_event D t' i e d''))
    \<and> isl (fst (sq_set_result D t' i res' d'')) \<and> isl (fst (sq_complete D t' i status err d''))"
proof -
  have law: "job_store (sqlite_store D) (sqlite_view rows trail)" using assms(1) by (rule sql_tables.keeps_contract)
  have ok: "vw_ok (sqlite_view rows trail) d" using assms(2) by simp
  have j: "job_by_id (rows_jobs (rows d)) i = Some j"
    using job_store.get_law [OF law ok, of i] assms(3) by (simp add: sqlite_store_def)
  then have "j \<in> set (rows_jobs (rows d))" using job_by_id_Some by blast
  then have "storable j" using unmarshal_storable by (auto simp: rows_jobs_def List.map_filter_def)
  then have "written_job (resulted_job t res j) = Inr None" using deep_job assms(4-6) by simp
  then have u: "r = Inr ()" "rows_ok (rows d')" "rows_jobs (rows d') = replace_job i None (rows_jobs (rows d))"
    "jr_id ` set (rows d') = jr_id ` set (rows d)"
    using job_store.result_law [OF law ok, where t = t and i = i and res = res] j assms(7)
    by (simp_all add: updates_def moves_def sqlite_store_def)
  have "distinct (map jb_id (rows_jobs (rows d)))" using rows_listed [OF assms(2)] by blast
  then have gone: "job_by_id (vw_listing (sqlite_view rows trail) d') i = None"
    using u(3) job_by_id_replace [of None i "rows_jobs (rows d)" i] j by simp
  have used: "i \<in> vw_used (sqlite_view rows trail) d'"
    using j job_by_id_Some rows_jobs_ids [OF assms(2)] u(4) by fastforce
  have ok': "vw_ok (sqlite_view rows trail) d'" using u(2) by simp
  have run: "queue_run (sqlite_store D) (vw_sound (sqlite_view rows trail)) d' ls d''" using assms(8) by simp
  note late = job_store.unreadable_for_good [OF law run ok' used gone]
  show ?thesis
    using job_store.unreadable_answers [OF law late] u(1) assms(5) by (simp add: sqlite_store_def json_valid_def)
qed

fun nest_json :: "nat \<Rightarrow> json" where
  "nest_json 0 = JNull"
| "nest_json (Suc n) = JArr [nest_json n]"

lemma nest_json_facts: "json_depth (nest_json n) = n" "nums_ok (nest_json n)" "repair_json (nest_json n) = nest_json n"
  by (induction n) simp_all

lemma deep_result_hides_the_job_witness:
  "\<exists>res d. json_valid res \<and> sq_get table_ops ''j1'' d \<noteq> None
     \<and> fst (sq_set_result table_ops (20240101000001, 0) ''j1'' res d) = Inr ()
     \<and> sq_get table_ops ''j1'' (sq_audit table_ops (20240101000002, 0) \<lparr>au_at = zero_time, au_tenant = [],
          au_action = ''a'', au_job = ''j1'', au_actor = [], au_detail = []\<rparr>
          (snd (sq_set_result table_ops (20240101000001, 0) ''j1'' res d))) = None"
proof -
  let ?j = "created_job (20240101000000, 0) (with_id ''j1'' zero_job)"
  let ?d = "snd (sq_create table_ops (20240101000000, 0) ''j1'' zero_job empty_tables)"
  let ?res = "json_text (nest_json max_nesting)"
  let ?a = "\<lparr>au_at = zero_time, au_tenant = [], au_action = ''a'', au_job = ''j1'', au_actor = [], au_detail = []\<rparr>"
  have j: "sq_get table_ops ''j1'' ?d = Some ?j" "rows_ok (tb_jobs ?d)" "time_ok (20240101000001, 0)"
    by code_simp+
  have p: "json_parse ?res = Some (nest_json max_nesting)"
    using json_parse_written [of "nest_json max_nesting"] by (simp add: nest_json_facts)
  obtain r d' where r: "sq_set_result table_ops (20240101000001, 0) ''j1'' ?res ?d = (r, d')" by (metis surj_pair)
  have "queue_step (sqlite_store table_ops) sound_text d' LOther (st_audit (sqlite_store table_ops) (20240101000002, 0) ?a d')"
    by (rule queue_step.audit)
  then have q: "queue_run (sqlite_store table_ops) sound_text d' ([] @ [LOther]) (sq_audit table_ops (20240101000002, 0) ?a d')"
    by (intro queue_run.step [OF queue_run.start]) (simp add: sqlite_store_def)
  from deep_result_hides_the_job [OF tables.sql_tables_axioms j(2,1,3) p nest_json_facts(1) r q] j(1) r
  show ?thesis by (intro exI [of _ ?res] exI [of _ ?d]) simp
qed

end
