(* ===== verification/Report.thy ===== *)
theory Report
  imports Engine GoNum
begin

text \<open>
  \<open>internal/report\<close> (\<open>report.go\<close>, \<open>sarif.go\<close>): the text, Markdown and SARIF renderings of results.
  The texts the engine formats for messages and evidence are a parameter, over which the
  properties range: evidence holds text the target of the test chose.
\<close>

section \<open>Names\<close>

definition access_name :: "access_decision \<Rightarrow> string" where
  "access_name d = (case d of DAllow \<Rightarrow> ''allow'' | DDeny \<Rightarrow> ''deny'' | DSkip \<Rightarrow> ''skip'' | DOther w \<Rightarrow> w)"

definition outcome_name :: "outcome \<Rightarrow> string" where
  "outcome_name oc = (case oc of OAllow \<Rightarrow> ''allow'' | ODeny \<Rightarrow> ''deny'' | ONotFound \<Rightarrow> ''not_found''
     | ORedirect \<Rightarrow> ''redirect'' | OServerError \<Rightarrow> ''server_error'' | OClientError \<Rightarrow> ''client_error''
     | OError \<Rightarrow> ''error'' | ONone \<Rightarrow> [])"

definition confidence_name :: "confidence \<Rightarrow> string" where
  "confidence_name c = (case c of ConfidenceLow \<Rightarrow> ''low'' | ConfidenceMedium \<Rightarrow> ''medium'' | ConfidenceHigh \<Rightarrow> ''high'')"

definition category_name :: "category \<Rightarrow> string" where
  "category_name c = (case c of PotentialBOLA \<Rightarrow> ''potential_bola'' | MissingAuthentication \<Rightarrow> ''missing_authentication''
     | CrossTenantAccess \<Rightarrow> ''cross_tenant_access'' | PrivilegeEscalation \<Rightarrow> ''privilege_escalation''
     | UnexpectedAccess \<Rightarrow> ''unexpected_access'' | AuthorizationMismatch \<Rightarrow> ''authorization_mismatch''
     | SensitiveDataExposure \<Rightarrow> ''sensitive_data_exposure'' | CORSMisconfiguration \<Rightarrow> ''cors_misconfiguration''
     | ObjectPropertyExposure \<Rightarrow> ''object_property_exposure'')"

definition assessed_name :: "assessment_decision \<Rightarrow> string" where
  "assessed_name d = (case d of AAllowed \<Rightarrow> ''allowed'' | ADenied \<Rightarrow> ''denied'' | AInconclusive \<Rightarrow> ''inconclusive''
     | ASkipped \<Rightarrow> ''skipped'')"

definition source_name :: "assessment_source \<Rightarrow> string" where
  "source_name s = (case s of SrcNone \<Rightarrow> ''none'' | SrcHttpStatus \<Rightarrow> ''http_status''
     | SrcResponseAssertion \<Rightarrow> ''response_assertion'' | SrcWriteVerification \<Rightarrow> ''write_verification'')"

definition cred_status_name :: "cred_status \<Rightarrow> string" where
  "cred_status_name c = (case c of CSUnset \<Rightarrow> [] | CSAnonymous \<Rightarrow> ''anonymous_identity'' | CSNotChecked \<Rightarrow> ''not_checked''
     | CSPreflightFailed \<Rightarrow> ''preflight_failed'' | CSPreflightPassed \<Rightarrow> ''preflight_passed''
     | CSPassedResource401 \<Rightarrow> ''preflight_passed_resource_401'' | CSResource401 \<Rightarrow> ''resource_401_unverified'')"

definition write_status_name :: "write_status \<Rightarrow> string" where
  "write_status_name w = (case w of WSUnset \<Rightarrow> [] | WSNotConfigured \<Rightarrow> ''not_configured'' | WSNotApplied \<Rightarrow> ''not_applied''
     | WSInconclusive \<Rightarrow> ''inconclusive'' | WSVerifiedEffect \<Rightarrow> ''verified_effect''
     | WSVerifiedNoEffect \<Rightarrow> ''verified_no_effect'')"

definition reason_name :: "reason \<Rightarrow> string" where
  "reason_name r = (case r of RNone \<Rightarrow> []
     | RAmbiguousOutcome \<Rightarrow> ''ambiguous_http_outcome'' | RAssertionMatched \<Rightarrow> ''assertion_matched''
     | RBaselineMissing \<Rightarrow> ''verifier_baseline_missing'' | RCancelled \<Rightarrow> ''execution_cancelled''
     | RChangedUnexpectedly \<Rightarrow> ''state_changed_unexpectedly'' | RConcurrentChange \<Rightarrow> ''state_changing_concurrently''
     | RConflictingAssertions \<Rightarrow> ''conflicting_assertions'' | RCredentialRejected \<Rightarrow> ''credential_rejected''
     | RExecutionError \<Rightarrow> ''execution_error'' | RExplicitSkip \<Rightarrow> ''explicit_skip''
     | RInvalidJson \<Rightarrow> ''invalid_or_unsupported_json'' | RNoAssertionMatched \<Rightarrow> ''no_assertion_matched''
     | RNoExpectation \<Rightarrow> ''no_expectation'' | RNoPositiveControl \<Rightarrow> ''no_positive_control''
     | RPositiveControlFailed \<Rightarrow> ''positive_control_failed'' | RPreflightFailed \<Rightarrow> ''identity_preflight_failed''
     | RResetBaseline \<Rightarrow> ''reset_baseline_mismatch'' | RResetFailed \<Rightarrow> ''verifier_reset_failed''
     | RStateChanged \<Rightarrow> ''state_changed'' | RStateUnchanged \<Rightarrow> ''state_unchanged''
     | RStatusOnly \<Rightarrow> ''status_only'' | RTargetAlreadyPresent \<Rightarrow> ''target_value_already_present''
     | RVerifierDenied \<Rightarrow> ''verifier_denied'' | RVerifierReadFailed \<Rightarrow> ''verifier_read_failed''
     | RVerifierStatus \<Rightarrow> ''verifier_unexpected_status'' | RVerifierValueMissing \<Rightarrow> ''verifier_value_unavailable''
     | RWriteEnvironment \<Rightarrow> ''write_environment_unverified'' | RWriteFailed \<Rightarrow> ''write_execution_error''
     | RWritePending \<Rightarrow> ''write_completion_unconfirmed'')"
text \<open>The texts \<open>engine.go\<close> and \<open>compare.go\<close> format.\<close>

record texts =
  tx_message :: "message \<Rightarrow> string"
  tx_evidence :: "evidence \<Rightarrow> string"

definition em_dash :: string where
  "em_dash = [CHR 0xE2, CHR 0x80, CHR 0x94]"

definition newline :: string where
  "newline = [CHR 0x0A]"

definition plural :: "nat \<Rightarrow> string \<Rightarrow> string \<Rightarrow> string" where
  "plural n one many = show_nat n @ '' '' @ (if n = 1 then one else many)"

section \<open>Summaries\<close>

record report_case =
  rc_source :: string
  rc_result :: run_result

definition not_tested :: "run_result \<Rightarrow> string" where
  "not_tested r =
     (if rr_error r \<noteq> [] then ''could not run: '' @ rr_error r
      else if preflight_failed r then ''identity preflight failed; no authorization request was sent''
      else if unreached r then ''every identity failed to connect''
      else [])"

record summary =
  su_cases :: nat
  su_findings :: nat
  su_untested :: nat
  su_inconclusive :: nat
  su_by_severity :: "severity \<Rightarrow> nat"

definition count_finding :: "summary \<Rightarrow> finding \<Rightarrow> summary" where
  "count_finding s f = s\<lparr>su_findings := su_findings s + 1,
     su_by_severity := (su_by_severity s)(fd_severity f := su_by_severity s (fd_severity f) + 1)\<rparr>"

definition count_case :: "summary \<Rightarrow> report_case \<Rightarrow> summary" where
  "count_case s c =
     (let s1 = (if not_tested (rc_result c) \<noteq> [] then s\<lparr>su_untested := su_untested s + 1\<rparr> else s);
          s2 = s1\<lparr>su_inconclusive := su_inconclusive s1 + length (inconclusive (rc_result c))\<rparr>
      in foldl count_finding s2 (rr_findings (rc_result c)))"

definition summarize :: "report_case list \<Rightarrow> summary" where
  "summarize cases = foldl count_case \<lparr>su_cases = length cases, su_findings = 0, su_untested = 0,
     su_inconclusive = 0, su_by_severity = \<lambda>_. 0\<rparr> cases"

definition severity_order :: "severity list" where
  "severity_order = [SevCritical, SevHigh, SevMedium, SevLow, SevInfo]"

definition severity_breakdown :: "summary \<Rightarrow> string" where
  "severity_breakdown s = join_with '', '' (List.map_filter (\<lambda>sev.
     if 0 < su_by_severity s sev then Some (show_nat (su_by_severity s sev) @ '' '' @ severity_name sev) else None)
     severity_order)"

definition headline :: "summary \<Rightarrow> string" where
  "headline s =
     plural (su_cases s) ''case'' ''cases'' @ '', '' @ plural (su_findings s) ''finding'' ''findings''
     @ (if severity_breakdown s \<noteq> [] then '' ('' @ severity_breakdown s @ '')'' else [])
     @ '', '' @ show_nat (su_untested s) @ '' not tested''
     @ (if 0 < su_inconclusive s
        then '', '' @ plural (su_inconclusive s) ''inconclusive assessment'' ''inconclusive assessments'' else [])"

text \<open>\<open>inconclusiveReasons\<close>.\<close>

definition explanations :: "(string \<times> string) list" where
  "explanations =
    [(''reset_baseline_mismatch'',
      ''the reset did not restore the selected initial state; this identity's write was withheld to avoid cross-identity contamination''),
     (''execution_cancelled'',
      ''execution was canceled; no further verifier/reset/write requests were started and any unobserved effect remains unknown''),
     (''identity_preflight_failed'',
      ''a declared principal check failed; resource authorization requests were withheld''),
     (''verifier_reset_failed'',
      ''the fixture reset did not complete successfully; this identity's write was withheld''),
     (''write_completion_unconfirmed'',
      ''the write returned 202 and no effect was observed; completion is unknown, so unchanged state cannot prove denial''),
     (''write_environment_unverified'',
      ''write timing or isolation is unknown; use a resettable fixture with a reviewed synchronous write/read contract and exclusive access before drawing authorization conclusions''),
     (''no_assertion_matched'',
      ''no response assertion matched; the assertion may be stale or the response format changed''),
     (''conflicting_assertions'',
      ''both an allow and a deny assertion matched; the assertions contradict each other''),
     (''invalid_or_unsupported_json'',
      ''response assertions are configured but the body is not usable JSON''),
     (''execution_error'',
      ''the request failed before a usable response arrived''),
     (''ambiguous_http_outcome'',
      ''the status is neither a success nor a declared denial; declare deny_status or add response assertions''),
     (''verifier_read_failed'',
      ''the write verifier could not read the target state; the request was withheld if this happened before it''),
     (''verifier_denied'',
      ''the write verifier was refused; check its credential''),
     (''verifier_value_unavailable'',
      ''the write verifier's response has no value at its json_pointer; the pointer may be stale''),
     (''state_changing_concurrently'',
      ''the target state changed between two reads before the request; something else is writing to it''),
     (''target_value_already_present'',
      ''the target already holds the value the write would set, so a change cannot be observed; reset the fixture''),
     (''verifier_baseline_missing'',
      ''the write verifier's first read was not a success; check its path, or the resource does not exist''),
     (''state_changed_unexpectedly'',
      ''the target state changed, but not to the value this write attempts''),
     (''verifier_unexpected_status'',
      ''the write verifier's response after the request was neither a success nor an absent resource''),
     (''write_execution_error'',
      ''the write request failed and no change was observed, so it shows nothing about authorization''),
     (''no_positive_control'',
      ''the state was unchanged but no allow-expected identity shows the verifier can see a write; add the owner to the case''),
     (''positive_control_failed'',
      ''the state was unchanged, and the allow-expected identity's own write was not observed either; check the verifier path and pointer''),
     (''credential_rejected'',
      ''the identity sent credentials and got 401, so its token may be dead or expired; refresh it, add identity preflight, or set unauthorized_is_denial if this API refuses authorization with 401'')]"
definition why_inconclusive :: "reason \<Rightarrow> string" where
  "why_inconclusive r = (case map_of explanations (reason_name r) of Some w \<Rightarrow> w | None \<Rightarrow> reason_name r)"

definition explain :: "assessment \<Rightarrow> string" where
  "explain a = as_identity a @ '' expected '' @ access_name (as_expected a) @ '': inconclusive '' @ em_dash @ '' ''
     @ why_inconclusive (as_reason a)"

text \<open>A stable sort, most severe first.\<close>

definition sorted_by_severity :: "finding list \<Rightarrow> finding list" where
  "sorted_by_severity fs = sort_key (\<lambda>f. - int (severity_rank (fd_severity f))) fs"

definition recorded :: "string \<Rightarrow> string" where
  "recorded w = (if w = [] then ''not_recorded'' else w)"

section \<open>Text\<close>

text \<open>\<open>%-12s\<close>: padded to twelve code points.\<close>

function rune_count :: "string \<Rightarrow> nat" where
  "rune_count s = (if s = [] then 0 else 1 + rune_count (drop (max 1 (utf8_len s)) s))"
  by pat_completeness auto
termination by (relation "measure length") auto

definition pad12 :: "string \<Rightarrow> string" where
  "pad12 w = w @ replicate (12 - rune_count w) (CHR '' '')"

text \<open>\<open>%v\<close> of a list of integers.\<close>

definition ints_text :: "int list \<Rightarrow> string" where
  "ints_text ns = ''['' @ join_with '' '' (map show_int ns) @ '']''"

definition preflight_line :: "preflight_result \<Rightarrow> string" where
  "preflight_line p = (if pr_passed p then [] else
     ''  preflight '' @ pad12 (pr_identity p) @ '' failed '' @ pr_reason p @ newline)"

definition execution_line :: "execution_result \<Rightarrow> string" where
  "execution_line ex = ''  '' @ pad12 (er_identity ex) @
     (if er_error ex \<noteq> [] then '' error: '' @ er_error ex
      else '' '' @ show_int (er_status ex) @ '' '' @ outcome_name (er_outcome ex)) @ newline"

definition verification_line :: "verification_evidence \<Rightarrow> string" where
  "verification_line v = ''    reader '' @ ve_reader v @ '' ('' @ recorded (cred_status_name (ve_reader_status v))
     @ ''): before HTTP '' @ ints_text (ve_before v) @ '', after HTTP '' @ show_int (ve_after v) @ ''; '' @ ve_strategy v
     @ ''/'' @ ve_environment v @ newline"

definition assessment_line :: "assessment \<Rightarrow> string" where
  "assessment_line a = ''  '' @ as_identity a @ '' expected '' @ access_name (as_expected a) @ '' -> ''
     @ assessed_name (as_decision a) @ '' | credentials: '' @ recorded (cred_status_name (as_credential a))
     @ '' | write: '' @ recorded (write_status_name (as_write a)) @ '' | evidence: '' @ source_name (as_source a)
     @ ''/'' @ reason_name (as_reason a) @ newline
     @ (case as_verification a of None \<Rightarrow> [] | Some v \<Rightarrow> verification_line v)"

definition finding_lines :: "texts \<Rightarrow> finding \<Rightarrow> string" where
  "finding_lines tx f = ''  ['' @ to_upper (severity_name (fd_severity f)) @ ''] '' @ category_name (fd_category f)
     @ '' '' @ em_dash @ '' '' @ tx_message tx (fd_message f) @ newline
     @ concat (map (\<lambda>e. ''      '' @ tx_evidence tx e @ newline) (fd_evidence f))"

definition no_findings_line :: string where
  "no_findings_line = ''No findings.'' @ newline"

definition text_outcome :: "texts \<Rightarrow> run_result \<Rightarrow> string" where
  "text_outcome tx r =
     (if rr_findings r = []
      then (if not_tested r = [] \<and> inconclusive r = [] then no_findings_line else [])
      else newline @ plural (length (rr_findings r)) ''finding'' ''findings'' @ '':'' @ newline
        @ concat (map (finding_lines tx) (sorted_by_severity (rr_findings r))))"

definition text_case :: "texts \<Rightarrow> run_result \<Rightarrow> string" where
  "text_case tx r =
     (if not_tested r \<noteq> [] then ''NOT TESTED: '' @ not_tested r @ ''.'' @ newline else [])
     @ concat (map preflight_line (rr_preflight r))
     @ (if rr_executions r \<noteq> [] then ''Executions:'' @ newline else [])
     @ concat (map execution_line (rr_executions r))
     @ (if rr_assessments r \<noteq> []
        then ''Assessments (scanner conclusions; findings require operator confirmation):'' @ newline else [])
     @ concat (map assessment_line (rr_assessments r))
     @ (if inconclusive r \<noteq> []
        then newline @ plural (length (inconclusive r)) ''inconclusive assessment'' ''inconclusive assessments''
          @ '' (not a pass):'' @ newline @ concat (map (\<lambda>a. ''  '' @ explain a @ newline) (inconclusive r))
        else [])
     @ text_outcome tx r"

definition text_header :: "report_case \<Rightarrow> string" where
  "text_header c = ''Case '' @ rr_test_case (rc_result c)
     @ (if rc_source c \<noteq> [] then ''  ('' @ rc_source c @ '')'' else []) @ newline"

definition text_report :: "texts \<Rightarrow> report_case list \<Rightarrow> string" where
  "text_report tx cases = join_with newline (map (\<lambda>c. text_header c @ text_case tx (rc_result c)) cases)
     @ newline @ ''Summary: '' @ headline (summarize cases) @ newline"

section \<open>Markdown\<close>

definition md_entity :: "char \<Rightarrow> string option" where
  "md_entity = map_of [(CHR ''&'', ''&amp;''), (CHR ''<'', ''&lt;''), (CHR ''>'', ''&gt;''), (CHR ''|'', ''&#124;''),
     (CHR 0x60, ''&#96;''), (CHR ''*'', ''&#42;''), (CHR ''_'', ''&#95;''), (CHR ''['', ''&#91;''), (CHR '']'', ''&#93;''),
     (CHR 0x0A, '' ''), (CHR 0x0D, '' '')]"

fun md_escape :: "string \<Rightarrow> string" where
  "md_escape [] = []"
| "md_escape (c # cs) =
     (case cs of
        d # ds \<Rightarrow> if c = CHR 0x0D \<and> d = CHR 0x0A then '' '' @ md_escape ds
                   else (case md_entity c of Some e \<Rightarrow> e | None \<Rightarrow> [c]) @ md_escape cs
      | [] \<Rightarrow> (case md_entity c of Some e \<Rightarrow> e | None \<Rightarrow> [c]))"

definition md :: "string \<Rightarrow> string" where
  "md w = (let e = md_escape w in if e = [] then em_dash else e)"

definition md_row :: "string list \<Rightarrow> string" where
  "md_row cells = ''| '' @ join_with '' | '' cells @ '' |'' @ newline"

definition warning_sign :: string where
  "warning_sign = [CHR 0xE2, CHR 0x9A, CHR 0xA0, CHR 0xEF, CHR 0xB8, CHR 0x8F]"

definition check_mark :: string where
  "check_mark = [CHR 0xE2, CHR 0x9C, CHR 0x85]"

definition cross_mark :: string where
  "cross_mark = [CHR 0xE2, CHR 0x9D, CHR 0x8C]"

definition case_verdict :: "run_result \<Rightarrow> string" where
  "case_verdict r =
     (if not_tested r \<noteq> [] then warning_sign @ '' Not tested: '' @ md (not_tested r)
      else case sorted_by_severity (rr_findings r) of
        [] \<Rightarrow> (if inconclusive r \<noteq> []
               then warning_sign @ '' No findings; ''
                 @ plural (length (inconclusive r)) ''inconclusive assessment'' ''inconclusive assessments''
               else check_mark @ '' No findings'')
      | f # _ \<Rightarrow> cross_mark @ '' '' @ plural (length (rr_findings r)) ''finding'' ''findings''
          @ '' (worst: '' @ severity_name (fd_severity f) @ '')'')"

definition case_row :: "report_case \<Rightarrow> string" where
  "case_row c = md_row [md (rr_test_case (rc_result c)), md (rc_source c), case_verdict (rc_result c)]"

definition md_evidence :: "assessment \<Rightarrow> string" where
  "md_evidence a = source_name (as_source a) @ ''/'' @ reason_name (as_reason a)
     @ (case as_index a of None \<Rightarrow> [] | Some k \<Rightarrow> ''; execution['' @ show_nat k @ '']'')
     @ (case as_verification a of None \<Rightarrow> []
        | Some v \<Rightarrow> ''; reader '' @ ve_reader v @ '' ('' @ recorded (cred_status_name (ve_reader_status v))
            @ ''), before HTTP '' @ ints_text (ve_before v) @ '', after HTTP '' @ show_int (ve_after v) @ ''; ''
            @ ve_strategy v @ ''/'' @ ve_environment v)"

definition assessment_row :: "report_case \<Rightarrow> assessment \<Rightarrow> string" where
  "assessment_row c a = md_row [md (rr_test_case (rc_result c)), md (as_identity a), md (access_name (as_expected a)),
     md (assessed_name (as_decision a)), md (recorded (cred_status_name (as_credential a))),
     md (recorded (write_status_name (as_write a))), md (md_evidence a)]"

definition finding_row :: "texts \<Rightarrow> report_case \<Rightarrow> finding \<Rightarrow> string" where
  "finding_row tx c f = md_row [to_upper (severity_name (fd_severity f)), md (category_name (fd_category f)),
     md (rr_test_case (rc_result c)), md (fd_identity f),
     md (tx_message tx (fd_message f)) @ (if fd_evidence f \<noteq> []
       then ''<br>'' @ join_with ''<br>'' (map (\<lambda>e. md (tx_evidence tx e)) (fd_evidence f)) else [])]"

definition inconclusive_row :: "report_case \<Rightarrow> assessment \<Rightarrow> string" where
  "inconclusive_row c a = md_row [md (rr_test_case (rc_result c)), md (as_identity a), md (access_name (as_expected a)),
     md (why_inconclusive (as_reason a))]"

definition md_lines :: "string list \<Rightarrow> string" where
  "md_lines ws = concat (map (\<lambda>w. w @ newline) ws)"

definition md_assessments :: "report_case list \<Rightarrow> string" where
  "md_assessments cases = md_lines [[], ''### Identity assessments'', [],
       ''Scanner conclusions; findings require operator confirmation. Credential preflights are point-in-time checks.'', [],
       ''| Case | Identity | Expected | Assessed | Credentials | Write readback | Evidence |'',
       ''|---|---|---|---|---|---|---|'']
     @ concat (map (\<lambda>c. concat (map (assessment_row c) (rr_assessments (rc_result c)))) cases)"

definition md_findings :: "texts \<Rightarrow> report_case list \<Rightarrow> string" where
  "md_findings tx cases = md_lines [[], ''### Findings'', [],
       ''| Severity | Category | Case | Identity | Detail |'', ''|---|---|---|---|---|'']
     @ concat (map (\<lambda>c. concat (map (finding_row tx c) (sorted_by_severity (rr_findings (rc_result c))))) cases)"

definition md_inconclusive :: "report_case list \<Rightarrow> string" where
  "md_inconclusive cases = md_lines [[], ''### Inconclusive assessments'', [],
       ''| Case | Identity | Expected | Reason |'', ''|---|---|---|---|'']
     @ concat (map (\<lambda>c. concat (map (inconclusive_row c) (inconclusive (rc_result c)))) cases)
     @ md_lines [[], ''> [!WARNING]'', ''> Inconclusive assessments produced no finding and are not passes.'']"

definition markdown_report :: "texts \<Rightarrow> report_case list \<Rightarrow> string" where
  "markdown_report tx cases = (let s = summarize cases in
     md_lines [''## VardrGate authorization results'', [], ''**'' @ headline s @ ''**'', [],
       ''| Case | Source | Result |'', ''|---|---|---|'']
     @ concat (map case_row cases)
     @ md_assessments cases
     @ (if 0 < su_findings s then md_findings tx cases else [])
     @ (if 0 < su_inconclusive s then md_inconclusive cases else [])
     @ (if 0 < su_untested s
        then md_lines [[], ''> [!WARNING]'',
          ''> Cases marked not tested sent no successful request. Zero findings for them is not a clean result.'']
        else []))"

section \<open>SARIF\<close>

record sarif_notification =
  sn_level :: string
  sn_message :: string
  sn_location :: "string option"

record sarif_rule =
  sl_id :: string
  sl_name :: string
  sl_short :: string
  sl_full :: string
  sl_help :: string
  sl_level :: string
  sl_tags :: "string list"
  sl_security :: string

record sarif_result =
  sr_rule_id :: string
  sr_rule_index :: nat
  sr_level :: string
  sr_message :: string
  sr_location :: "string option"
  sr_fingerprint :: string
  sr_severity :: string
  sr_confidence :: string
  sr_test_case :: string
  sr_identity :: string

text \<open>The one run of the log: tool version, rules, the invocation and the results.\<close>

record sarif_log =
  sg_version :: string
  sg_rules :: "sarif_rule list"
  sg_successful :: bool
  sg_notifications :: "sarif_notification list"
  sg_results :: "sarif_result list"

record rule_info =
  ri_category :: category
  ri_name :: string
  ri_short :: string
  ri_full :: string
  ri_severity :: severity

definition known_rules :: "rule_info list" where
  "known_rules =
    [\<lparr>ri_category = MissingAuthentication, ri_name = ''MissingAuthentication'',
       ri_short = ''Unauthenticated caller reached a protected resource'',
       ri_full = ''An identity that sent no credentials received a successful response from an endpoint the policy requires it to be denied.'',
       ri_severity = SevCritical\<rparr>,
     \<lparr>ri_category = CrossTenantAccess, ri_name = ''CrossTenantAccess'',
       ri_short = ''Identity from another tenant reached the resource'',
       ri_full = ''An identity whose tenant differs from the object's tenant received access the policy denies. Tenant isolation is broken for this endpoint.'',
       ri_severity = SevCritical\<rparr>,
     \<lparr>ri_category = PotentialBOLA, ri_name = ''PotentialBOLA'',
       ri_short = ''Non-owner reached an identified object (OWASP API1:2023)'',
       ri_full = ''An identity that does not own the object received a successful response. This is broken object-level authorization; verify before reporting.'',
       ri_severity = SevHigh\<rparr>,
     \<lparr>ri_category = PrivilegeEscalation, ri_name = ''PrivilegeEscalation'',
       ri_short = ''Identity below the required role reached the resource'',
       ri_full = ''An identity ranked below the resource's required role in the declared role hierarchy received access (OWASP API5:2023, function-level authorization).'',
       ri_severity = SevHigh\<rparr>,
     \<lparr>ri_category = UnexpectedAccess, ri_name = ''UnexpectedAccess'',
       ri_short = ''Denied identity received a success response'',
       ri_full = ''An identity the policy denies received a 2xx response. No ownership, tenant or role context was declared to refine the category.'',
       ri_severity = SevHigh\<rparr>,
     \<lparr>ri_category = SensitiveDataExposure, ri_name = ''SensitiveDataExposure'',
       ri_short = ''Identity received response fields it must not see'',
       ri_full = ''The response carried fields in a sensitive tier to an identity marked as forbidden from receiving them. Evidence names field paths, never values. Severity follows the field's tier.'',
       ri_severity = SevCritical\<rparr>,
     \<lparr>ri_category = ObjectPropertyExposure, ri_name = ''ObjectPropertyExposure'',
       ri_short = ''Identity received authorization-governing properties (OWASP API3:2023)'',
       ri_full = ''The response carried properties such as role, is_admin, permissions or balance to an identity forbidden from receiving them. This is broken object property-level authorization.'',
       ri_severity = SevHigh\<rparr>,
     \<lparr>ri_category = CORSMisconfiguration, ri_name = ''CORSMisconfiguration'',
       ri_short = ''Endpoint reflects an arbitrary Origin'',
       ri_full = ''The endpoint reflected a probe Origin in Access-Control-Allow-Origin. High when credentials are also allowed.'',
       ri_severity = SevHigh\<rparr>,
     \<lparr>ri_category = AuthorizationMismatch, ri_name = ''AuthorizationMismatch'',
       ri_short = ''Allowed identity was refused'',
       ri_full = ''An identity the policy allows received 401 or 403. Either the policy or the credential is wrong, or the endpoint is over-restricted.'',
       ri_severity = SevLow\<rparr>]"
definition security_severity :: "severity \<Rightarrow> string" where
  "security_severity s = (case s of SevCritical \<Rightarrow> ''9.5'' | SevHigh \<Rightarrow> ''8.0'' | SevMedium \<Rightarrow> ''5.5'' | SevLow \<Rightarrow> ''3.0''
     | _ \<Rightarrow> ''1.0'')"

definition sarif_level :: "severity \<Rightarrow> string" where
  "sarif_level s = (if s = SevCritical \<or> s = SevHigh then ''error'' else if s = SevMedium then ''warning'' else ''note'')"

definition new_rule :: "rule_info \<Rightarrow> sarif_rule" where
  "new_rule r = \<lparr>sl_id = category_name (ri_category r), sl_name = ri_name r, sl_short = ri_short r, sl_full = ri_full r,
     sl_help = ri_full r @ '' Findings are candidates: reproduce with the recorded identities before reporting.'',
     sl_level = sarif_level (ri_severity r), sl_tags = [''security'', ''authorization''],
     sl_security = security_severity (ri_severity r)\<rparr>"

definition artifact_uri :: "string \<Rightarrow> string" where
  "artifact_uri source = (let s = map (\<lambda>c. if c = CHR 0x5C then CHR ''/'' else c) source in
     if has_prefix s ''/'' then ''file://'' @ s
     else if 3 \<le> length s \<and> s ! 1 = CHR '':'' \<and> s ! 2 = CHR ''/'' then ''file:///'' @ s
     else s)"

definition location :: "string \<Rightarrow> string option" where
  "location source = (if source = [] then None else Some (artifact_uri source))"

definition fingerprint :: "golib \<Rightarrow> string \<Rightarrow> finding \<Rightarrow> string" where
  "fingerprint L i f = gl_sha256 L (i @ [CHR 0x00] @ category_name (fd_category f) @ [CHR 0x00] @ fd_identity f)"

text \<open>The state of the loop: the rules, the index of each category, the invocation and the results.\<close>

record sarif_state =
  sx_rules :: "sarif_rule list"
  sx_index :: "(category \<times> nat) list"
  sx_successful :: bool
  sx_notifications :: "sarif_notification list"
  sx_results :: "sarif_result list"

definition sarif_start :: sarif_state where
  "sarif_start = \<lparr>sx_rules = map new_rule known_rules,
     sx_index = map (\<lambda>(k, r). (ri_category r, k)) (enum_list known_rules),
     sx_successful = True, sx_notifications = [], sx_results = []\<rparr>"

definition sarif_entry :: "golib \<Rightarrow> texts \<Rightarrow> report_case \<Rightarrow> nat \<Rightarrow> finding \<Rightarrow> sarif_result" where
  "sarif_entry L tx c k f = \<lparr>sr_rule_id = category_name (fd_category f), sr_rule_index = k,
     sr_level = sarif_level (fd_severity f),
     sr_message = tx_message tx (fd_message f) @ '' (case '' @ rr_test_case (rc_result c) @ '').''
       @ (if fd_evidence f \<noteq> [] then '' Evidence: '' @ join_with ''; '' (map (tx_evidence tx) (fd_evidence f)) else []),
     sr_location = location (rc_source c), sr_fingerprint = fingerprint L (rr_test_case (rc_result c)) f,
     sr_severity = severity_name (fd_severity f), sr_confidence = confidence_name (fd_confidence f),
     sr_test_case = rr_test_case (rc_result c), sr_identity = fd_identity f\<rparr>"

definition sarif_finding :: "golib \<Rightarrow> texts \<Rightarrow> report_case \<Rightarrow> sarif_state \<Rightarrow> finding \<Rightarrow> sarif_state" where
  "sarif_finding L tx c st f =
     (case amap_get (sx_index st) (fd_category f) of
        Some k \<Rightarrow> st\<lparr>sx_results := sx_results st @ [sarif_entry L tx c k f]\<rparr>
      | None \<Rightarrow> (let k = length (sx_rules st); n = category_name (fd_category f) in
          st\<lparr>sx_index := amap_put (fd_category f) k (sx_index st),
             sx_rules := sx_rules st @ [new_rule \<lparr>ri_category = fd_category f, ri_name = n, ri_short = n,
               ri_full = ''VardrGate finding category '' @ n @ ''.'', ri_severity = fd_severity f\<rparr>],
             sx_results := sx_results st @ [sarif_entry L tx c k f]\<rparr>))"

definition untested_note :: "report_case \<Rightarrow> sarif_notification" where
  "untested_note c = \<lparr>sn_level = ''error'', sn_message = ''Case '' @ rr_test_case (rc_result c) @ '' was not tested: ''
     @ not_tested (rc_result c) @ ''.'', sn_location = location (rc_source c)\<rparr>"

definition inconclusive_note :: "report_case \<Rightarrow> assessment \<Rightarrow> sarif_notification" where
  "inconclusive_note c a = \<lparr>sn_level = ''warning'', sn_message = ''Case '' @ rr_test_case (rc_result c) @ '': ''
     @ explain a @ ''.'', sn_location = location (rc_source c)\<rparr>"

definition sarif_case :: "golib \<Rightarrow> texts \<Rightarrow> sarif_state \<Rightarrow> report_case \<Rightarrow> sarif_state" where
  "sarif_case L tx st c =
     (let st1 = (if not_tested (rc_result c) \<noteq> []
                 then st\<lparr>sx_successful := False, sx_notifications := sx_notifications st @ [untested_note c]\<rparr> else st);
          st2 = st1\<lparr>sx_notifications := sx_notifications st1 @ map (inconclusive_note c) (inconclusive (rc_result c))\<rparr>
      in foldl (sarif_finding L tx c) st2 (rr_findings (rc_result c)))"

definition sarif :: "golib \<Rightarrow> texts \<Rightarrow> string \<Rightarrow> report_case list \<Rightarrow> sarif_log" where
  "sarif L tx version cases = (let st = foldl (sarif_case L tx) sarif_start cases in
     \<lparr>sg_version = version, sg_rules = sx_rules st, sg_successful = sx_successful st,
      sg_notifications = sx_notifications st, sg_results = sx_results st\<rparr>)"

section \<open>The numbers of a summary\<close>

lemma count_finding_fold:
  "su_findings (foldl count_finding s fs) = su_findings s + length fs"
  "su_untested (foldl count_finding s fs) = su_untested s"
  "su_inconclusive (foldl count_finding s fs) = su_inconclusive s"
  "su_cases (foldl count_finding s fs) = su_cases s"
  "su_by_severity (foldl count_finding s fs) sev = su_by_severity s sev + length (filter (\<lambda>f. fd_severity f = sev) fs)"
  by (induction fs arbitrary: s) (simp_all add: count_finding_def)

lemma count_case_fold:
  "su_findings (foldl count_case s cs) = su_findings s + sum_list (map (\<lambda>c. length (rr_findings (rc_result c))) cs)"
  "su_untested (foldl count_case s cs) = su_untested s + length (filter (\<lambda>c. not_tested (rc_result c) \<noteq> []) cs)"
  "su_inconclusive (foldl count_case s cs) = su_inconclusive s + sum_list (map (\<lambda>c. length (inconclusive (rc_result c))) cs)"
  "su_cases (foldl count_case s cs) = su_cases s"
  "su_by_severity (foldl count_case s cs) sev
     = su_by_severity s sev + length (filter (\<lambda>f. fd_severity f = sev) (concat (map (\<lambda>c. rr_findings (rc_result c)) cs)))"
  by (induction cs arbitrary: s) (simp_all add: count_case_def count_finding_fold Let_def)

section \<open>A report never passes what was not tested\<close>

definition clean_result :: "run_result \<Rightarrow> bool" where
  "clean_result r \<longleftrightarrow> not_tested r = [] \<and> rr_findings r = [] \<and> inconclusive r = []"

lemma sort_key_Nil_iff [simp]: "sort_key k xs = [] \<longleftrightarrow> xs = []"
  by (metis length_0_conv length_sort)

lemma sorted_by_severity_Nil: "sorted_by_severity fs = [] \<longleftrightarrow> fs = []"
  by (simp add: sorted_by_severity_def)

lemma marks_differ: "check_mark @ u \<noteq> warning_sign @ v" "check_mark @ u \<noteq> cross_mark @ v"
  by (simp_all add: check_mark_def warning_sign_def cross_mark_def)

lemma plural_nonempty [simp]: "plural n a b \<noteq> []"
  by (simp add: plural_def)

lemma sarif_findings_fold:
  "sx_successful (foldl (sarif_finding L tx c) st fs) = sx_successful st"
  "sx_notifications (foldl (sarif_finding L tx c) st fs) = sx_notifications st"
  by (induction fs arbitrary: st) (simp_all add: sarif_finding_def Let_def split: option.split)

lemma sarif_cases_fold:
  "sx_successful (foldl (sarif_case L tx) st cs) \<longleftrightarrow> sx_successful st \<and> list_all (\<lambda>c. not_tested (rc_result c) = []) cs"
  "sx_notifications (foldl (sarif_case L tx) st cs) = sx_notifications st @ concat (map (\<lambda>c.
      (if not_tested (rc_result c) \<noteq> [] then [untested_note c] else [])
      @ map (inconclusive_note c) (inconclusive (rc_result c))) cs)"
  by (induction cs arbitrary: st) (auto simp: sarif_case_def Let_def sarif_findings_fold)

text \<open>
  C30. No format reads as clean when something was not tested or not judged: the check mark of the
  Markdown table and the line \<open>No findings.\<close> appear exactly for results that were tested, have no
  finding and no inconclusive assessment; the SARIF invocation is successful exactly when every
  case was tested, with one notification for each case that was not and for each inconclusive
  assessment; and the numbers of the headline are those of the results.
\<close>

theorem reports_never_pass_the_untested:
  "(case_verdict r = check_mark @ '' No findings'' \<longleftrightarrow> clean_result r)
   \<and> (text_outcome tx r = no_findings_line \<longleftrightarrow> clean_result r)
   \<and> (sg_successful (sarif L tx v cases) \<longleftrightarrow> list_all (\<lambda>c. not_tested (rc_result c) = []) cases)
   \<and> sg_notifications (sarif L tx v cases) = concat (map (\<lambda>c.
        (if not_tested (rc_result c) \<noteq> [] then [untested_note c] else [])
        @ map (inconclusive_note c) (inconclusive (rc_result c))) cases)
   \<and> su_untested (summarize cases) = length (filter (\<lambda>c. not_tested (rc_result c) \<noteq> []) cases)
   \<and> su_inconclusive (summarize cases) = sum_list (map (\<lambda>c. length (inconclusive (rc_result c))) cases)
   \<and> su_by_severity (summarize cases) sev
       = length (filter (\<lambda>f. fd_severity f = sev) (concat (map (\<lambda>c. rr_findings (rc_result c)) cases)))"
proof (intro conjI)
  show "case_verdict r = check_mark @ '' No findings'' \<longleftrightarrow> clean_result r"
    using marks_differ [symmetric] sorted_by_severity_Nil [of "rr_findings r"]
    by (cases "sorted_by_severity (rr_findings r)") (simp_all add: case_verdict_def clean_result_def)
  show "text_outcome tx r = no_findings_line \<longleftrightarrow> clean_result r"
    by (auto simp: text_outcome_def clean_result_def no_findings_line_def newline_def)
qed (simp_all add: sarif_def Let_def sarif_cases_fold sarif_start_def summarize_def count_case_fold)

section \<open>SARIF lists every finding\<close>

definition known_index :: "category \<Rightarrow> nat option" where
  "known_index cat = amap_get (sx_index sarif_start) cat"

lemma known_category:
  "case known_index cat of None \<Rightarrow> False | Some k \<Rightarrow> k < length known_rules \<and> ri_category (known_rules ! k) = cat"
  by (cases cat; hypsubst; code_simp)

lemma known_categories:
  obtains k where "known_index cat = Some k" "k < length known_rules" "ri_category (known_rules ! k) = cat"
  using known_category [of cat] by (auto split: option.splits)

lemma sarif_findings_known:
  "sx_index st = sx_index sarif_start \<Longrightarrow>
     sx_index (foldl (sarif_finding L tx c) st fs) = sx_index sarif_start
     \<and> sx_rules (foldl (sarif_finding L tx c) st fs) = sx_rules st
     \<and> sx_results (foldl (sarif_finding L tx c) st fs)
         = sx_results st @ map (\<lambda>f. sarif_entry L tx c (the (known_index (fd_category f))) f) fs"
proof (induction fs arbitrary: st)
  case (Cons f fs)
  obtain k where k: "known_index (fd_category f) = Some k" using known_categories by blast
  then have "sarif_finding L tx c st f = st\<lparr>sx_results := sx_results st @ [sarif_entry L tx c k f]\<rparr>"
    using Cons.prems by (simp add: sarif_finding_def known_index_def)
  then show ?case using Cons.IH [of "sarif_finding L tx c st f"] Cons.prems k by simp
qed simp

lemma sarif_cases_known:
  "sx_index st = sx_index sarif_start \<Longrightarrow>
     sx_rules (foldl (sarif_case L tx) st cs) = sx_rules st
     \<and> sx_results (foldl (sarif_case L tx) st cs) = sx_results st @ concat (map (\<lambda>c.
         map (\<lambda>f. sarif_entry L tx c (the (known_index (fd_category f))) f) (rr_findings (rc_result c))) cs)"
proof (induction cs arbitrary: st)
  case (Cons c cs)
  let ?st = "sarif_case L tx st c"
  have "sx_index ?st = sx_index sarif_start \<and> sx_rules ?st = sx_rules st
      \<and> sx_results ?st = sx_results st @ map (\<lambda>f. sarif_entry L tx c (the (known_index (fd_category f))) f) (rr_findings (rc_result c))"
    using Cons.prems by (cases "not_tested (rc_result c) = []") (simp_all add: sarif_case_def Let_def sarif_findings_known)
  then show ?case using Cons.IH [of ?st] by simp
qed simp

text \<open>
  The SARIF log has one result for every finding of every case, in order, and the rule a
  result refers to exists and is the rule of its category; its level is an error exactly for
  high and critical findings.
\<close>

theorem sarif_lists_every_finding:
  "sg_results (sarif L tx v cases) = concat (map (\<lambda>c. map (\<lambda>f. sarif_entry L tx c (the (known_index (fd_category f))) f)
      (rr_findings (rc_result c))) cases)
   \<and> (\<exists>rl. sg_rules (sarif L tx v cases) ! the (known_index (fd_category f)) = rl
        \<and> the (known_index (fd_category f)) < length (sg_rules (sarif L tx v cases))
        \<and> sl_id rl = sr_rule_id (sarif_entry L tx c k f))
   \<and> (sr_level (sarif_entry L tx c k f) = ''error'' \<longleftrightarrow> SevHigh \<le> fd_severity f)"
proof (intro conjI)
  obtain i where i: "known_index (fd_category f) = Some i" "i < length known_rules" "ri_category (known_rules ! i) = fd_category f"
    using known_categories .
  have rules: "sg_rules (sarif L tx v cases) = map new_rule known_rules"
    using sarif_cases_known [of sarif_start L tx cases] by (simp add: sarif_def Let_def sarif_start_def)
  show "\<exists>rl. sg_rules (sarif L tx v cases) ! the (known_index (fd_category f)) = rl
      \<and> the (known_index (fd_category f)) < length (sg_rules (sarif L tx v cases))
      \<and> sl_id rl = sr_rule_id (sarif_entry L tx c k f)"
    using i by (simp add: rules new_rule_def sarif_entry_def)
  show "sr_level (sarif_entry L tx c k f) = ''error'' \<longleftrightarrow> SevHigh \<le> fd_severity f"
    by (cases "fd_severity f") (simp_all add: sarif_entry_def sarif_level_def less_eq_severity_def severity_rank_def)
  show "sg_results (sarif L tx v cases) = concat (map (\<lambda>c. map (\<lambda>f. sarif_entry L tx c (the (known_index (fd_category f))) f)
      (rr_findings (rc_result c))) cases)"
    using sarif_cases_known [of sarif_start L tx cases] by (simp add: sarif_def Let_def) (simp add: sarif_start_def)
qed

section \<open>Untrusted text in Markdown\<close>

definition md_special :: "char list" where
  "md_special = ''<>|*_[]'' @ [CHR 0x60, CHR 0x0A, CHR 0x0D]"

lemma md_entity_safe: "md_entity c = Some e \<Longrightarrow> set e \<inter> set md_special = {}"
  by (auto simp: md_entity_def md_special_def split: if_splits)

lemma md_entity_none: "md_entity c = None \<Longrightarrow> c \<notin> set md_special"
  by (auto simp: md_entity_def md_special_def split: if_splits)

lemma md_escape_safe: "set (md_escape w) \<inter> set md_special = {}"
proof (induction w rule: md_escape.induct)
  case (2 c cs)
  have one: "set (case md_entity c of Some e \<Rightarrow> e | None \<Rightarrow> [c]) \<inter> set md_special = {}"
    using md_entity_safe md_entity_none by (auto split: option.split)
  have sp: "CHR '' '' \<notin> set md_special" by (simp add: md_special_def)
  show ?case
  proof (cases cs)
    case (Cons d ds)
    then show ?thesis using 2 one sp by (auto simp del: md_escape.simps(2) simp: md_escape.simps(2) [of c "d # ds"])
  qed (use one in simp)
qed simp

lemma md_safe: "set (md w) \<inter> set md_special = {}"
  using md_escape_safe [of w] by (auto simp: md_def Let_def em_dash_def md_special_def)

definition cell_ok :: "string \<Rightarrow> bool" where
  "cell_ok w \<longleftrightarrow> CHR ''|'' \<notin> set w \<and> CHR 0x0A \<notin> set w"

lemma md_cell [simp]: "cell_ok (md w)"
  using md_safe [of w] by (auto simp: cell_ok_def md_special_def)

lemma cell_ok_append [simp]: "cell_ok (u @ v) \<longleftrightarrow> cell_ok u \<and> cell_ok v"
  by (auto simp: cell_ok_def)

lemma cell_ok_concat: "list_all cell_ok ws \<Longrightarrow> cell_ok sep \<Longrightarrow> cell_ok (join_with sep ws)"
  by (induction sep ws rule: join_with.induct) (simp_all, simp add: cell_ok_def)

lemma show_nat_cell: "cell_ok (show_nat n)"
proof -
  have "\<not> is_digit CHR ''|''" "\<not> is_digit CHR 0x0A" by (simp_all add: is_digit_def byte_of_def)
  then show ?thesis unfolding cell_ok_def using show_nat_digits [of _ n] by blast
qed

lemma severity_cell: "cell_ok (severity_name s)" "cell_ok (to_upper (severity_name s))"
  by (cases s; hypsubst; code_simp)+

lemma mark_cells: "cell_ok warning_sign" "cell_ok check_mark" "cell_ok cross_mark"
  by code_simp+

lemma plural_cell: "cell_ok a \<Longrightarrow> cell_ok b \<Longrightarrow> cell_ok (plural n a b)"
  using show_nat_cell [of n] by (simp add: plural_def cell_ok_def)

lemma verdict_cell: "cell_ok (case_verdict r)"
proof -
  have w: "cell_ok '' Not tested: ''" "cell_ok '' No findings; ''" "cell_ok '' No findings''" "cell_ok ''inconclusive assessment''"
    "cell_ok ''inconclusive assessments''" "cell_ok ''finding''" "cell_ok ''findings''" "cell_ok '' (worst: ''" "cell_ok '')''"
    "cell_ok '' ''"
    by code_simp+
  then show ?thesis
    by (auto simp: case_verdict_def mark_cells severity_cell plural_cell simp del: append.simps split: list.split)
qed

lemma count_cells: "list_all cell_ok cells \<Longrightarrow> cells \<noteq> [] \<Longrightarrow>
    count_list (join_with '' | '' cells) (CHR ''|'') = length cells - 1 \<and> count_list (join_with '' | '' cells) (CHR 0x0A) = 0"
proof (induction "'' | ''" cells rule: join_with.induct)
  case (2 w)
  then show ?case by (simp add: cell_ok_def count_list_0_iff)
next
  case (3 w v ws)
  then have "count_list w (CHR ''|'') = 0" "count_list w (CHR 0x0A) = 0" by (simp_all add: cell_ok_def count_list_0_iff)
  then show ?case using 3 by simp
qed simp

lemma md_row_intact:
  assumes "list_all cell_ok cells" "cells \<noteq> []"
  shows "count_list (md_row cells) (CHR ''|'') = length cells + 1 \<and> count_list (md_row cells) (CHR 0x0A) = 1"
  using count_cells [OF assms] assms(2) by (cases cells) (simp_all add: md_row_def newline_def)

text \<open>
  C31. Text the target chose cannot break out of a cell of the Markdown report: a cell holds no
  character that ends it or that renders as markup, and every row of every table has exactly its
  columns and one line, whatever the messages, evidence, names and errors are.
\<close>

theorem markdown_rows_are_intact:
  "set (md w) \<inter> set md_special = {}
   \<and> count_list (case_row c) (CHR ''|'') = 4 \<and> count_list (case_row c) (CHR 0x0A) = 1
   \<and> count_list (assessment_row c a) (CHR ''|'') = 8 \<and> count_list (assessment_row c a) (CHR 0x0A) = 1
   \<and> count_list (finding_row tx c f) (CHR ''|'') = 6 \<and> count_list (finding_row tx c f) (CHR 0x0A) = 1
   \<and> count_list (inconclusive_row c a) (CHR ''|'') = 5 \<and> count_list (inconclusive_row c a) (CHR 0x0A) = 1"
proof -
  let ?detail = "md (tx_message tx (fd_message f)) @ (if fd_evidence f \<noteq> []
       then ''<br>'' @ join_with ''<br>'' (map (\<lambda>e. md (tx_evidence tx e)) (fd_evidence f)) else [])"
  have br: "cell_ok ''<br>''" by code_simp
  have "list_all cell_ok (map (\<lambda>e. md (tx_evidence tx e)) (fd_evidence f))" by (simp add: list_all_iff)
  from cell_ok_concat [OF this br] md_cell [of "tx_message tx (fd_message f)"] have "cell_ok ?detail"
    by (simp add: cell_ok_def)
  then show ?thesis
    using md_safe [of w] verdict_cell [of "rc_result c"] severity_cell(2) [of "fd_severity f"]
      md_row_intact [of "[md (rr_test_case (rc_result c)), md (rc_source c), case_verdict (rc_result c)]"]
      md_row_intact [of "[md (rr_test_case (rc_result c)), md (as_identity a), md (access_name (as_expected a)),
         md (assessed_name (as_decision a)), md (recorded (cred_status_name (as_credential a))),
         md (recorded (write_status_name (as_write a))), md (md_evidence a)]"]
      md_row_intact [of "[to_upper (severity_name (fd_severity f)), md (category_name (fd_category f)),
         md (rr_test_case (rc_result c)), md (fd_identity f), ?detail]"]
      md_row_intact [of "[md (rr_test_case (rc_result c)), md (as_identity a), md (access_name (as_expected a)),
         md (why_inconclusive (as_reason a))]"]
    by (simp add: case_row_def assessment_row_def finding_row_def inconclusive_row_def)
qed

end
