(* ===== verification/Suite.thy ===== *)
theory Suite
  imports Policy
begin

text \<open>
  \<open>internal/suite/suite.go\<close>: many policies bound to one environment and compiled together. Reading a
  file, joining paths and decoding the documents are parameters; the identities files that
  were read are cached, as in the code.
\<close>

record suite_entry =
  en_policy :: string
  en_params :: "(string \<times> string) list"
  en_tenant :: string
  en_id :: string
  en_identities :: string

record suite =
  su_profiles :: "(string \<times> denial_profile) list"
  su_require_preflight :: bool
  su_fail_on_inconclusive :: bool
  su_base :: string
  su_identities :: string
  su_policies :: "suite_entry list"

record suite_case =
  sc_source :: string
  sc_test_case :: test_case

record suite_options =
  so_profiles :: "(string \<times> denial_profile) list"
  so_require_preflight :: "bool option"
  so_base_override :: string
  so_allow_mutating :: bool

text \<open>
  The outside: file contents, \<open>filepath.Join\<close>, the YAML decoders (strict ones for a suite and a
  policy, the reading of a boolean), the JSON decoder of an identities file, the environment.
\<close>

record files =
  fi_read :: "string \<Rightarrow> string option"
  fi_join :: "string \<Rightarrow> string \<Rightarrow> string"
  fi_suite :: "string \<Rightarrow> suite option"
  fi_policy :: "string \<Rightarrow> policy option"
  fi_identities :: "string \<Rightarrow> identity list option"
  fi_bool :: "string \<Rightarrow> bool option"
  fi_env :: "string \<Rightarrow> string"

datatype entry_error = EntryPolicyRequired | EntryUnreadable string | EntryPolicyError policy_error
  | EntryParam string expand_error | EntryTenant expand_error | EntryNoIdentities
  | EntryVerifierRole string | EntryMissingRoles "string list" | EntryDuplicateId string nat

datatype suite_error = SuiteUnreadable | SuiteParse | SuiteEmpty | SuiteBase expand_error | SuiteNoBase
  | SuiteProblems "(nat \<times> string \<times> entry_error) list"

definition load_suite :: "files \<Rightarrow> string \<Rightarrow> suite_error + suite" where
  "load_suite F path = (case fi_read F path of None \<Rightarrow> Inl SuiteUnreadable
     | Some data \<Rightarrow> (case fi_suite F data of None \<Rightarrow> Inl SuiteParse
       | Some s \<Rightarrow> if su_policies s = [] then Inl SuiteEmpty else Inr s))"

text \<open>\<open>policy.Load\<close> and \<open>policy.LoadIdentities\<close>.\<close>

definition load_policy :: "files \<Rightarrow> string \<Rightarrow> entry_error + policy" where
  "load_policy F path = (case fi_read F path of None \<Rightarrow> Inl (EntryUnreadable path)
     | Some data \<Rightarrow> map_err EntryPolicyError (parse_policy (fi_policy F) data))"

definition load_identities :: "files \<Rightarrow> string \<Rightarrow> entry_error + identity list" where
  "load_identities F path = (case fi_read F path of None \<Rightarrow> Inl (EntryUnreadable path)
     | Some data \<Rightarrow> map_err EntryPolicyError (parse_identities (fi_identities F) (fi_env F) data))"

text \<open>The identities files read so far.\<close>

type_synonym id_cache = "(string \<times> identity list) list"

definition cached_identities :: "files \<Rightarrow> string \<Rightarrow> string \<Rightarrow> id_cache \<Rightarrow> (entry_error + identity list) \<times> id_cache" where
  "cached_identities F dir rel cache =
     (if rel = [] then (Inl EntryNoIdentities, cache)
      else let path = fi_join F dir rel in
        case amap_get cache path of
          Some ids \<Rightarrow> (Inr ids, cache)
        | None \<Rightarrow> (case load_identities F path of
              Inl e \<Rightarrow> (Inl e, cache)
            | Inr ids \<Rightarrow> (Inr ids, amap_put path ids cache)))"

definition bind_roles :: "policy \<Rightarrow> identity list \<Rightarrow> entry_error + identity list" where
  "bind_roles p ids =
     (let verifier = verifier_role p;
          bound = filter (\<lambda>i. amap_get (po_expect p) (id_role i) \<noteq> None \<or> verifier \<noteq> [] \<and> id_role i = verifier) ids;
          have_roles = map id_role bound;
          missing = filter (\<lambda>r. r \<notin> set have_roles) (map fst (po_expect p))
      in if verifier \<noteq> [] \<and> verifier \<notin> set have_roles then Inl (EntryVerifierRole verifier)
         else if missing \<noteq> [] then Inl (EntryMissingRoles (sort missing))
         else Inr bound)"

definition first_non_empty :: "string list \<Rightarrow> string" where
  "first_non_empty ws = (case List.find (\<lambda>w. w \<noteq> []) ws of None \<Rightarrow> [] | Some w \<Rightarrow> w)"

definition expand_params :: "(string \<Rightarrow> string) \<Rightarrow> (string \<times> string) list \<Rightarrow> entry_error + (string \<times> string) list" where
  "expand_params env ps = map_res (\<lambda>(n, v). bind_res (map_err (EntryParam n) (expand env v)) (\<lambda>w. Inr (n, w))) ps"

text \<open>What an entry compiles to, once its identities file is known.\<close>

definition compile_bound :: "files \<Rightarrow> string \<Rightarrow> suite_options \<Rightarrow> suite_entry \<Rightarrow> string \<Rightarrow> policy \<Rightarrow> (string \<times> string) list
    \<Rightarrow> string \<Rightarrow> identity list \<Rightarrow> entry_error + suite_case" where
  "compile_bound F base opts e source p params tenant ids =
     bind_res (bind_roles p ids) (\<lambda>bound.
     bind_res (map_err EntryPolicyError (compile_policy (fi_bool F) (fi_env F) p
        \<lparr>bi_profiles = so_profiles opts, bi_require_preflight = (so_require_preflight opts = Some True),
         bi_test_case_id = en_id e, bi_base_url = base, bi_params = params, bi_identities = bound,
         bi_resource_tenant = tenant, bi_allow_mutating = so_allow_mutating opts\<rparr>)) (\<lambda>tc.
       Inr \<lparr>sc_source = source, sc_test_case = tc\<rparr>))"

definition compile_entry :: "files \<Rightarrow> string \<Rightarrow> string \<Rightarrow> string \<Rightarrow> suite_options \<Rightarrow> suite_entry \<Rightarrow> id_cache
    \<Rightarrow> (entry_error + suite_case) \<times> id_cache" where
  "compile_entry F dir base defaults opts e cache =
     (if en_policy e = [] then (Inl EntryPolicyRequired, cache)
      else let source = fi_join F dir (en_policy e) in
        case bind_res (load_policy F source) (\<lambda>p.
             bind_res (expand_params (fi_env F) (en_params e)) (\<lambda>params.
             bind_res (map_err EntryTenant (expand (fi_env F) (en_tenant e))) (\<lambda>tenant. Inr (p, params, tenant)))) of
          Inl err \<Rightarrow> (Inl err, cache)
        | Inr (p, params, tenant) \<Rightarrow>
            (case cached_identities F dir (first_non_empty [en_identities e, defaults]) cache of
               (Inl err, cache') \<Rightarrow> (Inl err, cache')
             | (Inr ids, cache') \<Rightarrow> (compile_bound F base opts e source p params tenant ids, cache')))"

text \<open>The loop over the entries: the cases, the problems, the identifiers seen and the cache.\<close>

record suite_state =
  ss_cases :: "suite_case list"
  ss_problems :: "(nat \<times> string \<times> entry_error) list"
  ss_seen :: "(string \<times> nat) list"
  ss_cache :: id_cache

definition suite_step :: "files \<Rightarrow> string \<Rightarrow> string \<Rightarrow> string \<Rightarrow> suite_options \<Rightarrow> suite_state \<Rightarrow> nat \<times> suite_entry \<Rightarrow> suite_state" where
  "suite_step F dir base defaults opts st ke = (case ke of (k, e) \<Rightarrow>
     (case compile_entry F dir base defaults opts e (ss_cache st) of
        (Inl err, cache) \<Rightarrow> st\<lparr>ss_problems := ss_problems st @ [(k, en_policy e, err)], ss_cache := cache\<rparr>
      | (Inr c, cache) \<Rightarrow>
          (case amap_get (ss_seen st) (tc_id (sc_test_case c)) of
             Some prev \<Rightarrow> st\<lparr>ss_problems := ss_problems st @ [(k, en_policy e, EntryDuplicateId (tc_id (sc_test_case c)) prev)],
                             ss_cache := cache\<rparr>
           | None \<Rightarrow> st\<lparr>ss_seen := amap_put (tc_id (sc_test_case c)) k (ss_seen st), ss_cases := ss_cases st @ [c],
                        ss_cache := cache\<rparr>)))"

definition compile_suite :: "files \<Rightarrow> string \<Rightarrow> suite_options \<Rightarrow> suite \<Rightarrow> suite_error + suite_case list" where
  "compile_suite F dir opts s =
     (let opts = opts\<lparr>so_profiles := su_profiles s,
            so_require_preflight := (case so_require_preflight opts of None \<Rightarrow> Some (su_require_preflight s) | Some b \<Rightarrow> Some b)\<rparr>;
          base = (if so_base_override opts \<noteq> [] then so_base_override opts else su_base s) in
      bind_res (map_err SuiteBase (expand (fi_env F) base)) (\<lambda>base.
      bind_res (guard_err (trim_space base = []) SuiteNoBase) (\<lambda>_.
        let st = foldl (suite_step F dir base (su_identities s) opts)
                   \<lparr>ss_cases = [], ss_problems = [], ss_seen = [], ss_cache = []\<rparr> (enum_list (su_policies s)) in
        if ss_problems st \<noteq> [] then Inl (SuiteProblems (ss_problems st)) else Inr (ss_cases st))))"

section \<open>A compiled suite\<close>

lemma bind_roles_eq:
  assumes "bind_roles p ids = Inr bound"
  shows "bound = filter (\<lambda>i. amap_get (po_expect p) (id_role i) \<noteq> None \<or> verifier_role p \<noteq> [] \<and> id_role i = verifier_role p) ids"
    and "filter (\<lambda>r. r \<notin> set (map id_role bound)) (map fst (po_expect p)) = []"
  using assms unfolding bind_roles_def Let_def by (simp split: if_split_asm, hypsubst?, clarsimp split: if_split_asm)

lemma bind_roles_Inr:
  assumes "bind_roles p ids = Inr bound"
  shows "\<forall>r\<in>fst ` set (po_expect p). \<exists>i\<in>set bound. id_role i = r"
    and "\<forall>i\<in>set bound. id_role i \<in> fst ` set (po_expect p) \<or> verifier_role p \<noteq> [] \<and> id_role i = verifier_role p"
proof -
  show "\<forall>r\<in>fst ` set (po_expect p). \<exists>i\<in>set bound. id_role i = r"
  proof
    fix r assume "r \<in> fst ` set (po_expect p)"
    then have "r \<in> set (map fst (po_expect p))" by simp
    then have "r \<in> set (map id_role bound)" using bind_roles_eq(2) [OF assms] unfolding filter_empty_conv by blast
    then show "\<exists>i\<in>set bound. id_role i = r" by auto
  qed
  show "\<forall>i\<in>set bound. id_role i \<in> fst ` set (po_expect p) \<or> verifier_role p \<noteq> [] \<and> id_role i = verifier_role p"
    using bind_roles_eq(1) [OF assms] amap_get_None_iff [of "po_expect p"] by auto
qed

text \<open>What the case of an entry tests: every role its policy decides on.\<close>

definition tests_every_role :: "policy \<Rightarrow> test_case \<Rightarrow> bool" where
  "tests_every_role p tc \<longleftrightarrow>
     (\<forall>r\<in>fst ` set (po_expect p). \<exists>i\<in>set (tc_identities tc). id_role i = r)
     \<and> (\<forall>i\<in>set (tc_identities tc). id_role i \<in> fst ` set (po_expect p))"

lemma compile_bound_roles:
  assumes "compile_bound F base opts e source p params tenant ids = Inr c"
  shows "sc_source c = source \<and> tests_every_role p (sc_test_case c)"
proof -
  obtain bound where b: "bind_roles p ids = Inr bound"
    and c: "compile_policy (fi_bool F) (fi_env F) p
        \<lparr>bi_profiles = so_profiles opts, bi_require_preflight = (so_require_preflight opts = Some True),
         bi_test_case_id = en_id e, bi_base_url = base, bi_params = params, bi_identities = bound,
         bi_resource_tenant = tenant, bi_allow_mutating = so_allow_mutating opts\<rparr> = Inr (sc_test_case c)"
    and s: "sc_source c = source"
    using assms by (auto simp: compile_bound_def bind_res_eq_Inr)
  from c obtain executed wv where v: "compile_verify (fi_bool F) (fi_env F) p
        \<lparr>bi_profiles = so_profiles opts, bi_require_preflight = (so_require_preflight opts = Some True),
         bi_test_case_id = en_id e, bi_base_url = base, bi_params = params, bi_identities = bound,
         bi_resource_tenant = tenant, bi_allow_mutating = so_allow_mutating opts\<rparr> = Inr (executed, wv)"
    and ids: "tc_identities (sc_test_case c) = executed"
    by (rule compile_policy_Inr) blast
  have "(\<forall>r\<in>fst ` set (po_expect p). \<exists>i\<in>set executed. id_role i = r)
    \<and> (\<forall>i\<in>set executed. id_role i \<in> fst ` set (po_expect p))"
  proof (cases "po_verify p")
    case None
    then have "executed = bound" "verifier_role p = []" using compile_verify_Inr [OF v] by (simp_all add: verifier_role_def)
    then show ?thesis using bind_roles_Inr [OF b] by simp
  next
    case (Some x)
    then have e: "executed = filter (\<lambda>i. id_role i \<noteq> verifier_role p) bound" "verifier_role p \<notin> fst ` set (po_expect p)"
      using compile_verify_Inr [OF v] by (auto simp: amap_get_None_iff)
    have "\<exists>i\<in>set executed. id_role i = r" if r: "r \<in> fst ` set (po_expect p)" for r
    proof -
      obtain i where "i \<in> set bound" "id_role i = r" using bind_roles_Inr(1) [OF b] r by blast
      moreover have "r \<noteq> verifier_role p" using r e(2) by blast
      ultimately show ?thesis using e(1) by auto
    qed
    moreover have "\<forall>i\<in>set executed. id_role i \<in> fst ` set (po_expect p)" using bind_roles_Inr(2) [OF b] e(1) by auto
    ultimately show ?thesis by blast
  qed
  then show ?thesis using s ids by (simp add: tests_every_role_def)
qed

text \<open>The entry a case was compiled from.\<close>

definition case_of_entry :: "files \<Rightarrow> string \<Rightarrow> suite_entry \<Rightarrow> suite_case \<Rightarrow> bool" where
  "case_of_entry F dir e c \<longleftrightarrow> sc_source c = fi_join F dir (en_policy e)
     \<and> (\<exists>p. load_policy F (sc_source c) = Inr p \<and> tests_every_role p (sc_test_case c))"

lemma compile_entry_case:
  "compile_entry F dir base defaults opts e cache = (Inr c, cache') \<Longrightarrow> case_of_entry F dir e c"
  by (auto simp: compile_entry_def Let_def bind_res_eq_Inr case_of_entry_def dest!: compile_bound_roles
      split: if_splits sum.splits prod.splits)

lemma suite_step_problems: "ss_problems (suite_step F dir base defaults opts st ke) = [] \<Longrightarrow> ss_problems st = []"
  by (auto simp: suite_step_def split: prod.splits sum.splits option.splits)

lemma suite_fold_problems:
  "ss_problems (foldl (suite_step F dir base defaults opts) st kes) = [] \<Longrightarrow> ss_problems st = []"
  by (induction kes arbitrary: st) (auto dest: suite_step_problems)

definition suite_inv :: "files \<Rightarrow> string \<Rightarrow> suite_entry list \<Rightarrow> suite_state \<Rightarrow> bool" where
  "suite_inv F dir es st \<longleftrightarrow> list_all2 (case_of_entry F dir) es (ss_cases st)
     \<and> distinct (map (\<lambda>c. tc_id (sc_test_case c)) (ss_cases st))
     \<and> fst ` set (ss_seen st) = set (map (\<lambda>c. tc_id (sc_test_case c)) (ss_cases st))"

lemma suite_step_inv:
  assumes "suite_inv F dir es st" "ss_problems (suite_step F dir base defaults opts st (k, e)) = []"
  shows "suite_inv F dir (es @ [e]) (suite_step F dir base defaults opts st (k, e))"
proof -
  obtain r cache where r: "compile_entry F dir base defaults opts e (ss_cache st) = (r, cache)" by (metis surj_pair)
  then obtain c where c: "r = Inr c" using assms(2) by (cases r) (simp_all add: suite_step_def)
  then have new: "tc_id (sc_test_case c) \<notin> fst ` set (ss_seen st)"
    using assms(2) r by (auto simp: suite_step_def amap_get_None_iff [symmetric] split: option.splits)
  then have "amap_get (ss_seen st) (tc_id (sc_test_case c)) = None" by (simp add: amap_get_None_iff)
  then have "suite_step F dir base defaults opts st (k, e) = st\<lparr>ss_seen := amap_put (tc_id (sc_test_case c)) k (ss_seen st),
      ss_cases := ss_cases st @ [c], ss_cache := cache\<rparr>"
    using r c by (simp add: suite_step_def)
  then show ?thesis
    using assms(1) new compile_entry_case [OF r [unfolded c]] by (auto simp: suite_inv_def list_all2_appendI)
qed

lemma suite_fold_inv:
  "suite_inv F dir es st \<Longrightarrow> ss_problems (foldl (suite_step F dir base defaults opts) st kes) = [] \<Longrightarrow>
     suite_inv F dir (es @ map snd kes) (foldl (suite_step F dir base defaults opts) st kes)"
proof (induction kes arbitrary: st es)
  case (Cons ke kes)
  obtain k e where ke: "ke = (k, e)" by force
  have "ss_problems (suite_step F dir base defaults opts st ke) = []" using Cons.prems(2) suite_fold_problems by simp
  from suite_step_inv [OF Cons.prems(1), of base defaults opts k e] this
  have "suite_inv F dir (es @ [e]) (suite_step F dir base defaults opts st ke)" by (simp add: ke)
  from Cons.IH [OF this] Cons.prems(2) show ?case by (simp add: ke)
qed simp

text \<open>
  C27. A suite that compiles leaves no control untested: there is one case for each entry, in
  order and with distinct identifiers, and the case of an entry runs an identity for every role
  its policy decides on, and none for any other role. One problem in any entry and nothing runs.
\<close>

theorem compiled_suite_tests_every_role:
  assumes "compile_suite F dir opts s = Inr cases"
  shows "list_all2 (case_of_entry F dir) (su_policies s) cases
    \<and> distinct (map (\<lambda>c. tc_id (sc_test_case c)) cases)"
proof -
  let ?o = "opts\<lparr>so_profiles := su_profiles s,
    so_require_preflight := (case so_require_preflight opts of None \<Rightarrow> Some (su_require_preflight s) | Some b \<Rightarrow> Some b)\<rparr>"
  let ?st = "\<lparr>ss_cases = [], ss_problems = [], ss_seen = [], ss_cache = []\<rparr>"
  obtain base where "ss_problems (foldl (suite_step F dir base (su_identities s) ?o) ?st (enum_list (su_policies s))) = []"
    "cases = ss_cases (foldl (suite_step F dir base (su_identities s) ?o) ?st (enum_list (su_policies s)))"
    using assms by (auto simp: compile_suite_def Let_def bind_res_eq_Inr split: if_splits)
  moreover have "suite_inv F dir [] ?st" by (simp add: suite_inv_def)
  ultimately show ?thesis
    using suite_fold_inv [of F dir "[]" ?st base "su_identities s" ?o "enum_list (su_policies s)"]
    by (simp add: suite_inv_def)
qed

definition sample_files :: files where
  "sample_files = \<lparr>fi_read = Some, fi_join = (\<lambda>d f. d @ ''/'' @ f), fi_suite = \<lambda>_. None, fi_policy = \<lambda>_. Some sample_policy,
     fi_identities = \<lambda>_. Some [sample_bound ''a'' ''owner'', sample_bound ''b'' ''other'', sample_bound ''v'' ''auditor'',
       sample_bound ''x'' ''guest''], fi_bool = \<lambda>_. None, fi_env = \<lambda>_. ''s''\<rparr>"

definition sample_suite :: suite where
  "sample_suite = \<lparr>su_profiles = [], su_require_preflight = False, su_fail_on_inconclusive = False,
     su_base = ''http://h/'', su_identities = ''ids'',
     su_policies = [\<lparr>en_policy = ''p'', en_params = [(''id'', ''7'')], en_tenant = [], en_id = [], en_identities = []\<rparr>]\<rparr>"

definition sample_options :: suite_options where
  "sample_options = \<lparr>so_profiles = [], so_require_preflight = Some False, so_base_override = [], so_allow_mutating = False\<rparr>"

lemma sample_entry_compiles:
  "case compile_entry sample_files ''d'' ''http://h/'' ''ids'' sample_options (hd (su_policies sample_suite)) [] of
     (r, c) \<Rightarrow> \<not> isl r"
  by code_simp

lemma sample_suite_compiles: "\<exists>c. compile_suite sample_files ''d'' sample_options sample_suite = Inr [c]"
proof -
  obtain c cache where c: "compile_entry sample_files ''d'' ''http://h/'' ''ids'' sample_options (hd (su_policies sample_suite)) []
      = (Inr c, cache)"
    using sample_entry_compiles by (auto split: prod.splits) (metis isl_def obj_sumE)
  have "expand (fi_env sample_files) ''http://h/'' = Inr ''http://h/''" "trim_space ''http://h/'' \<noteq> []" by code_simp+
  moreover have "enum_list (su_policies sample_suite) = [(0, hd (su_policies sample_suite))]"
    by (simp add: sample_suite_def enum_list_def)
  moreover have "sample_options\<lparr>so_profiles := su_profiles sample_suite, so_require_preflight := Some False\<rparr> = sample_options"
    "so_require_preflight sample_options = Some False" "so_base_override sample_options = []" "su_base sample_suite = ''http://h/''"
    "su_identities sample_suite = ''ids''"
    by (simp_all add: sample_options_def sample_suite_def)
  ultimately show ?thesis using c by (simp add: compile_suite_def Let_def suite_step_def amap_get_def guard_err_def)
qed

lemma compiled_suite_tests_every_role_witness:
  "\<exists>c. compile_suite sample_files ''d'' sample_options sample_suite = Inr [c]
     \<and> case_of_entry sample_files ''d'' (hd (su_policies sample_suite)) c"
proof -
  obtain c where c: "compile_suite sample_files ''d'' sample_options sample_suite = Inr [c]"
    using sample_suite_compiles by blast
  have "su_policies sample_suite = [hd (su_policies sample_suite)]" by (simp add: sample_suite_def)
  then show ?thesis using compiled_suite_tests_every_role [OF c] c by (metis list_all2_Cons2 list.inject list_all2_Nil2)
qed

end
