(* ===== verification/Regression.thy ===== *)
theory Regression
  imports Engine
begin

text \<open>
  \<open>cmd/vardrgate/regression.go\<close> and \<open>input_digest.go\<close>: the digest that binds a result to the case it
  was run from, and the checks before a confirmed finding is saved as a regression: a portable
  case holds references where secrets would be, and the finding contradicts a reviewed expectation.
  Typed JSON decoding and the rendering of a case are parameters.
\<close>

section \<open>References instead of secrets\<close>

definition secret_names :: "string list" where
  "secret_names = [''authorization'', ''cookie'', ''setcookie'', ''password'', ''passwd'', ''secret'', ''token'', ''accesstoken'',
     ''refreshtoken'', ''authtoken'', ''apikey'', ''xapikey'', ''clientsecret'']"

definition secret_key :: "string \<Rightarrow> bool" where
  "secret_key k \<longleftrightarrow> to_lower (filter (\<lambda>c. c \<noteq> CHR ''_'' \<and> c \<noteq> CHR ''-'') k) \<in> set secret_names"

definition is_letter :: "char \<Rightarrow> bool" where
  "is_letter c \<longleftrightarrow> is_upper c \<or> is_lower c \<or> c = CHR ''_''"

definition ref_name :: "string \<Rightarrow> bool" where
  "ref_name n \<longleftrightarrow> (case n of [] \<Rightarrow> False | c # cs \<Rightarrow> is_letter c \<and> list_all (\<lambda>d. is_letter d \<or> is_digit d) cs)"

text \<open>The expression \<open>secretReference\<close>: an optional scheme, and one reference with nothing around it.\<close>

definition drop_scheme :: "string \<Rightarrow> string" where
  "drop_scheme s = (if has_prefix s ''Bearer '' then drop 7 s else if has_prefix s ''Basic '' then drop 6 s else s)"

definition secret_reference :: "string \<Rightarrow> bool" where
  "secret_reference s \<longleftrightarrow> (let t = drop_scheme s in
     has_prefix t ''${'' \<and> has_suffix t ''}'' \<and> ref_name (drop 2 (butlast t))
     \<or> has_prefix t ''{{'' \<and> has_suffix t ''}}'' \<and> ref_name (drop 2 (butlast (butlast t))))"

definition reference_value :: "gval \<Rightarrow> bool" where
  "reference_value v \<longleftrightarrow> (case v of GStr s \<Rightarrow> secret_reference s | _ \<Rightarrow> False)"

text \<open>A value that holds, at any depth, a member with a secret name and no reference.\<close>

fun sensitive :: "gval \<Rightarrow> bool"
and sensitive_elems :: "gval list \<Rightarrow> bool"
and sensitive_members :: "(string \<times> gval) list \<Rightarrow> bool" where
  "sensitive (GObj ps) = sensitive_members ps"
| "sensitive (GArr vs) = sensitive_elems vs"
| "sensitive _ = False"
| "sensitive_elems [] = False"
| "sensitive_elems (v # vs) = (sensitive v \<or> sensitive_elems vs)"
| "sensitive_members [] = False"
| "sensitive_members ((k, v) # ps) = (secret_key k \<and> \<not> reference_value v \<or> sensitive v \<or> sensitive_members ps)"

datatype portable_error = LiteralCredential | UrlCredentials | LiteralSecret | SecretBody

definition case_principals :: "test_case \<Rightarrow> identity list" where
  "case_principals tc = tc_identities tc @ (case tc_verification tc of None \<Rightarrow> [] | Some wv \<Rightarrow> [wv_identity wv])"

definition case_requests :: "test_case \<Rightarrow> request_template list" where
  "case_requests tc = tc_request tc # map ss_request (tc_setup tc)
     @ (case tc_verification tc of None \<Rightarrow> []
        | Some wv \<Rightarrow> wv_request wv # (case wv_reset wv of None \<Rightarrow> [] | Some s \<Rightarrow> [ss_request s]))"

definition literal_pair :: "string \<times> string \<Rightarrow> bool" where
  "literal_pair kv \<longleftrightarrow> secret_key (fst kv) \<and> \<not> secret_reference (snd kv)"

definition portable_request :: "golib \<Rightarrow> request_template \<Rightarrow> portable_error + unit" where
  "portable_request L rq = (case gl_url_parse L (rq_url rq) of
       None \<Rightarrow> Inl UrlCredentials
     | Some u \<Rightarrow>
         bind_res (guard_err (u_has_user u) UrlCredentials) (\<lambda>_.
         bind_res (guard_err (list_ex (\<lambda>(k, vs). list_ex (\<lambda>v. literal_pair (k, v)) vs) (parse_query (u_raw_query u))) LiteralSecret) (\<lambda>_.
         bind_res (guard_err (list_ex literal_pair (rq_headers rq) \<or> list_ex literal_pair (rq_query rq)) LiteralSecret) (\<lambda>_.
           guard_err (rq_body rq \<noteq> [] \<and> (case unmarshal_any (gl_float L) (rq_body rq) of None \<Rightarrow> True | Some v \<Rightarrow> sensitive v))
             SecretBody))))"

definition portable_regression :: "golib \<Rightarrow> test_case \<Rightarrow> portable_error + unit" where
  "portable_regression L tc =
     bind_res (guard_err (list_ex (\<lambda>i. \<not> sends_no_auth (id_credential i) \<and> \<not> secret_reference (cr_value (id_credential i)))
       (case_principals tc)) LiteralCredential) (\<lambda>_.
     iter_res (portable_request L) (case_requests tc))"

section \<open>Templates and their digests\<close>

text \<open>\<open>json.Compact\<close>: white space outside strings is dropped. The flag says whether inside one.\<close>

fun compact_from :: "bool \<Rightarrow> string \<Rightarrow> string" where
  "compact_from q [] = []"
| "compact_from False (c # cs) =
     (if is_json_space c then compact_from False cs else c # compact_from (c = CHR 0x22) cs)"
| "compact_from True (c # cs) =
     (if c = CHR 0x5C then (case cs of [] \<Rightarrow> [c] | d # ds \<Rightarrow> c # d # compact_from True ds)
      else c # compact_from (c \<noteq> CHR 0x22) cs)"

definition input_digest :: "golib \<Rightarrow> string \<Rightarrow> string" where
  "input_digest L raw = (if json_valid raw
     then ''sha256-json-compact-v1:'' @ gl_sha256 L (compact_from False raw) else [])"

text \<open>
  The elements of a compact array as texts, after its opening bracket: how many containers are
  open, whether inside a string, and the element so far in reverse.
\<close>

fun raw_items :: "nat \<Rightarrow> bool \<Rightarrow> string \<Rightarrow> string \<Rightarrow> string list" where
  "raw_items d q acc [] = []"
| "raw_items d True acc (c # cs) =
     (if c = CHR 0x5C then (case cs of [] \<Rightarrow> [] | e # es \<Rightarrow> raw_items d True (e # c # acc) es)
      else raw_items d (c \<noteq> CHR 0x22) (c # acc) cs)"
| "raw_items d False acc (c # cs) =
     (if c = CHR '']'' \<and> d = 0 then (if acc = [] then [] else [rev acc])
      else if c = CHR '','' \<and> d = 0 then rev acc # raw_items 0 False [] cs
      else raw_items (if c = CHR ''['' \<or> c = CHR ''{'' then d + 1 else if c = CHR '']'' \<or> c = CHR ''}'' then d - 1 else d)
             (c = CHR 0x22) (c # acc) cs)"

datatype template_error = NotCases | NoCases | NotCase | DuplicateCase string

definition raw_cases :: "string \<Rightarrow> template_error + string list" where
  "raw_cases data = (case json_parse data of
       Some (JArr _) \<Rightarrow> Inr (raw_items 0 False [] (tl (compact_from False data)))
     | Some JNull \<Rightarrow> Inr []
     | Some (JObj _) \<Rightarrow> Inr [data]
     | _ \<Rightarrow> Inl NotCases)"

text \<open>One template: the cases so far and the digests of the portable ones.\<close>

definition add_template :: "golib \<Rightarrow> (string \<Rightarrow> test_case option) \<Rightarrow> test_case list \<times> (string \<times> string) list \<Rightarrow> string
    \<Rightarrow> template_error + test_case list \<times> (string \<times> string) list" where
  "add_template L decode acc item = (case decode item of
       None \<Rightarrow> Inl NotCase
     | Some tc \<Rightarrow>
         if trim_space item = ''null'' then Inl NotCase
         else if tc_id tc \<in> tc_id ` set (fst acc) then Inl (DuplicateCase (tc_id tc))
         else Inr (fst acc @ [tc], if portable_regression L tc = Inr ()
           then amap_put (tc_id tc) (input_digest L item) (snd acc) else snd acc))"

definition case_templates :: "golib \<Rightarrow> (string \<Rightarrow> test_case option) \<Rightarrow> string
    \<Rightarrow> template_error + test_case list \<times> (string \<times> string) list" where
  "case_templates L decode data =
     bind_res (raw_cases data) (\<lambda>raw.
     bind_res (guard_err (raw = []) NoCases) (\<lambda>_. fold_res (add_template L decode) ([], []) raw))"

definition digest_of :: "(string \<times> string) list \<Rightarrow> string \<Rightarrow> string" where
  "digest_of ds i = (case amap_get ds i of None \<Rightarrow> [] | Some d \<Rightarrow> d)"

section \<open>Saving a regression\<close>

definition relevant_finding :: "test_case \<Rightarrow> run_result \<Rightarrow> finding \<Rightarrow> bool" where
  "relevant_finding tc r f =
     (let same = (\<lambda>i. id_id i = fd_identity f);
          expected = filter (\<lambda>e. ea_identity e = fd_identity f) (tc_expected tc) in
      case filter same (tc_identities tc) of
        [] \<Rightarrow> False
      | i0 # is \<Rightarrow>
          let i = last (i0 # is) in
          if \<not> list_ex (\<lambda>ex. er_identity ex = fd_identity f) (rr_executions r) then False
          else case expected of
            [ea] \<Rightarrow>
              if ea_decision ea = DSkip then False
              else (case fd_category f of
                  AuthorizationMismatch \<Rightarrow> ea_decision ea = DAllow
                | UnexpectedAccess \<Rightarrow> ea_decision ea = DDeny
                | MissingAuthentication \<Rightarrow> ea_decision ea = DDeny \<and> sends_no_auth (id_credential i)
                | PotentialBOLA \<Rightarrow> ea_decision ea = DDeny
                    \<and> (case tc_resource tc of None \<Rightarrow> False | Some rs \<Rightarrow> rs_owner rs \<noteq> [] \<and> rs_owner rs \<noteq> id_id i)
                | CrossTenantAccess \<Rightarrow> ea_decision ea = DDeny
                    \<and> (case tc_resource tc of None \<Rightarrow> False | Some rs \<Rightarrow> rs_tenant rs \<noteq> [] \<or> rs_tenant_field rs \<noteq> [])
                | PrivilegeEscalation \<Rightarrow> ea_decision ea = DDeny
                    \<and> (case tc_resource tc of None \<Rightarrow> False | Some rs \<Rightarrow> rs_required_role rs \<noteq> []) \<and> tc_role_hierarchy tc \<noteq> []
                | SensitiveDataExposure \<Rightarrow> ea_forbid_sensitive ea
                | ObjectPropertyExposure \<Rightarrow> ea_forbid_sensitive ea
                | CORSMisconfiguration \<Rightarrow> (case tc_cors tc of None \<Rightarrow> False | Some org \<Rightarrow> org \<noteq> []))
          | _ \<Rightarrow> False)"

record save_flags =
  sf_cases :: string
  sf_result :: string
  sf_case :: string
  sf_out :: string
  sf_confirmed :: bool
  sf_allow_unbound :: bool

text \<open>What is written: the portable case as text and the manifest beside it.\<close>

record regression =
  rg_spec :: string
  rg_case_id :: string
  rg_spec_sha256 :: string
  rg_binding :: string
  rg_source_digest :: string

text \<open>The outside: files, the decoders of a case, of a list of results and of one, the renderer.\<close>

record save_env =
  sv_read :: "string \<Rightarrow> string option"
  sv_case :: "string \<Rightarrow> test_case option"
  sv_results :: "string \<Rightarrow> run_result list option"
  sv_result :: "string \<Rightarrow> run_result option"
  sv_marshal :: "test_case list \<Rightarrow> string"

datatype save_error = SaveFlags | SaveRead string | SaveTemplates template_error | SaveCaseTwice | SaveNoCase
  | SaveNoExpectations | SaveUnreviewed | SavePortable portable_error | SaveResultJson | SaveResultTwice
  | SaveNoResult | SaveUnbound | SaveDigestMismatch | SaveIrrelevant

definition the_only :: "'e \<Rightarrow> 'e \<Rightarrow> ('a \<Rightarrow> bool) \<Rightarrow> 'a list \<Rightarrow> 'e + 'a" where
  "the_only none many P xs = (case filter P xs of [] \<Rightarrow> Inl none | [x] \<Rightarrow> Inr x | _ \<Rightarrow> Inl many)"

definition select_case :: "save_flags \<Rightarrow> test_case list \<Rightarrow> save_error + test_case" where
  "select_case f cases =
     bind_res (the_only SaveNoCase SaveCaseTwice (\<lambda>tc. tc_id tc = sf_case f) cases) (\<lambda>tc.
     bind_res (guard_err (tc_expected tc = []) SaveNoExpectations) (\<lambda>_.
     bind_res (guard_err (list_ex (\<lambda>ea. ea_decision ea \<notin> {DAllow, DDeny, DSkip}) (tc_expected tc)) SaveUnreviewed) (\<lambda>_. Inr tc)))"

definition read_results :: "save_env \<Rightarrow> string \<Rightarrow> save_error + run_result list" where
  "read_results E data = (case sv_results E data of Some rs \<Rightarrow> Inr rs
     | None \<Rightarrow> (case sv_result E data of Some r \<Rightarrow> Inr [r] | None \<Rightarrow> Inl SaveResultJson))"

definition bind_result :: "save_flags \<Rightarrow> string \<Rightarrow> run_result \<Rightarrow> save_error + string" where
  "bind_result f digest r =
     (if rr_digest r = [] then (if sf_allow_unbound f then Inr ''operator_confirmed_unbound'' else Inl SaveUnbound)
      else if rr_digest r \<noteq> digest then Inl SaveDigestMismatch else Inr ''exact_input_digest'')"

definition save_regression :: "golib \<Rightarrow> save_env \<Rightarrow> save_flags \<Rightarrow> save_error + regression" where
  "save_regression L E f =
     bind_res (guard_err (\<not> sf_confirmed f \<or> sf_cases f = [] \<or> sf_result f = [] \<or> sf_case f = [] \<or> sf_out f = []) SaveFlags) (\<lambda>_.
     bind_res (case sv_read E (sf_cases f) of None \<Rightarrow> Inl (SaveRead (sf_cases f)) | Some d \<Rightarrow> Inr d) (\<lambda>data.
     bind_res (map_err SaveTemplates (case_templates L (sv_case E) data)) (\<lambda>(cases, digests).
     bind_res (select_case f cases) (\<lambda>tc.
     bind_res (map_err SavePortable (portable_regression L tc)) (\<lambda>_.
     bind_res (case sv_read E (sf_result f) of None \<Rightarrow> Inl (SaveRead (sf_result f)) | Some d \<Rightarrow> Inr d) (\<lambda>rdata.
     bind_res (read_results E rdata) (\<lambda>results.
     bind_res (the_only SaveNoResult SaveResultTwice (\<lambda>r. rr_test_case r = sf_case f) results) (\<lambda>r.
     bind_res (guard_err (rr_error r \<noteq> [] \<or> preflight_failed r) SaveNoResult) (\<lambda>_.
     bind_res (bind_result f (digest_of digests (sf_case f)) r) (\<lambda>binding.
     bind_res (guard_err (\<not> list_ex (relevant_finding tc r) (rr_findings r)) SaveIrrelevant) (\<lambda>_.
       Inr \<lparr>rg_spec = sv_marshal E [tc], rg_case_id = sf_case f, rg_spec_sha256 = gl_sha256 L (sv_marshal E [tc]),
            rg_binding = binding, rg_source_digest = digest_of digests (sf_case f)\<rparr>)))))))))))"

section \<open>What portable means\<close>

text \<open>Every member of a value, at any depth, with the name it stands under.\<close>

fun members :: "gval \<Rightarrow> (string \<times> gval) list"
and elems_members :: "gval list \<Rightarrow> (string \<times> gval) list"
and pairs_members :: "(string \<times> gval) list \<Rightarrow> (string \<times> gval) list" where
  "members (GObj ps) = pairs_members ps"
| "members (GArr vs) = elems_members vs"
| "members _ = []"
| "elems_members [] = []"
| "elems_members (v # vs) = members v @ elems_members vs"
| "pairs_members [] = []"
| "pairs_members ((k, v) # ps) = (k, v) # members v @ pairs_members ps"

lemma sensitive_members_iff:
  "sensitive v \<longleftrightarrow> (\<exists>(k, x)\<in>set (members v). secret_key k \<and> \<not> reference_value x)"
  "sensitive_elems vs \<longleftrightarrow> (\<exists>(k, x)\<in>set (elems_members vs). secret_key k \<and> \<not> reference_value x)"
  "sensitive_members ps \<longleftrightarrow> (\<exists>(k, x)\<in>set (pairs_members ps). secret_key k \<and> \<not> reference_value x)"
  by (induction v and vs and ps rule: sensitive_sensitive_elems_sensitive_members.induct) auto

text \<open>The texts that name a secret and hold none: one reference to a name, after an optional scheme.\<close>

definition reference_to :: "string \<Rightarrow> string \<Rightarrow> bool" where
  "reference_to n s \<longleftrightarrow> (\<exists>scheme\<in>{[], ''Bearer '', ''Basic ''}.
     s = scheme @ ''${'' @ n @ ''}'' \<or> s = scheme @ ''{{'' @ n @ ''}}'')"

lemma drop_scheme_cases:
  "\<exists>scheme\<in>{[], ''Bearer '', ''Basic ''}. s = scheme @ drop_scheme s"
  by (auto simp: drop_scheme_def has_prefix_iff)

lemma drop_scheme_reference:
  assumes "t = ''${'' @ u \<or> t = ''{{'' @ u" "scheme \<in> {[], ''Bearer '', ''Basic ''}"
  shows "drop_scheme (scheme @ t) = t"
  using assms by (auto simp: drop_scheme_def has_prefix_def)

lemma ref_name_no_brace: "ref_name n \<Longrightarrow> n \<noteq> [] \<and> CHR ''}'' \<notin> set n"
  by (cases n) (auto simp: ref_name_def is_letter_def is_upper_def is_lower_def is_digit_def byte_of_def list_all_iff)

lemma dollar_reference_iff:
  "has_prefix t ''${'' \<and> has_suffix t ''}'' \<and> ref_name (drop 2 (butlast t))
    \<longleftrightarrow> (\<exists>n. ref_name n \<and> t = ''${'' @ n @ ''}'')"
proof
  assume *: "has_prefix t ''${'' \<and> has_suffix t ''}'' \<and> ref_name (drop 2 (butlast t))"
  then obtain u w where "t = ''${'' @ u" "t = w @ ''}''"
    unfolding has_prefix_iff has_suffix_iff by blast
  then obtain n where "t = ''${'' @ n @ ''}''"
    by (cases u rule: rev_cases) auto
  with * show "\<exists>n. ref_name n \<and> t = ''${'' @ n @ ''}''"
    by (auto simp: butlast_append)
qed (auto simp: has_prefix_iff has_suffix_iff butlast_append)

lemma braces_reference_iff:
  "has_prefix t ''{{'' \<and> has_suffix t ''}}'' \<and> ref_name (drop 2 (butlast (butlast t)))
    \<longleftrightarrow> (\<exists>n. ref_name n \<and> t = ''{{'' @ n @ ''}}'')"
proof
  assume *: "has_prefix t ''{{'' \<and> has_suffix t ''}}'' \<and> ref_name (drop 2 (butlast (butlast t)))"
  then obtain u w where tu: "t = ''{{'' @ u" and tw: "t = w @ ''}}''"
    unfolding has_prefix_iff has_suffix_iff by blast
  then obtain n where "t = ''{{'' @ n @ ''}}''"
    by (cases u rule: rev_cases; cases "butlast u" rule: rev_cases) auto
  with * show "\<exists>n. ref_name n \<and> t = ''{{'' @ n @ ''}}''"
    by (auto simp: butlast_append)
qed (auto simp: has_prefix_iff has_suffix_iff butlast_append)

lemma secret_reference_iff: "secret_reference s \<longleftrightarrow> (\<exists>n. ref_name n \<and> reference_to n s)"
proof
  assume "secret_reference s"
  then obtain n where n: "ref_name n" "drop_scheme s = ''${'' @ n @ ''}'' \<or> drop_scheme s = ''{{'' @ n @ ''}}''"
    unfolding secret_reference_def Let_def dollar_reference_iff braces_reference_iff by blast
  then show "\<exists>n. ref_name n \<and> reference_to n s"
    using drop_scheme_cases [of s] unfolding reference_to_def by metis
next
  assume "\<exists>n. ref_name n \<and> reference_to n s"
  then obtain n scheme where n: "ref_name n" "scheme \<in> {[], ''Bearer '', ''Basic ''}"
      "s = scheme @ ''${'' @ n @ ''}'' \<or> s = scheme @ ''{{'' @ n @ ''}}''"
    unfolding reference_to_def by blast
  then have "drop_scheme s = ''${'' @ n @ ''}'' \<or> drop_scheme s = ''{{'' @ n @ ''}}''"
    using drop_scheme_reference by blast
  then show "secret_reference s"
    using n(1) unfolding secret_reference_def Let_def dollar_reference_iff braces_reference_iff by blast
qed

lemma portable_request_Inr:
  "portable_request L rq = Inr () \<longleftrightarrow>
     (\<exists>u. gl_url_parse L (rq_url rq) = Some u \<and> \<not> u_has_user u
       \<and> (\<forall>(k, vs)\<in>set (parse_query (u_raw_query u)). \<forall>v\<in>set vs. \<not> literal_pair (k, v)))
     \<and> (\<forall>kv\<in>set (rq_headers rq) \<union> set (rq_query rq). \<not> literal_pair kv)
     \<and> (rq_body rq = [] \<or> (\<exists>v. unmarshal_any (gl_float L) (rq_body rq) = Some v \<and> \<not> sensitive v))"
  by (auto simp: portable_request_def bind_res_eq_Inr list_ex_iff split: option.splits)

lemma portable_regression_Inr:
  "portable_regression L tc = Inr () \<longleftrightarrow>
     (\<forall>i\<in>set (case_principals tc). sends_no_auth (id_credential i) \<or> secret_reference (cr_value (id_credential i)))
     \<and> (\<forall>rq\<in>set (case_requests tc). portable_request L rq = Inr ())"
  by (auto simp: portable_regression_def bind_res_eq_Inr list_ex_iff)

text \<open>
  C13. A case that may be saved as a regression has a reference wherever the program knows a secret by
  its place or its name; it is no detector of secrets that stand anywhere else. The credential of every identity, the verifier's included, is empty by design or one reference; no URL
  of a request, of the setup steps, the verifying read or the reset carries a user; a header, query
  parameter or member of a JSON body, at any depth, whose name is one of \<open>secret_names\<close> (up to case,
  dashes and underscores) holds one reference and nothing else.
\<close>

theorem portable_case_names_its_secrets:
  assumes "portable_regression L tc = Inr ()"
  shows "(\<forall>i\<in>set (case_principals tc). sends_no_auth (id_credential i)
            \<or> (\<exists>n. ref_name n \<and> reference_to n (cr_value (id_credential i))))
    \<and> (\<forall>rq\<in>set (case_requests tc).
          (\<exists>u. gl_url_parse L (rq_url rq) = Some u \<and> \<not> u_has_user u
             \<and> (\<forall>(k, vs)\<in>set (parse_query (u_raw_query u)). \<forall>v\<in>set vs. secret_key k \<longrightarrow>
                  (\<exists>n. ref_name n \<and> reference_to n v)))
        \<and> (\<forall>(k, v)\<in>set (rq_headers rq) \<union> set (rq_query rq). secret_key k \<longrightarrow> (\<exists>n. ref_name n \<and> reference_to n v))
        \<and> (rq_body rq \<noteq> [] \<longrightarrow> (\<exists>b. unmarshal_any (gl_float L) (rq_body rq) = Some b
             \<and> (\<forall>(k, v)\<in>set (members b). secret_key k \<longrightarrow>
                  (\<exists>s n. v = GStr s \<and> ref_name n \<and> reference_to n s)))))"
  (is "?ids \<and> (\<forall>rq\<in>_. ?request rq)")
proof -
  have ref: "\<And>v. reference_value v \<longleftrightarrow> (\<exists>s n. v = GStr s \<and> ref_name n \<and> reference_to n s)"
    by (auto simp: reference_value_def secret_reference_iff split: gval.splits)
  have lit: "\<And>k v. \<not> literal_pair (k, v) \<longleftrightarrow> (secret_key k \<longrightarrow> (\<exists>n. ref_name n \<and> reference_to n v))"
    by (auto simp: literal_pair_def secret_reference_iff)
  have "\<forall>i\<in>set (case_principals tc). sends_no_auth (id_credential i)
      \<or> (\<exists>n. ref_name n \<and> reference_to n (cr_value (id_credential i)))"
    using assms unfolding portable_regression_Inr secret_reference_iff by blast
  moreover have "?request rq" if "rq \<in> set (case_requests tc)" for rq
  proof -
    have "portable_request L rq = Inr ()"
      using assms that unfolding portable_regression_Inr by blast
    then show ?thesis
      unfolding portable_request_Inr sensitive_members_iff(1) ref [symmetric] lit [symmetric] by auto
  qed
  ultimately show ?thesis by blast
qed

section \<open>What a digest and a saved regression stand for\<close>

lemma add_template_Inr:
  "add_template L decode acc item = Inr acc' \<longleftrightarrow> (\<exists>tc. decode item = Some tc \<and> trim_space item \<noteq> ''null''
     \<and> tc_id tc \<notin> tc_id ` set (fst acc) \<and> fst acc' = fst acc @ [tc]
     \<and> snd acc' = (if portable_regression L tc = Inr ()
          then amap_put (tc_id tc) (input_digest L item) (snd acc) else snd acc))"
  by (cases acc') (auto simp: add_template_def split: option.splits)

text \<open>After some templates: one case for each, no id twice, a digest for exactly the portable ones.\<close>

definition digest_kept :: "golib \<Rightarrow> (string \<Rightarrow> test_case option) \<Rightarrow> (string \<times> string) list
    \<Rightarrow> string \<Rightarrow> test_case \<Rightarrow> bool" where
  "digest_kept L decode ds item tc \<longleftrightarrow> decode item = Some tc \<and> amap_get ds (tc_id tc)
     = (if portable_regression L tc = Inr () then Some (input_digest L item) else None)"

definition templates_read :: "golib \<Rightarrow> (string \<Rightarrow> test_case option) \<Rightarrow> string list
    \<Rightarrow> test_case list \<times> (string \<times> string) list \<Rightarrow> bool" where
  "templates_read L decode items acc \<longleftrightarrow> distinct (map tc_id (fst acc))
     \<and> list_all2 (digest_kept L decode (snd acc)) items (fst acc)
     \<and> (\<forall>i. i \<notin> tc_id ` set (fst acc) \<longrightarrow> amap_get (snd acc) i = None)"

lemma add_template_keeps:
  assumes "templates_read L decode items acc" "add_template L decode acc item = Inr acc'"
  shows "templates_read L decode (items @ [item]) acc'"
proof -
  obtain tc where tc: "decode item = Some tc" "tc_id tc \<notin> tc_id ` set (fst acc)" "fst acc' = fst acc @ [tc]"
      "snd acc' = (if portable_regression L tc = Inr ()
          then amap_put (tc_id tc) (input_digest L item) (snd acc) else snd acc)"
    using assms(2) unfolding add_template_Inr by blast
  have old: "list_all2 (digest_kept L decode (snd acc)) items (fst acc)"
    and none: "amap_get (snd acc) (tc_id tc) = None"
    using assms(1) tc(2) by (auto simp: templates_read_def)
  have "list_all2 (digest_kept L decode (snd acc')) items (fst acc)"
  proof (rule list.rel_mono_strong [OF old])
    fix i t assume "t \<in> set (fst acc)" "digest_kept L decode (snd acc) i t"
    moreover from this have "tc_id t \<noteq> tc_id tc" using tc(2) by (metis imageI)
    ultimately show "digest_kept L decode (snd acc') i t" using tc(4) by (simp add: digest_kept_def)
  qed
  moreover have "digest_kept L decode (snd acc') item tc"
    using tc(1,4) none by (simp add: digest_kept_def)
  ultimately show ?thesis
    using assms(1) tc(2-4) by (auto simp: templates_read_def intro!: list_all2_appendI)
qed

lemma fold_templates:
  assumes "templates_read L decode items acc" "fold_res (add_template L decode) acc more_items = Inr acc'"
  shows "templates_read L decode (items @ more_items) acc'"
  using assms
proof (induction more_items arbitrary: items acc)
  case (Cons item rest)
  then obtain acc1 where "add_template L decode acc item = Inr acc1"
      "fold_res (add_template L decode) acc1 rest = Inr acc'"
    by (auto simp: bind_res_eq_Inr)
  then show ?case
    using Cons.IH [of "items @ [item]" acc1] add_template_keeps Cons.prems(1) by fastforce
qed simp

lemma case_templates_read:
  assumes "case_templates L decode data = Inr acc"
  shows "\<exists>items. raw_cases data = Inr items \<and> items \<noteq> [] \<and> templates_read L decode items acc"
proof -
  obtain items where "raw_cases data = Inr items" "items \<noteq> []"
      "fold_res (add_template L decode) ([], []) items = Inr acc"
    using assms unfolding case_templates_def by (auto simp: bind_res_eq_Inr)
  moreover have "templates_read L decode [] ([], [])"
    by (simp add: templates_read_def amap_get_def)
  ultimately show ?thesis
    using fold_templates [of L decode "[]"] by fastforce
qed

text \<open>
  The templates of a cases file are read one to one: each text decodes to its case, no id occurs
  twice, and a digest of the text is kept for exactly the cases that carry no literal secret, so the
  digest of a text with a credential in it is never given out.
\<close>

theorem no_digest_of_literal_secrets:
  assumes "case_templates L decode data = Inr (tcs, digests)"
  shows "\<exists>items. raw_cases data = Inr items \<and> items \<noteq> [] \<and> distinct (map tc_id tcs)
    \<and> list_all2 (\<lambda>item tc. decode item = Some tc \<and> amap_get digests (tc_id tc)
          = (if portable_regression L tc = Inr () then Some (input_digest L item) else None)) items tcs
    \<and> (\<forall>i. i \<notin> tc_id ` set tcs \<longrightarrow> amap_get digests i = None)"
  using case_templates_read [OF assms]
  unfolding templates_read_def digest_kept_def [abs_def] fst_conv snd_conv by blast

text \<open>What a finding of each category needs of the case to stand against the reviewed expectation \<open>ea\<close>.\<close>

definition contradicts_expectation :: "test_case \<Rightarrow> finding \<Rightarrow> expected_access \<Rightarrow> bool" where
  "contradicts_expectation tc fd ea \<longleftrightarrow> ea_decision ea \<noteq> DSkip \<and>
     (let c = fd_category fd; resource = (\<lambda>P. \<exists>rs. tc_resource tc = Some rs \<and> P rs) in
      if c \<in> {SensitiveDataExposure, ObjectPropertyExposure} then ea_forbid_sensitive ea
      else if c = AuthorizationMismatch then ea_decision ea = DAllow
      else if c = CORSMisconfiguration then probe_origin tc \<noteq> None
      else ea_decision ea = DDeny
        \<and> (c = MissingAuthentication \<longrightarrow>
             (\<exists>i\<in>set (tc_identities tc). id_id i = fd_identity fd \<and> sends_no_auth (id_credential i)))
        \<and> (c = PotentialBOLA \<longrightarrow> resource (\<lambda>rs. rs_owner rs \<noteq> [] \<and> rs_owner rs \<noteq> fd_identity fd))
        \<and> (c = CrossTenantAccess \<longrightarrow> resource (\<lambda>rs. rs_tenant rs \<noteq> [] \<or> rs_tenant_field rs \<noteq> []))
        \<and> (c = PrivilegeEscalation \<longrightarrow> resource (\<lambda>rs. rs_required_role rs \<noteq> []) \<and> tc_role_hierarchy tc \<noteq> []))"

lemma relevant_finding_contradicts:
  assumes "relevant_finding tc r fd"
  shows "\<exists>ea. filter (\<lambda>e. ea_identity e = fd_identity fd) (tc_expected tc) = [ea] \<and> contradicts_expectation tc fd ea
     \<and> fd_identity fd \<in> id_id ` set (tc_identities tc) \<and> fd_identity fd \<in> er_identity ` set (rr_executions r)"
proof -
  let ?is = "filter (\<lambda>i. id_id i = fd_identity fd) (tc_identities tc)"
  have ne: "?is \<noteq> []" using assms by (auto simp: relevant_finding_def)
  then have i: "last ?is \<in> set (tc_identities tc)" "id_id (last ?is) = fd_identity fd"
    using last_in_set [OF ne] by auto
  obtain i0 is' where cons: "?is = i0 # is'" using ne by (cases ?is) auto
  have "fd_identity fd \<in> er_identity ` set (rr_executions r)"
    using assms by (force simp: relevant_finding_def Let_def list_ex_iff split: list.splits if_splits)
  moreover obtain ea where ea: "filter (\<lambda>e. ea_identity e = fd_identity fd) (tc_expected tc) = [ea]"
    using assms by (auto simp: relevant_finding_def Let_def split: list.splits if_splits)
  moreover have "contradicts_expectation tc fd ea"
    using assms i unfolding relevant_finding_def Let_def cons ea
    by (cases "fd_category fd")
      (auto simp: contradicts_expectation_def probe_origin_def Let_def split: if_splits option.splits)
  ultimately show ?thesis using i by (metis imageI)
qed

lemma the_only_Inr: "the_only e1 e2 P xs = Inr x \<longleftrightarrow> filter P xs = [x]"
  by (auto simp: the_only_def split: list.splits)

lemma select_case_Inr:
  "select_case f tcs = Inr tc \<longleftrightarrow> filter (\<lambda>tc. tc_id tc = sf_case f) tcs = [tc] \<and> tc_expected tc \<noteq> []
     \<and> (\<forall>ea\<in>set (tc_expected tc). ea_decision ea \<in> {DAllow, DDeny, DSkip})"
  by (auto simp: select_case_def bind_res_eq_Inr the_only_Inr list_ex_iff)

lemma bind_result_Inr:
  "bind_result f d r = Inr b \<longleftrightarrow> (if rr_digest r = [] then sf_allow_unbound f \<and> b = ''operator_confirmed_unbound''
     else rr_digest r = d \<and> b = ''exact_input_digest'')"
  by (auto simp: bind_result_def)

abbreviation saved_as :: "golib \<Rightarrow> save_env \<Rightarrow> save_flags \<Rightarrow> test_case \<Rightarrow> (string \<times> string) list \<Rightarrow> string \<Rightarrow> regression" where
  "saved_as L E f tc digests binding \<equiv> \<lparr>rg_spec = sv_marshal E [tc], rg_case_id = sf_case f,
     rg_spec_sha256 = gl_sha256 L (sv_marshal E [tc]), rg_binding = binding, rg_source_digest = digest_of digests (sf_case f)\<rparr>"

lemma save_regression_Inr:
  assumes "save_regression L E f = Inr g"
  obtains data tcs digests tc rdata rs r binding where "sf_confirmed f"
    "sv_read E (sf_cases f) = Some data" "case_templates L (sv_case E) data = Inr (tcs, digests)"
    "select_case f tcs = Inr tc" "portable_regression L tc = Inr ()"
    "sv_read E (sf_result f) = Some rdata" "read_results E rdata = Inr rs"
    "the_only SaveNoResult SaveResultTwice (\<lambda>r. rr_test_case r = sf_case f) rs = Inr r"
    "rr_error r = []" "\<not> preflight_failed r" "bind_result f (digest_of digests (sf_case f)) r = Inr binding"
    "list_ex (relevant_finding tc r) (rr_findings r)" "g = saved_as L E f tc digests binding"
  using assms unfolding save_regression_def
  by (auto simp: bind_res_eq_Inr split: option.splits prod.splits)

lemma read_results_Inr:
  "read_results E rdata = Inr rs \<longleftrightarrow> sv_results E rdata = Some rs
     \<or> sv_results E rdata = None \<and> (\<exists>x. sv_result E rdata = Some x \<and> rs = [x])"
  by (auto simp: read_results_def split: option.splits)

text \<open>
  C22. A regression is saved only when the operator confirmed it and everything fits together. The
  saved text is the selected case alone, the one template of the cases file with that id, portable,
  with a decision reviewed for each expectation; the manifest holds the hash of that text. The result
  is the only one for that case in the results file (a list of results, or else a single one), it ran
  without error and past its preflight, it has the digest of the very template or the operator
  accepted that it has none, and one of its findings stands against the only reviewed expectation of
  an identity of the case that was executed.
\<close>

theorem saved_regression_is_confirmed:
  assumes "save_regression L E f = Inr g"
  shows "\<exists>data tcs digests tc rdata rs r fd ea. sf_confirmed f \<and> sv_read E (sf_cases f) = Some data
    \<and> case_templates L (sv_case E) data = Inr (tcs, digests)
    \<and> filter (\<lambda>t. tc_id t = sf_case f) tcs = [tc] \<and> portable_regression L tc = Inr ()
    \<and> tc_expected tc \<noteq> [] \<and> (\<forall>e\<in>set (tc_expected tc). ea_decision e \<in> {DAllow, DDeny, DSkip})
    \<and> rg_spec g = sv_marshal E [tc] \<and> rg_spec_sha256 g = gl_sha256 L (rg_spec g) \<and> rg_case_id g = sf_case f
    \<and> sv_read E (sf_result f) = Some rdata
    \<and> (sv_results E rdata = Some rs
       \<or> sv_results E rdata = None \<and> (\<exists>x. sv_result E rdata = Some x \<and> rs = [x]))
    \<and> filter (\<lambda>x. rr_test_case x = sf_case f) rs = [r] \<and> rr_error r = [] \<and> \<not> preflight_failed r
    \<and> amap_get digests (tc_id tc) = Some (rg_source_digest g)
    \<and> (if rr_digest r = [] then sf_allow_unbound f \<and> rg_binding g = ''operator_confirmed_unbound''
       else rr_digest r = rg_source_digest g \<and> rg_binding g = ''exact_input_digest'')
    \<and> fd \<in> set (rr_findings r) \<and> filter (\<lambda>e. ea_identity e = fd_identity fd) (tc_expected tc) = [ea]
    \<and> contradicts_expectation tc fd ea
    \<and> fd_identity fd \<in> id_id ` set (tc_identities tc) \<and> fd_identity fd \<in> er_identity ` set (rr_executions r)"
proof -
  obtain data tcs digests tc rdata rs r binding where flags: "sf_confirmed f"
    and data: "sv_read E (sf_cases f) = Some data" and templates: "case_templates L (sv_case E) data = Inr (tcs, digests)"
    and tc: "select_case f tcs = Inr tc" and portable: "portable_regression L tc = Inr ()"
    and rfile: "sv_read E (sf_result f) = Some rdata" and rdata: "read_results E rdata = Inr rs"
    and r: "the_only SaveNoResult SaveResultTwice (\<lambda>r. rr_test_case r = sf_case f) rs = Inr r"
    and ran: "rr_error r = []" "\<not> preflight_failed r"
    and binding: "bind_result f (digest_of digests (sf_case f)) r = Inr binding"
    and relevant: "list_ex (relevant_finding tc r) (rr_findings r)"
    and g: "g = saved_as L E f tc digests binding"
    using assms by (rule save_regression_Inr)
  have only: "filter (\<lambda>t. tc_id t = sf_case f) tcs = [tc]"
    using tc unfolding select_case_Inr by blast
  then have "tc \<in> set tcs \<and> tc_id tc = sf_case f"
    by (metis (mono_tags, lifting) list.set_intros(1) mem_Collect_eq set_filter)
  moreover from this have "amap_get digests (tc_id tc) \<noteq> None"
    using case_templates_read [OF templates] portable
    by (auto simp: templates_read_def digest_kept_def list_all2_conv_all_nth in_set_conv_nth)
  ultimately have digest: "amap_get digests (tc_id tc) = Some (digest_of digests (sf_case f))"
    by (auto simp: digest_of_def)
  obtain fd where "fd \<in> set (rr_findings r)" "relevant_finding tc r fd"
    using relevant by (auto simp: list_ex_iff)
  then obtain ea where "filter (\<lambda>e. ea_identity e = fd_identity fd) (tc_expected tc) = [ea]"
      "contradicts_expectation tc fd ea" "fd_identity fd \<in> id_id ` set (tc_identities tc)"
      "fd_identity fd \<in> er_identity ` set (rr_executions r)"
    using relevant_finding_contradicts by blast
  moreover have "tc_expected tc \<noteq> [] \<and> (\<forall>e\<in>set (tc_expected tc). ea_decision e \<in> {DAllow, DDeny, DSkip})"
    using tc unfolding select_case_Inr by blast
  moreover have "filter (\<lambda>x. rr_test_case x = sf_case f) rs = [r]"
    using r unfolding the_only_Inr .
  moreover have "if rr_digest r = [] then sf_allow_unbound f \<and> rg_binding g = ''operator_confirmed_unbound''
       else rr_digest r = rg_source_digest g \<and> rg_binding g = ''exact_input_digest''"
    using binding unfolding bind_result_Inr g by simp
  moreover have "rg_spec g = sv_marshal E [tc] \<and> rg_spec_sha256 g = gl_sha256 L (rg_spec g) \<and> rg_case_id g = sf_case f
      \<and> amap_get digests (tc_id tc) = Some (rg_source_digest g)"
    using digest unfolding g by simp
  moreover have "sv_results E rdata = Some rs
      \<or> sv_results E rdata = None \<and> (\<exists>x. sv_result E rdata = Some x \<and> rs = [x])"
    using rdata unfolding read_results_Inr .
  ultimately show ?thesis
    using flags rfile data templates only portable ran \<open>fd \<in> set (rr_findings r)\<close> by blast
qed

text \<open>The case of two callers whose tokens come from the environment, and a result that leaks to \<open>bob\<close>.\<close>

definition portable_sample :: test_case where
  "portable_sample = sample_case\<lparr>tc_identities := [sample_identity ''alice'' ''${ALICE}'', sample_identity ''bob'' ''${BOB}''],
     tc_request := (sample_request ''GET'' ''/orders/1'')\<lparr>rq_headers := [(''X-Api-Key'', ''{{key}}'')]\<rparr>\<rparr>"

definition sample_leak :: run_result where
  "sample_leak = \<lparr>rr_digest = ''sha256-json-compact-v1:{}'', rr_test_case = ''case'',
     rr_executions = [empty_execution ''bob''], rr_findings = [\<lparr>fd_category = UnexpectedAccess, fd_severity = SevHigh,
       fd_confidence = ConfidenceHigh, fd_identity = ''bob'', fd_message = MsgUnexpectedAccess ''bob'', fd_evidence = [], fd_detected_at = 0\<rparr>],
     rr_assessments = [], rr_preflight = [], rr_error = []\<rparr>"

definition sample_save :: "save_env" where
  "sample_save = \<lparr>sv_read = \<lambda>p. Some '' {} '', sv_case = \<lambda>_. Some portable_sample, sv_results = \<lambda>_. None,
     sv_result = \<lambda>_. Some sample_leak, sv_marshal = \<lambda>_. ''[{}]''\<rparr>"

definition sample_flags :: save_flags where
  "sample_flags = \<lparr>sf_cases = ''in'', sf_result = ''out'', sf_case = ''case'', sf_out = ''dir'', sf_confirmed = True,
     sf_allow_unbound = False\<rparr>"

lemma portable_sample_portable: "portable_regression sample_net_lib portable_sample = Inr ()"
  by code_simp

theorem portable_case_names_its_secrets_witness:
  "\<exists>n. ref_name n \<and> reference_to n ''${BOB}''"
  using portable_case_names_its_secrets [OF portable_sample_portable]
  by (simp add: portable_sample_def case_principals_def sample_case_def sample_identity_def sends_no_auth_def)

lemma sample_templates: "case_templates sample_net_lib (sv_case sample_save) '' {} ''
    = Inr ([portable_sample], [(''case'', ''sha256-json-compact-v1:{}'')])"
  by code_simp

theorem no_digest_of_literal_secrets_witness:
  "\<exists>items. raw_cases '' {} '' = Inr items \<and> items \<noteq> []"
  using no_digest_of_literal_secrets [OF sample_templates] by blast

lemma sample_saved: "save_regression sample_net_lib sample_save sample_flags
    = Inr \<lparr>rg_spec = ''[{}]'', rg_case_id = ''case'', rg_spec_sha256 = ''[{}]'', rg_binding = ''exact_input_digest'',
        rg_source_digest = ''sha256-json-compact-v1:{}''\<rparr>"
  by code_simp

theorem saved_regression_is_confirmed_witness:
  "\<exists>tc. portable_regression sample_net_lib tc = Inr () \<and> sv_marshal sample_save [tc] = ''[{}]''"
  using saved_regression_is_confirmed [OF sample_saved] by fastforce

end
