(* ===== verification/Cli.thy ===== *)
theory Cli
  imports Report Suite Regression Guarded
begin

text \<open>
  \<open>internal/job/job.go\<close> and \<open>cmd/vardrgate/execute.go\<close> with the exit codes of \<open>main.go\<close>: the commands
  \<open>run\<close> and \<open>policy run\<close> from their parsed flags to the exit code, with every file they write. The
  requests go through \<open>Engine.run\<close> over the HTTP client; the state is the guard and the world.
  Files, decoders, the texts of engine errors and whether a write succeeds are parameters.
\<close>

section \<open>Job envelopes\<close>

record envelope =
  ev_id :: string
  ev_type :: string
  ev_program :: int
  ev_policy :: string
  ev_test_case :: test_case
  ev_timeout :: int
  ev_max_bytes :: int
  ev_allow_private :: bool

definition bare_envelope :: "test_case \<Rightarrow> envelope" where
  "bare_envelope tc = \<lparr>ev_id = [], ev_type = [], ev_program = 0, ev_policy = [], ev_test_case = tc,
     ev_timeout = 0, ev_max_bytes = 0, ev_allow_private = False\<rparr>"

datatype job_error = JobUnreadable | JobParse | JobExpand secret_error

definition parse_literal :: "(string \<Rightarrow> envelope option) \<Rightarrow> (string \<Rightarrow> test_case option) \<Rightarrow> string
    \<Rightarrow> job_error + envelope" where
  "parse_literal decode_envelope decode_case data =
     (case (case json_parse data of Some (JObj ps) \<Rightarrow> Some (''config'' \<in> fst ` set ps)
            | Some JNull \<Rightarrow> Some False | _ \<Rightarrow> None) of
        None \<Rightarrow> Inl JobParse
      | Some wrapped \<Rightarrow>
          (if wrapped then (case decode_envelope data of None \<Rightarrow> Inl JobParse | Some e \<Rightarrow> Inr e)
           else (case decode_case data of None \<Rightarrow> Inl JobParse | Some tc \<Rightarrow> Inr (bare_envelope tc))))"

definition parse_job :: "(string \<Rightarrow> envelope option) \<Rightarrow> (string \<Rightarrow> test_case option) \<Rightarrow> (string \<Rightarrow> string) \<Rightarrow> string
    \<Rightarrow> job_error + envelope" where
  "parse_job decode_envelope decode_case env data =
     bind_res (parse_literal decode_envelope decode_case data) (\<lambda>e.
     bind_res (map_err JobExpand (expand_case env (ev_test_case e))) (\<lambda>tc. Inr (e\<lparr>ev_test_case := tc\<rparr>)))"

text \<open>Durations are 64-bit nanoseconds.\<close>

definition wrap64 :: "int \<Rightarrow> int" where
  "wrap64 n = (n + 2 ^ 63) mod 2 ^ 64 - 2 ^ 63"

definition client_config_of :: "envelope \<Rightarrow> client_config" where
  "client_config_of e = \<lparr>
     cc_timeout = (if 0 < ev_timeout e then wrap64 (ev_timeout e * 1000000000) else 0),
     cc_max_body = (if 0 < ev_max_bytes e then ev_max_bytes e else 0),
     cc_allow_private = ev_allow_private e\<rparr>"

section \<open>Outputs and errors\<close>

record outputs =
  ot_out :: string
  ot_sarif :: string
  ot_format :: string

text \<open>A single job or policy emits one object, a file of cases or a suite an array.\<close>

datatype payload = One run_result | Many "run_result list"

text \<open>What a command writes; the flag of a result file says whether it is put in place only when complete.\<close>

datatype sink = ResultFile bool string payload | SarifFile string sarif_log | StdoutText string | StdoutResult payload

datatype usage_error = BadFormat string | BadFailOn string | JobOrCases | LiteralNeedsJob | GuardFlags
  | JobProblem job_error | PreflightNotDeclared | GuardRefused | ToolMismatch | OptionsMismatch
  | CasesUnreadable | CasesProblem template_error | CaseExpand string secret_error
  | CasesInvalid "(string \<times> validate_error) list" | RunProblem string run_error | OutputFailed
  | SuiteFlags "string list" | SuiteProblem suite_error | FlagRequired "string list" | PolicyProblem entry_error

text \<open>An \<open>exitError\<close> carries its code; a failed setup is one with code 3.\<close>

datatype cli_error = Usage usage_error | Exit int string | SetupNotMet string run_error

definition exit_code :: "cli_error + unit \<Rightarrow> int" where
  "exit_code r = (case r of Inr _ \<Rightarrow> 0 | Inl (Usage _) \<Rightarrow> 1 | Inl (Exit c _) \<Rightarrow> c | Inl (SetupNotMet _ _) \<Rightarrow> 3)"

text \<open>The outside of the commands.\<close>

record cli_env =
  cl_files :: files
  cl_dir :: "string \<Rightarrow> string"
  cl_rel :: "string \<Rightarrow> string option"
  cl_slash :: "string \<Rightarrow> string"
  cl_case :: "string \<Rightarrow> test_case option"
  cl_envelope :: "string \<Rightarrow> envelope option"
  cl_plan :: "string \<Rightarrow> plan option"
  cl_binary :: "string option"
  cl_write :: "sink \<Rightarrow> bool"
  cl_texts :: texts
  cl_detail :: "run_error \<Rightarrow> string"
  cl_version :: string

definition validate_outputs :: "outputs \<Rightarrow> cli_error + unit" where
  "validate_outputs ot = guard_err (ot_format ot \<notin> {''json'', ''text'', ''markdown''}) (Usage (BadFormat (ot_format ot)))"

definition wanted_sinks :: "cli_env \<Rightarrow> golib \<Rightarrow> outputs \<Rightarrow> bool \<Rightarrow> payload \<Rightarrow> report_case list \<Rightarrow> sink list" where
  "wanted_sinks E L ot atomic p cases =
     (if ot_out ot \<noteq> [] then [ResultFile atomic (ot_out ot) p] else [])
     @ (if ot_sarif ot \<noteq> [] then [SarifFile (ot_sarif ot) (sarif L (cl_texts E) (cl_version E) cases)] else [])
     @ (if ot_format ot = ''text'' then [StdoutText (text_report (cl_texts E) cases)]
        else if ot_format ot = ''markdown'' then [StdoutText (markdown_report (cl_texts E) cases)]
        else if ot_out ot = [] then [StdoutResult p] else [])"

text \<open>Writing stops at the first failure; the list holds what was written.\<close>

fun write_all :: "(sink \<Rightarrow> bool) \<Rightarrow> sink list \<Rightarrow> (cli_error + unit) \<times> sink list" where
  "write_all ok [] = (Inr (), [])"
| "write_all ok (s # ss) =
     (if ok s then (case write_all ok ss of (r, written) \<Rightarrow> (r, s # written)) else (Inl (Usage OutputFailed), []))"

definition emit :: "cli_env \<Rightarrow> golib \<Rightarrow> outputs \<Rightarrow> bool \<Rightarrow> payload \<Rightarrow> report_case list \<Rightarrow> (cli_error + unit) \<times> sink list" where
  "emit E L ot atomic p cases = write_all (cl_write E) (wanted_sinks E L ot atomic p cases)"

definition source_path :: "cli_env \<Rightarrow> string \<Rightarrow> string" where
  "source_path E p = (if p = [] then [] else
     case cl_rel E p of None \<Rightarrow> cl_slash E p
     | Some rel \<Rightarrow> if \<not> has_prefix rel ''..'' then cl_slash E rel else cl_slash E p)"

definition report_cases :: "cli_env \<Rightarrow> string \<Rightarrow> run_result list \<Rightarrow> report_case list" where
  "report_cases E source rs = map (\<lambda>r. \<lparr>rc_source = source_path E source, rc_result = r\<rparr>) rs"

section \<open>Gating\<close>

definition parse_fail_on :: "string \<Rightarrow> cli_error + severity option" where
  "parse_fail_on s = (if equal_fold (trim_space s) ''none'' then Inr None
     else (case parse_severity s of None \<Rightarrow> Inl (Usage (BadFailOn s)) | Some sev \<Rightarrow> Inr (Some sev)))"

text \<open>The first severity of the highest rank a category has, and how often it occurs.\<close>

definition count_breach :: "(string \<times> nat \<times> severity) list \<Rightarrow> finding \<Rightarrow> (string \<times> nat \<times> severity) list" where
  "count_breach m f = (let k = category_name (fd_category f) in
     case amap_get m k of
       None \<Rightarrow> amap_put k (1, fd_severity f) m
     | Some (n, worst) \<Rightarrow> amap_put k (n + 1,
         if severity_rank worst < severity_rank (fd_severity f) then fd_severity f else worst) m)"

definition breach_text :: "string \<times> nat \<times> severity \<Rightarrow> string" where
  "breach_text b = (case b of (k, n, worst) \<Rightarrow> k @ '' x'' @ show_nat n @ '' ('' @ severity_name worst @ '')'')"

definition summarize_breaching :: "finding list \<Rightarrow> string" where
  "summarize_breaching fs = join_with '', '' (map breach_text
     (sort_key (\<lambda>(k, n, worst). - int (severity_rank worst)) (sort_key fst (foldl count_breach [] fs))))"

definition breaching :: "severity \<Rightarrow> run_result list \<Rightarrow> finding list" where
  "breaching threshold rs = concat (map (\<lambda>r. filter (\<lambda>f. severity_rank threshold \<le> severity_rank (fd_severity f)) (rr_findings r)) rs)"

definition gate :: "run_result list \<Rightarrow> severity option \<Rightarrow> cli_error + unit" where
  "gate rs threshold =
     (let not_run = filter (\<lambda>r. rr_error r \<noteq> []) rs; dark = filter unreached rs in
      if list_ex preflight_failed rs then
        Inl (Exit 3 ''identity preflight failed; authorization requests were not executed'')
      else if not_run \<noteq> [] then
        Inl (Exit 3 (plural (length not_run) ''case'' ''cases'' @ '' could not run, so nothing was tested for them: ''
          @ join_with ''; '' (map (\<lambda>r. rr_test_case r @ '' ('' @ rr_error r @ '')'') not_run)))
      else if dark \<noteq> [] then
        Inl (Exit 3 (plural (length dark) ''case'' ''cases'' @ '' reached nothing '' @ em_dash
          @ '' every identity failed to connect, so nothing was tested: '' @ join_with '', '' (map rr_test_case dark)))
      else (case threshold of None \<Rightarrow> Inr ()
        | Some sev \<Rightarrow> if breaching sev rs = [] then Inr ()
            else Inl (Exit 2 (plural (length (breaching sev rs)) ''finding'' ''findings'' @ '' at or above ''
              @ severity_name sev @ '': '' @ summarize_breaching (breaching sev rs)))))"

definition gate_inconclusive :: "run_result list \<Rightarrow> bool \<Rightarrow> cli_error + unit" where
  "gate_inconclusive rs enabled =
     (let lines = concat (map (\<lambda>r. map (\<lambda>a. rr_test_case r @ '': '' @ explain a) (inconclusive r)) rs) in
      if \<not> enabled \<or> lines = [] then Inr ()
      else Inl (Exit 4 (plural (length lines) ''inconclusive assessment'' ''inconclusive assessments'' @ '': ''
        @ join_with ''; '' lines)))"

definition gate_all :: "run_result list \<Rightarrow> severity option \<Rightarrow> bool \<Rightarrow> cli_error + unit" where
  "gate_all rs threshold enabled = bind_res (gate rs threshold) (\<lambda>_. gate_inconclusive rs enabled)"

definition has_preflight :: "test_case \<Rightarrow> bool" where
  "has_preflight tc \<longleftrightarrow> (case tc_verification tc of None \<Rightarrow> False | Some wv \<Rightarrow> id_preflight (wv_identity wv) \<noteq> None)
     \<or> list_ex (\<lambda>i. id_preflight i \<noteq> None) (tc_identities tc)"

text \<open>\<open>ErrSetupFailed\<close>: a step that did not complete, or captured values that could not be put in.\<close>

definition setup_failed :: "run_error \<Rightarrow> bool" where
  "setup_failed e = (case e of RunInvalid _ \<Rightarrow> False | _ \<Rightarrow> True)"

definition run_error_text :: "cli_env \<Rightarrow> run_error \<Rightarrow> string" where
  "run_error_text E e = (if setup_failed e then ''setup step failed: '' else []) @ cl_detail E e"

definition run_problem :: "string \<Rightarrow> run_error \<Rightarrow> cli_error" where
  "run_problem i e = (if setup_failed e then SetupNotMet i e else Usage (RunProblem i e))"

definition validate_suite :: "golib \<Rightarrow> test_case list \<Rightarrow> cli_error + unit" where
  "validate_suite L tcs = (let problems = List.map_filter (\<lambda>(k, tc). case validate L tc of Inr _ \<Rightarrow> None
       | Inl e \<Rightarrow> Some (if tc_id tc = [] then ''cases['' @ show_nat k @ '']'' else tc_id tc, e)) (enum_list tcs) in
     guard_err (problems \<noteq> []) (Usage (CasesInvalid problems)))"

section \<open>Running cases\<close>

text \<open>A context that is never cancelled.\<close>

definition background :: "'w transport \<Rightarrow> 'w transport" where
  "background T = T\<lparr>tr_cancelled := \<lambda>w. (False, w)\<rparr>"

text \<open>
  The loop over the cases of both commands: what to do with an error, and what to keep of a result.
  The first error that is not turned into a result ends it.
\<close>

fun run_in_order :: "(test_case \<Rightarrow> run_error \<Rightarrow> cli_error + run_result) \<Rightarrow> (test_case \<Rightarrow> run_result \<Rightarrow> run_result)
    \<Rightarrow> golib \<Rightarrow> 'w executor \<Rightarrow> test_case list \<Rightarrow> 'w \<Rightarrow> (cli_error + run_result list) \<times> 'w" where
  "run_in_order on_error keep L X [] w = (Inr [], w)"
| "run_in_order on_error keep L X (tc # tcs) w =
     (case run L X tc w of (r, w1) \<Rightarrow>
        (case (case r of Inl e \<Rightarrow> on_error tc e | Inr res \<Rightarrow> Inr (keep tc res)) of
           Inl e \<Rightarrow> (Inl e, w1)
         | Inr res \<Rightarrow> (case run_in_order on_error keep L X tcs w1 of
             (Inl e, w2) \<Rightarrow> (Inl e, w2)
           | (Inr rs, w2) \<Rightarrow> (Inr (res # rs), w2))))"

definition stop_run :: "test_case \<Rightarrow> run_error \<Rightarrow> cli_error + run_result" where
  "stop_run tc e = Inl (run_problem (tc_id tc) e)"

definition not_run_result :: "cli_env \<Rightarrow> test_case \<Rightarrow> run_error \<Rightarrow> cli_error + run_result" where
  "not_run_result E tc e = Inr \<lparr>rr_digest = [], rr_test_case = tc_id tc, rr_executions = [], rr_findings = [],
     rr_assessments = [], rr_preflight = [], rr_error = run_error_text E e\<rparr>"

section \<open>\<open>run\<close>\<close>

record run_flags =
  rf_job :: string
  rf_cases :: string
  rf_outputs :: outputs
  rf_fail_on :: string
  rf_fail_inconclusive :: bool
  rf_allow_private :: bool
  rf_allow_mutating :: bool
  rf_require_preflight :: bool
  rf_strict :: "bool option"
  rf_literal :: bool
  rf_guard :: string
  rf_timeout :: int

definition check_run_flags :: "run_flags \<Rightarrow> cli_error + unit" where
  "check_run_flags f =
     bind_res (guard_err ((rf_job f = []) = (rf_cases f = [])) (Usage JobOrCases)) (\<lambda>_.
     bind_res (guard_err (rf_literal f \<and> rf_job f = []) (Usage LiteralNeedsJob)) (\<lambda>_.
     bind_res (guard_err (rf_guard f \<noteq> [] \<and> (rf_job f = [] \<or> \<not> rf_literal f \<or> rf_allow_mutating f \<or> rf_strict f \<noteq> None))
       (Usage GuardFlags)) (\<lambda>_.
       validate_outputs (rf_outputs f))))"

text \<open>The overrides of the flags on a case.\<close>

definition override_strict :: "bool option \<Rightarrow> test_case \<Rightarrow> test_case" where
  "override_strict b tc = (case b of None \<Rightarrow> tc | Some v \<Rightarrow> tc\<lparr>tc_require_preflight := v\<rparr>)"

definition override_mutating :: "bool \<Rightarrow> test_case \<Rightarrow> test_case" where
  "override_mutating b tc = (if b then tc\<lparr>tc_mutating := True\<rparr> else tc)"

definition load_plan :: "cli_env \<Rightarrow> golib \<Rightarrow> string \<Rightarrow> plan option" where
  "load_plan E L path = (case fi_read (cl_files E) path of None \<Rightarrow> None
     | Some data \<Rightarrow> parse_plan L (cl_plan E) (take (2 ^ 20 + 1) data))"

definition load_guard :: "cli_env \<Rightarrow> golib \<Rightarrow> string \<Rightarrow> envelope \<Rightarrow> cli_error + guard" where
  "load_guard E L path e = (case load_plan E L path of None \<Rightarrow> Inl (Usage GuardRefused)
     | Some p \<Rightarrow>
         bind_res (guard_err (\<not> check_binary L p (cl_binary E)) (Usage ToolMismatch)) (\<lambda>_.
         bind_res (guard_err (pl_timeout p \<noteq> ev_timeout e \<or> pl_max_bytes p \<noteq> ev_max_bytes e \<or> pl_allow_private p \<noteq> ev_allow_private e)
           (Usage OptionsMismatch)) (\<lambda>_.
           (case new_guard L p of None \<Rightarrow> Inl (Usage GuardRefused) | Some g \<Rightarrow> Inr g))))"

definition load_job :: "cli_env \<Rightarrow> run_flags \<Rightarrow> job_error + envelope" where
  "load_job E f = (case fi_read (cl_files E) (rf_job f) of None \<Rightarrow> Inl JobUnreadable
     | Some data \<Rightarrow> (if rf_literal f then parse_literal (cl_envelope E) (cl_case E) data
         else parse_job (cl_envelope E) (cl_case E) (fi_env (cl_files E)) data))"

definition prepare_job :: "cli_env \<Rightarrow> golib \<Rightarrow> run_flags \<Rightarrow> cli_error + test_case \<times> client_config \<times> guard option" where
  "prepare_job E L f =
     bind_res (map_err (\<lambda>e. Usage (JobProblem e)) (load_job E f)) (\<lambda>e.
     let tc = override_strict (rf_strict f) (ev_test_case e) in
     bind_res (guard_err (rf_require_preflight f \<and> \<not> has_preflight tc) (Usage PreflightNotDeclared)) (\<lambda>_.
     bind_res (if rf_guard f = [] then Inr None else bind_res (load_guard E L (rf_guard f) e) (\<lambda>g. Inr (Some g))) (\<lambda>g.
       Inr (override_mutating (rf_allow_mutating f) tc, client_config_of e, g))))"

definition mark_cancelled :: "run_result \<Rightarrow> run_result" where
  "mark_cancelled r = r\<lparr>rr_error := ''execution_cancelled'',
     rr_executions := map (\<lambda>ex. if er_error ex \<noteq> [] then ex\<lparr>er_error := ''execution_cancelled''\<rparr> else ex) (rr_executions r)\<rparr>"

definition empty_result :: "test_case \<Rightarrow> run_result" where
  "empty_result tc = \<lparr>rr_digest = [], rr_test_case = tc_id tc, rr_executions = [], rr_findings = [],
     rr_assessments = [], rr_preflight = [], rr_error = []\<rparr>"

text \<open>The result of the job and whether the guarded run was interrupted.\<close>

definition run_job :: "cli_env \<Rightarrow> golib \<Rightarrow> (string \<Rightarrow> ip option) \<Rightarrow> 'w transport \<Rightarrow> run_flags \<Rightarrow> 'w
    \<Rightarrow> (cli_error + run_result \<times> bool) \<times> 'w" where
  "run_job E L parse_ip T f w = (case prepare_job E L f of Inl e \<Rightarrow> (Inl e, w)
     | Inr (tc, cfg, g) \<Rightarrow>
         (case run L (client_executor L parse_ip cfg (if g = None then background T else T)) tc (g, w) of (r, (g', w1)) \<Rightarrow>
            (case (if g = None then (False, w1) else tr_cancelled T w1) of (interrupted, w2) \<Rightarrow>
               (case r of
                  Inl e \<Rightarrow> if \<not> interrupted \<or> \<not> setup_failed e then (Inl (run_problem [] e), w2)
                           else (Inr (mark_cancelled (empty_result tc), True), w2)
                | Inr res \<Rightarrow> (Inr (if interrupted then mark_cancelled res else res, interrupted), w2)))))"

definition load_cases :: "cli_env \<Rightarrow> golib \<Rightarrow> string \<Rightarrow> cli_error + test_case list \<times> (string \<times> string) list" where
  "load_cases E L path = (case fi_read (cl_files E) path of None \<Rightarrow> Inl (Usage CasesUnreadable)
     | Some data \<Rightarrow>
         bind_res (map_err (\<lambda>e. Usage (CasesProblem e)) (case_templates L (cl_case E) data)) (\<lambda>(tcs, digests).
         bind_res (map_res (\<lambda>tc. map_err (\<lambda>e. Usage (CaseExpand (tc_id tc) e)) (expand_case (fi_env (cl_files E)) tc)) tcs) (\<lambda>tcs'.
           Inr (tcs', digests))))"

definition prepare_cases :: "cli_env \<Rightarrow> golib \<Rightarrow> run_flags \<Rightarrow> cli_error + test_case list \<times> (string \<times> string) list" where
  "prepare_cases E L f =
     bind_res (load_cases E L (rf_cases f)) (\<lambda>(tcs, digests).
     let tcs' = map (\<lambda>tc. override_strict (rf_strict f) (override_mutating (rf_allow_mutating f) tc)) tcs in
     bind_res (validate_suite L tcs') (\<lambda>_.
     bind_res (guard_err (rf_require_preflight f \<and> \<not> list_all has_preflight tcs') (Usage PreflightNotDeclared)) (\<lambda>_.
       Inr (tcs', digests))))"

definition config_of :: "bool \<Rightarrow> int \<Rightarrow> client_config" where
  "config_of private timeout = \<lparr>cc_timeout = timeout, cc_max_body = 0, cc_allow_private = private\<rparr>"

definition run_case_file :: "cli_env \<Rightarrow> golib \<Rightarrow> (string \<Rightarrow> ip option) \<Rightarrow> 'w transport \<Rightarrow> run_flags \<Rightarrow> 'w
    \<Rightarrow> (cli_error + run_result list) \<times> 'w" where
  "run_case_file E L parse_ip T f w = (case prepare_cases E L f of Inl e \<Rightarrow> (Inl e, w)
     | Inr (tcs, digests) \<Rightarrow>
         (case run_in_order stop_run (\<lambda>tc r. r\<lparr>rr_digest := digest_of digests (tc_id tc)\<rparr>) L
             (client_executor L parse_ip (config_of (rf_allow_private f) (rf_timeout f)) (background T)) tcs (None, w) of
            (r, (g, w1)) \<Rightarrow> (r, w1)))"

text \<open>What follows the run: everything is written, then the exit code is decided.\<close>

definition report_and_gate :: "cli_env \<Rightarrow> golib \<Rightarrow> outputs \<Rightarrow> bool \<Rightarrow> payload \<Rightarrow> report_case list \<Rightarrow> (cli_error + unit)
    \<Rightarrow> (cli_error + unit) \<times> sink list" where
  "report_and_gate E L ot atomic p cases verdict =
     (case emit E L ot atomic p cases of (r, written) \<Rightarrow> (bind_res r (\<lambda>_. verdict), written))"

definition interrupted_exit :: "run_result \<Rightarrow> cli_error + unit" where
  "interrupted_exit r = Inl (Exit (if rr_executions r = [] \<or> unreached r then 3 else 4) ''managed execution interrupted'')"

definition run_cases :: "cli_env \<Rightarrow> golib \<Rightarrow> (string \<Rightarrow> ip option) \<Rightarrow> 'w transport \<Rightarrow> run_flags \<Rightarrow> 'w
    \<Rightarrow> ((cli_error + unit) \<times> sink list) \<times> 'w" where
  "run_cases E L parse_ip T f w =
     (case bind_res (check_run_flags f) (\<lambda>_. parse_fail_on (rf_fail_on f)) of
        Inl e \<Rightarrow> ((Inl e, []), w)
      | Inr threshold \<Rightarrow>
          if rf_job f \<noteq> [] then
            (case run_job E L parse_ip T f w of
               (Inl e, w1) \<Rightarrow> ((Inl e, []), w1)
             | (Inr (res, interrupted), w1) \<Rightarrow>
                 (report_and_gate E L (rf_outputs f) (rf_guard f \<noteq> []) (One res) (report_cases E (rf_job f) [res])
                    (if interrupted then interrupted_exit res else gate_all [res] threshold (rf_fail_inconclusive f)), w1))
          else
            (case run_case_file E L parse_ip T f w of
               (Inl e, w1) \<Rightarrow> ((Inl e, []), w1)
             | (Inr rs, w1) \<Rightarrow>
                 (report_and_gate E L (rf_outputs f) False (Many rs) (report_cases E (rf_cases f) rs)
                    (gate_all rs threshold (rf_fail_inconclusive f)), w1)))"

section \<open>\<open>policy run\<close>\<close>

record policy_flags =
  pf_policy :: string
  pf_suite :: string
  pf_base :: string
  pf_identities :: string
  pf_params :: "(string \<times> string) list"
  pf_tenant :: string
  pf_allow_mutating :: bool
  pf_id :: string
  pf_outputs :: outputs
  pf_fail_on :: string
  pf_fail_inconclusive :: "bool option"
  pf_allow_private :: bool
  pf_strict :: "bool option"
  pf_timeout :: int

text \<open>\<open>paramFlag.Set\<close>.\<close>

definition set_param :: "(string \<times> string) list \<Rightarrow> string \<Rightarrow> (string \<times> string) list option" where
  "set_param m v = (case index_of ''='' v of None \<Rightarrow> None
     | Some k \<Rightarrow> if trim_space (take k v) = [] then None else Some (amap_put (trim_space (take k v)) (drop (k + 1) v) m))"

text \<open>The flags a suite does not combine with, and those a single policy needs; the code reports one of them.\<close>

definition suite_conflicts :: "policy_flags \<Rightarrow> string list" where
  "suite_conflicts f = map fst (filter snd [(''--policy'', pf_policy f \<noteq> []), (''--identities'', pf_identities f \<noteq> []),
     (''--param'', pf_params f \<noteq> []), (''--tenant'', pf_tenant f \<noteq> []), (''--id'', pf_id f \<noteq> [])])"

definition missing_flags :: "policy_flags \<Rightarrow> string list" where
  "missing_flags f = map fst (filter (\<lambda>kv. snd kv = []) [(''--policy'', pf_policy f), (''--base'', pf_base f),
     (''--identities'', pf_identities f)])"

definition compile_policy_files :: "files \<Rightarrow> string \<Rightarrow> string \<Rightarrow> bindings \<Rightarrow> entry_error + test_case" where
  "compile_policy_files F path ids_path b =
     bind_res (load_policy F path) (\<lambda>p.
     bind_res (load_identities F ids_path) (\<lambda>ids.
       map_err EntryPolicyError (compile_policy (fi_bool F) (fi_env F) p (b\<lparr>bi_identities := ids\<rparr>))))"

definition single_bindings :: "policy_flags \<Rightarrow> bindings" where
  "single_bindings f = \<lparr>bi_profiles = [], bi_require_preflight = (pf_strict f = Some True), bi_test_case_id = pf_id f,
     bi_base_url = pf_base f, bi_params = pf_params f, bi_identities = [], bi_resource_tenant = pf_tenant f,
     bi_allow_mutating = pf_allow_mutating f\<rparr>"

text \<open>The compiled cases and whether inconclusive assessments fail the run.\<close>

definition compile_all :: "cli_env \<Rightarrow> policy_flags \<Rightarrow> cli_error + suite_case list \<times> bool" where
  "compile_all E f =
     (if pf_suite f \<noteq> [] then
        bind_res (guard_err (suite_conflicts f \<noteq> []) (Usage (SuiteFlags (suite_conflicts f)))) (\<lambda>_.
        bind_res (map_err (\<lambda>e. Usage (SuiteProblem e)) (load_suite (cl_files E) (pf_suite f))) (\<lambda>s.
        bind_res (map_err (\<lambda>e. Usage (SuiteProblem e)) (compile_suite (cl_files E) (cl_dir E (pf_suite f))
            \<lparr>so_profiles = [], so_require_preflight = pf_strict f, so_base_override = pf_base f,
             so_allow_mutating = pf_allow_mutating f\<rparr> s)) (\<lambda>cs.
          Inr (cs, case pf_fail_inconclusive f of None \<Rightarrow> su_fail_on_inconclusive s | Some b \<Rightarrow> b))))
      else
        bind_res (guard_err (missing_flags f \<noteq> []) (Usage (FlagRequired (missing_flags f)))) (\<lambda>_.
        bind_res (map_err (\<lambda>e. Usage (PolicyProblem e))
          (compile_policy_files (cl_files E) (pf_policy f) (pf_identities f) (single_bindings f))) (\<lambda>tc.
          Inr ([\<lparr>sc_source = pf_policy f, sc_test_case = tc\<rparr>], pf_fail_inconclusive f = Some True))))"

definition prepare_policies :: "cli_env \<Rightarrow> golib \<Rightarrow> policy_flags
    \<Rightarrow> cli_error + severity option \<times> suite_case list \<times> bool" where
  "prepare_policies E L f =
     bind_res (validate_outputs (pf_outputs f)) (\<lambda>_.
     bind_res (parse_fail_on (pf_fail_on f)) (\<lambda>threshold.
     bind_res (compile_all E f) (\<lambda>(cs, strict).
     bind_res (validate_suite L (map sc_test_case cs)) (\<lambda>_. Inr (threshold, cs, strict)))))"

definition run_policies :: "cli_env \<Rightarrow> golib \<Rightarrow> (string \<Rightarrow> ip option) \<Rightarrow> 'w transport \<Rightarrow> policy_flags \<Rightarrow> 'w
    \<Rightarrow> ((cli_error + unit) \<times> sink list) \<times> 'w" where
  "run_policies E L parse_ip T f w = (case prepare_policies E L f of Inl e \<Rightarrow> ((Inl e, []), w)
     | Inr (threshold, cs, strict) \<Rightarrow>
         (case run_in_order (if pf_suite f = [] then stop_run else not_run_result E) (\<lambda>_ r. r) L
             (client_executor L parse_ip (config_of (pf_allow_private f) (pf_timeout f)) (background T))
             (map sc_test_case cs) (None, w) of
            (Inl e, (g, w1)) \<Rightarrow> ((Inl e, []), w1)
          | (Inr rs, (g, w1)) \<Rightarrow>
              (report_and_gate E L (pf_outputs f) False (if pf_suite f = [] then One (hd rs) else Many rs)
                 (map (\<lambda>(c, r). \<lparr>rc_source = source_path E (sc_source c), rc_result = r\<rparr>) (zip cs rs))
                 (gate_all rs threshold strict), w1)))"

section \<open>Exit codes\<close>

lemma not_tested_iff: "not_tested r \<noteq> [] \<longleftrightarrow> rr_error r \<noteq> [] \<or> preflight_failed r \<or> unreached r"
  by (simp add: not_tested_def)

lemma not_tested_Nil: "not_tested r = [] \<longleftrightarrow> rr_error r = [] \<and> \<not> preflight_failed r \<and> \<not> unreached r"
  by (simp add: not_tested_def)

lemma gate_inconclusive_iff:
  "gate_inconclusive rs b = Inr () \<longleftrightarrow> \<not> (b \<and> (\<exists>r\<in>set rs. inconclusive r \<noteq> []))"
  by (auto simp: gate_inconclusive_def Let_def)

lemma gate_inconclusive_code:
  "exit_code (gate_inconclusive rs b) = (if b \<and> (\<exists>r\<in>set rs. inconclusive r \<noteq> []) then 4 else 0)"
  by (auto simp: gate_inconclusive_def Let_def exit_code_def)

lemma breaching_iff:
  "breaching sev rs \<noteq> [] \<longleftrightarrow> (\<exists>r\<in>set rs. \<exists>f\<in>set (rr_findings r). sev \<le> fd_severity f)"
  by (auto simp: breaching_def filter_empty_conv less_eq_severity_def)

lemma gate_code:
  "exit_code (gate rs threshold) = (if \<exists>r\<in>set rs. not_tested r \<noteq> [] then 3
     else if \<exists>sev. threshold = Some sev \<and> breaching sev rs \<noteq> [] then 2 else 0)"
  unfolding gate_def Let_def exit_code_def not_tested_iff
  by (auto simp: list_ex_iff filter_empty_conv split: option.splits)

lemma gate_Inr: "gate rs threshold = Inr () \<longleftrightarrow> (\<forall>r\<in>set rs. not_tested r = [])
    \<and> (\<forall>sev. threshold = Some sev \<longrightarrow> breaching sev rs = [])"
  unfolding gate_def Let_def not_tested_Nil
  by (auto simp: list_ex_iff filter_empty_conv split: option.splits if_splits)

lemma gate_all_code:
  "exit_code (gate_all rs threshold enabled) =
     (if \<exists>r\<in>set rs. not_tested r \<noteq> [] then 3
      else if \<exists>sev. threshold = Some sev \<and> (\<exists>r\<in>set rs. \<exists>f\<in>set (rr_findings r). sev \<le> fd_severity f) then 2
      else if enabled \<and> (\<exists>r\<in>set rs. inconclusive r \<noteq> []) then 4 else 0)"
proof (cases "gate rs threshold = Inr ()")
  case False
  then obtain e where "gate rs threshold = Inl e" by (cases "gate rs threshold") auto
  then have code: "exit_code (gate_all rs threshold enabled) = exit_code (gate rs threshold)"
    by (simp add: gate_all_def exit_code_def)
  have some: "(\<exists>r\<in>set rs. not_tested r \<noteq> []) \<or> (\<exists>sev. threshold = Some sev
      \<and> (\<exists>r\<in>set rs. \<exists>f\<in>set (rr_findings r). sev \<le> fd_severity f))"
    using False unfolding gate_Inr breaching_iff [symmetric] by blast
  have "\<And>A B C. A \<or> B \<Longrightarrow> (if A then 3 else if B then 2 else (0::int)) = (if A then 3 else if B then 2 else if C then 4 else 0)"
    by auto
  from this [OF some] show ?thesis
    unfolding code gate_code breaching_iff .
next
  case True
  then have "gate_all rs threshold enabled = gate_inconclusive rs enabled" by (simp add: gate_all_def)
  moreover have "\<forall>r\<in>set rs. not_tested r = []"
      "\<not> (\<exists>sev. threshold = Some sev \<and> (\<exists>r\<in>set rs. \<exists>f\<in>set (rr_findings r). sev \<le> fd_severity f))"
    using True breaching_iff unfolding gate_Inr by blast+
  ultimately show ?thesis
    using gate_inconclusive_code [of rs enabled] by simp
qed

text \<open>
  C11. The exit code of a run says exactly what happened, in this order: 3 as soon as one case was
  not tested, whatever was found for the others, just as the reports show it; 2 when all were
  tested and some finding is at or above the threshold; 4 when the operator asked for it and some
  assessment is inconclusive; and 0 otherwise.
\<close>

theorem exit_codes_are_exact:
  "exit_code (gate_all rs threshold enabled) =
     (if \<exists>r\<in>set rs. not_tested r \<noteq> [] then 3
      else if \<exists>sev. threshold = Some sev \<and> (\<exists>r\<in>set rs. \<exists>f\<in>set (rr_findings r). sev \<le> fd_severity f) then 2
      else if enabled \<and> (\<exists>r\<in>set rs. inconclusive r \<noteq> []) then 4 else 0)"
  by (rule gate_all_code)

section \<open>Outputs come first\<close>

lemma write_all_all: "list_all ok ss \<Longrightarrow> write_all ok ss = (Inr (), ss)"
  by (induction ss) simp_all

lemma write_all_some: "\<not> list_all ok ss \<Longrightarrow> fst (write_all ok ss) = Inl (Usage OutputFailed)"
  by (induction ss) (auto simp: case_prod_beta)

lemma write_all_Inr: "write_all ok ss = (Inr (), written) \<longleftrightarrow> written = ss \<and> list_all ok ss"
  using write_all_all [of ok ss] write_all_some [of ok ss] by (cases "list_all ok ss") auto

lemma write_all_prefix: "write_all ok ss = (r, written) \<Longrightarrow> \<exists>rest. ss = written @ rest"
proof (induction ss arbitrary: written)
  case (Cons s ss)
  then show ?case by (cases "write_all ok ss") (fastforce split: if_split_asm)
qed simp

lemma write_all_error: "write_all ok ss = (Inl e, written) \<Longrightarrow> e = Usage OutputFailed"
  using write_all_all [of ok ss] write_all_some [of ok ss] by (cases "list_all ok ss") auto

lemma report_and_gate_cases:
  assumes "report_and_gate E L ot atomic p cases verdict = (v, written)"
  shows "(v = Inl (Usage OutputFailed) \<and> (\<exists>rest. wanted_sinks E L ot atomic p cases = written @ rest))
    \<or> (v = verdict \<and> written = wanted_sinks E L ot atomic p cases)"
proof -
  obtain r ss where e: "emit E L ot atomic p cases = (r, ss)" by (metis surj_pair)
  show ?thesis
  proof (cases r)
    case (Inl x)
    then have w: "write_all (cl_write E) (wanted_sinks E L ot atomic p cases) = (Inl x, ss)"
      using e by (simp add: emit_def)
    have "v = Inl x" "written = ss" using assms e Inl by (simp_all add: report_and_gate_def)
    then show ?thesis using write_all_error [OF w] write_all_prefix [OF w] by simp
  next
    case (Inr u)
    then have "ss = wanted_sinks E L ot atomic p cases" using e by (simp add: emit_def write_all_Inr)
    then show ?thesis using assms e Inr by (simp add: report_and_gate_def)
  qed
qed

text \<open>The results of a payload, and a run that left nothing open.\<close>

definition payload_results :: "payload \<Rightarrow> run_result list" where
  "payload_results p = (case p of One r \<Rightarrow> [r] | Many rs \<Rightarrow> rs)"

definition clean_run :: "severity option \<Rightarrow> bool \<Rightarrow> run_result list \<Rightarrow> bool" where
  "clean_run threshold strict rs \<longleftrightarrow> (\<forall>r\<in>set rs. not_tested r = []
     \<and> (\<forall>fd\<in>set (rr_findings r). \<forall>sev. threshold = Some sev \<longrightarrow> fd_severity fd < sev)
     \<and> (strict \<longrightarrow> inconclusive r = []))"

lemma breaching_none:
  "breaching sev rs = [] \<longleftrightarrow> (\<forall>r\<in>set rs. \<forall>f\<in>set (rr_findings r). fd_severity f < sev)"
  using breaching_iff [of sev rs] unfolding linorder_not_le [symmetric] by blast

lemma gate_all_Inr: "gate_all rs threshold strict = Inr () \<longleftrightarrow> clean_run threshold strict rs"
proof -
  have "gate_all rs threshold strict = Inr () \<longleftrightarrow> gate rs threshold = Inr () \<and> gate_inconclusive rs strict = Inr ()"
    by (auto simp: gate_all_def bind_res_eq_Inr)
  also have "\<dots> \<longleftrightarrow> clean_run threshold strict rs"
    unfolding gate_Inr gate_inconclusive_iff clean_run_def
    by (cases threshold) (auto simp: breaching_none linorder_not_le)
  finally show ?thesis .
qed

lemma gate_all_failure:
  assumes "gate_all rs threshold strict \<noteq> Inr ()"
  shows "exit_code (gate_all rs threshold strict) \<in> {2, 3, 4}"
  using assms unfolding gate_all_def gate_def gate_inconclusive_def Let_def
  by (auto simp: exit_code_def split: if_split_asm option.split_asm)

lemma exit_zero: "exit_code (gate_all rs threshold strict) = 0 \<longleftrightarrow> clean_run threshold strict rs"
  using gate_all_failure [of rs threshold strict] unfolding gate_all_Inr [symmetric]
  by (cases "gate_all rs threshold strict = Inr ()") (auto simp: exit_code_def)

section \<open>The loop over the cases\<close>

text \<open>The cases \<open>tcs\<close> run one after the other from \<open>w\<close> to \<open>w'\<close>, each to its result, with the digest \<open>tag\<close> gives it.\<close>

fun ran_in_order :: "golib \<Rightarrow> 'w executor \<Rightarrow> (test_case \<Rightarrow> string) \<Rightarrow> test_case list \<Rightarrow> 'w \<Rightarrow> run_result list \<Rightarrow> 'w \<Rightarrow> bool" where
  "ran_in_order L X tag [] w [] w' \<longleftrightarrow> w' = w"
| "ran_in_order L X tag (tc # tcs) w (r # rs) w' \<longleftrightarrow>
     (\<exists>res w1. run L X tc w = (Inr res, w1) \<and> r = res\<lparr>rr_digest := tag tc\<rparr> \<and> ran_in_order L X tag tcs w1 rs w')"
| "ran_in_order L X tag _ w _ w' \<longleftrightarrow> False"

lemma run_in_order_stops:
  assumes "run_in_order stop_run (\<lambda>tc r. r\<lparr>rr_digest := tag tc\<rparr>) L X tcs w = (Inr rs, w')"
  shows "ran_in_order L X tag tcs w rs w'"
  using assms
proof (induction tcs arbitrary: w rs)
  case (Cons tc tcs)
  obtain r w1 where r: "run L X tc w = (r, w1)" by (metis surj_pair)
  obtain res where res: "r = Inr res" using Cons.prems r by (cases r) (auto simp: stop_run_def)
  obtain q w2 where q: "run_in_order stop_run (\<lambda>tc r. r\<lparr>rr_digest := tag tc\<rparr>) L X tcs w1 = (q, w2)" by (metis surj_pair)
  obtain rest where rest: "q = Inr rest" using Cons.prems r res q by (cases q) auto
  have "rs = res\<lparr>rr_digest := tag tc\<rparr> # rest" "w' = w2" using Cons.prems r res q rest by auto
  then show ?case using Cons.IH [of w1 rest] q rest r res by simp
qed simp

lemma ran_in_order_length: "ran_in_order L X tag tcs w rs w' \<Longrightarrow> length rs = length tcs"
  by (induction L X tag tcs w rs w' rule: ran_in_order.induct) auto

lemma run_in_order_error:
  assumes "run_in_order stop_run keep L X tcs w = (Inl e, w')"
  shows "\<exists>tc x. tc \<in> set tcs \<and> e = run_problem (tc_id tc) x"
  using assms
proof (induction tcs arbitrary: w)
  case (Cons tc tcs)
  obtain r w1 where r: "run L X tc w = (r, w1)" by (metis surj_pair)
  show ?case
  proof (cases r)
    case (Inl x)
    then show ?thesis using Cons.prems r by (auto simp: stop_run_def)
  next
    case (Inr res)
    obtain q w2 where q: "run_in_order stop_run keep L X tcs w1 = (q, w2)" by (metis surj_pair)
    have "q = Inl e" "w' = w2" using Cons.prems r Inr q by (cases q; auto)+
    then show ?thesis using Cons.IH [of w1] q by auto
  qed
qed simp

text \<open>What a suite records of a case: its result, or that its setup failed.\<close>

definition recorded_as :: "cli_env \<Rightarrow> golib \<Rightarrow> 'w executor \<Rightarrow> test_case \<Rightarrow> run_result \<Rightarrow> bool" where
  "recorded_as E L X tc r \<longleftrightarrow> (\<exists>w. case fst (run L X tc w) of
      Inr res \<Rightarrow> r = res
    | Inl e \<Rightarrow> setup_failed e \<and> not_run_result E tc e = Inr r)"

lemma run_error_valid: "validate L tc = Inr () \<Longrightarrow> fst (run L X tc w) = Inl e \<Longrightarrow> setup_failed e"
  by (auto simp: run_def setup_failed_def split: sum.splits prod.splits)

lemma run_in_order_records:
  assumes "\<forall>tc\<in>set tcs. validate L tc = Inr ()"
  shows "\<exists>rs w'. run_in_order (not_run_result E) (\<lambda>_ r. r) L X tcs w = (Inr rs, w') \<and> list_all2 (recorded_as E L X) tcs rs"
  using assms
proof (induction tcs arbitrary: w)
  case (Cons tc tcs)
  obtain r w1 where r: "run L X tc w = (r, w1)" by (metis surj_pair)
  obtain rs w2 where rest: "run_in_order (not_run_result E) (\<lambda>_ r. r) L X tcs w1 = (Inr rs, w2)"
      "list_all2 (recorded_as E L X) tcs rs"
    using Cons by fastforce
  obtain q where q: "(case r of Inl e \<Rightarrow> not_run_result E tc e | Inr res \<Rightarrow> Inr res) = Inr q"
    by (cases r) (auto simp: not_run_result_def)
  have "setup_failed e" if "r = Inl e" for e
    using run_error_valid [of L tc X w e] Cons.prems r that by simp
  then have "recorded_as E L X tc q"
    using q r unfolding recorded_as_def by (intro exI [of _ w]) (auto split: sum.splits)
  moreover have "run_in_order (not_run_result E) (\<lambda>_ r. r) L X (tc # tcs) w = (Inr (q # rs), w2)"
    using r rest(1) q by simp
  ultimately show ?case using rest(2) by auto
qed simp

lemma validate_suite_Inr: "validate_suite L tcs = Inr () \<longleftrightarrow> (\<forall>tc\<in>set tcs. validate L tc = Inr ())"
proof -
  have "validate_suite L tcs = Inr () \<longleftrightarrow> (\<forall>x\<in>set (enum_list tcs). validate L (snd x) = Inr ())"
    by (auto simp: validate_suite_def Let_def List.map_filter_def filter_empty_conv split: sum.splits)
  also have "\<dots> \<longleftrightarrow> (\<forall>tc\<in>set tcs. validate L tc = Inr ())"
    by (simp add: ball_enum_list) (metis in_set_conv_nth)
  finally show ?thesis .
qed

section \<open>Nothing is sent too early\<close>

text \<open>The cases a file of cases stands for: its templates in order, expanded, with the overrides of the flags.\<close>

definition file_cases :: "cli_env \<Rightarrow> golib \<Rightarrow> run_flags \<Rightarrow> test_case list \<Rightarrow> (string \<times> string) list \<Rightarrow> bool" where
  "file_cases E L f tcs digests \<longleftrightarrow> (\<exists>data templates expanded. fi_read (cl_files E) (rf_cases f) = Some data
     \<and> case_templates L (cl_case E) data = Inr (templates, digests) \<and> templates \<noteq> []
     \<and> list_all2 (\<lambda>t t'. expand_case (fi_env (cl_files E)) t = Inr t') templates expanded
     \<and> tcs = map (\<lambda>tc. override_strict (rf_strict f) (override_mutating (rf_allow_mutating f) tc)) expanded)"

lemma prepare_cases_Inr:
  assumes "prepare_cases E L f = Inr (tcs, digests)"
  shows "file_cases E L f tcs digests \<and> (\<forall>tc\<in>set tcs. validate L tc = Inr ())
    \<and> (rf_require_preflight f \<longrightarrow> list_all has_preflight tcs)"
proof -
  obtain loaded where l: "load_cases E L (rf_cases f) = Inr (loaded, digests)"
    and t: "tcs = map (\<lambda>tc. override_strict (rf_strict f) (override_mutating (rf_allow_mutating f) tc)) loaded"
    and v: "validate_suite L tcs = Inr ()" "rf_require_preflight f \<longrightarrow> list_all has_preflight tcs"
    using assms by (auto simp: prepare_cases_def bind_res_eq_Inr Let_def)
  obtain data templates where d: "fi_read (cl_files E) (rf_cases f) = Some data"
      "case_templates L (cl_case E) data = Inr (templates, digests)"
      "list_all2 (\<lambda>t t'. expand_case (fi_env (cl_files E)) t = Inr t') templates loaded"
    using l by (auto simp: load_cases_def bind_res_eq_Inr map_res_Inr_iff split: option.splits)
  moreover have "templates \<noteq> []"
    using case_templates_read [OF d(2)] by (fastforce simp: templates_read_def)
  ultimately show ?thesis using v(2) t v(1) [unfolded validate_suite_Inr] unfolding file_cases_def by blast
qed

lemma run_valid: "fst (run L X tc w) = Inr res \<or> snd (run L X tc w) \<noteq> w \<or> (\<exists>e. fst (run L X tc w) = Inl e \<and> setup_failed e)
    \<Longrightarrow> validate L tc = Inr ()"
  by (cases "validate L tc") (auto simp: run_def setup_failed_def)

lemma has_preflight_overridden [simp]: "has_preflight (override_mutating b tc) = has_preflight tc"
  by (simp add: override_mutating_def has_preflight_def)

lemma prepare_job_preflight:
  "prepare_job E L f = Inr (tc, cfg, g) \<Longrightarrow> rf_require_preflight f \<Longrightarrow> has_preflight tc"
  by (auto simp: prepare_job_def bind_res_eq_Inr Let_def)

text \<open>A job that sent something, or has a result, was prepared and is valid.\<close>

lemma run_job_valid:
  assumes "run_job E L parse_ip (recording T) f (w, []) = (r, (w', sent))" "sent \<noteq> [] \<or> (\<exists>x. r = Inr x)"
  shows "\<exists>tc cfg g. prepare_job E L f = Inr (tc, cfg, g) \<and> validate L tc = Inr ()
    \<and> (rf_require_preflight f \<longrightarrow> has_preflight tc)"
proof -
  obtain tc cfg g where p: "prepare_job E L f = Inr (tc, cfg, g)"
    using assms by (cases "prepare_job E L f") (auto simp: run_job_def)
  let ?X = "client_executor L parse_ip cfg (if g = None then background (recording T) else recording T)"
  obtain q g' w1 s1 where q: "run L ?X tc (g, (w, [])) = (q, (g', (w1, s1)))" by (metis surj_pair)
  have "validate L tc = Inr ()"
  proof (rule ccontr)
    assume bad: "validate L tc \<noteq> Inr ()"
    then obtain e where e: "q = Inl e" "\<not> setup_failed e" "s1 = []"
      using q by (cases "validate L tc") (auto simp: run_def setup_failed_def)
    then have "r = Inl (run_problem [] e) \<and> sent = []"
      using assms(1) p q by (auto simp: run_job_def split: prod.splits if_splits dest: recording_cancelled)
    with assms(2) show False by simp
  qed
  with p prepare_job_preflight show ?thesis by blast
qed

lemma prepare_policies_Inr:
  assumes "prepare_policies E L f = Inr (threshold, cs, strict)"
  shows "parse_fail_on (pf_fail_on f) = Inr threshold \<and> compile_all E f = Inr (cs, strict)
    \<and> (\<forall>c\<in>set cs. validate L (sc_test_case c) = Inr ())"
  using assms by (auto simp: prepare_policies_def bind_res_eq_Inr validate_suite_Inr)

text \<open>
  C16. Nothing is sent or written before everything a command is to run is known to be good.
  For \<open>run\<close> with a job: when a request was sent or something written, the job was read and
  prepared (with its guard, if one is asked for) and its case is valid. For \<open>run\<close> with a file of
  cases: when the world has moved on at all or something was written, every case of the file was
  loaded and expanded and is valid, with the overrides of the flags. In both, a preflight is
  declared where one is required. For \<open>policy run\<close>: every entry compiled and every compiled case is valid.
\<close>

theorem nothing_happens_before_all_is_valid:
  "(\<forall>v written w' sent. rf_job f \<noteq> [] \<and> run_cases E L parse_ip (recording T) f (w, []) = ((v, written), (w', sent))
      \<and> (sent \<noteq> [] \<or> written \<noteq> []) \<longrightarrow>
      (\<exists>tc cfg g. prepare_job E L f = Inr (tc, cfg, g) \<and> validate L tc = Inr ()
        \<and> (rf_require_preflight f \<longrightarrow> has_preflight tc)))
   \<and> (\<forall>v written u'. rf_job f = [] \<and> run_cases E L parse_ip R f u = ((v, written), u') \<and> (u' \<noteq> u \<or> written \<noteq> []) \<longrightarrow>
      (\<exists>tcs digests. file_cases E L f tcs digests \<and> (\<forall>tc\<in>set tcs. validate L tc = Inr ())
        \<and> (rf_require_preflight f \<longrightarrow> list_all has_preflight tcs)))
   \<and> (\<forall>v written u'. run_policies E L parse_ip R h u = ((v, written), u') \<and> (u' \<noteq> u \<or> written \<noteq> []) \<longrightarrow>
      (\<exists>cs strict. compile_all E h = Inr (cs, strict) \<and> (\<forall>c\<in>set cs. validate L (sc_test_case c) = Inr ())))"
proof (intro conjI allI impI; elim conjE)
  fix v written w' sent
  assume job: "rf_job f \<noteq> []" and r: "run_cases E L parse_ip (recording T) f (w, []) = ((v, written), (w', sent))"
    and moved: "sent \<noteq> [] \<or> written \<noteq> []"
  obtain q w1 s1 where q: "run_job E L parse_ip (recording T) f (w, []) = (q, (w1, s1))" by (metis surj_pair)
  have "s1 \<noteq> [] \<or> (\<exists>x. q = Inr x)"
    using r moved job q by (cases q) (auto simp: run_cases_def split: sum.splits)
  from run_job_valid [OF q this] show "\<exists>tc cfg g. prepare_job E L f = Inr (tc, cfg, g) \<and> validate L tc = Inr ()
      \<and> (rf_require_preflight f \<longrightarrow> has_preflight tc)" .
next
  fix v written u'
  assume r: "rf_job f = []" "run_cases E L parse_ip R f u = ((v, written), u')" "u' \<noteq> u \<or> written \<noteq> []"
  show "\<exists>tcs digests. file_cases E L f tcs digests \<and> (\<forall>tc\<in>set tcs. validate L tc = Inr ())
      \<and> (rf_require_preflight f \<longrightarrow> list_all has_preflight tcs)"
  proof (cases "prepare_cases E L f")
    case (Inl e)
    then have "run_case_file E L parse_ip R f u = (Inl e, u)" by (simp add: run_case_file_def)
    with r show ?thesis by (auto simp: run_cases_def split: sum.splits)
  next
    case (Inr x)
    then show ?thesis using prepare_cases_Inr [of E L f "fst x" "snd x"] by (cases x) auto
  qed
next
  fix v written u'
  assume r: "run_policies E L parse_ip R h u = ((v, written), u')" "u' \<noteq> u \<or> written \<noteq> []"
  show "\<exists>cs strict. compile_all E h = Inr (cs, strict) \<and> (\<forall>c\<in>set cs. validate L (sc_test_case c) = Inr ())"
  proof (cases "prepare_policies E L h")
    case (Inl e)
    then show ?thesis using r by (simp add: run_policies_def)
  next
    case (Inr x)
    then show ?thesis using prepare_policies_Inr [of E L h "fst x" "fst (snd x)" "snd (snd x)"] by (cases x) auto
  qed
qed

section \<open>What a command's exit means\<close>

lemma report_and_gate_zero:
  assumes "report_and_gate E L ot atomic p cases (gate_all rs threshold strict) = (v, written)" "exit_code v = 0"
  shows "clean_run threshold strict rs \<and> written = wanted_sinks E L ot atomic p cases"
proof -
  have "v = gate_all rs threshold strict \<and> written = wanted_sinks E L ot atomic p cases"
    using report_and_gate_cases [OF assms(1)] assms(2) by (auto simp: exit_code_def)
  then show ?thesis using assms(2) exit_zero by metis
qed

lemma run_case_file_results:
  assumes "run_case_file E L parse_ip T f w = (Inr rs, w')"
  shows "\<exists>tcs digests g. file_cases E L f tcs digests
    \<and> ran_in_order L (client_executor L parse_ip (config_of (rf_allow_private f) (rf_timeout f)) (background T))
        (\<lambda>tc. digest_of digests (tc_id tc)) tcs (None, w) rs (g, w')"
proof -
  let ?X = "client_executor L parse_ip (config_of (rf_allow_private f) (rf_timeout f)) (background T)"
  obtain tcs digests g where p: "prepare_cases E L f = Inr (tcs, digests)"
    and r: "run_in_order stop_run (\<lambda>tc r. r\<lparr>rr_digest := digest_of digests (tc_id tc)\<rparr>) L ?X tcs (None, w) = (Inr rs, (g, w'))"
    using assms by (auto simp: run_case_file_def split: sum.splits prod.splits)
  from run_in_order_stops [OF r] prepare_cases_Inr [OF p] show ?thesis by blast
qed

text \<open>Errors are never success.\<close>

lemma usage_code [simp]: "exit_code (Inl (Usage u)) = 1"
  by (simp add: exit_code_def)

lemma run_problem_code: "exit_code (Inl (run_problem i e)) \<noteq> 0"
  by (simp add: run_problem_def exit_code_def)

definition usage_only :: "cli_error + 'a \<Rightarrow> bool" where
  "usage_only r \<longleftrightarrow> (case r of Inl e \<Rightarrow> (\<exists>u. e = Usage u) | Inr _ \<Rightarrow> True)"

lemma usage_only_simps [simp]:
  "usage_only (Inr x)" "usage_only (Inl (Usage u))" "usage_only (guard_err c (Usage u))"
  "usage_only (map_err (\<lambda>e. Usage (h e)) r)" "usage_only (Inl e) \<longleftrightarrow> (\<exists>u. e = Usage u)"
  by (simp_all add: usage_only_def guard_err_def map_err_def split: sum.splits)

lemma usage_only_bind [intro!]: "usage_only r \<Longrightarrow> (\<And>x. usage_only (f x)) \<Longrightarrow> usage_only (bind_res r f)"
  by (cases r) (auto simp: usage_only_def)

lemma usage_only_map_res [intro!]: "(\<And>x. usage_only (f x)) \<Longrightarrow> usage_only (map_res f xs)"
  by (induction xs) auto

lemma usage_only_code: "usage_only (Inl e) \<Longrightarrow> exit_code (Inl e) = 1"
  by (auto simp: usage_only_def)

lemma usage_only_prepare:
  "usage_only (check_run_flags f)" "usage_only (parse_fail_on s)" "usage_only (prepare_job E L f)" "usage_only (prepare_cases E L f)"
  unfolding check_run_flags_def validate_outputs_def parse_fail_on_def prepare_job_def load_guard_def prepare_cases_def
    load_cases_def validate_suite_def Let_def
  by (auto split: option.split prod.split)

lemma run_job_code: "run_job E L parse_ip T f w = (Inl e, w') \<Longrightarrow> exit_code (Inl e) \<noteq> 0"
  using usage_only_prepare(3) [of E L f]
  by (auto simp: run_job_def run_problem_code split: sum.splits prod.splits if_splits)

lemma run_case_file_code: "run_case_file E L parse_ip T f w = (Inl e, w') \<Longrightarrow> exit_code (Inl e) \<noteq> 0"
  using usage_only_prepare(4) [of E L f]
  by (auto simp: run_case_file_def run_problem_code dest!: run_in_order_error split: sum.splits prod.splits)

text \<open>The results \<open>rs\<close> left nothing open and were written as asked, and nothing else was.\<close>

definition clean_and_written :: "cli_env \<Rightarrow> golib \<Rightarrow> run_flags \<Rightarrow> string \<Rightarrow> bool \<Rightarrow> payload \<Rightarrow> sink list \<Rightarrow> bool" where
  "clean_and_written E L f path atomic p written \<longleftrightarrow>
     (\<exists>threshold. parse_fail_on (rf_fail_on f) = Inr threshold
        \<and> clean_run threshold (rf_fail_inconclusive f) (payload_results p))
     \<and> written = wanted_sinks E L (rf_outputs f) atomic p (report_cases E path (payload_results p))"

lemma run_job_zero:
  assumes "run_job E L parse_ip T f w = (Inr (res, interrupted), w')" "exit_code v = 0"
    and "report_and_gate E L (rf_outputs f) atomic (One res) (report_cases E s [res])
          (if interrupted then interrupted_exit res else gate_all [res] threshold (rf_fail_inconclusive f)) = (v, written)"
    and "parse_fail_on (rf_fail_on f) = Inr threshold"
  shows "(\<exists>tc cfg g w1. prepare_job E L f = Inr (tc, cfg, g)
      \<and> run L (client_executor L parse_ip cfg (if g = None then background T else T)) tc (g, w) = (Inr res, w1))
    \<and> clean_and_written E L f s atomic (One res) written"
proof -
  have ni: "\<not> interrupted"
    using report_and_gate_cases [OF assms(3)] assms(2) by (auto simp: exit_code_def interrupted_exit_def split: if_splits)
  obtain tc cfg g where p: "prepare_job E L f = Inr (tc, cfg, g)"
    using assms(1) by (cases "prepare_job E L f") (auto simp: run_job_def)
  obtain r g' w2 where r: "run L (client_executor L parse_ip cfg (if g = None then background T else T)) tc (g, w) = (r, (g', w2))"
    by (metis surj_pair)
  have "r = Inr res"
    using assms(1) p r ni by (cases r) (auto simp: run_job_def simp del: not_None_eq split: prod.splits if_split_asm)
  then have "\<exists>tc cfg g w1. prepare_job E L f = Inr (tc, cfg, g)
      \<and> run L (client_executor L parse_ip cfg (if g = None then background T else T)) tc (g, w) = (Inr res, w1)"
    using p r by blast
  moreover have "clean_run threshold (rf_fail_inconclusive f) [res]
      \<and> written = wanted_sinks E L (rf_outputs f) atomic (One res) (report_cases E s [res])"
    using report_and_gate_zero [OF _ assms(2)] assms(3) ni by simp
  ultimately show ?thesis using assms(4) by (simp add: clean_and_written_def payload_results_def)
qed

lemma run_case_file_zero:
  assumes "exit_code v = 0" "parse_fail_on (rf_fail_on f) = Inr threshold"
    and "report_and_gate E L (rf_outputs f) atomic (Many rs) (report_cases E s rs)
          (gate_all rs threshold (rf_fail_inconclusive f)) = (v, written)"
  shows "clean_and_written E L f s atomic (Many rs) written"
  using report_and_gate_zero [OF assms(3,1)] assms(2) by (simp add: clean_and_written_def payload_results_def)

text \<open>
  C10. A successful exit is worth something. When \<open>run\<close> exits with 0, it has run everything it was
  given: the case of the job, in the configuration of the job and under its guard; or the cases of
  the file, all of them and in order, each from where the one before left the world, with the
  digest of its own template. Every one of these results was tested, no finding is at or above the
  threshold, with \<open>--fail-on-inconclusive\<close> nothing is left inconclusive, and every requested
  file and the standard output were written, with exactly these results.
\<close>

theorem exit_zero_means_tested:
  assumes "run_cases E L parse_ip T f w = ((v, written), w')" "exit_code v = 0"
  shows "if rf_job f \<noteq> []
    then \<exists>tc cfg g res w1. prepare_job E L f = Inr (tc, cfg, g) \<and> (g = None \<longleftrightarrow> rf_guard f = [])
      \<and> run L (client_executor L parse_ip cfg (if g = None then background T else T)) tc (g, w) = (Inr res, w1)
      \<and> clean_and_written E L f (rf_job f) (rf_guard f \<noteq> []) (One res) written
    else \<exists>tcs digests rs g. file_cases E L f tcs digests
      \<and> ran_in_order L (client_executor L parse_ip (config_of (rf_allow_private f) (rf_timeout f)) (background T))
          (\<lambda>tc. digest_of digests (tc_id tc)) tcs (None, w) rs (g, w')
      \<and> clean_and_written E L f (rf_cases f) False (Many rs) written"
proof (cases "bind_res (check_run_flags f) (\<lambda>_. parse_fail_on (rf_fail_on f))")
  case (Inl e)
  then have "usage_only (Inl e :: cli_error + severity option)"
    using usage_only_bind [of "check_run_flags f" "\<lambda>_. parse_fail_on (rf_fail_on f)"] usage_only_prepare(1,2) by metis
  then show ?thesis using assms Inl usage_only_code [of e] by (simp add: run_cases_def usage_only_def)
next
  case (Inr threshold)
  then have t: "parse_fail_on (rf_fail_on f) = Inr threshold" by (auto simp: bind_res_eq_Inr)
  show ?thesis
  proof (cases "rf_job f = []")
    case False
    obtain q w1 where q: "run_job E L parse_ip T f w = (q, w1)" by (metis surj_pair)
    obtain res interrupted where r: "q = Inr (res, interrupted)"
      using assms Inr False q by (cases q) (auto simp: run_cases_def dest: run_job_code)
    have g: "report_and_gate E L (rf_outputs f) (rf_guard f \<noteq> []) (One res) (report_cases E (rf_job f) [res])
        (if interrupted then interrupted_exit res else gate_all [res] threshold (rf_fail_inconclusive f)) = (v, written)"
      using assms(1) Inr False q r by (simp add: run_cases_def)
    note z = run_job_zero [OF q [unfolded r] assms(2) g t]
    then obtain tc cfg gd w1 where "prepare_job E L f = Inr (tc, cfg, gd)"
      "run L (client_executor L parse_ip cfg (if gd = None then background T else T)) tc (gd, w) = (Inr res, w1)" by blast
    moreover from this(1) have "gd = None \<longleftrightarrow> rf_guard f = []"
      by (auto simp: prepare_job_def bind_res_eq_Inr Let_def split: if_splits)
    ultimately show ?thesis using z False by (simp only: if_True not_False_eq_True) blast
  next
    case True
    obtain q w1 where q: "run_case_file E L parse_ip T f w = (q, w1)" by (metis surj_pair)
    obtain rs where r: "q = Inr rs"
      using assms Inr True q by (cases q) (auto simp: run_cases_def dest: run_case_file_code)
    have g: "report_and_gate E L (rf_outputs f) False (Many rs) (report_cases E (rf_cases f) rs)
        (gate_all rs threshold (rf_fail_inconclusive f)) = (v, written)" and w: "w1 = w'"
      using assms(1) Inr True q r by (simp_all add: run_cases_def)
    from run_case_file_results [OF q [unfolded r w]] run_case_file_zero [OF assms(2) t g] True show ?thesis
      by auto
  qed
qed

section \<open>Suites, guarded and interrupted jobs\<close>

text \<open>
  C18. In a suite one entry's failed setup hides nothing: there is one result for every compiled case,
  in order, either the outcome of its run or a record that it was not run with the reason; the
  reports are written from all of them, and when any was not run the verdict is exit code 3.
\<close>

theorem suite_records_every_case:
  assumes "pf_suite f \<noteq> []" "prepare_policies E L f = Inr (threshold, cs, strict)"
  shows "\<exists>rs. list_all2 (recorded_as E L (client_executor L parse_ip (config_of (pf_allow_private f) (pf_timeout f)) (background T)))
        (map sc_test_case cs) rs
    \<and> fst (run_policies E L parse_ip T f w) = report_and_gate E L (pf_outputs f) False (Many rs)
        (map (\<lambda>(c, r). \<lparr>rc_source = source_path E (sc_source c), rc_result = r\<rparr>) (zip cs rs)) (gate_all rs threshold strict)
    \<and> (\<forall>r\<in>set rs. rr_error r \<noteq> [] \<longrightarrow> exit_code (gate_all rs threshold strict) = 3)"
proof -
  let ?X = "client_executor L parse_ip (config_of (pf_allow_private f) (pf_timeout f)) (background T)"
  have "\<forall>tc\<in>set (map sc_test_case cs). validate L tc = Inr ()"
    using prepare_policies_Inr [OF assms(2)] by simp
  from run_in_order_records [OF this, of E ?X "(None, w)"] obtain rs w1 where
    r: "run_in_order (not_run_result E) (\<lambda>_ r. r) L ?X (map sc_test_case cs) (None, w) = (Inr rs, w1)"
       "list_all2 (recorded_as E L ?X) (map sc_test_case cs) rs"
    by blast
  have "\<forall>r\<in>set rs. rr_error r \<noteq> [] \<longrightarrow> exit_code (gate_all rs threshold strict) = 3"
    unfolding gate_all_code not_tested_iff by auto
  then show ?thesis using r assms(1)
    by (intro exI [of _ rs]) (auto simp: run_policies_def assms(2) split: prod.splits)
qed

lemma load_guard_Inr:
  assumes "load_guard E L path e = Inr g"
  shows "\<exists>p. load_plan E L path = Some p \<and> check_binary L p (cl_binary E) \<and> pl_allow_private p = ev_allow_private e
    \<and> new_guard L p = Some g"
  using assms by (auto simp: load_guard_def bind_res_eq_Inr split: option.split_asm)

lemma prepare_job_guard:
  assumes "prepare_job E L f = Inr (tc, cfg, g)" "rf_guard f \<noteq> []"
  shows "\<exists>p g'. g = Some g' \<and> load_plan E L (rf_guard f) = Some p \<and> check_binary L p (cl_binary E) \<and> new_guard L p = Some g'
    \<and> cc_allow_private cfg = pl_allow_private p"
  using assms by (auto simp: prepare_job_def client_config_of_def bind_res_eq_Inr Let_def dest!: load_guard_Inr)

text \<open>
  C17. A guarded \<open>run\<close> sends only what its approved plan allows: whatever the job says, however the
  servers answer and whenever it is interrupted, the requests on the wire are at most the plan's
  total, each is one a dispatch of the plan approves to an address the URL check admits, and the
  plan is one made for the very binary that runs.
\<close>

theorem guarded_job_stays_in_plan:
  assumes "rf_guard f \<noteq> []" "run_cases E L parse_ip (recording T) f (w, []) = (r, (w', sent))" "sent \<noteq> []"
  shows "\<exists>p. load_plan E L (rf_guard f) = Some p \<and> check_binary L p (cl_binary E) \<and> int (length sent) \<le> pl_max p
    \<and> (\<forall>hr\<in>set sent. planned L parse_ip (pl_allow_private p) (map clone_dispatch (pl_dispatches p)) hr)"
proof -
  have flags: "bind_res (check_run_flags f) (\<lambda>_. parse_fail_on (rf_fail_on f)) \<noteq> Inl e" for e
    using assms(2,3) by (auto simp: run_cases_def)
  then obtain threshold where t: "bind_res (check_run_flags f) (\<lambda>_. parse_fail_on (rf_fail_on f)) = Inr threshold"
    by (cases "bind_res (check_run_flags f) (\<lambda>_. parse_fail_on (rf_fail_on f))") auto
  then have "rf_job f \<noteq> []" using assms(1) by (auto simp: bind_res_eq_Inr check_run_flags_def)
  then have job: "snd (run_job E L parse_ip (recording T) f (w, [])) = (w', sent)"
    using assms(2) t by (auto simp: run_cases_def split: prod.splits sum.splits)
  then obtain tc cfg g where p: "prepare_job E L f = Inr (tc, cfg, g)"
    using assms(3) by (cases "prepare_job E L f") (auto simp: run_job_def)
  obtain pl g1 where g: "g = Some g1" "load_plan E L (rf_guard f) = Some pl" "check_binary L pl (cl_binary E)"
      "new_guard L pl = Some g1" "cc_allow_private cfg = pl_allow_private pl"
    using prepare_job_guard [OF p assms(1)] by blast
  obtain q og w1 sent1 where q: "run L (client_executor L parse_ip cfg (recording T)) tc (Some g1, (w, [])) = (q, (og, (w1, sent1)))"
    by (metis surj_pair)
  have "sent1 = sent"
    using job p q g(1) by (auto simp: run_job_def recording_def split: prod.splits sum.splits if_splits)
  with guarded_run_stays_in_plan [OF g(4) q] g(2,3,5) show ?thesis by auto
qed

text \<open>
  An interrupted guarded job is never reported as a success, and its result keeps no text of the
  transport: the error of the result and of every execution that failed is the fixed code.
\<close>

theorem interrupted_job_is_not_a_pass:
  assumes "run_job E L parse_ip T f w = (Inr (res, True), w')"
  shows "rr_error res = ''execution_cancelled''
    \<and> (\<forall>ex\<in>set (rr_executions res). er_error ex \<in> {[], ''execution_cancelled''})
    \<and> not_tested res \<noteq> [] \<and> rf_guard f \<noteq> []
    \<and> exit_code (fst (report_and_gate E L ot atomic p cases (interrupted_exit res))) \<in> {1, 3, 4}"
proof -
  obtain res0 where r: "res = mark_cancelled res0"
    using assms by (auto simp: run_job_def split: sum.splits prod.splits if_splits)
  have "rf_guard f \<noteq> []"
    using assms unfolding run_job_def prepare_job_def
    by (auto simp: bind_res_eq_Inr Let_def split: sum.splits prod.splits if_splits)
  moreover have "exit_code (fst (report_and_gate E L ot atomic p cases (interrupted_exit res))) \<in> {1, 3, 4}"
    using report_and_gate_cases [of E L ot atomic p cases "interrupted_exit res"
        "fst (report_and_gate E L ot atomic p cases (interrupted_exit res))"
        "snd (report_and_gate E L ot atomic p cases (interrupted_exit res))"]
    by (auto simp: exit_code_def interrupted_exit_def split: if_splits)
  ultimately show ?thesis
    by (auto simp: r mark_cancelled_def not_tested_iff)
qed

section \<open>A small environment\<close>

text \<open>Two callers of one endpoint; a file is its own path.\<close>

definition cli_policy :: policy where
  "cli_policy = sample_policy\<lparr>po_api := (po_api sample_policy)\<lparr>ap_endpoint := ''GET /u'',
       ap_resource := \<lparr>rc_type = [], rc_id_param = [], rc_tenant_field = []\<rparr>, ap_mutating := False\<rparr>,
     po_response := (po_response sample_policy)\<lparr>re_profiles := [], re_sensitive := \<lparr>sn_forbidden_for = []\<rparr>\<rparr>,
     po_verify := None, po_profiles := []\<rparr>"

definition cli_files :: files where
  "cli_files = sample_files\<lparr>fi_policy := \<lambda>_. Some cli_policy, fi_suite := \<lambda>_. Some (sample_suite\<lparr>su_policies :=
     [\<lparr>en_policy = ''p'', en_params = [], en_tenant = [], en_id = [], en_identities = []\<rparr>]\<rparr>)\<rparr>"

definition cli_dispatch :: dispatch where
  "cli_dispatch = \<lparr>d_phase = ''resource'', d_identity = ''alice'', d_request = \<lparr>pr_method = ''GET'',
     pr_url = ''http://api/orders/1'', pr_headers = [], pr_query = [], pr_body = []\<rparr>, d_max = 1\<rparr>"

definition cli_plan :: plan where
  "cli_plan = sample_plan\<lparr>pl_dispatches := [cli_dispatch], pl_max_bytes := 2\<rparr>"

definition sample_cli :: cli_env where
  "sample_cli = \<lparr>cl_files = cli_files, cl_dir = \<lambda>p. p, cl_rel = \<lambda>_. None, cl_slash = \<lambda>p. p, cl_case = \<lambda>_. Some sample_case,
     cl_envelope = \<lambda>_. Some ((bare_envelope sample_case)\<lparr>ev_timeout := 30, ev_max_bytes := 2\<rparr>),
     cl_plan = \<lambda>_. Some cli_plan, cl_binary = Some (replicate 64 CHR ''0''), cl_write = \<lambda>_. True,
     cl_texts = \<lparr>tx_message = \<lambda>_. [], tx_evidence = \<lambda>_. []\<rparr>, cl_detail = \<lambda>_. [], cl_version = []\<rparr>"

definition sample_run_flags :: run_flags where
  "sample_run_flags = \<lparr>rf_job = ''{\"config\":0}'', rf_cases = [], rf_outputs = \<lparr>ot_out = [], ot_sarif = [], ot_format = ''json''\<rparr>,
     rf_fail_on = ''High'', rf_fail_inconclusive = True, rf_allow_private = False, rf_allow_mutating = False,
     rf_require_preflight = False, rf_strict = None, rf_literal = True, rf_guard = [], rf_timeout = 0\<rparr>"

definition sample_policy_flags :: policy_flags where
  "sample_policy_flags = \<lparr>pf_policy = [], pf_suite = ''s'', pf_base = [], pf_identities = [], pf_params = [], pf_tenant = [],
     pf_allow_mutating = False, pf_id = [], pf_outputs = \<lparr>ot_out = [], ot_sarif = [], ot_format = ''json''\<rparr>,
     pf_fail_on = ''none'', pf_fail_inconclusive = None, pf_allow_private = False, pf_strict = None, pf_timeout = 0\<rparr>"

definition two_answers :: "http_response list" where
  "two_answers = [\<lparr>hp_status = 200, hp_headers = [], hp_body = [], hp_read_error = None\<rparr>,
     \<lparr>hp_status = 403, hp_headers = [], hp_body = [], hp_read_error = None\<rparr>]"

lemma sample_run_passes:
  "exit_code (fst (fst (run_cases sample_cli sample_net_lib (\<lambda>_. None) sample_transport sample_run_flags two_answers))) = 0"
  by code_simp

lemma exit_zero_means_tested_witness:
  "\<exists>tc cfg res w1 written. run sample_net_lib (client_executor sample_net_lib (\<lambda>_. None) cfg (background sample_transport)) tc
       (None, two_answers) = (Inr res, w1)
     \<and> clean_and_written sample_cli sample_net_lib sample_run_flags ''{\"config\":0}'' False (One res) written"
proof -
  obtain v written w' where r: "run_cases sample_cli sample_net_lib (\<lambda>_. None) sample_transport sample_run_flags two_answers = ((v, written), w')"
    by (metis surj_pair)
  with sample_run_passes have "exit_code v = 0" by simp
  from exit_zero_means_tested [OF r this] obtain tc cfg g res w1 where
    g: "g = None" and "run sample_net_lib (client_executor sample_net_lib (\<lambda>_. None) cfg
        (if g = None then background sample_transport else sample_transport)) tc (g, two_answers) = (Inr res, w1)"
    and c: "clean_and_written sample_cli sample_net_lib sample_run_flags ''{\"config\":0}'' False (One res) written"
    by (auto simp: sample_run_flags_def)
  then have "run sample_net_lib (client_executor sample_net_lib (\<lambda>_. None) cfg (background sample_transport)) tc
      (None, two_answers) = (Inr res, w1)" by simp
  with c show ?thesis by (intro exI conjI)
qed

text \<open>The same case from a file of cases, and the suite of the policy.\<close>

definition sample_file_flags :: run_flags where
  "sample_file_flags = sample_run_flags\<lparr>rf_job := [], rf_cases := ''{}'', rf_literal := False\<rparr>"

lemma sample_file_run:
  "snd (fst (run_cases sample_cli sample_net_lib (\<lambda>_. None) sample_transport sample_file_flags [])) \<noteq> []"
  by code_simp

lemma sample_suite_run:
  "snd (fst (run_policies sample_cli sample_net_lib (\<lambda>_. None) sample_transport sample_policy_flags [])) \<noteq> []"
  by code_simp

lemma nothing_happens_before_all_is_valid_witness:
  "(\<exists>tcs digests. file_cases sample_cli sample_net_lib sample_file_flags tcs digests)
   \<and> (\<exists>cs strict. compile_all sample_cli sample_policy_flags = Inr (cs, strict))"
proof -
  let ?q = "run_cases sample_cli sample_net_lib (\<lambda>_. None) sample_transport sample_file_flags []"
  let ?r = "run_policies sample_cli sample_net_lib (\<lambda>_. None) sample_transport sample_policy_flags []"
  have q: "rf_job sample_file_flags = [] \<and> ?q = ((fst (fst ?q), snd (fst ?q)), snd ?q) \<and> (snd ?q \<noteq> [] \<or> snd (fst ?q) \<noteq> [])"
    using sample_file_run by (simp add: sample_file_flags_def)
  have r: "?r = ((fst (fst ?r), snd (fst ?r)), snd ?r) \<and> (snd ?r \<noteq> [] \<or> snd (fst ?r) \<noteq> [])"
    using sample_suite_run by simp
  note all = nothing_happens_before_all_is_valid [of sample_file_flags sample_cli sample_net_lib "\<lambda>_. None" sample_transport "[]"
      sample_transport "[]" sample_policy_flags]
  from all [THEN conjunct2, THEN conjunct1, rule_format, OF q] all [THEN conjunct2, THEN conjunct2, rule_format, OF r]
  show ?thesis by blast
qed

lemma suite_records_every_case_witness:
  "\<exists>threshold cs strict rs. prepare_policies sample_cli sample_net_lib sample_policy_flags = Inr (threshold, cs, strict)
     \<and> length rs = length cs"
proof -
  obtain threshold cs strict where p: "prepare_policies sample_cli sample_net_lib sample_policy_flags = Inr (threshold, cs, strict)"
    using sample_suite_run by (cases "prepare_policies sample_cli sample_net_lib sample_policy_flags") (auto simp: run_policies_def)
  have "pf_suite sample_policy_flags \<noteq> []" by (simp add: sample_policy_flags_def)
  from suite_records_every_case [OF this p, of "\<lambda>_. None" sample_transport "[]"] p show ?thesis
    by (metis length_map list_all2_lengthD)
qed

text \<open>A job under a plan that lets only \<open>alice\<close> through.\<close>

definition sample_guarded_flags :: run_flags where
  "sample_guarded_flags = sample_run_flags\<lparr>rf_guard := ''{}''\<rparr>"

abbreviation cli_guard :: guard where
  "cli_guard \<equiv> the (new_guard sample_net_lib cli_plan)"

abbreviation cli_config :: client_config where
  "cli_config \<equiv> \<lparr>cc_timeout = 30000000000, cc_max_body = 2, cc_allow_private = False\<rparr>"

lemma cli_new_guard: "new_guard sample_net_lib cli_plan = Some cli_guard"
proof -
  have "new_guard sample_net_lib cli_plan \<noteq> None" by code_simp
  then show ?thesis by auto
qed

lemma cli_load_plan: "load_plan sample_cli sample_net_lib ''{}'' = Some cli_plan"
proof -
  have "json_parse ''{}'' = Some (JObj [])" "unique_keys (Some 32) 0 (JObj [])" by code_simp+
  moreover have "fi_read (cl_files sample_cli) ''{}'' = Some ''{}''" "cl_plan sample_cli = (\<lambda>_. Some cli_plan)"
    by (simp_all add: sample_cli_def cli_files_def sample_files_def)
  moreover obtain g where "new_guard sample_net_lib cli_plan = Some g" using cli_new_guard by blast
  ultimately show ?thesis by (simp add: load_plan_def parse_plan_def)
qed

lemma cli_prepared:
  "prepare_job sample_cli sample_net_lib sample_guarded_flags = Inr (sample_case, cli_config, Some cli_guard)"
proof -
  let ?e = "(bare_envelope sample_case)\<lparr>ev_timeout := 30, ev_max_bytes := 2\<rparr>"
  have "load_job sample_cli sample_guarded_flags = Inr ?e" by code_simp
  moreover have "load_guard sample_cli sample_net_lib ''{}'' ?e = Inr cli_guard"
  proof -
    have "check_binary sample_net_lib cli_plan (cl_binary sample_cli)" "pl_timeout cli_plan = ev_timeout ?e"
      "pl_max_bytes cli_plan = ev_max_bytes ?e" "pl_allow_private cli_plan = ev_allow_private ?e"
      by code_simp+
    moreover obtain g where "new_guard sample_net_lib cli_plan = Some g" using cli_new_guard by blast
    ultimately show ?thesis using cli_load_plan by (simp add: load_guard_def guard_err_def)
  qed
  moreover have "client_config_of ?e = cli_config" by code_simp
  moreover have "rf_guard sample_guarded_flags = ''{}''" "rf_strict sample_guarded_flags = None"
    "\<not> rf_require_preflight sample_guarded_flags" "\<not> rf_allow_mutating sample_guarded_flags" "ev_test_case ?e = sample_case"
    by (simp_all add: sample_guarded_flags_def sample_run_flags_def bare_envelope_def)
  ultimately show ?thesis
    by (simp add: prepare_job_def override_strict_def override_mutating_def guard_err_def)
qed

lemma cli_guarded_run:
  "snd (snd (snd (run sample_net_lib (client_executor sample_net_lib (\<lambda>_. None) cli_config (recording sample_transport))
     sample_case (Some cli_guard, (two_answers, []))))) \<noteq> []"
  by code_simp

lemma guarded_job_stays_in_plan_witness:
  "\<exists>r w' sent. run_cases sample_cli sample_net_lib (\<lambda>_. None) (recording sample_transport) sample_guarded_flags (two_answers, [])
       = (r, (w', sent)) \<and> length sent = 1"
proof -
  obtain r w' sent where r: "run_cases sample_cli sample_net_lib (\<lambda>_. None) (recording sample_transport) sample_guarded_flags
      (two_answers, []) = (r, (w', sent))"
    by (metis surj_pair)
  obtain q og w1 sent1 where q: "run sample_net_lib (client_executor sample_net_lib (\<lambda>_. None) cli_config (recording sample_transport))
      sample_case (Some cli_guard, (two_answers, [])) = (q, (og, (w1, sent1)))"
    by (metis surj_pair)
  have "bind_res (check_run_flags sample_guarded_flags) (\<lambda>_. parse_fail_on (rf_fail_on sample_guarded_flags)) = Inr (Some SevHigh)"
    "rf_job sample_guarded_flags \<noteq> []" by code_simp+
  then have "sent = sent1"
    using r q cli_prepared by (auto simp: run_cases_def run_job_def recording_def split: prod.splits sum.splits if_splits)
  then have sent: "sent \<noteq> []" using cli_guarded_run q by simp
  have "rf_guard sample_guarded_flags = ''{}''" by (simp add: sample_guarded_flags_def)
  then obtain p where "load_plan sample_cli sample_net_lib ''{}'' = Some p" "int (length sent) \<le> pl_max p"
    using guarded_job_stays_in_plan [OF _ r sent] by auto
  moreover have "pl_max cli_plan = 1" by (simp add: cli_plan_def sample_plan_def)
  ultimately have "length sent \<le> 1" using cli_load_plan by simp
  with r sent show ?thesis by (cases sent) auto
qed

text \<open>The same job, interrupted at once.\<close>

definition interrupted_transport :: "http_response list transport" where
  "interrupted_transport = sample_transport\<lparr>tr_cancelled := \<lambda>w. (True, w)\<rparr>"

lemma cli_interrupted_run:
  "isl (fst (run sample_net_lib (client_executor sample_net_lib (\<lambda>_. None) cli_config interrupted_transport)
     sample_case (Some cli_guard, two_answers))) = False"
  by code_simp

lemma interrupted_job_is_not_a_pass_witness:
  "\<exists>res w'. run_job sample_cli sample_net_lib (\<lambda>_. None) interrupted_transport sample_guarded_flags two_answers = (Inr (res, True), w')
     \<and> rr_error res = ''execution_cancelled''"
proof -
  obtain q og w1 where q: "run sample_net_lib (client_executor sample_net_lib (\<lambda>_. None) cli_config interrupted_transport)
      sample_case (Some cli_guard, two_answers) = (q, (og, w1))"
    by (metis surj_pair)
  then obtain res0 where "q = Inr res0" using cli_interrupted_run by (cases q) auto
  then have r: "run_job sample_cli sample_net_lib (\<lambda>_. None) interrupted_transport sample_guarded_flags two_answers
      = (Inr (mark_cancelled res0, True), w1)"
    using q cli_prepared by (simp add: run_job_def interrupted_transport_def)
  from interrupted_job_is_not_a_pass [OF r] r show ?thesis by blast
qed

section \<open>Timeouts, parameters and the demo\<close>

text \<open>A timeout of a job is exact up to the range of a duration, and not beyond.\<close>

lemma job_timeout_exact:
  "0 < ev_timeout e \<Longrightarrow> ev_timeout e \<le> 9223372036 \<Longrightarrow> cc_timeout (client_config_of e) = ev_timeout e * 1000000000"
  by (simp add: client_config_of_def wrap64_def)

lemma job_timeout_wraps:
  "cc_timeout (client_config_of ((bare_envelope tc)\<lparr>ev_timeout := 9223372037\<rparr>)) = - 9223372036709551616"
  by (simp add: client_config_of_def bare_envelope_def wrap64_def)

lemma set_param_reads_back:
  assumes "CHR ''='' \<notin> set n" "trim_space n = n" "n \<noteq> []"
  shows "set_param m (n @ ''='' @ v) = Some (amap_put n v m)"
proof -
  have "index_of ''='' (n @ ''='' @ v) = Some (length n)"
    using assms(1) by (induction n) (auto simp: has_prefix_def)
  then show ?thesis using assms(2,3) by (simp add: set_param_def)
qed

definition demo_narrative :: "texts \<Rightarrow> run_result \<Rightarrow> string" where
  "demo_narrative tx r =
     newline @ ''VardrGate demo '' @ em_dash @ '' a profile API that enforces nothing.'' @ newline
     @ ''Policy: only the owner may read /users/{user_id}/profile.'' @ newline @ newline
     @ text_case tx r
     @ (if rr_findings r = [] then ''(That is unexpected for this fixture.)'' @ newline
        else newline @ ''The same policy runs against a real environment with:'' @ newline
          @ ''  vardrgate policy run --policy examples/profile_ownership.policy.yaml '' @ [CHR 0x5C] @ newline
          @ ''      --base https://api.example.com --param user_id=42 '' @ [CHR 0x5C] @ newline
          @ ''      --identities identities.json --fail-on high'' @ newline)"

text \<open>The demo with the outcome of its run; the flags are \<open>--out\<close> and \<open>--fail-on\<close>.\<close>

definition run_demo :: "cli_env \<Rightarrow> string \<Rightarrow> string \<Rightarrow> cli_error + run_result \<Rightarrow> (cli_error + unit) \<times> sink list" where
  "run_demo E out fail_on demo =
     (case bind_res (parse_fail_on fail_on) (\<lambda>threshold. bind_res demo (\<lambda>res. Inr (threshold, res))) of
        Inl e \<Rightarrow> (Inl e, [])
      | Inr (threshold, res) \<Rightarrow>
          (case write_all (cl_write E) (if out = [] then [] else [ResultFile False out (One res)]) of
             (Inl e, written) \<Rightarrow> (Inl e, written)
           | (Inr _, written) \<Rightarrow> (gate [res] threshold, written @ [StdoutText (demo_narrative (cl_texts E) res)])))"

lemma demo_exit: "run_demo E out fail_on demo = (Inr (), written) \<Longrightarrow>
    \<exists>threshold res. parse_fail_on fail_on = Inr threshold \<and> demo = Inr res \<and> clean_run threshold False [res]
      \<and> last written = StdoutText (demo_narrative (cl_texts E) res)"
  by (auto simp: run_demo_def bind_res_eq_Inr gate_all_Inr [symmetric] gate_all_def gate_inconclusive_def
    split: sum.splits prod.splits)

end
