(* ===== verification/Serve.thy ===== *)
theory Serve
  imports Api UrlCheck
begin

text \<open>
  \<open>cmd/vardrgate/serve.go\<close>: what the server takes from the environment, and what that means for the
  requests the API then answers. \<open>net.ParseIP\<close>, the opening of the database and the listener itself
  are outside; the warnings that are logged are part of the result.
\<close>

section \<open>The settings\<close>

datatype serve_error = BadPort string | BadHost string | BadPrivate string

definition resolve_port :: "(string \<Rightarrow> string) \<Rightarrow> serve_error + int" where
  "resolve_port env = (let raw = env ''PORT'' in
     if raw = [] then Inr 8080
     else (case atoi raw of None \<Rightarrow> Inl (BadPort raw)
       | Some n \<Rightarrow> if n < 1 \<or> 65535 < n then Inl (BadPort raw) else Inr n))"

definition resolve_host :: "(string \<Rightarrow> ip option) \<Rightarrow> (string \<Rightarrow> string) \<Rightarrow> serve_error + string" where
  "resolve_host parse_ip env = (let raw = env ''VARDRGATE_HOST'' in
     if raw = [] then Inr ''127.0.0.1''
     else if raw \<noteq> ''localhost'' \<and> parse_ip raw = None then Inl (BadHost raw) else Inr raw)"

definition loopback_host :: "(string \<Rightarrow> ip option) \<Rightarrow> string \<Rightarrow> bool" where
  "loopback_host parse_ip host \<longleftrightarrow> host = ''localhost''
     \<or> (case parse_ip host of None \<Rightarrow> False | Some a \<Rightarrow> is_loopback a)"

datatype store_choice = InMemory | Durable string

definition resolve_store :: "(string \<Rightarrow> string) \<Rightarrow> store_choice" where
  "resolve_store env = (if env ''VARDRGATE_DB'' = [] then InMemory else Durable (env ''VARDRGATE_DB''))"

text \<open>One entry \<open>tenant:key\<close> of the list of keys.\<close>

definition key_pair :: "string \<Rightarrow> (string \<times> string) option" where
  "key_pair p = (let t = trim_space p in case index_of '':'' t of None \<Rightarrow> None
     | Some k \<Rightarrow>
         let tenant = trim_space (take k t); key = trim_space (drop (k + 1) t) in
         if tenant \<noteq> [] \<and> key \<noteq> [] then Some (key, tenant) else None)"

definition key_pairs :: "string \<Rightarrow> (string \<times> string) list" where
  "key_pairs multi = List.map_filter key_pair (split_on CHR '','' multi)"

definition resolve_api_keys :: "(string \<Rightarrow> string) \<Rightarrow> (string \<times> string) list" where
  "resolve_api_keys env =
     (if env ''VARDRGATE_API_KEYS'' \<noteq> [] then
        foldl (\<lambda>m (key, tenant). amap_put key tenant m) [] (key_pairs (env ''VARDRGATE_API_KEYS''))
      else if env ''VARDRGATE_API_KEY'' \<noteq> [] then [(env ''VARDRGATE_API_KEY'', ''default'')] else [])"

definition distinct_tenants :: "(string \<times> string) list \<Rightarrow> string list" where
  "distinct_tenants ks = remdups (map snd ks)"

text \<open>\<open>strconv.ParseBool\<close>.\<close>

definition parse_bool :: "string \<Rightarrow> bool option" where
  "parse_bool s = (if s \<in> {''1'', ''t'', ''T'', ''TRUE'', ''true'', ''True''} then Some True
     else if s \<in> {''0'', ''f'', ''F'', ''FALSE'', ''false'', ''False''} then Some False else None)"

definition resolve_allow_private :: "(string \<Rightarrow> string) \<Rightarrow> serve_error + bool" where
  "resolve_allow_private env = (let raw = env ''ALLOW_PRIVATE_TARGETS'' in
     if raw = [] then Inr False
     else (case parse_bool raw of None \<Rightarrow> Inl (BadPrivate raw) | Some b \<Rightarrow> Inr b))"

section \<open>Starting up\<close>

datatype warning = WarnPrivate | WarnNoKeys | WarnOpenToNetwork string | WarnInMemory

record server =
  se_host :: string
  se_port :: int
  se_private :: bool
  se_keys :: "(string \<times> string) list"
  se_store :: store_choice
  se_warnings :: "warning list"

definition start_up :: "(string \<Rightarrow> ip option) \<Rightarrow> (string \<Rightarrow> string) \<Rightarrow> serve_error + server" where
  "start_up parse_ip env =
     bind_res (resolve_port env) (\<lambda>port.
     bind_res (resolve_host parse_ip env) (\<lambda>host.
     bind_res (resolve_allow_private env) (\<lambda>private.
       let keys = resolve_api_keys env in
       Inr \<lparr>se_host = host, se_port = port, se_private = private, se_keys = keys, se_store = resolve_store env,
         se_warnings = (if private then [WarnPrivate] else [])
           @ (if keys = [] then WarnNoKeys # (if \<not> loopback_host parse_ip host then [WarnOpenToNetwork host] else []) else [])
           @ (if resolve_store env = InMemory then [WarnInMemory] else [])\<rparr>)))"

text \<open>The API of a server; what the jobs' decoder and the unfinished statuses are does not matter here.\<close>

definition api_of :: "server \<Rightarrow> (string \<Rightarrow> bool) \<Rightarrow> (json \<Rightarrow> test_case option) \<Rightarrow> api_config" where
  "api_of sv unfinished decode = \<lparr>ah_keys = se_keys sv, al_unfinished = unfinished, al_case = decode\<rparr>"

section \<open>Who is served\<close>

lemma amap_get_foldl_put:
  "amap_get (foldl (\<lambda>m (k, t). amap_put k t m) m ps) k
     = (case map_of (rev ps) k of Some t \<Rightarrow> Some t | None \<Rightarrow> amap_get m k)"
  by (induction ps arbitrary: m) (auto simp: map_add_def split: option.splits)

lemma foldl_put_Nil: "foldl (\<lambda>m (k, t). amap_put k t m) m ps = [] \<longleftrightarrow> m = [] \<and> ps = []"
proof (induction ps arbitrary: m)
  case (Cons p ps)
  have "amap_put (fst p) (snd p) m \<noteq> []" by (cases m) (auto split: if_split_asm)
  then show ?case using Cons.IH [of "amap_put (fst p) (snd p) m"] by (simp add: case_prod_beta)
qed simp

lemma token_tenant:
  "foldl (\<lambda>found (key, t). if token = key then Some t else found) init ks
     = (case map_of (rev ks) token of Some t \<Rightarrow> Some t | None \<Rightarrow> init)"
  by (induction ks arbitrary: init) (auto simp: map_add_def split: option.splits)

lemma distinct_keys_rev: "distinct (map fst ks) \<Longrightarrow> map_of (rev ks) k = map_of ks k"
  by (metis distinct_rev map_of_eq_Some_iff not_Some_eq rev_map set_rev)

lemma distinct_foldl_put: "distinct (map fst m) \<Longrightarrow> distinct (map fst (foldl (\<lambda>m (k, t). amap_put k t m) m ps))"
  by (induction ps arbitrary: m) (auto simp: case_prod_beta)

lemma api_keys_distinct: "distinct (map fst (resolve_api_keys env))"
  by (simp add: resolve_api_keys_def distinct_foldl_put)

lemma resolve_tenant_keys:
  assumes "se_keys sv \<noteq> []" "distinct (map fst (se_keys sv))"
  shows "resolve_tenant (api_of sv u d) r =
     (if has_prefix (ar_authorization r) ''Bearer '' then amap_get (se_keys sv) (trim_prefix (ar_authorization r) ''Bearer '') else None)"
  using assms distinct_keys_rev [of "se_keys sv"]
  by (simp add: resolve_tenant_def api_of_def token_tenant Let_def amap_get_def split: option.splits)

lemma api_key_of_pair:
  assumes "env ''VARDRGATE_API_KEYS'' \<noteq> []"
  shows "amap_get (resolve_api_keys env) k = map_of (rev (key_pairs (env ''VARDRGATE_API_KEYS''))) k"
  using assms by (simp add: resolve_api_keys_def amap_get_foldl_put) (simp add: amap_get_def split: option.split)

lemma start_up_keys: "start_up parse_ip env = Inr sv \<Longrightarrow> se_keys sv = resolve_api_keys env"
  by (auto simp: start_up_def bind_res_eq_Inr Let_def)

definition protected_route :: "'r api_call \<Rightarrow> bool" where
  "protected_route c \<longleftrightarrow> (case route_of (ar_method (cl_request c)) (ar_path (cl_request c)) of
     None \<Rightarrow> False | Some rt \<Rightarrow> rt \<noteq> RHealth)"

lemma served_by_protected: "protected_route c \<Longrightarrow> served_by h c = resolve_tenant h (cl_request c)"
  by (auto simp: protected_route_def served_by_def split: option.splits route.splits)

lemma serve_refused:
  assumes "protected_route c" "resolve_tenant h (cl_request c) = None"
  shows "serve S h c s = (Some (401, BError code_unauthorized (MsgText ''missing or invalid API key'')), s)"
  using assms by (auto simp: protected_route_def serve_def protected_def Let_def split: option.splits route.splits)

lemma key_of_pairs:
  assumes "amap_get (resolve_api_keys env) key = Some t" "env ''VARDRGATE_API_KEYS'' \<noteq> []"
  shows "\<exists>p\<in>set (split_on CHR '','' (env ''VARDRGATE_API_KEYS'')). key_pair p = Some (key, t)"
proof -
  have "(key, t) \<in> set (key_pairs (env ''VARDRGATE_API_KEYS''))"
    using assms map_of_SomeD by (fastforce simp: api_key_of_pair)
  then show ?thesis by (auto simp: key_pairs_def List.map_filter_def)
qed

text \<open>
  C36. With a list of keys in which at least one entry is well formed, a server lets a caller in only with
  a key of that list, and serves it as the tenant of an entry with that key; every other request but
  one for the health check is answered 401 and changes nothing.
\<close>

theorem configured_keys_protect:
  assumes "start_up parse_ip env = Inr sv" "key_pairs (env ''VARDRGATE_API_KEYS'') \<noteq> []" "protected_route c"
  shows "(\<exists>key t. ar_authorization (cl_request c) = ''Bearer '' @ key \<and> served_by (api_of sv u d) c = Some t
        \<and> (\<exists>p\<in>set (split_on CHR '','' (env ''VARDRGATE_API_KEYS'')). key_pair p = Some (key, t)))
    \<or> serve S (api_of sv u d) c s = (Some (401, BError code_unauthorized (MsgText ''missing or invalid API key'')), s)"
proof (cases "resolve_tenant (api_of sv u d) (cl_request c)")
  case None
  then show ?thesis by (intro disjI2 serve_refused [OF assms(3)])
next
  case (Some t)
  have multi: "env ''VARDRGATE_API_KEYS'' \<noteq> []"
  proof
    assume "env ''VARDRGATE_API_KEYS'' = []"
    moreover have "key_pairs [] = []" by code_simp
    ultimately show False using assms(2) by simp
  qed
  have keys: "se_keys sv = resolve_api_keys env" by (rule start_up_keys [OF assms(1)])
  moreover have "resolve_api_keys env \<noteq> []"
    using multi assms(2) by (simp add: resolve_api_keys_def foldl_put_Nil)
  ultimately have "(if has_prefix (ar_authorization (cl_request c)) ''Bearer ''
      then amap_get (resolve_api_keys env) (trim_prefix (ar_authorization (cl_request c)) ''Bearer '') else None) = Some t"
    using Some resolve_tenant_keys [of sv u d "cl_request c"] api_keys_distinct [of env] by (auto split: if_split_asm)
  then obtain key where key: "ar_authorization (cl_request c) = ''Bearer '' @ key" "amap_get (resolve_api_keys env) key = Some t"
    by (auto simp: has_prefix_iff trim_prefix_def split: if_splits)
  then show ?thesis
    using key_of_pairs [OF key(2) multi] Some served_by_protected [OF assms(3), of "api_of sv u d"] by metis
qed

text \<open>
  C37. But when no entry of a list that was set is well formed, as with a bare key that names no tenant,
  the server has no keys at all: it starts, and every request for every route is served, with no
  credentials, as the default tenant, even when a single key is configured beside the list.
\<close>

theorem malformed_keys_open_the_server:
  assumes "start_up parse_ip env = Inr sv" "env ''VARDRGATE_API_KEYS'' \<noteq> []"
    and "\<forall>p\<in>set (split_on CHR '','' (env ''VARDRGATE_API_KEYS'')). key_pair p = None" "protected_route c"
  shows "se_keys sv = [] \<and> WarnNoKeys \<in> set (se_warnings sv) \<and> served_by (api_of sv u d) c = Some default_tenant"
proof -
  have "key_pairs (env ''VARDRGATE_API_KEYS'') = []"
    using assms(3) by (auto simp: key_pairs_def List.map_filter_def filter_empty_conv)
  then have none: "resolve_api_keys env = []" using assms(2) by (simp add: resolve_api_keys_def)
  then have "se_keys sv = []" using start_up_keys [OF assms(1)] by simp
  moreover have "WarnNoKeys \<in> set (se_warnings sv)"
    using assms(1) none by (auto simp: start_up_def bind_res_eq_Inr Let_def)
  ultimately show ?thesis
    using served_by_protected [OF assms(4)] by (simp add: resolve_tenant_def api_of_def)
qed

definition sample_env :: "string \<Rightarrow> string \<Rightarrow> string" where
  "sample_env keys n = (if n = ''VARDRGATE_API_KEYS'' then keys else if n = ''VARDRGATE_API_KEY'' then ''other'' else [])"

lemma sample_protected: "protected_route (sample_call ''GET'' [''audit''] key [] [])"
  by (simp add: protected_route_def sample_call_def) code_simp

lemma sample_starts: "\<exists>sv. start_up (\<lambda>_. None) (sample_env keys) = Inr sv"
  by (simp add: start_up_def resolve_port_def resolve_host_def resolve_allow_private_def sample_env_def Let_def)

lemma configured_keys_protect_witness:
  "\<exists>sv. \<forall>S u d s. serve S (api_of sv u d) (sample_call ''GET'' [''audit''] ''guess'' [] []) s
     = (Some (401, BError code_unauthorized (MsgText ''missing or invalid API key'')), s)"
proof -
  obtain sv where sv: "start_up (\<lambda>_. None) (sample_env ''a: k1, b:k2 ,junk'') = Inr sv" using sample_starts by blast
  have "key_pairs ''a: k1, b:k2 ,junk'' = [(''k1'', ''a''), (''k2'', ''b'')]" by code_simp
  moreover have "list_all (\<lambda>p. case key_pair p of None \<Rightarrow> True | Some (k, t) \<Rightarrow> k \<noteq> ''guess'') (split_on CHR '','' ''a: k1, b:k2 ,junk'')"
    by code_simp
  ultimately show ?thesis
    using configured_keys_protect [OF sv _ sample_protected [of "''guess''"]]
    by (intro exI [of _ sv] allI) (force simp: sample_env_def sample_call_def list_all_iff)
qed

lemma malformed_keys_open_the_server_witness:
  "\<exists>sv. start_up (\<lambda>_. None) (sample_env ''my-secret-key'') = Inr sv
     \<and> (\<forall>u d. served_by (api_of sv u d) (sample_call ''GET'' [''audit''] ''guess'' [] []) = Some default_tenant)"
proof -
  obtain sv where sv: "start_up (\<lambda>_. None) (sample_env ''my-secret-key'') = Inr sv" using sample_starts by blast
  have "list_all (\<lambda>p. key_pair p = None) (split_on CHR '','' ''my-secret-key'')" by code_simp
  then show ?thesis
    using malformed_keys_open_the_server [OF sv _ _ sample_protected [of "''guess''"]] sv
    by (simp add: sample_env_def list_all_iff)
qed

end
