(* ===== verification/Importers.thy ===== *)
theory Importers
  imports Regression "HOL-Library.Multiset"
begin

text \<open>
  \<open>internal/openapi\<close>, \<open>internal/postman\<close>, \<open>internal/scaffold\<close>, \<open>internal/coverage\<close> and \<open>ReviewCases\<close> of
  \<open>internal/discover\<close>: starter cases for every operation of a document, what becomes of their
  credentials and permissions when they are written for review, and which operations a set of
  cases covers. The decoders of the documents are parameters.
\<close>

section \<open>OpenAPI documents\<close>

record operation =
  op_id :: string
  op_summary :: string
  op_security :: "(string \<times> string list) list list"

record path_item =
  pi_get :: "operation option"
  pi_put :: "operation option"
  pi_post :: "operation option"
  pi_delete :: "operation option"
  pi_patch :: "operation option"
  pi_head :: "operation option"
  pi_options :: "operation option"

record spec =
  sp_openapi :: string
  sp_title :: string
  sp_version :: string
  sp_servers :: "string list"
  sp_paths :: "(string \<times> path_item) list"

definition item_table :: "path_item \<Rightarrow> (string \<times> operation option) list" where
  "item_table p = [(''GET'', pi_get p), (''POST'', pi_post p), (''PUT'', pi_put p), (''PATCH'', pi_patch p),
     (''DELETE'', pi_delete p), (''HEAD'', pi_head p), (''OPTIONS'', pi_options p)]"

definition item_operations :: "path_item \<Rightarrow> (string \<times> operation) list" where
  "item_operations p = List.map_filter (\<lambda>(m, q). map_option (\<lambda>q. (m, q)) q) (item_table p)"

text \<open>Path, method and operation; the paths are the keys of a map.\<close>

type_synonym spec_operation = "string \<times> string \<times> operation"

definition operations :: "spec \<Rightarrow> spec_operation list" where
  "operations s = concat (map (\<lambda>(p, it). map (\<lambda>(m, q). (p, m, q)) (item_operations it)) (sort_key fst (sp_paths s)))"

datatype import_error = ParseSpec | NoPaths | ParseCollection | NoItems

definition parse_spec :: "(string \<Rightarrow> spec option) \<Rightarrow> string \<Rightarrow> import_error + spec" where
  "parse_spec decode data = (case decode data of None \<Rightarrow> Inl ParseSpec
     | Some s \<Rightarrow> bind_res (guard_err (sp_paths s = []) NoPaths) (\<lambda>_. Inr s))"

section \<open>Scaffolds\<close>

definition slug :: "string \<Rightarrow> string" where
  "slug path = map (\<lambda>c. if c = CHR ''/'' then CHR ''-'' else c) (filter (\<lambda>c. c \<noteq> CHR ''{'' \<and> c \<noteq> CHR ''}'') path)"

definition template_identity :: "string \<Rightarrow> string \<Rightarrow> cred_type \<Rightarrow> identity" where
  "template_identity i role ct = \<lparr>id_id = i, id_name = [], id_role = role, id_tenant = [], id_description = [],
     id_credential = \<lparr>cr_type = ct, cr_header = [], cr_value = []\<rparr>, id_preflight = None\<rparr>"

definition template_access :: "string \<Rightarrow> access_decision \<Rightarrow> expected_access" where
  "template_access i d = \<lparr>ea_identity = i, ea_decision = d, ea_note = [], ea_forbid_sensitive = False, ea_assertions = []\<rparr>"

definition starter_case :: "string \<Rightarrow> string \<Rightarrow> string \<Rightarrow> string \<Rightarrow> test_case" where
  "starter_case i description m url = \<lparr>tc_require_preflight = False, tc_id = i, tc_description = description,
     tc_identities = [template_identity ''authenticated'' ''user'' Bearer, template_identity ''anonymous'' [] StaticHeader],
     tc_request = \<lparr>rq_method = to_upper m, rq_url = url, rq_headers = [], rq_query = [], rq_body = []\<rparr>,
     tc_resource = None, tc_role_hierarchy = [], tc_sensitive_fields = [], tc_deny_statuses = [],
     tc_unauthorized_is_denial = False, tc_deny_when = None, tc_mutating = False, tc_verification = None,
     tc_setup = [], tc_cors = None,
     tc_expected = [template_access ''authenticated'' DAllow, template_access ''anonymous'' DDeny]\<rparr>"

definition operation_case :: "string \<Rightarrow> spec_operation \<Rightarrow> test_case" where
  "operation_case base so = (case so of (path, m, q) \<Rightarrow>
     starter_case (if op_id q = [] then to_lower m @ slug path else op_id q) (op_summary q) m (base @ path))"

definition base_of :: "spec \<Rightarrow> string \<Rightarrow> string" where
  "base_of s url = (let base = trim_right_set url ''/'' in
     if base = [] \<and> sp_servers s \<noteq> [] then trim_right_set (hd (sp_servers s)) ''/'' else base)"

definition spec_cases :: "spec \<Rightarrow> string \<Rightarrow> test_case list" where
  "spec_cases s url = map (operation_case (base_of s url)) (operations s)"

text \<open>\<open>envSlug\<close>: per code point, upper-case letters and digits stay.\<close>

definition env_char :: "char \<Rightarrow> bool" where
  "env_char c \<longleftrightarrow> is_upper c \<or> is_digit c"

function env_text :: "string \<Rightarrow> string" where
  "env_text s = (case s of [] \<Rightarrow> []
     | c # cs \<Rightarrow> (if env_char c then c else CHR ''_'') # env_text (drop (max 1 (utf8_len s)) s))"
  by pat_completeness auto
termination by (relation "measure length") auto

declare env_text.simps [simp del]

definition env_slug :: "string \<Rightarrow> string" where
  "env_slug i = (let t = trim_set (env_text (to_upper i)) ''_'' in if t = [] then ''IDENTITY'' else t)"

definition placeholder :: "identity \<Rightarrow> string" where
  "placeholder i =
     (if cr_value (id_credential i) \<noteq> [] then cr_value (id_credential i)
      else if sends_no_auth (id_credential i) then []
      else ''${VARDRGATE_'' @ env_slug (id_id i) @ ''_TOKEN}'')"

text \<open>\<open>toWire\<close>: the case as it is written, every field kept and each credential with its placeholder.\<close>

definition wire_identity :: "identity \<Rightarrow> identity" where
  "wire_identity i = i\<lparr>id_credential := (id_credential i)\<lparr>cr_value := placeholder i\<rparr>\<rparr>"

definition to_wire :: "test_case \<Rightarrow> test_case" where
  "to_wire tc = tc\<lparr>tc_identities := map wire_identity (tc_identities tc),
     tc_verification := map_option (\<lambda>wv. wv\<lparr>wv_identity := wire_identity (wv_identity wv)\<rparr>) (tc_verification tc)\<rparr>"

section \<open>Postman collections\<close>

text \<open>A name, the method and raw URL of a request, and the items of a folder.\<close>

datatype pm_item = PmItem string "(string \<times> string) option" "pm_item list"

text \<open>The path of a URL with its query, tolerating a bare path.\<close>

definition raw_path :: "string \<Rightarrow> string" where
  "raw_path url = (case index_of ''://'' url of
       None \<Rightarrow> (if has_prefix url ''/'' then url else CHR ''/'' # url)
     | Some k \<Rightarrow> (case index_of ''/'' (drop (k + 3) url) of
           None \<Rightarrow> ''/'' | Some j \<Rightarrow> drop j (drop (k + 3) url)))"

definition dashed :: "string \<Rightarrow> string" where
  "dashed = map (\<lambda>c. if c = CHR '' '' then CHR ''-'' else c)"

definition item_case :: "string \<Rightarrow> string \<Rightarrow> string \<times> string \<Rightarrow> test_case" where
  "item_case base name rq = (case rq of (m, raw) \<Rightarrow>
     let i = trim_set (dashed (slug (to_lower (trim_space name)))) ''-'' in
     starter_case (if i = [] then to_lower m @ slug (raw_path raw) else i) name m
       (if base \<noteq> [] then base @ raw_path raw else raw))"

fun walk_item :: "string \<Rightarrow> pm_item \<Rightarrow> test_case list"
and walk_items :: "string \<Rightarrow> pm_item list \<Rightarrow> test_case list" where
  "walk_item base (PmItem name rq subs) =
     (case rq of None \<Rightarrow> [] | Some (m, raw) \<Rightarrow> if raw = [] then [] else [item_case base name (m, raw)]) @ walk_items base subs"
| "walk_items base [] = []"
| "walk_items base (x # xs) = walk_item base x @ walk_items base xs"

definition parse_collection :: "(string \<Rightarrow> pm_item list option) \<Rightarrow> string \<Rightarrow> import_error + pm_item list" where
  "parse_collection decode data = (case decode data of None \<Rightarrow> Inl ParseCollection
     | Some items \<Rightarrow> bind_res (guard_err (items = []) NoItems) (\<lambda>_. Inr items))"

definition collection_cases :: "pm_item list \<Rightarrow> string \<Rightarrow> test_case list" where
  "collection_cases items url = walk_items (trim_right_set url ''/'') items"

section \<open>Cases for review\<close>

definition todo :: access_decision where
  "todo = DOther ''TODO''"

definition review_case :: "test_case \<Rightarrow> test_case" where
  "review_case tc = (let ids = tc_identities tc @ [template_identity ''other_user'' ''peer'' Bearer,
       template_identity ''other_tenant'' ''cross_tenant'' Bearer] in
     tc\<lparr>tc_identities := ids, tc_expected := map (\<lambda>i. template_access (id_id i) todo) ids\<rparr>)"

section \<open>Coverage\<close>

text \<open>The operations, as a method and a path, with the methods in their own order.\<close>

definition item_methods :: "path_item \<Rightarrow> string list" where
  "item_methods it = map fst (filter (\<lambda>(m, q). q \<noteq> None) (item_table it))"

definition method_order :: "string list" where
  "method_order = [''GET'', ''POST'', ''PUT'', ''PATCH'', ''DELETE'', ''HEAD'', ''OPTIONS'']"

definition endpoints :: "spec \<Rightarrow> (string \<times> string) list" where
  "endpoints s = concat (map (\<lambda>(p, it). map (\<lambda>m. (m, p)) (filter (\<lambda>m. m \<in> set (item_methods it)) method_order))
     (sort_key fst (sp_paths s)))"

definition request_path :: "string \<Rightarrow> string" where
  "request_path url =
     (let s = (case index_of ''://'' url of None \<Rightarrow> url
            | Some k \<Rightarrow> (case index_of ''/'' (drop (k + 3) url) of None \<Rightarrow> ''/'' | Some j \<Rightarrow> drop j (drop (k + 3) url)))
      in case index_of ''?'' s of None \<Rightarrow> s | Some q \<Rightarrow> take q s)"

definition path_segments :: "string \<Rightarrow> string list" where
  "path_segments path = filter (\<lambda>w. w \<noteq> []) (split_on CHR ''/'' path)"

definition is_param :: "string \<Rightarrow> bool" where
  "is_param w \<longleftrightarrow> has_prefix w ''{'' \<and> has_suffix w ''}''"

fun match_from :: "string list \<Rightarrow> string list \<Rightarrow> nat \<Rightarrow> bool" where
  "match_from [] path k = True"
| "match_from (t # ts) path k = ((is_param t \<or> t = path ! k) \<and> match_from ts path (k + 1))"

definition match_suffix :: "string list \<Rightarrow> string list \<Rightarrow> bool" where
  "match_suffix tmpl path \<longleftrightarrow> tmpl \<noteq> [] \<and> length tmpl \<le> length path \<and> match_from tmpl path (length path - length tmpl)"

text \<open>The percentage is kept as the counts it is computed from.\<close>

record coverage_report =
  cv_total :: nat
  cv_tested_count :: nat
  cv_untested_count :: nat
  cv_tested :: "(string \<times> string) list"
  cv_untested :: "(string \<times> string) list"

definition covered_by :: "test_case list \<Rightarrow> string \<times> string \<Rightarrow> bool" where
  "covered_by tcs ep = list_ex (\<lambda>tc. to_upper (rq_method (tc_request tc)) = fst ep
     \<and> match_suffix (path_segments (snd ep)) (path_segments (request_path (rq_url (tc_request tc))))) tcs"

definition analyze :: "spec \<Rightarrow> test_case list \<Rightarrow> coverage_report" where
  "analyze s tcs = (let tested = filter (covered_by tcs) (endpoints s);
       untested = filter (\<lambda>ep. \<not> covered_by tcs ep) (endpoints s) in
     \<lparr>cv_total = length tested + length untested, cv_tested_count = length tested, cv_untested_count = length untested,
      cv_tested = tested, cv_untested = untested\<rparr>)"

section \<open>What coverage means\<close>

lemma match_from_iff:
  "k + length ts \<le> length path \<Longrightarrow> match_from ts path k \<longleftrightarrow>
     list_all2 (\<lambda>t s. is_param t \<or> t = s) ts (take (length ts) (drop k path))"
proof (induction ts arbitrary: k)
  case (Cons t ts)
  have "drop k path = path ! k # drop (Suc k) path"
    using Cons.prems by (intro Cons_nth_drop_Suc [symmetric]) simp
  moreover have "match_from ts path (Suc k) \<longleftrightarrow>
      list_all2 (\<lambda>t s. is_param t \<or> t = s) ts (take (length ts) (drop (Suc k) path))"
    using Cons.IH [of "Suc k"] Cons.prems by simp
  ultimately show ?case by (simp del: drop_Suc drop_drop)
qed simp

text \<open>A template matches a path when its segments match the last ones of the path, one by one.\<close>

lemma match_suffix_iff:
  "match_suffix tmpl path \<longleftrightarrow> tmpl \<noteq> [] \<and>
     (\<exists>base rest. path = base @ rest \<and> list_all2 (\<lambda>t s. is_param t \<or> t = s) tmpl rest)"
proof (cases "length tmpl \<le> length path")
  case True
  let ?k = "length path - length tmpl"
  have m: "match_suffix tmpl path \<longleftrightarrow> tmpl \<noteq> [] \<and> list_all2 (\<lambda>t s. is_param t \<or> t = s) tmpl (drop ?k path)"
    using True match_from_iff [of ?k tmpl path] unfolding match_suffix_def by simp
  have "(\<exists>base rest. path = base @ rest \<and> list_all2 (\<lambda>t s. is_param t \<or> t = s) tmpl rest)
      \<longleftrightarrow> list_all2 (\<lambda>t s. is_param t \<or> t = s) tmpl (drop ?k path)"
  proof (intro iffI)
    assume "list_all2 (\<lambda>t s. is_param t \<or> t = s) tmpl (drop ?k path)"
    then show "\<exists>base rest. path = base @ rest \<and> list_all2 (\<lambda>t s. is_param t \<or> t = s) tmpl rest"
      by (intro exI [of _ "take ?k path"] exI [of _ "drop ?k path"]) simp
  next
    assume "\<exists>base rest. path = base @ rest \<and> list_all2 (\<lambda>t s. is_param t \<or> t = s) tmpl rest"
    then obtain base rest where r: "path = base @ rest" "list_all2 (\<lambda>t s. is_param t \<or> t = s) tmpl rest" by blast
    from r(2) have "length tmpl = length rest" by (rule list_all2_lengthD)
    with r show "list_all2 (\<lambda>t s. is_param t \<or> t = s) tmpl (drop ?k path)" by simp
  qed
  then show ?thesis unfolding m by blast
next
  case False
  then show ?thesis by (auto simp: match_suffix_def dest: list_all2_lengthD)
qed

lemma set_item_operations: "set (item_operations it) = {(m, q). (m, Some q) \<in> set (item_table it)}"
  by (force simp: item_operations_def List.map_filter_def image_iff)

lemma set_item_methods: "set (item_methods it) = fst ` set (item_operations it)"
  unfolding set_item_operations item_methods_def by force

lemma item_methods_ordered: "set (filter (\<lambda>m. m \<in> set (item_methods it)) method_order) = set (item_methods it)"
proof -
  have "set (item_methods it) \<subseteq> fst ` set (item_table it)" unfolding item_methods_def by auto
  also have "\<dots> = set method_order" by (simp add: item_table_def method_order_def)
  finally show ?thesis by auto
qed

lemma set_endpoints: "set (endpoints s) = (\<lambda>(p, m, q). (m, p)) ` set (operations s)"
proof -
  have "set (endpoints s) = (\<Union>(p, it)\<in>set (sp_paths s). (\<lambda>m. (m, p)) ` set (item_methods it))"
    unfolding endpoints_def set_concat by (simp add: case_prod_beta item_methods_ordered del: set_filter)
  also have "\<dots> = (\<lambda>(p, m, q). (m, p)) ` set (operations s)"
    unfolding operations_def set_item_methods by (force simp: image_iff)
  finally show ?thesis .
qed

text \<open>Each operation is one endpoint: the paths are the keys of a map and a method occurs once in an item.\<close>

lemma distinct_methods: "distinct method_order"
  by code_simp

lemma fst_map_filter: "map fst (List.map_filter (\<lambda>(m, q). map_option (\<lambda>q. (m, q)) q) ps) = map fst (filter (\<lambda>(m, q). q \<noteq> None) ps)"
  by (induction ps) (auto simp: List.map_filter_simps)

lemma distinct_item_operations: "distinct (map fst (item_operations it))"
proof -
  have "distinct (map fst (item_table it))" by (simp add: item_table_def)
  then show ?thesis unfolding item_operations_def fst_map_filter by (rule distinct_map_filter)
qed

lemma length_item_operations:
  "length (item_operations it) = length (filter (\<lambda>m. m \<in> set (item_methods it)) method_order)" (is "_ = length ?ms")
proof -
  have "set (map fst (item_operations it)) = set ?ms"
    by (simp only: set_map item_methods_ordered set_item_methods [symmetric])
  moreover have "distinct ?ms" using distinct_methods by simp
  ultimately show ?thesis
    using distinct_item_operations [of it] distinct_card by (metis length_map)
qed

lemma distinct_endpoints:
  assumes "distinct (map fst (sp_paths s))"
  shows "distinct (endpoints s)"
proof -
  have "distinct (concat (map (\<lambda>(p, it). map (\<lambda>m. (m, p)) (filter (\<lambda>m. m \<in> set (item_methods it)) method_order)) xs))"
    if "distinct (map fst xs)" for xs :: "(string \<times> path_item) list"
    using that
  proof (induction xs)
    case (Cons x xs)
    then show ?case using distinct_methods by (cases x) (force simp: distinct_map inj_on_def)
  qed simp
  moreover have "distinct (map fst (sort_key fst (sp_paths s)))"
  proof -
    have "mset (map fst (sort_key fst (sp_paths s))) = mset (map fst (sp_paths s))" by (simp add: mset_map)
    then show ?thesis using assms mset_eq_imp_distinct_iff by blast
  qed
  ultimately show ?thesis unfolding endpoints_def by blast
qed

lemma length_endpoints: "length (endpoints s) = length (operations s)"
  by (simp add: endpoints_def operations_def length_concat comp_def case_prod_beta length_item_operations)

text \<open>
  C35. The coverage of a document is exact: every operation of the document, and nothing else, is listed
  exactly once, as tested or as untested, and the totals count them; and an operation is tested exactly
  when its path has a segment and some case has its method and a path whose last segments are those
  of the operation, a parameter standing for any one segment. So an operation on the root path is never tested.
\<close>

theorem coverage_is_exact:
  assumes "distinct (map fst (sp_paths s))"
  shows "let r = analyze s tcs in
   distinct (cv_tested r @ cv_untested r)
   \<and> set (cv_tested r @ cv_untested r) = (\<lambda>(p, m, q). (m, p)) ` set (operations s)
   \<and> cv_total r = length (operations s) \<and> cv_tested_count r = length (cv_tested r)
   \<and> cv_untested_count r = length (cv_untested r)
   \<and> (\<forall>m p. (m, p) \<in> set (cv_tested r) \<longleftrightarrow> (\<exists>q. (p, m, q) \<in> set (operations s)) \<and>
        (\<exists>tc\<in>set tcs. to_upper (rq_method (tc_request tc)) = m \<and> path_segments p \<noteq> [] \<and>
          (\<exists>base rest. path_segments (request_path (rq_url (tc_request tc))) = base @ rest
             \<and> list_all2 (\<lambda>t seg. is_param t \<or> t = seg) (path_segments p) rest)))"
proof -
  have cov: "covered_by tcs (m, p) \<longleftrightarrow> (\<exists>tc\<in>set tcs. to_upper (rq_method (tc_request tc)) = m \<and> path_segments p \<noteq> [] \<and>
          (\<exists>base rest. path_segments (request_path (rq_url (tc_request tc))) = base @ rest
             \<and> list_all2 (\<lambda>t seg. is_param t \<or> t = seg) (path_segments p) rest))" for m p
    unfolding covered_by_def list_ex_iff match_suffix_iff fst_conv snd_conv ..
  have "distinct (filter P xs @ filter (\<lambda>x. \<not> P x) xs)" if "distinct xs" for P and xs :: "(string \<times> string) list"
    using that by auto
  note d = this [OF distinct_endpoints [OF assms], of "covered_by tcs"]
  have "(m, p) \<in> set (endpoints s) \<longleftrightarrow> (\<exists>q. (p, m, q) \<in> set (operations s))" for m p
    unfolding set_endpoints by force
  then show ?thesis
    using d unfolding analyze_def Let_def cov [symmetric] set_endpoints [symmetric]
    by (auto simp: sum_length_filter_compl length_endpoints)
qed

definition coverage_spec :: spec where
  "coverage_spec = (let get = Some \<lparr>op_id = [], op_summary = [], op_security = []\<rparr>;
       item = \<lparr>pi_get = get, pi_put = None, pi_post = None, pi_delete = get, pi_patch = None, pi_head = None, pi_options = None\<rparr> in
     \<lparr>sp_openapi = [], sp_title = [], sp_version = [], sp_servers = [], sp_paths = [(''/users/{id}'', item), (''/'', item)]\<rparr>)"

definition coverage_case :: test_case where
  "coverage_case = starter_case ''c'' [] ''get'' ''http://api/v1/users/7''"

lemma coverage_is_exact_witness:
  "distinct (cv_tested (analyze coverage_spec [coverage_case]) @ cv_untested (analyze coverage_spec [coverage_case]))
   \<and> cv_total (analyze coverage_spec [coverage_case]) = 4
   \<and> (''GET'', ''/users/{id}'') \<in> set (cv_tested (analyze coverage_spec [coverage_case]))"
proof -
  have d: "distinct (map fst (sp_paths coverage_spec))" by (simp add: coverage_spec_def Let_def)
  have "length (operations coverage_spec) = 4"
    by (simp add: operations_def coverage_spec_def Let_def item_operations_def item_table_def List.map_filter_simps)
  moreover have "(''GET'', ''/users/{id}'') \<in> set (cv_tested (analyze coverage_spec [coverage_case]))" by code_simp
  ultimately show ?thesis using coverage_is_exact [OF d, of "[coverage_case]"] unfolding Let_def by simp
qed

text \<open>An operation on the root path has no segments and is never counted as tested.\<close>

lemma root_is_never_tested:
  "(m, ''/'') \<notin> set (cv_tested (analyze s tcs))"
proof -
  have "path_segments ''/'' = []" by code_simp
  then show ?thesis by (simp add: analyze_def Let_def covered_by_def match_suffix_def list_ex_iff)
qed

text \<open>And a case for a nested resource counts for a shorter path it does not request.\<close>

lemma suffix_counts_elsewhere:
  assumes "to_upper (rq_method (tc_request tc)) = ''GET''" "rq_url (tc_request tc) = ''http://api/orgs/7/users/1''"
  shows "covered_by [tc] (''GET'', ''/users/{id}'')"
  unfolding covered_by_def using assms by simp code_simp

section \<open>Generated cases wait for a reviewer\<close>

lemma ref_char: "env_char c \<or> c = CHR ''_'' \<Longrightarrow> is_letter c \<or> is_digit c"
  by (auto simp: env_char_def is_letter_def)

lemma set_env_text: "c \<in> set (env_text s) \<Longrightarrow> env_char c \<or> c = CHR ''_''"
proof (induction s rule: env_text.induct)
  case (1 s)
  then show ?case by (subst (asm) env_text.simps) (auto split: list.split_asm if_split_asm)
qed

lemma set_env_slug: "c \<in> set (env_slug i) \<Longrightarrow> is_letter c \<or> is_digit c"
proof -
  assume c: "c \<in> set (env_slug i)"
  have "set (trim_set w ct) \<subseteq> set w" for w ct
    unfolding trim_set_def trim_left_set_def trim_right_set_def by (auto dest!: set_dropWhileD)
  then have "c \<in> set (env_text (to_upper i)) \<or> c \<in> set ''IDENTITY''"
    using c by (auto simp: env_slug_def Let_def split: if_split_asm)
  moreover have "list_all (\<lambda>c. is_letter c \<or> is_digit c) ''IDENTITY''" by code_simp
  ultimately show ?thesis using set_env_text ref_char unfolding list_all_iff by blast
qed

lemma placeholder_reference:
  assumes "cr_value (id_credential i) = []" "\<not> sends_no_auth (id_credential i)"
  shows "secret_reference (placeholder i)"
proof -
  have "list_all (\<lambda>c. is_letter c \<or> is_digit c) ''ARDRGATE_''" "list_all (\<lambda>c. is_letter c \<or> is_digit c) ''_TOKEN''"
    "is_letter CHR ''V''" by code_simp+
  then have "ref_name (''VARDRGATE_'' @ env_slug (id_id i) @ ''_TOKEN'')"
    using set_env_slug [of _ "id_id i"] by (simp add: ref_name_def list_all_iff)
  moreover have "placeholder i = ''${'' @ (''VARDRGATE_'' @ env_slug (id_id i) @ ''_TOKEN'') @ ''}''"
    using assms by (simp add: placeholder_def)
  ultimately show ?thesis unfolding secret_reference_iff reference_to_def
    by (intro exI [of _ "''VARDRGATE_'' @ env_slug (id_id i) @ ''_TOKEN''"]) simp
qed

lemma validate_decisions:
  assumes "validate L tc = Inr ()" "ea \<in> set (tc_expected tc)"
  shows "ea_decision ea \<in> {DAllow, DDeny, DSkip}"
proof -
  obtain ids where "\<forall>x\<in>set (enum_list (tc_expected tc)). validate_expected ids x = Inr ()"
    using assms(1) unfolding validate_def by (auto simp: bind_res_eq_Inr)
  moreover obtain k where "k < length (tc_expected tc)" "ea = tc_expected tc ! k"
    using assms(2) by (metis in_set_conv_nth)
  then have "(k, ea) \<in> set (enum_list (tc_expected tc))" by (simp add: set_enum_list)
  ultimately show ?thesis by (fastforce simp: validate_expected_def bind_res_eq_Inr)
qed

lemma walked_items:
  "x \<in> set (walk_item base y) \<Longrightarrow> \<exists>i d m u. x = starter_case i d m u"
  "x \<in> set (walk_items base ys) \<Longrightarrow> \<exists>i d m u. x = starter_case i d m u"
  by (induction base y and base ys rule: walk_item_walk_items.induct)
    (auto simp: item_case_def Let_def split: option.split_asm prod.split_asm if_split_asm)

lemma imported_cases:
  "x \<in> set (spec_cases s url @ collection_cases items url) \<Longrightarrow> \<exists>i d m u. x = starter_case i d m u"
  using walked_items(2) by (auto simp: spec_cases_def collection_cases_def operation_case_def split: prod.splits)

lemma reviewed_starter:
  "tc_identities (to_wire (review_case (starter_case i d m u))) = map wire_identity
     [template_identity ''authenticated'' ''user'' Bearer, template_identity ''anonymous'' [] StaticHeader,
      template_identity ''other_user'' ''peer'' Bearer, template_identity ''other_tenant'' ''cross_tenant'' Bearer]"
  "tc_expected (to_wire (review_case (starter_case i d m u))) = map (\<lambda>j. template_access j todo)
     [''authenticated'', ''anonymous'', ''other_user'', ''other_tenant'']"
  by (simp_all add: to_wire_def review_case_def starter_case_def template_identity_def Let_def)

lemma template_wired:
  "id_id (wire_identity (template_identity j role ct)) = j"
  "ct = Bearer \<Longrightarrow> \<not> sends_no_auth (id_credential (wire_identity (template_identity j role ct)))
     \<and> secret_reference (cr_value (id_credential (wire_identity (template_identity j role ct))))"
  "ct = StaticHeader \<Longrightarrow> sends_no_auth (id_credential (wire_identity (template_identity j role ct)))"
  using placeholder_reference [of "template_identity j role ct"]
  by (simp_all add: wire_identity_def template_identity_def sends_no_auth_def)

text \<open>
  C34. What \<open>gen\<close> writes is for review, not for running. Every case that comes from an operation of a
  document or a request of a collection expects TODO of every one of its identities, so no run accepts
  it and no regression is saved from it; and its credentials are written as references to variables
  of the environment, or stay absent for the anonymous caller, never as an empty literal.
\<close>

theorem generated_cases_await_review:
  assumes "tc \<in> set (map (to_wire \<circ> review_case) (spec_cases s url @ collection_cases items url))"
  shows "(\<forall>i\<in>set (tc_identities tc). filter (\<lambda>e. ea_identity e = id_id i) (tc_expected tc) = [template_access (id_id i) todo])
    \<and> validate L tc \<noteq> Inr () \<and> (\<forall>f tcs. select_case f tcs \<noteq> Inr tc)
    \<and> (\<forall>i\<in>set (tc_identities tc). sends_no_auth (id_credential i) \<or> secret_reference (cr_value (id_credential i)))
    \<and> map id_id (filter (sends_no_auth \<circ> id_credential) (tc_identities tc)) = [''anonymous'']"
proof -
  obtain i d m u where tc: "tc = to_wire (review_case (starter_case i d m u))"
    using assms imported_cases [of _ s url items] by fastforce
  have "\<not> (\<forall>ea\<in>set (tc_expected tc). ea_decision ea \<in> {DAllow, DDeny, DSkip})"
    unfolding tc reviewed_starter by (simp add: template_access_def todo_def)
  then have "validate L tc \<noteq> Inr ()" "\<forall>f tcs. select_case f tcs \<noteq> Inr tc"
    using validate_decisions [of L tc] unfolding select_case_Inr by blast+
  then show ?thesis
    unfolding tc reviewed_starter by (simp add: template_wired) (simp add: template_access_def)
qed

lemma generated_cases_await_review_witness:
  "validate sample_lib (to_wire (review_case (item_case [] ''List orders'' (''GET'', ''https://api/users/42'')))) \<noteq> Inr ()
   \<and> tc_id (item_case [] ''List orders'' (''GET'', ''https://api/users/42'')) = ''list-orders''"
proof -
  let ?x = "PmItem ''List orders'' (Some (''GET'', ''https://api/users/42'')) []"
  have "to_wire (review_case (item_case [] ''List orders'' (''GET'', ''https://api/users/42'')))
      \<in> set (map (to_wire \<circ> review_case) (spec_cases \<lparr>sp_openapi = [], sp_title = [], sp_version = [], sp_servers = [], sp_paths = []\<rparr> []
           @ collection_cases [?x] []))"
    by (simp add: spec_cases_def operations_def collection_cases_def trim_right_set_def)
  from generated_cases_await_review [OF this, of sample_lib]
  have "validate sample_lib (to_wire (review_case (item_case [] ''List orders'' (''GET'', ''https://api/users/42'')))) \<noteq> Inr ()"
    by blast
  moreover have "tc_id (item_case [] ''List orders'' (''GET'', ''https://api/users/42'')) = ''list-orders''" by code_simp
  ultimately show ?thesis ..
qed

text \<open>The names of two operations can fall together, and a file with both is then refused.\<close>

lemma slugs_collide:
  "tc_id (operation_case [] (''/users/{id}'', ''GET'', \<lparr>op_id = [], op_summary = [], op_security = []\<rparr>))
     = tc_id (operation_case [] (''/users/id'', ''GET'', \<lparr>op_id = [], op_summary = [], op_security = []\<rparr>))"
  by code_simp

end
