(* ===== verification/Discover.thy ===== *)
theory Discover
  imports Importers Policy Report
begin

text \<open>
  \<open>internal/discover\<close> and the commands of \<open>cmd/vardrgate/importers.go\<close> and \<open>discover.go\<close>: drafts of
  policies for the operations that take an object identifier, hypotheses from captured traffic, and
  what \<open>gen\<close>, \<open>coverage\<close> and \<open>discover\<close> write. The decoding of a capture, base64 and the escaped path
  of a URL are parameters.
\<close>

section \<open>Path parameters\<close>

text \<open>The matches of \<open>\{([^}]+)\}\<close> in a path.\<close>

function path_params :: "string \<Rightarrow> string list" where
  "path_params s = (case dropWhile (\<lambda>c. c \<noteq> CHR ''{'') s of [] \<Rightarrow> []
     | b # rest \<Rightarrow>
         let name = takeWhile (\<lambda>c. c \<noteq> CHR ''}'') rest in
         if name = [] \<or> CHR ''}'' \<notin> set rest then path_params rest
         else name # path_params (drop (length name + 1) rest))"
  by pat_completeness auto
termination
proof (relation "measure length", goal_cases)
  case (2 s b rest)
  then have "length (b # rest) \<le> length s" by (metis length_dropWhile_le)
  then show ?case by simp
next
  case (3 s b rest)
  then have "length (b # rest) \<le> length s" by (metis length_dropWhile_le)
  then show ?case by simp
qed simp

declare path_params.simps [simp del]

definition normalize_param :: "string \<Rightarrow> string" where
  "normalize_param s = to_lower (filter (\<lambda>c. c \<noteq> CHR ''_'' \<and> c \<noteq> CHR ''-'') s)"

text \<open>\<open>idParamPattern\<close>: a name that ends in one of these words; the dot of the pattern is no newline.\<close>

definition id_words :: "string list" where
  "id_words = [''id'', ''uuid'', ''guid'', ''key'', ''ref'', ''no'', ''num'', ''number'']"

definition id_shaped :: "string \<Rightarrow> bool" where
  "id_shaped p \<longleftrightarrow> list_ex (\<lambda>w. has_suffix (normalize_param p) w
     \<and> CHR 0x0A \<notin> set (take (length (normalize_param p) - length w) (normalize_param p))) id_words"

section \<open>Names\<close>

definition not_plural :: "string list" where
  "not_plural = [''ss'', ''us'', ''is'', ''os'', ''as'']"

definition singular :: "string \<Rightarrow> string" where
  "singular s =
     (if list_ex (has_suffix (to_lower s)) not_plural then s
      else if has_suffix s ''ies'' then trim_suffix s ''ies'' @ ''y''
      else if has_suffix s ''ses'' \<or> has_suffix s ''xes'' \<or> has_suffix s ''hes'' then trim_suffix s ''es''
      else if has_suffix s ''s'' then trim_suffix s ''s''
      else s)"

definition resource_type :: "string \<Rightarrow> string" where
  "resource_type path =
     (case List.find (\<lambda>w. w \<noteq> [] \<and> \<not> has_prefix w ''{'') (rev (split_on CHR ''/'' (trim_set path ''/''))) of
        None \<Rightarrow> [] | Some w \<Rightarrow> singular w)"

definition draft_file :: "string \<Rightarrow> string \<Rightarrow> string" where
  "draft_file m path =
     trim_set (replace_bytes [(CHR ''/'', ''-''), (CHR ''{'', []), (CHR ''}'', []), (CHR ''_'', []), (CHR '' '', ''-'')]
       (to_lower (to_upper m @ path))) ''-'' @ ''.policy.yaml''"

section \<open>Drafts\<close>

text \<open>What a sample response shows.\<close>

record sample_facts =
  sm_tenant_field :: string
  sm_sensitive :: "string list"
  sm_elevated :: bool

definition first_field :: "golib \<Rightarrow> string \<Rightarrow> string list \<Rightarrow> (string \<times> string \<times> string) option" where
  "first_field L body fs = (case List.map_filter (\<lambda>f. map_option (\<lambda>kv. (f, kv)) (find_field L body f)) fs of
     [] \<Rightarrow> None | x # xs \<Rightarrow> Some x)"

definition analyze_sample :: "golib \<Rightarrow> string \<Rightarrow> sample_facts" where
  "analyze_sample L body = (let hits = scan_sensitive L body [] in
     \<lparr>sm_tenant_field = (case first_field L body [''tenant_id'', ''org_id'', ''organization_id'', ''account_id'', ''workspace_id''] of
         None \<Rightarrow> [] | Some (f, k, v) \<Rightarrow> k),
      sm_sensitive = map sh_path hits,
      sm_elevated = list_ex (\<lambda>h. sh_tier h = TierElevated) hits\<rparr>)"

text \<open>The notes, as what their texts are made from.\<close>

datatype draft_note = GuessedParam string | InferredParam string | InferredType string | UnsafeMethod string
  | FoundTenant string | FoundSensitive nat | FoundElevated

record draft =
  df_file :: string
  df_endpoint :: string
  df_yaml :: string
  df_notes :: "draft_note list"

definition default_roles :: "string list" where
  "default_roles = [''owner'', ''other_user'', ''anonymous'']"

definition yaml_line :: "string \<Rightarrow> string" where
  "yaml_line w = w @ newline"

text \<open>The last identifier of the path, or else its last parameter.\<close>

definition id_param :: "string list \<Rightarrow> string" where
  "id_param ps = (case filter id_shaped ps of [] \<Rightarrow> (if ps = [] then [] else last ps) | q # qs \<Rightarrow> last (q # qs))"

definition unsafe_draft :: "string \<Rightarrow> bool" where
  "unsafe_draft m \<longleftrightarrow> to_upper m \<noteq> ''GET'' \<and> to_upper m \<noteq> ''HEAD''"

definition draft_intro :: string where
  "draft_intro = concat (map yaml_line
     [''# DRAFT '' @ em_dash @ '' generated by `vardrgate discover`.'', ''#'',
      ''# Every expectation below is '' @ draft_marker @ ''. Discovery can infer the shape of a'',
      ''# control but not its intent: only you know who should be able to call'',
      ''# this endpoint. The policy will not run until each '' @ draft_marker @ '' is replaced with'',
      ''# allow, deny, or skip.'', ''api:''])"

definition draft_expect :: "string list \<Rightarrow> string" where
  "draft_expect roles = newline @ yaml_line ''expect:''
     @ concat (map (\<lambda>r. yaml_line (''  '' @ r @ '': '' @ draft_marker)) roles)"

definition draft_response :: "string list \<Rightarrow> sample_facts option \<Rightarrow> string" where
  "draft_response roles sm = newline @ concat (map yaml_line
     [''response:'', ''  deny_status: [401, 403]'',
      ''  # If this API hides existence behind 404, add it above.'',
      ''  # If it answers 200 with an error body, declare that here:'',
      ''  # deny_when:'', ''  #   json_field: { path: error, equals: forbidden }''])
     @ (case sm of None \<Rightarrow> [] | Some s \<Rightarrow> if sm_sensitive s = [] then [] else
         concat (map yaml_line ([''  sensitive_fields:'', ''    forbidden_for:'']
           @ map (\<lambda>r. ''      - '' @ r) (tl roles)
           @ [''  # Sensitive properties seen in the sample response:'']
           @ map (\<lambda>p. ''  #   '' @ p) (sm_sensitive s))))"

definition tenant_seen :: "sample_facts option \<Rightarrow> string" where
  "tenant_seen sm = (case sm of None \<Rightarrow> [] | Some s \<Rightarrow> sm_tenant_field s)"

definition draft_api :: "string \<Rightarrow> string \<Rightarrow> string list \<Rightarrow> string list \<Rightarrow> sample_facts option \<Rightarrow> string" where
  "draft_api m path params roles sm = concat (map yaml_line (
     [''  endpoint: '' @ to_upper m @ '' '' @ path, ''  owner: identity:'' @ hd roles]
     @ (if unsafe_draft m then
          [''  # '' @ to_upper m @ '' changes state and would be replayed once per identity.'',
           ''  mutating: false  # set true only if replaying it '' @ show_nat (length roles) @ '' times is acceptable''] else [])
     @ [''  resource:'']
     @ (if resource_type path \<noteq> [] then [''    type: '' @ resource_type path] else [])
     @ (if id_param params \<noteq> [] then [''    id_param: '' @ id_param params] else [])
     @ [if tenant_seen sm \<noteq> [] then ''    tenant_field: '' @ tenant_seen sm
        else ''    # tenant_field: <response field carrying the object's tenant, if any>'']))"

definition draft_notes :: "string \<Rightarrow> string \<Rightarrow> string list \<Rightarrow> sample_facts option \<Rightarrow> draft_note list" where
  "draft_notes m path params sm =
     (if list_ex id_shaped params then [InferredParam (id_param params)]
      else if params \<noteq> [] then [GuessedParam (id_param params)] else [])
     @ (if resource_type path \<noteq> [] then [InferredType (resource_type path)] else [])
     @ (if unsafe_draft m then [UnsafeMethod (to_upper m)] else [])
     @ (if tenant_seen sm \<noteq> [] then [FoundTenant (tenant_seen sm)] else [])
     @ (case sm of None \<Rightarrow> [] | Some s \<Rightarrow> if sm_sensitive s = [] then []
          else FoundSensitive (length (sm_sensitive s)) # (if sm_elevated s then [FoundElevated] else []))"

definition build_draft :: "string \<Rightarrow> string \<Rightarrow> string list \<Rightarrow> string list \<Rightarrow> sample_facts option \<Rightarrow> draft" where
  "build_draft m path params roles sm =
     \<lparr>df_file = draft_file m path, df_endpoint = to_upper m @ '' '' @ path,
      df_yaml = draft_intro @ draft_api m path params roles sm @ draft_expect roles @ draft_response roles sm,
      df_notes = draft_notes m path params sm\<rparr>"

text \<open>\<open>FromSpec\<close>; the sort by file name is not stable in the code, so drafts of one name may change places.\<close>

definition from_spec :: "golib \<Rightarrow> spec \<Rightarrow> string \<Rightarrow> string list \<Rightarrow> draft list" where
  "from_spec L s sample roles =
     (let rs = (if roles = [] then default_roles else roles);
          sm = (if sample = [] then None else Some (analyze_sample L sample)) in
      sort_key df_file (List.map_filter (\<lambda>(p, m, q). if path_params p = [] then None
        else Some (build_draft m p (path_params p) rs sm)) (operations s)))"
section \<open>Captured traffic\<close>

record har_entry =
  he_method :: string
  he_url :: string
  he_headers :: "(string \<times> string) list"
  he_status :: int
  he_text :: string
  he_encoding :: string

text \<open>The entries of a capture (none for a document without them), base64, and the escaped path of a URL.\<close>

record har_lib =
  hl_entries :: "string \<Rightarrow> har_entry list option"
  hl_base64 :: "string \<Rightarrow> string option"
  hl_escaped :: "go_url \<Rightarrow> string"

record hypothesis =
  hy_kind :: string
  hy_state :: string
  hy_field :: string
  hy_captures :: "nat list"
  hy_reason :: string

record candidate =
  ca_endpoint :: string
  ca_hypotheses :: "hypothesis list"

datatype har_error = HarTooLarge | HarUnparsed | TooManyEntries | EntryBudget | ContentBudget | TooManyComparisons
  | NoOrigin | BodyTooLarge | AnalysisBudget | HeaderBudget | TooManyHypotheses

definition max_har_bytes :: nat where "max_har_bytes = 33554432"
definition max_har_entries :: nat where "max_har_entries = 5000"
definition max_response_bytes :: nat where "max_response_bytes = 1048576"
definition max_response_total :: nat where "max_response_total = 8388608"
definition max_comparisons :: nat where "max_comparisons = 2000000"
definition max_analyzed :: nat where "max_analyzed = 67108864"
definition max_hypotheses :: nat where "max_hypotheses = 50000"

text \<open>A capture of more than the limit is not parsed, and so never read further.\<close>

definition read_har :: "(string \<Rightarrow> string option) \<Rightarrow> string \<Rightarrow> har_error option + string" where
  "read_har read path = (case read path of None \<Rightarrow> Inl None
     | Some data \<Rightarrow> if max_har_bytes < length data then Inl (Some HarTooLarge) else Inr data)"

text \<open>\<open>base64.StdEncoding.EncodedLen\<close>.\<close>

definition encoded_len :: "nat \<Rightarrow> nat" where
  "encoded_len n = (n + 2) div 3 * 4"

definition entry_limit :: "har_entry \<Rightarrow> nat" where
  "entry_limit e = (if he_encoding e = ''base64'' then encoded_len max_response_bytes else max_response_bytes)"

definition check_entry :: "nat \<Rightarrow> har_entry \<Rightarrow> har_error + nat" where
  "check_entry sofar e =
     bind_res (guard_err (entry_limit e < length (he_text e) \<or> 128 < length (he_headers e)) EntryBudget) (\<lambda>_.
     bind_res (guard_err (max_response_total < sofar + length (he_text e)) ContentBudget) (\<lambda>_.
       Inr (sofar + length (he_text e))))"

fun same_segments :: "string list \<Rightarrow> string list \<Rightarrow> bool" where
  "same_segments [] [] = True"
| "same_segments (t # ts) (s # ss) =
     ((if has_prefix t ''{'' \<and> has_suffix t ''}'' then s \<noteq> [] else t = s) \<and> same_segments ts ss)"
| "same_segments ts ss = False"

definition matches_path :: "string \<Rightarrow> string \<Rightarrow> bool" where
  "matches_path template path \<longleftrightarrow> same_segments (split_on CHR ''/'' template) (split_on CHR ''/'' path)"

text \<open>What the loop over the entries keeps for one operation, and the counters that stay for the next.\<close>

record cand_state =
  cs_count :: nat
  cs_analyzed :: nat
  cs_hyps :: "hypothesis list"
  cs_previous :: nat
  cs_auth :: string
  cs_tenant :: string

definition add_hyp :: "string \<Rightarrow> string \<Rightarrow> string \<Rightarrow> nat list \<Rightarrow> cand_state \<Rightarrow> cand_state" where
  "add_hyp kind field reason captures st =
     (if max_hypotheses < cs_count st + 1 then st\<lparr>cs_count := cs_count st + 1\<rparr>
      else st\<lparr>cs_count := cs_count st + 1, cs_hyps := cs_hyps st @ [\<lparr>hy_kind = kind, hy_state = ''unconfirmed'',
        hy_field = field, hy_captures = captures, hy_reason = reason\<rparr>]\<rparr>)"

text \<open>An entry for an operation: the origin, the method, the path and a successful status.\<close>

definition entry_for :: "golib \<Rightarrow> har_lib \<Rightarrow> go_url \<Rightarrow> string \<Rightarrow> string \<Rightarrow> har_entry \<Rightarrow> bool" where
  "entry_for L H origin m p e = (case gl_url_parse L (he_url e) of None \<Rightarrow> False
     | Some u \<Rightarrow> \<not> u_has_user u \<and> equal_fold (u_scheme u) (u_scheme origin) \<and> equal_fold (u_host u) (u_host origin)
         \<and> equal_fold (he_method e) m \<and> matches_path (trim_right_set (u_path origin) ''/'' @ p) (hl_escaped H u)
         \<and> 200 \<le> he_status e \<and> he_status e < 300)"

definition entry_body :: "har_lib \<Rightarrow> har_entry \<Rightarrow> string option" where
  "entry_body H e = (if he_encoding e = ''base64'' then hl_base64 H (he_text e)
     else if he_encoding e \<noteq> [] then None else Some (he_text e))"

definition auth_text :: "har_entry \<Rightarrow> string" where
  "auth_text e = concat (map (\<lambda>(n, v). if equal_fold n ''authorization'' \<or> equal_fold n ''cookie''
     then to_lower n @ '':'' @ v @ newline else []) (he_headers e))"

definition header_bytes :: "har_entry \<Rightarrow> nat" where
  "header_bytes e = sum_list (map (\<lambda>(n, v). length n + length v) (he_headers e))"

definition owner_fields :: "string list" where
  "owner_fields = [''owner_id'', ''user_id'', ''created_by'']"

definition tenant_fields :: "string list" where
  "tenant_fields = [''tenant_id'', ''org_id'', ''organization_id'', ''workspace_id'']"

definition tenant_hit :: "golib \<Rightarrow> string \<Rightarrow> (string \<times> string) option" where
  "tenant_hit L body = map_option (\<lambda>(f, k, v). (f, v)) (first_field L body tenant_fields)"

definition tenant_of :: "golib \<Rightarrow> string \<Rightarrow> string" where
  "tenant_of L body = (case tenant_hit L body of None \<Rightarrow> [] | Some (f, v) \<Rightarrow> v)"

text \<open>The hypotheses from one credentialed successful entry, the \<open>i\<close>-th of the capture.\<close>

definition add_facts :: "golib \<Rightarrow> string \<Rightarrow> nat \<Rightarrow> cand_state \<Rightarrow> cand_state" where
  "add_facts L body i st =
     (let s1 = add_hyp ''candidate_owner'' [] ''credentialed successful capture; confirm its principal and ownership independently'' [i] st;
          s2 = foldl (\<lambda>s f. if find_field L body f = None then s
                else add_hyp ''owner_field'' f ''owner-shaped response field; confirm its meaning'' [i] s) s1 owner_fields
      in case tenant_hit L body of None \<Rightarrow> s2
         | Some (f, v) \<Rightarrow> add_hyp ''tenant_field'' f ''tenant-shaped response field; confirm isolation boundaries'' [i] s2)"

definition add_relation :: "string \<Rightarrow> string \<Rightarrow> nat \<Rightarrow> cand_state \<Rightarrow> cand_state" where
  "add_relation auth tenant i st =
     (if cs_previous st = 0 \<or> auth = cs_auth st then st
      else let s1 = add_hyp ''identity_relationship'' [] ''different credential material; confirm distinct principals before peer testing''
                 [cs_previous st, i] st
        in if tenant \<noteq> [] \<and> cs_tenant st \<noteq> [] \<and> tenant \<noteq> cs_tenant st
           then add_hyp ''cross_tenant'' []
             ''different credentials and tenant values; confirm principals and replay against a reviewed common resource''
             [cs_previous st, i] s1
           else s1)"

definition correlate :: "golib \<Rightarrow> string \<Rightarrow> string \<Rightarrow> nat \<Rightarrow> cand_state \<Rightarrow> har_error + cand_state" where
  "correlate L body auth i st =
     (let tenant = tenant_of L body;
          s1 = (add_relation auth tenant i (add_facts L body i st))
                 \<lparr>cs_previous := i, cs_auth := auth, cs_tenant := tenant\<rparr>
      in bind_res (guard_err (max_hypotheses < cs_count s1) TooManyHypotheses) (\<lambda>_. Inr s1))"

definition entry_step :: "golib \<Rightarrow> har_lib \<Rightarrow> go_url \<Rightarrow> string \<Rightarrow> string \<Rightarrow> cand_state \<Rightarrow> nat \<times> har_entry
    \<Rightarrow> har_error + cand_state" where
  "entry_step L H origin m p st ie =
     (if \<not> entry_for L H origin m p (snd ie) then Inr st
      else case entry_body H (snd ie) of None \<Rightarrow> Inr st
      | Some body \<Rightarrow>
          let a1 = cs_analyzed st + length body; a2 = a1 + header_bytes (snd ie) in
          bind_res (guard_err (max_response_bytes < length body) BodyTooLarge) (\<lambda>_.
          bind_res (guard_err (max_analyzed < a1) AnalysisBudget) (\<lambda>_.
          bind_res (guard_err (max_analyzed < a2) HeaderBudget) (\<lambda>_.
            if auth_text (snd ie) = [] then Inr (st\<lparr>cs_analyzed := a2\<rparr>)
            else correlate L body (gl_sha256 L (auth_text (snd ie))) (fst ie + 1) (st\<lparr>cs_analyzed := a2\<rparr>)))))"

definition op_hypotheses :: "string \<Rightarrow> cand_state \<Rightarrow> cand_state" where
  "op_hypotheses p st = add_hyp ''permission'' []
     ''confirm owner, peer, cross-tenant and anonymous expectations; observed success does not establish permission'' []
     (foldl (\<lambda>s q. add_hyp ''object_identifier'' q ''ID-shaped path parameter; confirm which resource it selects'' [] s) st
        (filter id_shaped (path_params p)))"

definition start_op :: "nat \<Rightarrow> nat \<Rightarrow> cand_state" where
  "start_op n analyzed = \<lparr>cs_count = n, cs_analyzed = analyzed, cs_hyps = [], cs_previous = 0, cs_auth = [], cs_tenant = []\<rparr>"

text \<open>The counters are kept across the operations.\<close>

definition candidate_step :: "golib \<Rightarrow> har_lib \<Rightarrow> go_url \<Rightarrow> har_entry list \<Rightarrow> nat \<times> nat \<times> candidate list \<Rightarrow> spec_operation
    \<Rightarrow> har_error + nat \<times> nat \<times> candidate list" where
  "candidate_step L H origin es acc so = (case (acc, so) of ((n, analyzed, cs), (p, m, q)) \<Rightarrow>
     bind_res (fold_res (entry_step L H origin m p) (op_hypotheses p (start_op n analyzed)) (enum_list es)) (\<lambda>st.
     bind_res (guard_err (max_hypotheses < cs_count st) TooManyHypotheses) (\<lambda>_.
       Inr (cs_count st, cs_analyzed st, cs @ [\<lparr>ca_endpoint = m @ '' '' @ p, ca_hypotheses = cs_hyps st\<rparr>]))))"

definition capture_base :: "spec \<Rightarrow> string \<Rightarrow> string" where
  "capture_base s base = (if base = [] \<and> sp_servers s \<noteq> [] then hd (sp_servers s) else base)"

definition capture_origin :: "golib \<Rightarrow> string \<Rightarrow> spec \<Rightarrow> string \<Rightarrow> har_error + go_url" where
  "capture_origin L har s base = (case gl_url_parse L (capture_base s base) of
       None \<Rightarrow> if har \<noteq> [] then Inl NoOrigin
         else Inr \<lparr>u_scheme = [], u_host = [], u_hostname = [], u_port = [], u_has_user = False, u_fragment = [], u_path = [], u_raw_query = []\<rparr>
     | Some u \<Rightarrow> if har \<noteq> [] \<and> (u_host u = [] \<or> (u_scheme u \<noteq> ''http'' \<and> u_scheme u \<noteq> ''https'')) then Inl NoOrigin else Inr u)"

definition parse_har :: "har_lib \<Rightarrow> string \<Rightarrow> har_error + har_entry list" where
  "parse_har H har = (if har = [] then Inr []
     else case hl_entries H har of None \<Rightarrow> Inl HarUnparsed | Some es \<Rightarrow> Inr es)"

definition candidates :: "golib \<Rightarrow> har_lib \<Rightarrow> spec \<Rightarrow> string \<Rightarrow> string \<Rightarrow> har_error + candidate list" where
  "candidates L H s base har =
     bind_res (guard_err (max_har_bytes < length har) HarTooLarge) (\<lambda>_.
     bind_res (parse_har H har) (\<lambda>es.
     bind_res (guard_err (max_har_entries < length es) TooManyEntries) (\<lambda>_.
     bind_res (fold_res check_entry 0 es) (\<lambda>sofar.
     bind_res (guard_err (es \<noteq> [] \<and> max_comparisons div length es < length (operations s)) TooManyComparisons) (\<lambda>_.
     bind_res (capture_origin L har s base) (\<lambda>origin.
     bind_res (fold_res (candidate_step L H origin es) (0, 0, []) (operations s)) (\<lambda>(n, analyzed, cs).
       Inr cs)))))))"
section \<open>The commands\<close>

record author_env =
  au_read :: "string \<Rightarrow> string option"
  au_abs :: "string \<Rightarrow> string"
  au_join :: "string \<Rightarrow> string \<Rightarrow> string"
  au_spec :: "string \<Rightarrow> spec option"
  au_collection :: "string \<Rightarrow> pm_item list option"
  au_cases :: "string \<Rightarrow> test_case list option"
  au_har :: har_lib

datatype author_error = OneSource | NeedsSpec | HarNeedsHypotheses | SameOutput | Unreadable string
  | ImportProblem import_error | HarProblem har_error | CasesNotJson | WriteFailed | NothingToDraft

text \<open>What the commands write; an empty path is standard output.\<close>

datatype author_sink = HypothesesFile string "candidate list" | CaseFile string "test_case list"
  | CoverageFile string coverage_report | DraftsText string | DraftDir string | DraftFile string string
  | DraftSummary "draft list" string

text \<open>The writes happen in order and the first that fails ends the command.\<close>

fun write_sinks :: "(author_sink \<Rightarrow> bool) \<Rightarrow> author_sink list \<Rightarrow> (author_error + unit) \<times> author_sink list" where
  "write_sinks ok [] = (Inr (), [])"
| "write_sinks ok (s # ss) = (if \<not> ok s then (Inl WriteFailed, [])
     else case write_sinks ok ss of (r, written) \<Rightarrow> (r, s # written))"

definition write_result :: "(author_sink \<Rightarrow> bool) \<Rightarrow> author_error + author_sink list \<Rightarrow> (author_error + unit) \<times> author_sink list" where
  "write_result ok r = (case r of Inl e \<Rightarrow> (Inl e, []) | Inr sinks \<Rightarrow> write_sinks ok sinks)"

definition read_input :: "author_env \<Rightarrow> string \<Rightarrow> author_error + string" where
  "read_input E path = (case au_read E path of None \<Rightarrow> Inl (Unreadable path) | Some data \<Rightarrow> Inr data)"

definition read_spec :: "author_env \<Rightarrow> string \<Rightarrow> author_error + spec" where
  "read_spec E path = bind_res (read_input E path) (\<lambda>data. map_err ImportProblem (parse_spec (au_spec E) data))"

record gen_flags =
  gf_spec :: string
  gf_postman :: string
  gf_base :: string
  gf_out :: string
  gf_har :: string
  gf_hypotheses :: string

definition check_gen_flags :: "author_env \<Rightarrow> gen_flags \<Rightarrow> author_error + unit" where
  "check_gen_flags E f =
     bind_res (guard_err ((gf_spec f = []) = (gf_postman f = [])) OneSource) (\<lambda>_.
     bind_res (guard_err ((gf_har f \<noteq> [] \<or> gf_hypotheses f \<noteq> []) \<and> gf_spec f = []) NeedsSpec) (\<lambda>_.
     bind_res (guard_err (gf_har f \<noteq> [] \<and> gf_hypotheses f = []) HarNeedsHypotheses) (\<lambda>_.
       guard_err (gf_out f \<noteq> [] \<and> gf_hypotheses f \<noteq> [] \<and> au_abs E (gf_out f) = au_abs E (gf_hypotheses f)) SameOutput)))"

definition read_capture :: "author_env \<Rightarrow> string \<Rightarrow> author_error + string" where
  "read_capture E path = (if path = [] then Inr [] else
     map_err (\<lambda>e. case e of None \<Rightarrow> Unreadable path | Some h \<Rightarrow> HarProblem h) (read_har (au_read E) path))"

definition gen_inputs :: "author_env \<Rightarrow> golib \<Rightarrow> gen_flags \<Rightarrow> author_error + test_case list \<times> candidate list" where
  "gen_inputs E L f =
     (if gf_spec f \<noteq> [] then
        bind_res (read_spec E (gf_spec f)) (\<lambda>s.
        bind_res (read_capture E (gf_har f)) (\<lambda>har.
        bind_res (map_err HarProblem (candidates L (au_har E) s (gf_base f) har)) (\<lambda>cs.
          Inr (spec_cases s (gf_base f), cs))))
      else
        bind_res (read_input E (gf_postman f)) (\<lambda>data.
        bind_res (map_err ImportProblem (parse_collection (au_collection E) data)) (\<lambda>items.
          Inr (collection_cases items (gf_base f), []))))"

definition gen_outputs :: "author_env \<Rightarrow> golib \<Rightarrow> gen_flags \<Rightarrow> author_error + author_sink list" where
  "gen_outputs E L f = bind_res (check_gen_flags E f) (\<lambda>_. bind_res (gen_inputs E L f) (\<lambda>(tcs, cs).
     Inr ((if gf_hypotheses f \<noteq> [] then [HypothesesFile (gf_hypotheses f) cs] else [])
          @ [CaseFile (gf_out f) (map (to_wire \<circ> review_case) tcs)])))"

definition gen_test_cases :: "author_env \<Rightarrow> golib \<Rightarrow> (author_sink \<Rightarrow> bool) \<Rightarrow> gen_flags \<Rightarrow> (author_error + unit) \<times> author_sink list" where
  "gen_test_cases E L ok f = write_result ok (gen_outputs E L f)"

definition report_coverage :: "author_env \<Rightarrow> (author_sink \<Rightarrow> bool) \<Rightarrow> string \<Rightarrow> string \<Rightarrow> string
    \<Rightarrow> (author_error + unit) \<times> author_sink list" where
  "report_coverage E ok spec_path cases_path out = write_result ok (
     bind_res (guard_err (spec_path = [] \<or> cases_path = []) OneSource) (\<lambda>_.
     bind_res (read_spec E spec_path) (\<lambda>s.
     bind_res (read_input E cases_path) (\<lambda>data.
       case au_cases E data of None \<Rightarrow> Inl CasesNotJson | Some tcs \<Rightarrow> Inr [CoverageFile out (analyze s tcs)]))))"

definition split_roles :: "string \<Rightarrow> string list" where
  "split_roles s = filter (\<lambda>r. r \<noteq> []) (map trim_space (split_on CHR '','' s))"

definition drafts_text :: "draft list \<Rightarrow> string" where
  "drafts_text ds = join_with (''---'' @ newline) (map (\<lambda>d. ''# '' @ df_file d @ newline @ df_yaml d) ds)"

definition draft_sinks :: "author_env \<Rightarrow> string \<Rightarrow> draft list \<Rightarrow> author_sink list" where
  "draft_sinks E out ds =
     (if out = [] then [DraftsText (drafts_text ds)]
      else DraftDir out # map (\<lambda>d. DraftFile (au_join E out (df_file d)) (df_yaml d)) ds) @ [DraftSummary ds out]"

text \<open>The sample, the directory and the list of roles are flags of the command.\<close>

definition run_discover :: "author_env \<Rightarrow> golib \<Rightarrow> (author_sink \<Rightarrow> bool) \<Rightarrow> string \<Rightarrow> string \<Rightarrow> string \<Rightarrow> string
    \<Rightarrow> (author_error + unit) \<times> author_sink list" where
  "run_discover E L ok spec_path sample_path out roles = write_result ok (
     bind_res (guard_err (spec_path = []) OneSource) (\<lambda>_.
     bind_res (read_spec E spec_path) (\<lambda>s.
     bind_res (if sample_path = [] then Inr [] else read_input E sample_path) (\<lambda>sample.
       let ds = from_spec L s sample (split_roles roles) in
       if ds = [] then Inl NothingToDraft else Inr (draft_sinks E out ds)))))"
section \<open>What a hypothesis rests on\<close>

definition hyp_kinds :: "(string \<times> string) list" where
  "hyp_kinds = [(''object_identifier'', ''ID-shaped path parameter; confirm which resource it selects''),
     (''permission'', ''confirm owner, peer, cross-tenant and anonymous expectations; observed success does not establish permission''),
     (''candidate_owner'', ''credentialed successful capture; confirm its principal and ownership independently''),
     (''owner_field'', ''owner-shaped response field; confirm its meaning''),
     (''tenant_field'', ''tenant-shaped response field; confirm isolation boundaries''),
     (''identity_relationship'', ''different credential material; confirm distinct principals before peer testing''),
     (''cross_tenant'', ''different credentials and tenant values; confirm principals and replay against a reviewed common resource'')]"

text \<open>An entry for the operation that was answered with success to a caller with credentials.\<close>

definition credentialed :: "golib \<Rightarrow> har_lib \<Rightarrow> go_url \<Rightarrow> string \<Rightarrow> string \<Rightarrow> har_entry \<Rightarrow> bool" where
  "credentialed L H origin m p e \<longleftrightarrow> entry_for L H origin m p e \<and> entry_body H e \<noteq> None \<and> auth_text e \<noteq> []"

definition entry_tenant :: "golib \<Rightarrow> har_lib \<Rightarrow> har_entry \<Rightarrow> string" where
  "entry_tenant L H e = (case entry_body H e of None \<Rightarrow> [] | Some body \<Rightarrow> tenant_of L body)"

definition cited :: "golib \<Rightarrow> har_lib \<Rightarrow> go_url \<Rightarrow> har_entry list \<Rightarrow> string \<Rightarrow> string \<Rightarrow> nat \<Rightarrow> bool" where
  "cited L H origin es m p k \<longleftrightarrow> 0 < k \<and> k \<le> length es \<and> credentialed L H origin m p (es ! (k - 1))"

definition hyp_rests :: "golib \<Rightarrow> har_lib \<Rightarrow> go_url \<Rightarrow> har_entry list \<Rightarrow> string \<Rightarrow> string \<Rightarrow> hypothesis \<Rightarrow> bool" where
  "hyp_rests L H origin es m p h \<longleftrightarrow> hy_state h = ''unconfirmed'' \<and> (hy_kind h, hy_reason h) \<in> set hyp_kinds
     \<and> (hy_field h = [] \<or> hy_field h \<in> set (path_params p @ owner_fields @ tenant_fields))
     \<and> (\<forall>k\<in>set (hy_captures h). cited L H origin es m p k)
     \<and> (hy_kind h = ''cross_tenant'' \<longrightarrow> (\<exists>j k. hy_captures h = [j, k] \<and> auth_text (es ! (j - 1)) \<noteq> auth_text (es ! (k - 1))
          \<and> entry_tenant L H (es ! (j - 1)) \<noteq> entry_tenant L H (es ! (k - 1))
          \<and> entry_tenant L H (es ! (j - 1)) \<noteq> [] \<and> entry_tenant L H (es ! (k - 1)) \<noteq> []))"

definition previous_ok :: "golib \<Rightarrow> har_lib \<Rightarrow> go_url \<Rightarrow> har_entry list \<Rightarrow> string \<Rightarrow> string \<Rightarrow> cand_state \<Rightarrow> bool" where
  "previous_ok L H origin es m p st \<longleftrightarrow> cs_previous st = 0 \<or>
     cited L H origin es m p (cs_previous st) \<and> cs_auth st = gl_sha256 L (auth_text (es ! (cs_previous st - 1)))
     \<and> cs_tenant st = entry_tenant L H (es ! (cs_previous st - 1))"

text \<open>The count is that of the hypotheses, and the owners are those seen, as long as the limit holds.\<close>

definition tally :: "nat \<Rightarrow> nat list \<Rightarrow> cand_state \<Rightarrow> bool" where
  "tally c ks st \<longleftrightarrow> (cs_count st \<le> max_hypotheses \<longrightarrow> cs_count st = c + length (cs_hyps st)
     \<and> concat (map hy_captures (filter (\<lambda>h. hy_kind h = ''candidate_owner'') (cs_hyps st))) = ks)"

lemma add_hyp_simps [simp]:
  "cs_count (add_hyp kind f r ks st) = cs_count st + 1"
  "cs_analyzed (add_hyp kind f r ks st) = cs_analyzed st"
  "cs_previous (add_hyp kind f r ks st) = cs_previous st"
  "cs_auth (add_hyp kind f r ks st) = cs_auth st"
  "cs_tenant (add_hyp kind f r ks st) = cs_tenant st"
  by (simp_all add: add_hyp_def)

lemma add_hyp_rests:
  assumes "\<forall>h\<in>set (cs_hyps st). hyp_rests L H origin es m p h"
    and "hyp_rests L H origin es m p \<lparr>hy_kind = kind, hy_state = ''unconfirmed'', hy_field = f, hy_captures = ks, hy_reason = r\<rparr>"
  shows "\<forall>h\<in>set (cs_hyps (add_hyp kind f r ks st)). hyp_rests L H origin es m p h"
  using assms by (simp add: add_hyp_def)

lemma add_hyp_tally:
  "tally c os st \<Longrightarrow> tally c (if kind = ''candidate_owner'' then os @ ks else os) (add_hyp kind f r ks st)"
  by (simp add: tally_def add_hyp_def)

lemma first_field_mem: "first_field L body fs = Some (f, kv) \<Longrightarrow> f \<in> set fs \<and> find_field L body f = Some kv"
  unfolding first_field_def
  by (induction fs) (auto simp: List.map_filter_simps split: list.splits option.splits)
lemma hyp_restsI:
  assumes "(kind, r) \<in> set hyp_kinds" "f = [] \<or> f \<in> set (path_params p @ owner_fields @ tenant_fields)"
    and "\<forall>k\<in>set ks. cited L H origin es m p k" "kind \<noteq> ''cross_tenant''"
  shows "hyp_rests L H origin es m p
    \<lparr>hy_kind = kind, hy_state = ''unconfirmed'', hy_field = f, hy_captures = ks, hy_reason = r\<rparr>"
  using assms by (simp add: hyp_rests_def)

lemma op_hypotheses_rests:
  "\<forall>h\<in>set (cs_hyps (op_hypotheses p (start_op n a))). hyp_rests L H origin es m p h"
  unfolding op_hypotheses_def
  by (intro add_hyp_rests foldl_inv [of "\<lambda>s. \<forall>h\<in>set (cs_hyps s). hyp_rests L H origin es m p h"] hyp_restsI)
    (auto simp: start_op_def hyp_kinds_def)

lemma op_hypotheses_start:
  "cs_previous (op_hypotheses p (start_op n a)) = 0" "cs_analyzed (op_hypotheses p (start_op n a)) = a"
proof -
  have "cs_previous (foldl (\<lambda>s q. add_hyp k q r [] s) st qs) = cs_previous st"
    "cs_analyzed (foldl (\<lambda>s q. add_hyp k q r [] s) st qs) = cs_analyzed st" for k r st qs
    by (induction qs arbitrary: st) auto
  then show "cs_previous (op_hypotheses p (start_op n a)) = 0" "cs_analyzed (op_hypotheses p (start_op n a)) = a"
    by (simp_all add: op_hypotheses_def start_op_def)
qed

lemma op_hypotheses_tally: "tally n [] (op_hypotheses p (start_op n a))"
proof -
  have "tally n [] (foldl (\<lambda>s q. add_hyp ''object_identifier'' q r [] s) (start_op n a) qs)" for qs r
  proof (rule foldl_inv)
    fix s q assume "tally n [] s"
    from add_hyp_tally [OF this, of "''object_identifier''"] show "tally n [] (add_hyp ''object_identifier'' q r [] s)" by simp
  qed (simp add: tally_def start_op_def)
  from add_hyp_tally [OF this, of "''permission''"] show ?thesis by (simp add: op_hypotheses_def)
qed

lemma add_facts_rests:
  assumes st: "\<forall>h\<in>set (cs_hyps st). hyp_rests L H origin es m p h" and i: "cited L H origin es m p i"
  shows "\<forall>h\<in>set (cs_hyps (add_facts L body i st)). hyp_rests L H origin es m p h"
proof -
  let ?R = "\<lambda>s. \<forall>h\<in>set (cs_hyps s). hyp_rests L H origin es m p h"
  let ?s1 = "add_hyp ''candidate_owner'' [] ''credentialed successful capture; confirm its principal and ownership independently'' [i] st"
  let ?s2 = "foldl (\<lambda>s f. if find_field L body f = None then s
                else add_hyp ''owner_field'' f ''owner-shaped response field; confirm its meaning'' [i] s) ?s1 owner_fields"
  have "?R ?s1" by (intro add_hyp_rests st hyp_restsI) (simp_all add: i hyp_kinds_def)
  moreover have "?R (if find_field L body f = None then s
      else add_hyp ''owner_field'' f ''owner-shaped response field; confirm its meaning'' [i] s)"
    if "f \<in> set owner_fields" "?R s" for s f
  proof (cases "find_field L body f = None")
    case False
    have "?R (add_hyp ''owner_field'' f ''owner-shaped response field; confirm its meaning'' [i] s)"
      by (intro add_hyp_rests that hyp_restsI) (simp_all add: i hyp_kinds_def that)
    then show ?thesis unfolding if_not_P [OF False] .
  qed (use that in simp)
  ultimately have s2: "?R ?s2" by (intro foldl_inv [of ?R])
  show ?thesis
  proof (cases "tenant_hit L body")
    case None
    then show ?thesis using s2 by (simp add: add_facts_def Let_def)
  next
    case (Some fv)
    then obtain f v where fv: "tenant_hit L body = Some (f, v)" by (cases fv) auto
    then have "f \<in> set tenant_fields" using first_field_mem by (fastforce simp: tenant_hit_def)
    then have "?R (add_hyp ''tenant_field'' f ''tenant-shaped response field; confirm isolation boundaries'' [i] ?s2)"
      by (intro add_hyp_rests s2 hyp_restsI) (simp_all add: i hyp_kinds_def)
    then show ?thesis using fv by (simp add: add_facts_def Let_def)
  qed
qed

lemma add_facts_tally:
  assumes "tally c ks st"
  shows "tally c (ks @ [i]) (add_facts L body i st)"
proof -
  let ?s1 = "add_hyp ''candidate_owner'' [] ''credentialed successful capture; confirm its principal and ownership independently'' [i] st"
  let ?s2 = "foldl (\<lambda>s f. if find_field L body f = None then s
                else add_hyp ''owner_field'' f ''owner-shaped response field; confirm its meaning'' [i] s) ?s1 owner_fields"
  have s1: "tally c (ks @ [i]) ?s1" using add_hyp_tally [OF assms, of "''candidate_owner''"] by simp
  have s2: "tally c (ks @ [i]) ?s2"
  proof (rule foldl_inv [of "tally c (ks @ [i])", OF s1])
    fix s f assume t: "tally c (ks @ [i]) s"
    from add_hyp_tally [OF t, of "''owner_field''"] t
    show "tally c (ks @ [i]) (if find_field L body f = None then s
        else add_hyp ''owner_field'' f ''owner-shaped response field; confirm its meaning'' [i] s)" by simp
  qed
  show ?thesis
  proof (cases "tenant_hit L body")
    case (Some fv)
    then show ?thesis
      using add_hyp_tally [OF s2, of "''tenant_field''"] by (simp add: add_facts_def Let_def split: prod.split)
  qed (simp add: add_facts_def Let_def s2)
qed

lemma add_facts_keeps:
  "cs_previous (add_facts L body i st) = cs_previous st" "cs_auth (add_facts L body i st) = cs_auth st"
  "cs_tenant (add_facts L body i st) = cs_tenant st"
proof -
  have "cs_previous (foldl (\<lambda>s f. if P f then s else add_hyp k f r ks s) s0 fs) = cs_previous s0"
    "cs_auth (foldl (\<lambda>s f. if P f then s else add_hyp k f r ks s) s0 fs) = cs_auth s0"
    "cs_tenant (foldl (\<lambda>s f. if P f then s else add_hyp k f r ks s) s0 fs) = cs_tenant s0" for P k r ks s0 fs
    by (induction fs arbitrary: s0) auto
  then show "cs_previous (add_facts L body i st) = cs_previous st" "cs_auth (add_facts L body i st) = cs_auth st"
    "cs_tenant (add_facts L body i st) = cs_tenant st"
    by (simp_all add: add_facts_def Let_def split: option.split prod.split)
qed

lemma add_relation_tally: "tally c ks st \<Longrightarrow> tally c ks (add_relation auth tenant i st)"
  using add_hyp_tally [of c ks st "''identity_relationship''"] add_hyp_tally [of c ks _ "''cross_tenant''"]
  by (simp add: add_relation_def Let_def)
lemma add_relation_rests:
  assumes st: "\<forall>h\<in>set (cs_hyps st). hyp_rests L H origin es m p h" and i: "cited L H origin es m p i"
    and prev: "previous_ok L H origin es m p st"
    and auth: "auth = gl_sha256 L (auth_text (es ! (i - 1)))" and tenant: "tenant = entry_tenant L H (es ! (i - 1))"
  shows "\<forall>h\<in>set (cs_hyps (add_relation auth tenant i st)). hyp_rests L H origin es m p h"
proof (cases "cs_previous st = 0 \<or> auth = cs_auth st")
  case True
  then show ?thesis using st by (simp add: add_relation_def)
next
  case False
  let ?R = "\<lambda>s. \<forall>h\<in>set (cs_hyps s). hyp_rests L H origin es m p h"
  let ?j = "cs_previous st"
  have j: "cited L H origin es m p ?j" "cs_auth st = gl_sha256 L (auth_text (es ! (?j - 1)))"
    "cs_tenant st = entry_tenant L H (es ! (?j - 1))"
    using prev False by (simp_all add: previous_ok_def)
  have differ: "auth_text (es ! (?j - 1)) \<noteq> auth_text (es ! (i - 1))" using False auth j(2) by auto
  let ?s1 = "add_hyp ''identity_relationship'' [] ''different credential material; confirm distinct principals before peer testing''
                 [?j, i] st"
  have s1: "?R ?s1" by (intro add_hyp_rests st hyp_restsI) (simp_all add: i j hyp_kinds_def)
  show ?thesis
  proof (cases "tenant \<noteq> [] \<and> cs_tenant st \<noteq> [] \<and> tenant \<noteq> cs_tenant st")
    case True
    have "hyp_rests L H origin es m p \<lparr>hy_kind = ''cross_tenant'', hy_state = ''unconfirmed'', hy_field = [],
        hy_captures = [?j, i], hy_reason =
          ''different credentials and tenant values; confirm principals and replay against a reviewed common resource''\<rparr>"
      using True differ j i tenant by (auto simp: hyp_rests_def hyp_kinds_def)
    from add_hyp_rests [OF s1 this] show ?thesis using False True by (simp add: add_relation_def Let_def)
  next
    case cross: False
    then show ?thesis using False s1 by (auto simp add: add_relation_def Let_def)
  qed
qed

lemma entry_step_Inr:
  assumes step: "entry_step L H origin m p st (i, e) = Inr st'" and e: "i < length es" "e = es ! i"
    and st: "\<forall>h\<in>set (cs_hyps st). hyp_rests L H origin es m p h" "previous_ok L H origin es m p st" "tally c ks st"
  shows "(\<forall>h\<in>set (cs_hyps st'). hyp_rests L H origin es m p h) \<and> previous_ok L H origin es m p st'
    \<and> tally c (if credentialed L H origin m p e then ks @ [i + 1] else ks) st'"
proof (cases "credentialed L H origin m p e")
  case False
  then have "\<exists>a. st' = st\<lparr>cs_analyzed := a\<rparr>"
    using step by (force simp: entry_step_def credentialed_def bind_res_eq_Inr Let_def intro: exI [of _ "cs_analyzed st"]
      split: if_split_asm option.split_asm)
  then show ?thesis using False st by (auto simp: tally_def previous_ok_def)
next
  case True
  then obtain body where body: "entry_body H e = Some body" "entry_for L H origin m p e" "auth_text e \<noteq> []"
    by (auto simp: credentialed_def)
  define s0 where "s0 = st\<lparr>cs_analyzed := cs_analyzed st + length body + header_bytes e\<rparr>"
  define auth where "auth = gl_sha256 L (auth_text e)"
  have "correlate L body auth (i + 1) s0 = Inr st'"
    using step body by (simp add: entry_step_def bind_res_eq_Inr Let_def s0_def auth_def)
  then have st': "st' = (add_relation auth (tenant_of L body) (i + 1) (add_facts L body (i + 1) s0))
      \<lparr>cs_previous := i + 1, cs_auth := auth, cs_tenant := tenant_of L body\<rparr>"
    by (simp add: correlate_def bind_res_eq_Inr Let_def)
  have i: "cited L H origin es m p (i + 1)" using True e by (simp add: cited_def)
  have s0: "\<forall>h\<in>set (cs_hyps s0). hyp_rests L H origin es m p h" "previous_ok L H origin es m p s0" "tally c ks s0"
    using st by (simp_all add: s0_def previous_ok_def tally_def)
  have prev: "previous_ok L H origin es m p (add_facts L body (i + 1) s0)"
    using s0(2) by (simp add: previous_ok_def add_facts_keeps)
  have tenant: "tenant_of L body = entry_tenant L H e" by (simp add: entry_tenant_def body)
  have "\<forall>h\<in>set (cs_hyps st'). hyp_rests L H origin es m p h"
    unfolding st' using add_relation_rests [OF add_facts_rests [OF s0(1) i] i prev] e
    by (simp add: auth_def tenant)
  moreover have "previous_ok L H origin es m p st'"
    unfolding st' using i e by (simp add: previous_ok_def auth_def tenant)
  moreover have "tally c (ks @ [i + 1]) st'"
    using add_relation_tally [OF add_facts_tally [OF s0(3)]] unfolding st' by (simp add: tally_def)
  ultimately show ?thesis using True by simp
qed

lemma entry_steps_Inr:
  assumes "fold_res (entry_step L H origin m p) st ies = Inr st'" "\<forall>(i, e)\<in>set ies. i < length es \<and> e = es ! i"
    and "\<forall>h\<in>set (cs_hyps st). hyp_rests L H origin es m p h" "previous_ok L H origin es m p st" "tally c ks st"
  shows "(\<forall>h\<in>set (cs_hyps st'). hyp_rests L H origin es m p h)
    \<and> tally c (ks @ map (\<lambda>(i, e). i + 1) (filter (\<lambda>(i, e). credentialed L H origin m p e) ies)) st'"
  using assms
proof (induction ies arbitrary: st ks)
  case (Cons ie ies)
  obtain i e where ie: "ie = (i, e)" by (cases ie)
  with Cons.prems(1) obtain s1 where s1: "entry_step L H origin m p st (i, e) = Inr s1"
    "fold_res (entry_step L H origin m p) s1 ies = Inr st'" by (auto simp: bind_res_eq_Inr)
  have "(\<forall>h\<in>set (cs_hyps s1). hyp_rests L H origin es m p h) \<and> previous_ok L H origin es m p s1
    \<and> tally c (if credentialed L H origin m p e then ks @ [i + 1] else ks) s1"
    using Cons.prems ie by (intro entry_step_Inr [OF s1(1)]) auto
  then have "(\<forall>h\<in>set (cs_hyps st'). hyp_rests L H origin es m p h)
    \<and> tally c ((if credentialed L H origin m p e then ks @ [i + 1] else ks)
        @ map (\<lambda>(i, e). i + 1) (filter (\<lambda>(i, e). credentialed L H origin m p e) ies)) st'"
    using Cons.prems(2) by (intro Cons.IH [OF s1(2)]) auto
  then show ?case by (simp add: ie split: if_split_asm)
qed simp

definition hyp_total :: "candidate list \<Rightarrow> nat" where
  "hyp_total cs = sum_list (map (\<lambda>c. length (ca_hypotheses c)) cs)"

lemma hyp_total_simps [simp]:
  "hyp_total [] = 0" "hyp_total (c # cs) = length (ca_hypotheses c) + hyp_total cs"
  "hyp_total (cs @ ds) = hyp_total cs + hyp_total ds"
  by (simp_all add: hyp_total_def)

definition candidate_rests :: "golib \<Rightarrow> har_lib \<Rightarrow> go_url \<Rightarrow> har_entry list \<Rightarrow> spec_operation \<Rightarrow> candidate \<Rightarrow> bool" where
  "candidate_rests L H origin es so c \<longleftrightarrow> (case so of (p, m, q) \<Rightarrow> ca_endpoint c = m @ '' '' @ p
     \<and> (\<forall>h\<in>set (ca_hypotheses c). hyp_rests L H origin es m p h)
     \<and> concat (map hy_captures (filter (\<lambda>h. hy_kind h = ''candidate_owner'') (ca_hypotheses c)))
         = map (\<lambda>(i, e). i + 1) (filter (\<lambda>(i, e). credentialed L H origin m p e) (enum_list es)))"

lemma candidate_step_Inr:
  assumes "candidate_step L H origin es (n, a, cs) so = Inr acc"
  shows "\<exists>n' a' c. acc = (n', a', cs @ [c]) \<and> n' \<le> max_hypotheses \<and> n' = n + length (ca_hypotheses c)
    \<and> candidate_rests L H origin es so c"
proof -
  obtain p m q where so: "so = (p, m, q)" by (cases so)
  from assms so obtain st where st:
    "fold_res (entry_step L H origin m p) (op_hypotheses p (start_op n a)) (enum_list es) = Inr st"
    "cs_count st \<le> max_hypotheses" "acc = (cs_count st, cs_analyzed st, cs @ [\<lparr>ca_endpoint = m @ '' '' @ p, ca_hypotheses = cs_hyps st\<rparr>])"
    by (auto simp: candidate_step_def bind_res_eq_Inr)
  have "(\<forall>h\<in>set (cs_hyps st). hyp_rests L H origin es m p h)
    \<and> tally n ([] @ map (\<lambda>(i, e). i + 1) (filter (\<lambda>(i, e). credentialed L H origin m p e) (enum_list es))) st"
    by (rule entry_steps_Inr [OF st(1) _ op_hypotheses_rests _ op_hypotheses_tally])
      (auto simp: set_enum_list previous_ok_def op_hypotheses_start)
  then show ?thesis using st(2,3) so
    by (intro exI [of _ "cs_count st"] exI [of _ "cs_analyzed st"] exI [of _ "\<lparr>ca_endpoint = m @ '' '' @ p, ca_hypotheses = cs_hyps st\<rparr>"])
      (simp add: tally_def candidate_rests_def)
qed

lemma candidate_steps_Inr:
  assumes "fold_res (candidate_step L H origin es) (n, a, cs) ops = Inr acc"
    "n = hyp_total cs" "n \<le> max_hypotheses"
  shows "\<exists>n' a' ds. acc = (n', a', cs @ ds) \<and> n' = hyp_total (cs @ ds) \<and> n' \<le> max_hypotheses
    \<and> list_all2 (candidate_rests L H origin es) ops ds"
  using assms
proof (induction ops arbitrary: n a cs)
  case (Cons so ops)
  then obtain acc1 where acc1: "candidate_step L H origin es (n, a, cs) so = Inr acc1"
    "fold_res (candidate_step L H origin es) acc1 ops = Inr acc" by (auto simp: bind_res_eq_Inr)
  from candidate_step_Inr [OF acc1(1)] obtain n1 a1 c where c: "acc1 = (n1, a1, cs @ [c])" "n1 \<le> max_hypotheses"
    "n1 = n + length (ca_hypotheses c)" "candidate_rests L H origin es so c" by blast
  from Cons.IH [OF acc1(2) [unfolded c(1)] _ c(2)] c(3) Cons.prems(2) obtain n' a' ds where
    "acc = (n', a', (cs @ [c]) @ ds)" "n' = hyp_total ((cs @ [c]) @ ds)" "n' \<le> max_hypotheses"
    "list_all2 (candidate_rests L H origin es) ops ds" by auto
  then show ?case using c(4) by (intro exI [of _ n'] exI [of _ a'] exI [of _ "c # ds"]) simp
qed auto
text \<open>
  C33. Discovery proposes and never concludes. Every operation of the document gets its candidate in
  order, with at most 50000 hypotheses in all, each of them unconfirmed. What a hypothesis says is one of
  seven fixed reasons and its field a parameter of the path or one of seven fixed names, so nothing of the
  captured traffic is copied. Each capture it cites is an entry of the traffic for that operation
  at the declared origin, answered with success and sent with credentials; all of those, and in order, are
  named as candidate owners; and a cross-tenant hypothesis cites two of different credentials
  whose responses name different tenants.
\<close>

theorem hypotheses_rest_on_captures:
  assumes "candidates L H s base har = Inr cs"
  shows "hyp_total cs \<le> 50000
    \<and> (\<exists>es origin. parse_har H har = Inr es \<and> capture_origin L har s base = Inr origin
         \<and> list_all2 (candidate_rests L H origin es) (operations s) cs)"
proof -
  obtain es origin n a where c: "parse_har H har = Inr es" "capture_origin L har s base = Inr origin"
    "fold_res (candidate_step L H origin es) (0, 0, []) (operations s) = Inr (n, a, cs)"
    using assms by (auto simp: candidates_def bind_res_eq_Inr)
  from candidate_steps_Inr [OF c(3)] have "hyp_total cs \<le> max_hypotheses
      \<and> list_all2 (candidate_rests L H origin es) (operations s) cs" by simp
  then show ?thesis using c(1,2) by (auto simp: max_hypotheses_def)
qed
definition sample_origin :: "string \<Rightarrow> go_url" where
  "sample_origin path = \<lparr>u_scheme = ''http'', u_host = ''api'', u_hostname = ''api'', u_port = [], u_has_user = False,
     u_fragment = [], u_path = path, u_raw_query = []\<rparr>"

definition sample_urls :: golib where
  "sample_urls = sample_lib\<lparr>gl_url_parse := \<lambda>u. Some (sample_origin (if u = ''http://api'' then [] else ''/users/1''))\<rparr>"

definition sample_entry :: "string \<Rightarrow> har_entry" where
  "sample_entry t = \<lparr>he_method = ''GET'', he_url = ''http://api/users/1'', he_headers = [(''Authorization'', t)],
     he_status = 200, he_text = ''{\"tenant_id\":\"'' @ t @ ''\"}'', he_encoding = []\<rparr>"

definition sample_har :: har_lib where
  "sample_har = \<lparr>hl_entries = \<lambda>_. Some [sample_entry ''a'', sample_entry ''b''], hl_base64 = \<lambda>_. None, hl_escaped = u_path\<rparr>"

definition sample_spec :: spec where
  "sample_spec = \<lparr>sp_openapi = [], sp_title = [], sp_version = [], sp_servers = [''http://api''],
     sp_paths = [(''/users/{id}'', \<lparr>pi_get = Some \<lparr>op_id = [], op_summary = [], op_security = []\<rparr>, pi_put = None, pi_post = None,
        pi_delete = None, pi_patch = None, pi_head = None, pi_options = None\<rparr>)]\<rparr>"

lemma add_facts_tenant:
  assumes "\<forall>f\<in>set owner_fields. find_field L body f = None" "tenant_hit L body = Some (f, v)"
  shows "add_facts L body i st = add_hyp ''tenant_field'' f ''tenant-shaped response field; confirm isolation boundaries'' [i]
    (add_hyp ''candidate_owner'' [] ''credentialed successful capture; confirm its principal and ownership independently'' [i] st)"
  using assms by (simp add: add_facts_def Let_def owner_fields_def)

lemma sample_entry_for: "entry_for sample_urls sample_har (sample_origin []) ''GET'' ''/users/{id}'' (sample_entry t)"
proof -
  have "matches_path (trim_right_set [] ''/'' @ ''/users/{id}'') ''/users/1''" by code_simp
  then show ?thesis
    by (simp add: entry_for_def sample_urls_def sample_entry_def sample_har_def sample_origin_def equal_fold_def)
qed

lemma sample_facts_found:
  "list_all (\<lambda>f. find_field sample_urls (he_text (sample_entry ''a'')) f = None \<and> find_field sample_urls (he_text (sample_entry ''b'')) f = None) owner_fields"
  "tenant_hit sample_urls (he_text (sample_entry ''a'')) = Some (''tenant_id'', ''a'')"
  "tenant_hit sample_urls (he_text (sample_entry ''b'')) = Some (''tenant_id'', ''b'')"
  by code_simp+

lemma hypotheses_rest_on_captures_witness:
  "\<exists>cs es. candidates sample_urls sample_har sample_spec [] ''{}'' = Inr cs \<and> hyp_total cs \<le> 50000
     \<and> map (map hy_kind \<circ> ca_hypotheses) cs = [[''object_identifier'', ''permission'', ''candidate_owner'', ''tenant_field'',
          ''candidate_owner'', ''tenant_field'', ''identity_relationship'', ''cross_tenant'']]
     \<and> list_all2 (candidate_rests sample_urls sample_har (sample_origin []) es) (operations sample_spec) cs"
proof -
  have ops: "operations sample_spec = [(''/users/{id}'', ''GET'', \<lparr>op_id = [], op_summary = [], op_security = []\<rparr>)]"
    by (simp add: operations_def sample_spec_def item_operations_def item_table_def List.map_filter_simps)
  have params: "filter id_shaped (path_params ''/users/{id}'') = [''id'']" by code_simp
  have auth: "auth_text (sample_entry t) = ''authorization:'' @ t @ newline" for t
    by (simp add: auth_text_def sample_entry_def equal_fold_def) (code_simp)
  have len: "length (he_text (sample_entry t)) = 16 + length t" for t by (simp add: sample_entry_def)
  have enum: "enum_list [sample_entry ''a'', sample_entry ''b''] = [(0, sample_entry ''a''), (1, sample_entry ''b'')]"
    by (simp add: enum_list_def)
  have facts: "add_facts sample_urls (he_text (sample_entry t)) i st =
      add_hyp ''tenant_field'' ''tenant_id'' ''tenant-shaped response field; confirm isolation boundaries'' [i]
        (add_hyp ''candidate_owner'' [] ''credentialed successful capture; confirm its principal and ownership independently'' [i] st)"
    if "t = ''a'' \<or> t = ''b''" for t i st
    using that sample_facts_found(1) add_facts_tenant [OF _ sample_facts_found(2)] add_facts_tenant [OF _ sample_facts_found(3)]
    by (elim disjE) (simp_all add: list_all_iff)
  have tenant: "tenant_of sample_urls (he_text (sample_entry ''a'')) = ''a''" "tenant_of sample_urls (he_text (sample_entry ''b'')) = ''b''"
    using sample_facts_found(2,3) by (simp_all add: tenant_of_def)
  have sha: "gl_sha256 sample_urls = (\<lambda>s. s)" by (simp add: sample_urls_def sample_lib_def)
  have body: "entry_body sample_har (sample_entry t) = Some (he_text (sample_entry t))"
    "header_bytes (sample_entry t) = 13 + length t" for t
    by (simp_all add: entry_body_def header_bytes_def sample_entry_def)
  have step: "entry_step sample_urls sample_har (sample_origin []) ''GET'' ''/users/{id}'' st (i, sample_entry t) =
      correlate sample_urls (he_text (sample_entry t)) (auth_text (sample_entry t)) (i + 1) (st\<lparr>cs_analyzed := 31 + cs_analyzed st\<rparr>)"
    if "cs_analyzed st \<le> 31" "length t = 1" for st i t
    using that by (simp add: entry_step_def sample_entry_for body len auth sha Let_def max_response_bytes_def max_analyzed_def guard_err_def)
  have auths: "auth_text (sample_entry ''b'') \<noteq> auth_text (sample_entry ''a'')" by (simp add: auth)
  obtain acc where acc: "fold_res (candidate_step sample_urls sample_har (sample_origin []) [sample_entry ''a'', sample_entry ''b'']) (0, 0, [])
          (operations sample_spec) = Inr acc"
    "map (map hy_kind \<circ> ca_hypotheses) (snd (snd acc)) = [[''object_identifier'', ''permission'', ''candidate_owner'', ''tenant_field'',
          ''candidate_owner'', ''tenant_field'', ''identity_relationship'', ''cross_tenant'']]"
    unfolding ops
    by (simp add: candidate_step_def enum op_hypotheses_def params start_op_def step correlate_def facts tenant auths
      add_relation_def add_hyp_def max_hypotheses_def Let_def guard_err_def)
  have c: "candidates sample_urls sample_har sample_spec [] ''{}'' = Inr (snd (snd acc))"
  proof -
    have "parse_har sample_har ''{}'' = Inr [sample_entry ''a'', sample_entry ''b'']" by (simp add: parse_har_def sample_har_def)
    moreover have "capture_origin sample_urls ''{}'' sample_spec [] = Inr (sample_origin [])"
      by (simp add: capture_origin_def capture_base_def sample_spec_def sample_urls_def sample_origin_def)
    moreover have "fold_res check_entry 0 [sample_entry ''a'', sample_entry ''b''] = Inr 34"
      by (simp add: check_entry_def entry_limit_def len max_response_total_def guard_err_def)
        (simp add: sample_entry_def max_response_bytes_def)
    ultimately show ?thesis
      using acc(1) by (simp add: candidates_def max_har_bytes_def max_har_entries_def max_comparisons_def ops guard_err_def div_greater_zero_iff split: prod.split)
  qed
  have orig: "capture_origin sample_urls ''{}'' sample_spec [] = Inr (sample_origin [])"
    by (simp add: capture_origin_def capture_base_def sample_spec_def sample_urls_def sample_origin_def)
  from hypotheses_rest_on_captures [OF c] obtain es origin where r: "hyp_total (snd (snd acc)) \<le> 50000"
    "capture_origin sample_urls ''{}'' sample_spec [] = Inr origin"
    "list_all2 (candidate_rests sample_urls sample_har origin es) (operations sample_spec) (snd (snd acc))" by blast
  have "origin = sample_origin []" using r(2) orig by simp
  with r(3) have "list_all2 (candidate_rests sample_urls sample_har (sample_origin []) es) (operations sample_spec) (snd (snd acc))" by simp
  then show ?thesis by (intro exI [of _ "snd (snd acc)"] exI [of _ es] conjI c r(1) acc(2))
qed
section \<open>Drafts stay drafts\<close>

lemma set_from_spec: "d \<in> set (from_spec L s sample roles) \<longleftrightarrow> (\<exists>p m q. (p, m, q) \<in> set (operations s) \<and> path_params p \<noteq> []
    \<and> d = build_draft m p (path_params p) (if roles = [] then default_roles else roles)
        (if sample = [] then None else Some (analyze_sample L sample)))"
  by (force simp: from_spec_def Let_def set_map_filter_iff split: if_split_asm)

text \<open>A policy that keeps the decisions of a draft does not compile, for whatever identities.\<close>

lemma draft_never_compiles:
  assumes e: "po_expect p = map (\<lambda>r. (r, draft_marker)) roles" and "po_verify p = None"
  shows "compile_policy yb env p b \<noteq> Inr tc"
proof -
  have "to_decision draft_marker = Inl DraftDecision" by code_simp
  then have "compile_expected p rules ids \<noteq> Inr x" if "ids \<noteq> []" for rules ids x
    using that map_of_SomeD [of "po_expect p"] unfolding compile_expected_def
    by (cases ids) (fastforce simp: bind_res_eq_Inr amap_get_def e split: option.split_asm)+
  then show ?thesis using assms(2)
    by (auto simp: compile_policy_def bind_res_eq_Inr compile_verify_def)
qed

text \<open>
  Two operations can have drafts of one file name; the second write then replaces the first.
\<close>

lemma draft_names_collide:
  "draft_file ''GET'' ''/users/{user_id}'' = draft_file ''GET'' ''/users/userid''"
  "draft_file ''GET'' ''/orgs/{id}/users'' = draft_file ''GET'' ''/orgs/id/users''"
  by code_simp+

text \<open>And the key of a sample response that holds a line break puts a line of its own into the draft.\<close>

lemma sample_key_breaks_out:
  "''api2:'' \<in> set (split_on CHR 0x0A (draft_response [''owner''] (Some (analyze_sample sample_lib
     (''{\"x'' @ [CHR 0x5C] @ ''napi2:'' @ [CHR 0x5C] @ ''n\":{\"password\":1}}'')))))"
proof -
  have "List.member (split_on CHR 0x0A (draft_response [''owner''] (Some (analyze_sample sample_lib
     (''{\"x'' @ [CHR 0x5C] @ ''napi2:'' @ [CHR 0x5C] @ ''n\":{\"password\":1}}''))))) ''api2:''" by code_simp
  then show ?thesis by (simp add: List.member_iff)
qed

section \<open>What the commands write\<close>

lemma write_sinks_prefix: "\<exists>rest. sinks = snd (write_sinks ok sinks) @ rest \<and> (fst (write_sinks ok sinks) = Inr () \<longleftrightarrow> rest = [])"
  by (induction sinks) (auto split: prod.split)

text \<open>
  \<open>gen\<close> writes nothing before its flags, its documents and the capture are accepted, and what it then
  writes are the hypotheses, when asked for, before the cases: the operations of the document or the requests of the
  collection, one case each, every one of them prepared for review.
\<close>

lemma gen_writes_for_review:
  assumes "gen_test_cases E L ok f = (r, written)" "written \<noteq> []"
  shows "\<exists>tcs cs. gen_inputs E L f = Inr (tcs, cs) \<and> check_gen_flags E f = Inr ()
    \<and> (\<exists>rest. (if gf_hypotheses f \<noteq> [] then [HypothesesFile (gf_hypotheses f) cs] else [])
         @ [CaseFile (gf_out f) (map (to_wire \<circ> review_case) tcs)] = written @ rest)"
proof (cases "gen_outputs E L f")
  case (Inl e)
  then show ?thesis using assms by (simp add: gen_test_cases_def write_result_def)
next
  case (Inr sinks)
  then have "written = snd (write_sinks ok sinks)" using assms(1) by (simp add: gen_test_cases_def write_result_def)
  then obtain rest where rest: "sinks = written @ rest" using write_sinks_prefix by metis
  obtain tcs cs where g: "gen_inputs E L f = Inr (tcs, cs)" "check_gen_flags E f = Inr ()"
    "sinks = (if gf_hypotheses f \<noteq> [] then [HypothesesFile (gf_hypotheses f) cs] else [])
       @ [CaseFile (gf_out f) (map (to_wire \<circ> review_case) tcs)]"
    using Inr by (auto simp: gen_outputs_def bind_res_eq_Inr)
  show ?thesis using g(1,2) rest [unfolded g(3)] by (intro exI conjI)
qed

end
