(* ===== verification/WireDoc.thy ===== *)
theory WireDoc
  imports JobDoc Importers
begin

text \<open>
  The JSON forms with rules of their own: the credentials of \<open>internal/model\<close>, read with a value that is never
  written, the identity preflight that refuses unknown options, and the two forms of a URL of
  \<open>internal/postman\<close>. Names of members are matched in any case; a later member overwrites.
\<close>

section \<open>Credentials\<close>

definition cred_name :: "cred_type \<Rightarrow> string" where
  "cred_name t = (case t of Bearer \<Rightarrow> ''bearer'' | APIKeyHeader \<Rightarrow> ''api_key_header'' | StaticHeader \<Rightarrow> ''static_header''
     | OtherCredential w \<Rightarrow> w)"

definition cred_type_of :: "string \<Rightarrow> cred_type" where
  "cred_type_of w = (if w = ''bearer'' then Bearer else if w = ''api_key_header'' then APIKeyHeader
     else if w = ''static_header'' then StaticHeader else OtherCredential w)"

definition credential_field :: "string \<Rightarrow> json \<Rightarrow> credential \<Rightarrow> credential option" where
  "credential_field k v c =
     (if equal_fold k ''type'' then map_option (\<lambda>w. c\<lparr>cr_type := cred_type_of w\<rparr>) (set_string v (cred_name (cr_type c)))
      else if equal_fold k ''header'' then map_option (\<lambda>w. c\<lparr>cr_header := w\<rparr>) (set_string v (cr_header c))
      else if equal_fold k ''value'' then map_option (\<lambda>w. c\<lparr>cr_value := w\<rparr>) (set_string v (cr_value c))
      else Some c)"

definition unmarshal_credential :: "json \<Rightarrow> credential option" where
  "unmarshal_credential v = read_object credential_field v \<lparr>cr_type = cred_type_of [], cr_header = [], cr_value = []\<rparr>"

text \<open>The tags of the struct: the header is left out when empty, the value always.\<close>

definition credential_json :: "credential \<Rightarrow> json" where
  "credential_json c = JObj ((''type'', JStr (cred_name (cr_type c)))
     # (if cr_header c = [] then [] else [(''header'', JStr (cr_header c))]))"

section \<open>Identity preflights\<close>

definition set_int :: "json \<Rightarrow> int \<Rightarrow> int option" where
  "set_int v old = (case v of JNum w \<Rightarrow> atoi w | JNull \<Rightarrow> Some old | _ \<Rightarrow> None)"

fun read_strings :: "(string \<times> json) list \<Rightarrow> (string \<times> string) list \<Rightarrow> (string \<times> string) list option" where
  "read_strings [] m = Some m"
| "read_strings ((k, v) # ps) m = (case set_string v [] of None \<Rightarrow> None | Some w \<Rightarrow> read_strings ps (amap_put k w m))"

definition set_strings :: "json \<Rightarrow> (string \<times> string) list \<Rightarrow> (string \<times> string) list option" where
  "set_strings v old = (case v of JObj ps \<Rightarrow> read_strings ps old | JNull \<Rightarrow> Some [] | _ \<Rightarrow> None)"

definition preflight_field :: "string \<Rightarrow> json \<Rightarrow> identity_preflight \<Rightarrow> identity_preflight option" where
  "preflight_field k v p =
     (if equal_fold k ''url'' then map_option (\<lambda>w. p\<lparr>pf_url := w\<rparr>) (set_string v (pf_url p))
      else if equal_fold k ''expected_status'' then map_option (\<lambda>n. p\<lparr>pf_expected_status := n\<rparr>) (set_int v (pf_expected_status p))
      else if equal_fold k ''json_fields'' then map_option (\<lambda>m. p\<lparr>pf_json_fields := m\<rparr>) (set_strings v (pf_json_fields p))
      else None)"

definition unmarshal_preflight :: "json \<Rightarrow> identity_preflight option" where
  "unmarshal_preflight v = read_object preflight_field v \<lparr>pf_url = [], pf_expected_status = 0, pf_json_fields = []\<rparr>"

section \<open>URLs of a collection\<close>

definition raw_field :: "string \<Rightarrow> json \<Rightarrow> string \<Rightarrow> string option" where
  "raw_field k v w = (if equal_fold k ''raw'' then set_string v w else Some w)"

definition unmarshal_url :: "json \<Rightarrow> string option" where
  "unmarshal_url v = (case set_string v [] of Some w \<Rightarrow> Some w | None \<Rightarrow> read_object raw_field v [])"

section \<open>What reads back\<close>

lemma cred_name_of [simp]: "cred_name (cred_type_of w) = w"
  by (simp add: cred_type_of_def cred_name_def)

lemma credential_fields [simp]:
  "credential_field ''type'' (JStr w) c = Some (c\<lparr>cr_type := cred_type_of w\<rparr>)"
  "credential_field ''header'' (JStr w) c = Some (c\<lparr>cr_header := w\<rparr>)"
  "credential_field ''value'' (JStr w) c = Some (c\<lparr>cr_value := w\<rparr>)"
proof -
  have "equal_fold ''type'' ''type''" "\<not> equal_fold ''header'' ''type''" "equal_fold ''header'' ''header''"
    "\<not> equal_fold ''value'' ''type''" "\<not> equal_fold ''value'' ''header''" "equal_fold ''value'' ''value''" by code_simp+
  then show "credential_field ''type'' (JStr w) c = Some (c\<lparr>cr_type := cred_type_of w\<rparr>)"
    "credential_field ''header'' (JStr w) c = Some (c\<lparr>cr_header := w\<rparr>)"
    "credential_field ''value'' (JStr w) c = Some (c\<lparr>cr_value := w\<rparr>)"
    by (simp_all add: credential_field_def set_string_def)
qed

text \<open>
  A credential that is written and read again has lost its value and nothing else, and what is written says nothing of
  the value.
\<close>

lemma credential_without_value:
  assumes "cred_type_of (cred_name (cr_type c)) = cr_type c"
  shows "unmarshal_credential (credential_json c) = Some (c\<lparr>cr_value := []\<rparr>)"
    and "credential_json (c\<lparr>cr_value := v\<rparr>) = credential_json c"
  using assms by (auto simp: unmarshal_credential_def credential_json_def read_object_def)

text \<open>With a value in the document it is read, wherever it stands.\<close>

lemma credential_reads_value:
  "unmarshal_credential (JObj [(''value'', JStr v), (''type'', JStr ''bearer'')]) = Some \<lparr>cr_type = Bearer, cr_header = [], cr_value = v\<rparr>"
  by (simp add: unmarshal_credential_def read_object_def cred_type_of_def)

text \<open>A preflight with a misspelled option is refused as a whole.\<close>

lemma preflight_options_are_known:
  assumes "unmarshal_preflight (JObj ps) = Some p" "(k, v) \<in> set ps"
  shows "equal_fold k ''url'' \<or> equal_fold k ''expected_status'' \<or> equal_fold k ''json_fields''"
proof -
  have "(k, v) \<in> set ps \<Longrightarrow> read_members preflight_field ps x = Some p \<Longrightarrow>
      equal_fold k ''url'' \<or> equal_fold k ''expected_status'' \<or> equal_fold k ''json_fields''" for x
    by (induction ps arbitrary: x) (auto simp: preflight_field_def split: option.split_asm if_split_asm)
  then show ?thesis using assms by (simp add: unmarshal_preflight_def read_object_def)
qed

lemma url_forms: "unmarshal_url (JStr w) = Some w" "unmarshal_url (JObj [(''raw'', JStr w)]) = Some w"
proof -
  have "equal_fold ''raw'' ''raw''" by code_simp
  then show "unmarshal_url (JStr w) = Some w" "unmarshal_url (JObj [(''raw'', JStr w)]) = Some w"
    by (simp_all add: unmarshal_url_def set_string_def read_object_def raw_field_def)
qed

end
