(* ===== verification/Spec2Isabelle.thy ===== *)
theory Spec2Isabelle
  imports Prelude GoStrings GoJson GoValue GoNum GoQuery JsonText Model Compare
    Assertions Executor Setup Preflight Verify Findings Engine Runs Budget
    UrlCheck RequestGuard SecretRef Client Guarded Policy Store Api
    JsonRepair JsonValid GoTime JobDoc Sqlite Report Suite Regression Cli Serve Importers Discover WireDoc
begin

text \<open>
  VardrGate replays one HTTP request as several identities and judges whether each was given
  the access it should have. A test case names the identities with their credentials, the request,
  the access expected for each identity and the rules by which a response counts as allowed or
  denied. The engine runs setup steps, checks that the identities really are who they claim to be,
  sends the request as each identity, classifies what came back, and reports a finding wherever the
  assessment contradicts the expectation. Around it are the client that sends the requests behind an
  address check and an optional guard of approved requests, the policies and suites that test
  cases are compiled from, a server with a queue of jobs for remote runners, the reports,
  the commands with their exit codes, and the importers that draft cases from documents and traffic.

  \<^bold>\<open>Ground.\<close>
  \<open>Prelude\<close> has the error-or-value results of fallible functions (\<open>'e + 'a\<close>, \<open>Inl\<close> the
  error), the loops that stop at an error and the association lists that stand for maps.
  \<open>GoStrings\<close>, \<open>GoNum\<close>, \<open>GoQuery\<close>, \<open>GoTime\<close>, \<open>GoJson\<close>, \<open>GoValue\<close>, \<open>JsonText\<close>, \<open>JsonRepair\<close> and \<open>JsonValid\<close>
  are what the program uses of Go's standard library on byte strings: searching, splitting, trimming,
  decimal text, query strings, RFC 3339 times, UTF-8 and JSON with its lexer, parser, decoded
  values and writer. Their lemmas are the round trips the components rest on, and what a parsed document can hold. Letter case is that of
  ASCII: the folding of other letters by \<open>EqualFold\<close> and \<open>ToLower\<close> is not modelled.

  \<^bold>\<open>The engine\<close> (\<open>internal/model\<close>, \<open>internal/compare\<close>, \<open>internal/engine\<close>).
  \<open>Model\<close> has the types of \<open>model.go\<close> as records and datatypes (\<open>WireDoc\<close> the JSON forms with rules of their own), and the record \<open>golib\<close> of the
  library results taken as given. \<open>Compare\<close> is \<open>compare.go\<close>: the value-free profile of a response, the
  scan for sensitive fields, the lookup of fields, the deny conditions. \<open>Assertions\<close> is the strict decoding of
  JSON, the normal form of numbers, JSON pointers and the assessment by assertions. \<open>Executor\<close> is the
  interface to the network: a locale with its laws. \<open>Setup\<close>, \<open>Preflight\<close> and \<open>Verify\<close> are \<open>setup.go\<close>,
  \<open>preflight.go\<close> and \<open>verify.go\<close>; \<open>Findings\<close> and \<open>Engine\<close> are \<open>engine.go\<close>, with \<open>Run\<close> as \<open>run\<close>, a
  function from the state of the world to a result and the next state. \<open>Runs\<close> follows a whole run
  over an executor that keeps a log and shows what its report means: every identity is accounted for,
  a finding is there exactly when an assessment contradicts an expectation, a denial never comes from a rejected
  credential, nothing is sent after a failed preflight, unsafe methods need consent. \<open>Budget\<close> bounds the
  requests of a run by the test case. \<open>Verify\<close> shows that a verified write is sent only from a baseline that was read
  twice, and that a verified verdict rests on reads before and after the write.

  \<^bold>\<open>The way to the network\<close> (\<open>internal/client\<close>, \<open>internal/urlcheck\<close>, \<open>internal/requestguard\<close>,
  \<open>internal/secretref\<close>).
  \<open>UrlCheck\<close> classifies the bytes of an address as words of eight bits and shows which IPv4 addresses
  the check admits, as ranges of integers. \<open>RequestGuard\<close> parses a plan and counts what it has allowed, and
  the budget holds over any sequence of requests. \<open>Client\<close> builds, guards, sends and reads a request
  and is an interpretation of the locale of executors; \<open>Guarded\<close> carries properties of single calls to complete
  runs, again as a locale interpreted on the client. \<open>SecretRef\<close> expands references to the environment and shows
  that a secret cannot break out of a JSON body, whatever its bytes.

  \<^bold>\<open>Authoring\<close> (\<open>internal/policy\<close>, \<open>internal/suite\<close>, \<open>internal/openapi\<close>, \<open>internal/postman\<close>,
  \<open>internal/scaffold\<close>, \<open>internal/coverage\<close>, \<open>internal/discover\<close>).
  \<open>Policy\<close> validates and compiles policies with denial profiles and bound identities; a compiled case says what the
  policy says. \<open>Suite\<close> compiles many of them. \<open>Importers\<close> makes starter cases of documents and shows that what is
  written waits for a reviewer, and what coverage means. \<open>Discover\<close> drafts policies byte for byte and
  correlates captured traffic within its budgets; every hypothesis rests on captures that support it.

  \<^bold>\<open>The queue and the server\<close> (\<open>internal/store\<close>, \<open>internal/api\<close>, \<open>cmd/vardrgate/serve.go\<close>).
  \<open>Store\<close> states the interface of the job store as a locale with its contract, a step relation of
  queue operations with its invariants, and interprets it on the in-memory store; \<open>JobDoc\<close> is the JSON a job is kept
  as, and \<open>Sqlite\<close> the durable store over the statements of a database (a locale with the meaning SQL
  gives them), a sublocale of the store's contract and, for data a JSON document keeps, a refinement of the in-memory store;
  what becomes of other data is stated too. \<open>Api\<close> has every
  handler over any store and shows that tenants are isolated; \<open>Serve\<close> is what the server takes from the environment.

  \<^bold>\<open>Results\<close> (\<open>internal/report\<close>, \<open>internal/job\<close>, \<open>cmd/vardrgate\<close>).
  \<open>Report\<close> renders results as text, Markdown and SARIF; \<open>Regression\<close> saves a finding as a test with every check before
  it; \<open>Cli\<close> has the commands from the parsed flags to the exit code, with everything they send and write.

  \<^bold>\<open>Bounds and termination.\<close>
  Every function of the model is total and no fuel is used: loops over text (placeholders, references, escapes,
  parameters) end because what is left gets shorter, walks over JSON because the values get smaller.
  Integers are mathematical where the code cannot overflow (counters below fixed budgets, statuses, lengths) and written with
  their wrap-around where it can: durations of 64 bits in \<open>Cli\<close>, bytes of addresses in \<open>UrlCheck\<close>. The budgets of the
  code (profile fields, nesting, sizes of bodies and captures) are those of the source.

  \<^bold>\<open>Parameters.\<close>
  \<open>url.Parse\<close> and the escaped path, \<open>net.ParseIP\<close>, the resolver, \<open>http.Client.Do\<close>, SHA-256, base64, the shortest text of
  a float, the clock, random identifiers, the environment, files and the success of a write, the YAML and typed
  JSON decoders, multipart forms and the statements of the database are arguments. Where a property needs to know something
  of them it is a hypothesis, and its witness has an instance.

  \<^bold>\<open>Not modelled.\<close>
  The typed decoding of whole documents apart from jobs, runners, credentials, preflights and URLs (inputs are decoded values),
  \<open>LoadIdentities\<close> and other plain reading of files, flag parsing and usage texts, the dispatch of subcommands, log lines, the summary of
  \<open>discover\<close> on standard error, the texts of findings and of most errors (kept as what they are made from), the HTTP
  listener with its signals, the opening of the database, locks (every operation of a store is one step, as its mutex or transaction
  makes it), request durations, the demonstration server of \<open>internal/demo\<close> and the benchmark harness
  \<open>cmd/authbench\<close>. Iteration over a Go map is in the order of the association list; where the code sorts, the
  order is the sorted one.
\<close>

end
